(* ===== verification/Prelude.thy ===== *)
theory Prelude
  imports Main "HOL-Library.Word"
begin

text \<open>
  Shared vocabulary of the development: the scalar types of the i386 configuration
  (\<^verbatim>\<open>conf/i386/config.pc\<close>: 32-bit words, 4096-byte pages, the kernel mapped at
  \<^verbatim>\<open>0x80000000\<close>), the error numbers of \<^verbatim>\<open>include/sys/errno.h\<close>, the collections of
  simplification rules the component theories extend, and the list and word lemmas
  that more than one component uses.
\<close>

unbundle bit_operations_syntax

named_theorems kproj \<open>what an operation leaves of a field of the kernel state\<close>
named_theorems flag_simps \<open>tests of bit flags after flags are set or cleared\<close>

section \<open>Scalars\<close>

type_synonym u32 = "32 word"
type_synonym vaddr = nat
type_synonym tid = nat
type_synonym task_t = nat
type_synonym errno = int

definition PAGE_SIZE :: nat where "PAGE_SIZE = 4096"

definition PAGE_OFFSET :: nat where "PAGE_OFFSET = 0x80000000"

definition UMEM_MAX :: nat where "UMEM_MAX = 0x80000000"

definition kern_area :: "vaddr \<Rightarrow> bool" where
  "kern_area a = (PAGE_OFFSET \<le> a)"

definition user_area :: "vaddr \<Rightarrow> bool" where
  "user_area a = (a < UMEM_MAX)"

definition EPERM :: errno where "EPERM = 1"
definition ENOENT :: errno where "ENOENT = 2"
definition ESRCH :: errno where "ESRCH = 3"
definition EINTR :: errno where "EINTR = 4"
definition EIO :: errno where "EIO = 5"
definition ENXIO :: errno where "ENXIO = 6"
definition EBADF :: errno where "EBADF = 9"
definition ECHILD :: errno where "ECHILD = 10"
definition EDEADLK :: errno where "EDEADLK = 11"
definition ENOMEM :: errno where "ENOMEM = 12"
definition EACCES :: errno where "EACCES = 13"
definition EFAULT :: errno where "EFAULT = 14"
definition EBUSY :: errno where "EBUSY = 16"
definition EEXIST :: errno where "EEXIST = 17"
definition ENODEV :: errno where "ENODEV = 19"
definition EINVAL :: errno where "EINVAL = 22"
definition EMFILE :: errno where "EMFILE = 24"
definition ENOSPC :: errno where "ENOSPC = 28"
definition ERANGE :: errno where "ERANGE = 34"
definition EAGAIN :: errno where "EAGAIN = 35"
definition ETIMEDOUT :: errno where "ETIMEDOUT = 60"
definition ENAMETOOLONG :: errno where "ENAMETOOLONG = 63"

lemmas errno_defs = EPERM_def ENOENT_def ESRCH_def EINTR_def EIO_def ENXIO_def EBADF_def
  ECHILD_def EDEADLK_def ENOMEM_def EACCES_def EFAULT_def EBUSY_def EEXIST_def ENODEV_def EINVAL_def
  EMFILE_def ENOSPC_def ERANGE_def EAGAIN_def ETIMEDOUT_def ENAMETOOLONG_def

section \<open>Lists\<close>

lemma set_remove1_distinct [simp]:
  "distinct xs \<Longrightarrow> set (remove1 x xs) = set xs - {x}"
  by (induction xs) auto

lemma remove1_middle [simp]:
  "x \<notin> set xs \<Longrightarrow> remove1 x (xs @ x # ys) = xs @ ys"
  by (induction xs) auto

lemma remove1_hd: "xs \<noteq> [] \<Longrightarrow> remove1 (hd xs) xs = tl xs"
  by (cases xs) auto

end
