(* ===== verification/Pages.thy ===== *)
theory Pages
  imports Prelude
begin

text \<open>
  The physical page allocators \<^verbatim>\<open>sys/mem/page.c\<close> (pages of user memory) and
  \<^verbatim>\<open>sys/mem/kpage.c\<close> (pages of kernel memory, the same algorithm on its own list). The
  circular list of free blocks that starts at \<open>page_head\<close> is the list of its
  (address, size) pairs in link order. The specification is the set of free bytes:
  \<open>free_bytes\<close> abstracts a block list, and each operation is shown to add or remove
  exactly the bytes it should while the list stays sorted and fully coalesced.
\<close>

section \<open>Model\<close>

type_synonym blk = "nat \<times> nat"

record page_pool =
  pages_free :: "blk list"
  total_size :: nat
  bootdisk_size :: nat

definition PAGE_ALIGN :: "nat \<Rightarrow> nat" where
  "PAGE_ALIGN n = ((n + (PAGE_SIZE - 1)) mod 2 ^ 32) div PAGE_SIZE * PAGE_SIZE"

definition PAGE_TRUNC :: "nat \<Rightarrow> nat" where
  "PAGE_TRUNC n = (n mod 2 ^ 32) div PAGE_SIZE * PAGE_SIZE"

definition phys_to_virt :: "nat \<Rightarrow> nat" where
  "phys_to_virt pa = (pa + PAGE_OFFSET) mod 2 ^ 32"

definition virt_to_phys :: "nat \<Rightarrow> nat" where
  "virt_to_phys va = (va + (2 ^ 32 - PAGE_OFFSET)) mod 2 ^ 32"

text \<open>The first block that is large enough; its head is used, the rest stays in the list.\<close>

fun blk_alloc :: "nat \<Rightarrow> blk list \<Rightarrow> (nat \<times> blk list) option" where
  "blk_alloc sz [] = None"
| "blk_alloc sz ((a, s) # bs) =
     (if s < sz then map_option (\<lambda>(r, bs'). (r, (a, s) # bs')) (blk_alloc sz bs)
      else if s = sz then Some (a, bs)
      else Some (a, (a + sz, s - sz) # bs))"

definition page_alloc :: "nat \<Rightarrow> page_pool \<Rightarrow> nat option \<times> page_pool" where
  "page_alloc sz0 p =
     (let sz = PAGE_ALIGN sz0 in
      case blk_alloc sz (pages_free p) of
        None \<Rightarrow> (None, p)
      | Some (blk, bs) \<Rightarrow> (Some (virt_to_phys blk), p\<lparr>pages_free := bs\<rparr>))"

text \<open>
  The block goes before the first block with a higher or equal address, and is joined
  with its successor and its predecessor when they touch.
\<close>

definition join_next :: "nat \<Rightarrow> nat \<Rightarrow> blk list \<Rightarrow> blk list" where
  "join_next blk sz after =
     (case after of
        [] \<Rightarrow> [(blk, sz)]
      | (na, ns) # rest \<Rightarrow> if blk + sz = na then (blk, sz + ns) # rest else (blk, sz) # after)"

definition join_prev :: "blk list \<Rightarrow> blk list \<Rightarrow> blk list" where
  "join_prev before blks =
     (case blks of
        [] \<Rightarrow> before
      | (blk, sz) # rest \<Rightarrow>
          if before \<noteq> [] \<and> fst (last before) + snd (last before) = blk
          then butlast before @ (fst (last before), snd (last before) + sz) # rest
          else before @ blks)"

definition blk_free :: "nat \<Rightarrow> nat \<Rightarrow> blk list \<Rightarrow> blk list" where
  "blk_free blk sz bs =
     join_prev (takeWhile (\<lambda>b. fst b < blk) bs)
       (join_next blk sz (dropWhile (\<lambda>b. fst b < blk) bs))"

definition page_free :: "nat \<Rightarrow> nat \<Rightarrow> page_pool \<Rightarrow> page_pool" where
  "page_free addr sz p =
     p\<lparr>pages_free := blk_free (phys_to_virt addr) (PAGE_ALIGN sz) (pages_free p)\<rparr>"

text \<open>\<open>None\<close> is the panic of \<^verbatim>\<open>page_reserve\<close> when no block holds the range.\<close>

fun blk_reserve :: "nat \<Rightarrow> nat \<Rightarrow> blk list \<Rightarrow> blk list option" where
  "blk_reserve addr e [] = None"
| "blk_reserve addr e ((a, s) # bs) =
     (if a \<le> addr \<and> e \<le> a + s then
        (if a = addr \<and> s = e - addr then Some bs
         else let upper = (if a + s \<noteq> e then [(e, a + s - e)] else [])
              in if a = addr then Some (upper @ bs)
                 else Some ((a, addr - a) # upper @ bs))
      else map_option (Cons (a, s)) (blk_reserve addr e bs))"

definition page_reserve :: "nat \<Rightarrow> nat \<Rightarrow> page_pool \<Rightarrow> page_pool option" where
  "page_reserve addr0 sz p =
     (if sz = 0 then Some p
      else let addr = phys_to_virt addr0;
               e = PAGE_ALIGN (addr + sz);
               addr' = PAGE_TRUNC addr
           in map_option (\<lambda>bs. p\<lparr>pages_free := bs\<rparr>) (blk_reserve addr' e (pages_free p)))"

definition page_info :: "page_pool \<Rightarrow> nat \<times> nat \<times> nat" where
  "page_info p = (total_size p, sum_list (map snd (pages_free p)), bootdisk_size p)"

text \<open>
  Boot: \<^verbatim>\<open>bootinfo\<close> lists the memory of the machine. \<^verbatim>\<open>page_init\<close> frees the usable
  ranges and then reserves the rest; a range that is not free panics. The totals are
  \<^verbatim>\<open>size_t\<close> arithmetic, modulo \<open>2 ^ 32\<close>.
\<close>

datatype mtype = MT_USABLE | MT_MEMHOLE | MT_RESERVED | MT_BOOTDISK | MT_KPAGE

record physmem =
  base :: nat
  rsize :: nat
  rtype :: mtype

definition empty_pool :: page_pool where
  "empty_pool = \<lparr>pages_free = [], total_size = 0, bootdisk_size = 0\<rparr>"

definition size_sub :: "nat \<Rightarrow> nat \<Rightarrow> nat" where
  "size_sub a b = (a + (2 ^ 32 - b mod 2 ^ 32)) mod 2 ^ 32"

fun page_init_usable :: "physmem list \<Rightarrow> page_pool \<Rightarrow> page_pool" where
  "page_init_usable [] p = p"
| "page_init_usable (r # rs) p =
     page_init_usable rs
       (if rtype r = MT_USABLE
        then (page_free (base r) (rsize r) p)
               \<lparr>total_size := (total_size p + rsize r) mod 2 ^ 32\<rparr>
        else p)"

definition page_init_one :: "physmem \<Rightarrow> page_pool \<Rightarrow> page_pool option" where
  "page_init_one r p =
     (case rtype r of
        MT_BOOTDISK \<Rightarrow>
          page_reserve (base r) (rsize r)
            (p\<lparr>bootdisk_size := rsize r, total_size := size_sub (total_size p) (rsize r)\<rparr>)
      | MT_MEMHOLE \<Rightarrow>
          page_reserve (base r) (rsize r) (p\<lparr>total_size := size_sub (total_size p) (rsize r)\<rparr>)
      | MT_RESERVED \<Rightarrow> page_reserve (base r) (rsize r) p
      | _ \<Rightarrow> Some p)"

fun page_init_reserve :: "physmem list \<Rightarrow> page_pool \<Rightarrow> page_pool option" where
  "page_init_reserve [] p = Some p"
| "page_init_reserve (r # rs) p =
     (case page_init_one r p of None \<Rightarrow> None | Some p' \<Rightarrow> page_init_reserve rs p')"

definition page_init :: "physmem list \<Rightarrow> page_pool option" where
  "page_init rams = page_init_reserve rams (page_init_usable rams empty_pool)"

subsection \<open>The kernel page allocator\<close>

definition kpage_alloc :: "nat \<Rightarrow> page_pool \<Rightarrow> nat option \<times> page_pool" where
  "kpage_alloc sz0 p =
     (let sz = PAGE_ALIGN sz0 in
      case blk_alloc sz (pages_free p) of
        None \<Rightarrow> (None, p)
      | Some (blk, bs) \<Rightarrow> (Some (virt_to_phys blk), p\<lparr>pages_free := bs\<rparr>))"

definition kpage_free :: "nat \<Rightarrow> nat \<Rightarrow> page_pool \<Rightarrow> page_pool" where
  "kpage_free addr sz p =
     p\<lparr>pages_free := blk_free (phys_to_virt addr) (PAGE_ALIGN sz) (pages_free p)\<rparr>"

definition kpage_info :: "page_pool \<Rightarrow> nat \<times> nat" where
  "kpage_info p = (total_size p, sum_list (map snd (pages_free p)))"

fun kpage_init_from :: "physmem list \<Rightarrow> page_pool \<Rightarrow> page_pool" where
  "kpage_init_from [] p = p"
| "kpage_init_from (r # rs) p =
     kpage_init_from rs
       (if rtype r = MT_KPAGE
        then (kpage_free (base r) (rsize r) p)
               \<lparr>total_size := (total_size p + rsize r) mod 2 ^ 32\<rparr>
        else p)"

definition kpage_init :: "physmem list \<Rightarrow> page_pool" where
  "kpage_init rams = kpage_init_from rams empty_pool"

section \<open>Specification: the set of free bytes\<close>

definition free_bytes :: "blk list \<Rightarrow> nat set" where
  "free_bytes bs = (\<Union>(a, s) \<in> set bs. {a ..< a + s})"

text \<open>Sorted by address, no empty block, and no two blocks that touch.\<close>

definition blks_ok :: "blk list \<Rightarrow> bool" where
  "blks_ok bs =
     (sorted_wrt (\<lambda>b c. fst b + snd b < fst c) bs \<and> (\<forall>b \<in> set bs. 0 < snd b))"

lemma free_bytes_simps [simp]:
  "free_bytes [] = {}"
  "free_bytes ((a, s) # bs) = {a ..< a + s} \<union> free_bytes bs"
  "free_bytes (bs @ cs) = free_bytes bs \<union> free_bytes cs"
  by (auto simp: free_bytes_def)

lemma blks_ok_Nil [simp]: "blks_ok []"
  by (simp add: blks_ok_def)

lemma blks_ok_Cons [simp]:
  "blks_ok ((a, s) # bs) = (0 < s \<and> (\<forall>c \<in> set bs. a + s < fst c) \<and> blks_ok bs)"
  by (auto simp: blks_ok_def)

lemma blks_ok_append:
  "blks_ok (bs @ cs) =
     (blks_ok bs \<and> blks_ok cs \<and> (\<forall>b \<in> set bs. \<forall>c \<in> set cs. fst b + snd b < fst c))"
  by (auto simp: blks_ok_def sorted_wrt_append)

lemma free_bytes_above: "(\<forall>c \<in> set bs. l < fst c) \<Longrightarrow> x \<in> free_bytes bs \<Longrightarrow> l < x"
  by (fastforce simp: free_bytes_def)

lemma sum_sizes_card:
  "blks_ok bs \<Longrightarrow> sum_list (map snd bs) = card (free_bytes bs) \<and> finite (free_bytes bs)"
proof (induction bs)
  case (Cons b bs)
  obtain a s where b: "b = (a, s)" by (cases b)
  have "{a ..< a + s} \<inter> free_bytes bs = {}"
    using Cons.prems b free_bytes_above [of bs "a + s"] by fastforce
  with Cons b show ?case by (simp add: card_Un_disjoint)
qed simp

section \<open>Allocation\<close>

lemma blk_alloc_None: "blk_alloc sz bs = None \<longleftrightarrow> (\<forall>b \<in> set bs. snd b < sz)"
  by (induction sz bs rule: blk_alloc.induct) auto

lemma blk_alloc_starts:
  "blk_alloc sz bs = Some (r, bs') \<Longrightarrow> \<forall>c \<in> set bs. l < fst c \<Longrightarrow> \<forall>c \<in> set bs'. l < fst c"
  by (induction sz bs arbitrary: r bs' rule: blk_alloc.induct) (fastforce split: if_splits)+

lemma blk_alloc_fits:
  "blk_alloc sz bs = Some (r, bs') \<Longrightarrow> \<exists>s. (r, s) \<in> set bs \<and> sz \<le> s"
  by (induction sz bs arbitrary: r bs' rule: blk_alloc.induct) (fastforce split: if_splits)+

lemma blk_alloc_ok:
  "blk_alloc sz bs = Some (r, bs') \<Longrightarrow> blks_ok bs \<Longrightarrow> blks_ok bs'"
  by (induction sz bs arbitrary: r bs' rule: blk_alloc.induct)
    (fastforce split: if_splits dest: blk_alloc_starts)+

lemma blk_alloc_bytes:
  "blk_alloc sz bs = Some (r, bs') \<Longrightarrow> blks_ok bs \<Longrightarrow>
   {r ..< r + sz} \<subseteq> free_bytes bs \<and> free_bytes bs' = free_bytes bs - {r ..< r + sz}"
proof (induction sz bs arbitrary: r bs' rule: blk_alloc.induct)
  case (2 sz a s bs)
  have above: "\<forall>x \<in> free_bytes bs. a + s < x"
    using 2 free_bytes_above [of bs "a + s"] by auto
  show ?case
  proof (cases "s < sz")
    case True
    then obtain bs2 where bs2: "blk_alloc sz bs = Some (r, bs2)" "bs' = (a, s) # bs2"
      using 2 by auto
    with True 2 have IH: "{r ..< r + sz} \<subseteq> free_bytes bs"
        "free_bytes bs2 = free_bytes bs - {r ..< r + sz}"
      by auto
    then have "{a ..< a + s} \<inter> {r ..< r + sz} = {}" using above by fastforce
    with IH bs2 show ?thesis by auto
  next
    case False
    then show ?thesis using 2 above by (fastforce split: if_splits)
  qed
qed simp

section \<open>Release\<close>

lemma join_next_ok:
  assumes "blks_ok after" and "0 < sz" and "\<forall>c \<in> set after. blk + sz \<le> fst c"
  shows "blks_ok (join_next blk sz after)"
    and "free_bytes (join_next blk sz after) = {blk ..< blk + sz} \<union> free_bytes after"
    and "\<exists>s rest. join_next blk sz after = (blk, s) # rest \<and>
      (\<forall>c \<in> set rest. c \<in> set after) \<and> sz \<le> s"
proof -
  show "blks_ok (join_next blk sz after)"
    using assms by (cases after) (fastforce simp: join_next_def)+
  show "free_bytes (join_next blk sz after) = {blk ..< blk + sz} \<union> free_bytes after"
    using assms by (cases after) (auto simp: join_next_def split: if_splits)
  show "\<exists>s rest. join_next blk sz after = (blk, s) # rest \<and> (\<forall>c \<in> set rest. c \<in> set after) \<and> sz \<le> s"
    by (cases after) (auto simp: join_next_def)
qed

lemma join_prev_ok:
  assumes "blks_ok before" and "blks_ok ((blk, s) # rest)" and "\<forall>b \<in> set before. fst b + snd b \<le> blk"
  shows "blks_ok (join_prev before ((blk, s) # rest))"
    and "free_bytes (join_prev before ((blk, s) # rest)) = free_bytes before \<union> free_bytes ((blk, s) # rest)"
proof -
  have "blks_ok (join_prev before ((blk, s) # rest)) \<and>
    free_bytes (join_prev before ((blk, s) # rest)) = free_bytes before \<union> free_bytes ((blk, s) # rest)"
  proof (cases before rule: rev_cases)
    case Nil
    then show ?thesis using assms by (simp add: join_prev_def)
  next
    case (snoc bs b)
    obtain a t where b: "b = (a, t)" by (cases b)
    have bs: "\<forall>c \<in> set bs. fst c + snd c < a" "blks_ok bs" "0 < t" "a + t \<le> blk"
      using assms snoc b by (auto simp: blks_ok_append)
    show ?thesis
    proof (cases "a + t = blk")
      case True
      then have "join_prev before ((blk, s) # rest) = bs @ (a, t + s) # rest"
        using snoc b by (simp add: join_prev_def)
      then show ?thesis using assms snoc b bs True by (fastforce simp: blks_ok_append)
    next
      case False
      then have *: "join_prev before ((blk, s) # rest) = before @ (blk, s) # rest"
        using snoc b by (simp add: join_prev_def)
      have "\<forall>c \<in> set before. fst c + snd c < blk"
        using bs False snoc b by auto
      then show ?thesis
        unfolding * using assms by (fastforce simp: blks_ok_append)
    qed
  qed
  then show "blks_ok (join_prev before ((blk, s) # rest))"
    and "free_bytes (join_prev before ((blk, s) # rest)) = free_bytes before \<union> free_bytes ((blk, s) # rest)"
    by auto
qed

lemma blk_free_split:
  assumes ok: "blks_ok bs" and sz: "0 < sz" and disj: "{blk ..< blk + sz} \<inter> free_bytes bs = {}"
  shows "\<forall>b \<in> set (takeWhile (\<lambda>b. fst b < blk) bs). fst b + snd b \<le> blk"
    and "\<forall>c \<in> set (dropWhile (\<lambda>b. fst b < blk) bs). blk + sz \<le> fst c"
proof -
  show "\<forall>b \<in> set (takeWhile (\<lambda>b. fst b < blk) bs). fst b + snd b \<le> blk"
  proof
    fix b
    assume "b \<in> set (takeWhile (\<lambda>b. fst b < blk) bs)"
    then have "b \<in> set bs" "fst b < blk" by (auto dest: set_takeWhileD)
    moreover have "blk \<notin> free_bytes bs" using disj sz by (simp add: disjoint_iff)
    ultimately show "fst b + snd b \<le> blk" by (force simp: free_bytes_def)
  qed
  show "\<forall>c \<in> set (dropWhile (\<lambda>b. fst b < blk) bs). blk + sz \<le> fst c"
  proof (cases "dropWhile (\<lambda>b. fst b < blk) bs")
    case Nil
    show ?thesis unfolding Nil by simp
  next
    case (Cons c cs)
    then have c: "c \<in> set bs" "blk \<le> fst c"
      by (metis dropWhile_eq_Cons_conv in_set_conv_decomp, metis dropWhile_eq_Cons_conv linorder_not_less)
    then have "fst c \<in> free_bytes bs"
      using ok by (fastforce simp: free_bytes_def blks_ok_def)
    with disj c have "blk + sz \<le> fst c" by (meson disjoint_iff atLeastLessThan_iff not_le)
    moreover have "blks_ok (c # cs)"
      using ok Cons by (metis blks_ok_append takeWhile_dropWhile_id)
    ultimately show ?thesis
      using Cons by (cases c) fastforce
  qed
qed

lemma blk_free_ok:
  assumes ok: "blks_ok bs" and sz: "0 < sz" and disj: "{blk ..< blk + sz} \<inter> free_bytes bs = {}"
  shows "blks_ok (blk_free blk sz bs)"
    and "free_bytes (blk_free blk sz bs) = free_bytes bs \<union> {blk ..< blk + sz}"
proof -
  let ?before = "takeWhile (\<lambda>b. fst b < blk) bs" and ?after = "dropWhile (\<lambda>b. fst b < blk) bs"
  have parts: "blks_ok ?before" "blks_ok ?after"
    using ok blks_ok_append [of ?before ?after] by simp_all
  note split = blk_free_split [OF ok sz disj]
  note next_ok = join_next_ok [OF parts(2) sz split(2)]
  from next_ok(3) obtain s rest where j: "join_next blk sz ?after = (blk, s) # rest" by blast
  have b: "free_bytes bs = free_bytes ?before \<union> free_bytes ?after"
    by (metis free_bytes_simps(3) takeWhile_dropWhile_id)
  show "blks_ok (blk_free blk sz bs)"
    using join_prev_ok(1) [OF parts(1) _ split(1)] next_ok(1) j by (simp add: blk_free_def)
  show "free_bytes (blk_free blk sz bs) = free_bytes bs \<union> {blk ..< blk + sz}"
    using join_prev_ok(2) [OF parts(1) _ split(1)] next_ok j b by (auto simp: blk_free_def)
qed

section \<open>Reservation\<close>

lemma blk_reserve_starts:
  "blk_reserve addr e bs = Some bs' \<Longrightarrow> addr < e \<Longrightarrow> \<forall>c \<in> set bs. l < fst c \<Longrightarrow> \<forall>c \<in> set bs'. l < fst c"
  by (induction addr e bs arbitrary: bs' rule: blk_reserve.induct)
    (fastforce simp: Let_def split: if_splits)+

lemma blk_reserve_ok:
  "blk_reserve addr e bs = Some bs' \<Longrightarrow> blks_ok bs \<Longrightarrow> addr < e \<Longrightarrow> blks_ok bs'"
proof (induction addr e bs arbitrary: bs' rule: blk_reserve.induct)
  case (2 addr e a s bs)
  show ?case
  proof (cases "a \<le> addr \<and> e \<le> a + s")
    case True
    then show ?thesis using 2 by (fastforce simp: Let_def blks_ok_append split: if_splits)
  next
    case False
    then show ?thesis using 2 blk_reserve_starts [of addr e bs _ "a + s"] by auto
  qed
qed simp

lemma blk_reserve_bytes:
  "blk_reserve addr e bs = Some bs' \<Longrightarrow> blks_ok bs \<Longrightarrow> addr < e \<Longrightarrow>
   {addr ..< e} \<subseteq> free_bytes bs \<and> free_bytes bs' = free_bytes bs - {addr ..< e}"
proof (induction addr e bs arbitrary: bs' rule: blk_reserve.induct)
  case (2 addr e a s bs)
  have above: "\<forall>x \<in> free_bytes bs. a + s < x"
    using 2 free_bytes_above [of bs "a + s"] by auto
  show ?case
  proof (cases "a \<le> addr \<and> e \<le> a + s")
    case True
    then show ?thesis using 2 above by (fastforce simp: Let_def split: if_splits)
  next
    case False
    then obtain bs2 where bs2: "blk_reserve addr e bs = Some bs2" "bs' = (a, s) # bs2"
      using 2 by auto
    with False 2 have IH: "{addr ..< e} \<subseteq> free_bytes bs" "free_bytes bs2 = free_bytes bs - {addr ..< e}"
      by auto
    then have "{a ..< a + s} \<inter> {addr ..< e} = {}" using above by fastforce
    with IH bs2 show ?thesis by auto
  qed
qed simp

lemma blk_reserve_succeeds:
  "(a, s) \<in> set bs \<Longrightarrow> a \<le> addr \<Longrightarrow> e \<le> a + s \<Longrightarrow> \<exists>bs'. blk_reserve addr e bs = Some bs'"
  by (induction addr e bs rule: blk_reserve.induct) (auto simp: Let_def)

section \<open>The block list is canonical\<close>

lemma blks_canonical:
  "blks_ok bs \<Longrightarrow> blks_ok cs \<Longrightarrow> free_bytes bs = free_bytes cs \<Longrightarrow> bs = cs"
proof (induction bs arbitrary: cs)
  case Nil
  then show ?case by (cases cs) (auto simp: free_bytes_def)
next
  case (Cons b bs)
  obtain a s where b: "b = (a, s)" by (cases b)
  have "a \<in> free_bytes cs" using Cons.prems b by auto
  then obtain c ct where cs: "cs = c # ct" by (cases cs) auto
  obtain a' s' where c: "c = (a', s')" by (cases c)
  have gt: "\<forall>x \<in> free_bytes bs. a + s < x" "\<forall>x \<in> free_bytes ct. a' + s' < x"
    using Cons.prems b c cs free_bytes_above [of bs "a + s"] free_bytes_above [of ct "a' + s'"] by auto
  have pos: "0 < s" "0 < s'" using Cons.prems b c cs by auto
  have eq: "{a ..< a + s} \<union> free_bytes bs = {a' ..< a' + s'} \<union> free_bytes ct"
    using Cons.prems b c cs by simp
  have "a' \<le> a"
  proof -
    have "a \<in> {a' ..< a' + s'} \<union> free_bytes ct" using eq pos by force
    with gt show ?thesis by force
  qed
  moreover have "a \<le> a'"
  proof -
    have "a' \<in> {a ..< a + s} \<union> free_bytes bs" using eq pos by force
    with gt show ?thesis by force
  qed
  ultimately have a: "a' = a" by simp
  have "a + s \<notin> {a ..< a + s} \<union> free_bytes bs" using gt by force
  then have "\<not> s < s'" using eq a by force
  moreover have "a + s' \<notin> {a' ..< a' + s'} \<union> free_bytes ct" using gt a by force
  then have "\<not> s' < s" using eq a by force
  ultimately have s: "s' = s" by simp
  have "free_bytes bs = free_bytes ct"
    using eq gt a s by (auto simp: set_eq_iff) (metis (no_types, lifting) Un_iff atLeastLessThan_iff less_asym')+
  with Cons b c cs a s show ?case by simp
qed

section \<open>The allocator\<close>

text \<open>A pool is well formed when its blocks are whole pages of the kernel's window.\<close>

definition blks_paged :: "blk list \<Rightarrow> bool" where
  "blks_paged bs = (\<forall>(a, s) \<in> set bs. PAGE_SIZE dvd a \<and> PAGE_SIZE dvd s)"

lemma blks_paged_simps [simp]:
  "blks_paged []"
  "blks_paged ((a, s) # bs) = (PAGE_SIZE dvd a \<and> PAGE_SIZE dvd s \<and> blks_paged bs)"
  "blks_paged (bs @ cs) = (blks_paged bs \<and> blks_paged cs)"
  by (auto simp: blks_paged_def)

definition pool_wf :: "page_pool \<Rightarrow> bool" where
  "pool_wf p =
     (blks_ok (pages_free p) \<and> blks_paged (pages_free p) \<and>
      free_bytes (pages_free p) \<subseteq> {PAGE_OFFSET ..< 2 ^ 32})"

text \<open>The bytes that an allocation of \<open>sz\<close> bytes at physical address \<open>a\<close> occupies.\<close>

definition extent :: "nat \<Rightarrow> nat \<Rightarrow> nat set" where
  "extent a sz = {phys_to_virt a ..< phys_to_virt a + PAGE_ALIGN sz}"

lemma PAGE_ALIGN_bounds:
  assumes "sz + 4095 < 2 ^ 32"
  shows "sz \<le> PAGE_ALIGN sz" and "PAGE_ALIGN sz < sz + PAGE_SIZE" and "PAGE_SIZE dvd PAGE_ALIGN sz"
  using assms by (auto simp: PAGE_ALIGN_def PAGE_SIZE_def)

lemma phys_virt_inverse: "PAGE_OFFSET \<le> a \<Longrightarrow> a < 2 ^ 32 \<Longrightarrow> phys_to_virt (virt_to_phys a) = a"
  by (auto simp: phys_to_virt_def virt_to_phys_def PAGE_OFFSET_def mod_if)

lemma blk_alloc_paged:
  "blk_alloc sz bs = Some (r, bs') \<Longrightarrow> PAGE_SIZE dvd sz \<Longrightarrow> blks_paged bs \<Longrightarrow>
   PAGE_SIZE dvd r \<and> blks_paged bs'"
  by (induction sz bs arbitrary: r bs' rule: blk_alloc.induct) (auto split: if_splits)

lemma join_next_paged:
  "PAGE_SIZE dvd blk \<Longrightarrow> PAGE_SIZE dvd sz \<Longrightarrow> blks_paged bs \<Longrightarrow> blks_paged (join_next blk sz bs)"
  by (cases bs) (auto simp: join_next_def)

lemma join_prev_paged: "blks_paged bs \<Longrightarrow> blks_paged cs \<Longrightarrow> blks_paged (join_prev bs cs)"
proof (cases bs rule: rev_cases)
  case Nil
  then show "blks_paged cs \<Longrightarrow> ?thesis" by (cases cs) (auto simp: join_prev_def)
next
  case (snoc as a)
  then show "blks_paged bs \<Longrightarrow> blks_paged cs \<Longrightarrow> ?thesis"
    by (cases cs; cases a) (auto simp: join_prev_def)
qed

lemma blk_free_paged:
  assumes "PAGE_SIZE dvd blk" and "PAGE_SIZE dvd sz" and bs: "blks_paged bs"
  shows "blks_paged (blk_free blk sz bs)"
proof -
  have "blks_paged (takeWhile (\<lambda>b. fst b < blk) bs)" "blks_paged (dropWhile (\<lambda>b. fst b < blk) bs)"
    using bs blks_paged_simps(3) [of "takeWhile (\<lambda>b. fst b < blk) bs" "dropWhile (\<lambda>b. fst b < blk) bs"]
    by simp_all
  then show ?thesis
    using assms by (simp add: blk_free_def join_prev_paged join_next_paged)
qed

lemma page_alloc_cases:
  assumes wf: "pool_wf p" and sz: "0 < sz" "sz + 4095 < 2 ^ 32"
    and alloc: "page_alloc sz p = (Some a, p')"
  shows "pool_wf p'" and "extent a sz \<subseteq> free_bytes (pages_free p)"
    and "free_bytes (pages_free p') = free_bytes (pages_free p) - extent a sz"
    and "PAGE_SIZE dvd phys_to_virt a"
proof -
  from alloc obtain r bs where b: "blk_alloc (PAGE_ALIGN sz) (pages_free p) = Some (r, bs)"
    and a: "a = virt_to_phys r" and p': "p' = p\<lparr>pages_free := bs\<rparr>"
    by (auto simp: page_alloc_def Let_def split: option.splits)
  have pos: "0 < PAGE_ALIGN sz" using PAGE_ALIGN_bounds [OF sz(2)] sz by simp
  have bytes: "{r ..< r + PAGE_ALIGN sz} \<subseteq> free_bytes (pages_free p)"
      "free_bytes bs = free_bytes (pages_free p) - {r ..< r + PAGE_ALIGN sz}"
    using blk_alloc_bytes [OF b] wf by (auto simp: pool_wf_def)
  have "r \<in> {PAGE_OFFSET ..< 2 ^ 32}" using bytes(1) wf pos by (force simp: pool_wf_def)
  then have r: "phys_to_virt a = r" using a phys_virt_inverse by simp
  show "extent a sz \<subseteq> free_bytes (pages_free p)"
    and "free_bytes (pages_free p') = free_bytes (pages_free p) - extent a sz"
    using bytes r p' by (auto simp: extent_def)
  have "PAGE_SIZE dvd r \<and> blks_paged bs"
    using blk_alloc_paged [OF b] wf PAGE_ALIGN_bounds [OF sz(2)] by (simp add: pool_wf_def)
  then show "pool_wf p'" and "PAGE_SIZE dvd phys_to_virt a"
    using p' r bytes wf blk_alloc_ok [OF b] by (auto simp: pool_wf_def)
qed

lemma page_free_cases:
  assumes wf: "pool_wf p" and sz: "0 < sz" "sz + 4095 < 2 ^ 32"
    and disj: "extent a sz \<inter> free_bytes (pages_free p) = {}"
    and rng: "extent a sz \<subseteq> {PAGE_OFFSET ..< 2 ^ 32}" and al: "PAGE_SIZE dvd phys_to_virt a"
  shows "pool_wf (page_free a sz p)"
    and "free_bytes (pages_free (page_free a sz p)) = free_bytes (pages_free p) \<union> extent a sz"
proof -
  have pos: "0 < PAGE_ALIGN sz" using PAGE_ALIGN_bounds [OF sz(2)] sz by simp
  note f = blk_free_ok [of "pages_free p" "PAGE_ALIGN sz" "phys_to_virt a"]
  have ok: "blks_ok (pages_free p)" and d: "{phys_to_virt a ..< phys_to_virt a + PAGE_ALIGN sz} \<inter> free_bytes (pages_free p) = {}"
    using wf disj by (auto simp: pool_wf_def extent_def)
  show b: "free_bytes (pages_free (page_free a sz p)) = free_bytes (pages_free p) \<union> extent a sz"
    using f(2) [OF ok pos d] by (simp add: page_free_def extent_def)
  show "pool_wf (page_free a sz p)"
    unfolding pool_wf_def
    using f(1) [OF ok pos d] b rng wf blk_free_paged [OF al, of "PAGE_ALIGN sz"] PAGE_ALIGN_bounds [OF sz(2)]
    by (auto simp: pool_wf_def page_free_def)
qed

text \<open>Any interleaving of allocations and releases, with the allocations still held.\<close>

inductive pool_reach :: "page_pool \<Rightarrow> (nat \<times> nat) list \<Rightarrow> page_pool \<Rightarrow> bool" for p0 where
  start: "pool_reach p0 [] p0"
| alloc: "pool_reach p0 held p \<Longrightarrow> 0 < sz \<Longrightarrow> sz + 4095 < 2 ^ 32 \<Longrightarrow>
    page_alloc sz p = (Some a, p') \<Longrightarrow> pool_reach p0 ((a, sz) # held) p'"
| fail: "pool_reach p0 held p \<Longrightarrow> page_alloc sz p = (None, p') \<Longrightarrow> pool_reach p0 held p'"
| free: "pool_reach p0 held p \<Longrightarrow> (a, sz) \<in> set held \<Longrightarrow>
    pool_reach p0 (remove1 (a, sz) held) (page_free a sz p)"

definition held_bytes :: "(nat \<times> nat) list \<Rightarrow> nat set" where
  "held_bytes held = (\<Union>(a, sz) \<in> set held. extent a sz)"

fun held_disjoint :: "(nat \<times> nat) list \<Rightarrow> bool" where
  "held_disjoint [] = True"
| "held_disjoint ((a, sz) # held) = (extent a sz \<inter> held_bytes held = {} \<and> held_disjoint held)"

definition held_ok :: "(nat \<times> nat) list \<Rightarrow> bool" where
  "held_ok held = (\<forall>(a, sz) \<in> set held. 0 < sz \<and> sz + 4095 < 2 ^ 32 \<and>
     PAGE_SIZE dvd phys_to_virt a \<and> extent a sz \<subseteq> {PAGE_OFFSET ..< 2 ^ 32})"

lemma held_bytes_Cons [simp]: "held_bytes ((a, sz) # held) = extent a sz \<union> held_bytes held"
  by (auto simp: held_bytes_def)

lemma held_remove:
  "held_disjoint held \<Longrightarrow> (a, sz) \<in> set held \<Longrightarrow>
   held_disjoint (remove1 (a, sz) held) \<and> held_bytes (remove1 (a, sz) held) \<inter> extent a sz = {} \<and>
   held_bytes held = extent a sz \<union> held_bytes (remove1 (a, sz) held)"
proof (induction held)
  case (Cons h held)
  obtain b t where h: "h = (b, t)" by (cases h)
  show ?case
  proof (cases "h = (a, sz)")
    case True
    then show ?thesis using Cons h by auto
  next
    case False
    then have "(a, sz) \<in> set held" using Cons by auto
    with Cons h have IH: "held_disjoint (remove1 (a, sz) held)"
        "held_bytes (remove1 (a, sz) held) \<inter> extent a sz = {}"
        "held_bytes held = extent a sz \<union> held_bytes (remove1 (a, sz) held)"
      by auto
    with Cons.prems h False show ?thesis by auto
  qed
qed simp

lemma pool_reach_inv:
  "pool_reach p0 held p \<Longrightarrow> pool_wf p0 \<Longrightarrow>
   pool_wf p \<and> held_ok held \<and> held_disjoint held \<and>
   held_bytes held \<inter> free_bytes (pages_free p) = {} \<and>
   held_bytes held \<union> free_bytes (pages_free p) = free_bytes (pages_free p0)"
proof (induction rule: pool_reach.induct)
  case start
  then show ?case by (simp add: held_ok_def held_bytes_def)
next
  case (alloc held p sz a p')
  then have IH: "pool_wf p" "held_ok held" "held_disjoint held"
      "held_bytes held \<inter> free_bytes (pages_free p) = {}"
      "held_bytes held \<union> free_bytes (pages_free p) = free_bytes (pages_free p0)" by auto
  note c = page_alloc_cases [OF IH(1) alloc.hyps(2,3,4)]
  have "extent a sz \<subseteq> {PAGE_OFFSET ..< 2 ^ 32}" using c(2) IH(1) by (auto simp: pool_wf_def)
  then have "held_ok ((a, sz) # held)" using IH(2) c(4) alloc.hyps by (simp add: held_ok_def)
  moreover have "extent a sz \<inter> held_bytes held = {}" using c(2) IH(4) by blast
  moreover have "held_bytes ((a, sz) # held) \<inter> free_bytes (pages_free p') = {}"
    using c(3) IH(4) by auto
  moreover have "held_bytes ((a, sz) # held) \<union> free_bytes (pages_free p') = free_bytes (pages_free p0)"
    using c(2,3) IH(5) by auto
  ultimately show ?case using c(1) IH(3) by simp
next
  case (fail held p sz p')
  then show ?case by (auto simp: page_alloc_def Let_def split: option.splits)
next
  case (free held p a sz)
  then have IH: "pool_wf p" "held_ok held" "held_disjoint held"
      "held_bytes held \<inter> free_bytes (pages_free p) = {}"
      "held_bytes held \<union> free_bytes (pages_free p) = free_bytes (pages_free p0)" by auto
  note r = held_remove [OF IH(3) free.hyps(2)]
  have h: "0 < sz" "sz + 4095 < 2 ^ 32" "PAGE_SIZE dvd phys_to_virt a" "extent a sz \<subseteq> {PAGE_OFFSET ..< 2 ^ 32}"
    using IH(2) free.hyps(2) by (auto simp: held_ok_def)
  have d: "extent a sz \<inter> free_bytes (pages_free p) = {}" using r IH(4) by auto
  note c = page_free_cases [OF IH(1) h(1,2) d h(4,3)]
  have "held_ok (remove1 (a, sz) held)" using IH(2) by (auto simp: held_ok_def dest: notin_set_remove1 [rotated])
  then show ?case using c r IH(4,5) by auto
qed

section \<open>Properties\<close>

text \<open>
  C19: what \<^verbatim>\<open>page_alloc\<close> returns. On success the block is page aligned, all of its bytes
  were free, exactly those bytes leave the free list, and the list stays sorted and
  coalesced. On failure the pool is unchanged and no free block is as large as the
  rounded request.
\<close>

theorem page_alloc_spec:
  assumes wf: "pool_wf p" and sz: "0 < sz" "sz + 4095 < 2 ^ 32"
  shows "case page_alloc sz p of
      (Some a, p') \<Rightarrow> pool_wf p' \<and> PAGE_SIZE dvd phys_to_virt a \<and>
        extent a sz \<subseteq> free_bytes (pages_free p) \<and>
        free_bytes (pages_free p') = free_bytes (pages_free p) - extent a sz
    | (None, p') \<Rightarrow> p' = p \<and> (\<forall>b \<in> set (pages_free p). snd b < PAGE_ALIGN sz)"
proof (cases "page_alloc sz p")
  case (Pair r p')
  show ?thesis
  proof (cases r)
    case None
    then show ?thesis using Pair
      by (auto simp: page_alloc_def Let_def blk_alloc_None split: option.splits)
  next
    case (Some a)
    then show ?thesis using Pair page_alloc_cases [OF wf sz, of a p'] by simp
  qed
qed

definition example_pool :: page_pool where
  "example_pool = \<lparr>pages_free = [(0x80002000, 0x1000), (0x80004000, 0x3000)],
     total_size = 0x4000, bootdisk_size = 0\<rparr>"

lemma example_pool_wf: "pool_wf example_pool"
  by (simp add: pool_wf_def example_pool_def blks_paged_def PAGE_SIZE_def PAGE_OFFSET_def)

theorem page_alloc_spec_witness:
  "page_alloc 5000 example_pool =
     (Some 0x4000, example_pool\<lparr>pages_free := [(0x80002000, 0x1000), (0x80006000, 0x1000)]\<rparr>) \<and>
   extent 0x4000 5000 \<subseteq> free_bytes (pages_free example_pool)"
proof -
  have e: "page_alloc 5000 example_pool =
     (Some 0x4000, example_pool\<lparr>pages_free := [(0x80002000, 0x1000), (0x80006000, 0x1000)]\<rparr>)"
    by (simp add: page_alloc_def example_pool_def PAGE_ALIGN_def PAGE_SIZE_def virt_to_phys_def
        PAGE_OFFSET_def)
  show ?thesis using page_alloc_spec [OF example_pool_wf, of 5000] e by simp
qed

text \<open>
  C24: releasing what was just allocated restores the pool exactly: the split made by
  \<^verbatim>\<open>page_alloc\<close> is undone by the joins of \<^verbatim>\<open>page_free\<close>.
\<close>

theorem page_alloc_free_roundtrip:
  assumes wf: "pool_wf p" and sz: "0 < sz" "sz + 4095 < 2 ^ 32"
    and alloc: "page_alloc sz p = (Some a, p')"
  shows "page_free a sz p' = p"
proof -
  note c = page_alloc_cases [OF wf sz alloc]
  have rng: "extent a sz \<subseteq> {PAGE_OFFSET ..< 2 ^ 32}" using c(2) wf by (auto simp: pool_wf_def)
  have d: "extent a sz \<inter> free_bytes (pages_free p') = {}" using c(3) by auto
  note f = page_free_cases [OF c(1) sz d rng c(4)]
  have "free_bytes (pages_free (page_free a sz p')) = free_bytes (pages_free p)"
    using f(2) c(2,3) by auto
  then have "pages_free (page_free a sz p') = pages_free p"
    using f(1) wf by (auto simp: pool_wf_def intro: blks_canonical)
  moreover have "p' = p\<lparr>pages_free := pages_free p'\<rparr>"
    using alloc by (auto simp: page_alloc_def Let_def split: option.splits)
  ultimately show ?thesis by (metis page_free_def page_pool.surjective page_pool.update_convs(1))
qed

theorem page_alloc_free_roundtrip_witness:
  "page_free 0x4000 5000
     (example_pool\<lparr>pages_free := [(0x80002000, 0x1000), (0x80006000, 0x1000)]\<rparr>) = example_pool"
  by (rule page_alloc_free_roundtrip [OF example_pool_wf])
    (simp_all add: page_alloc_def example_pool_def PAGE_ALIGN_def PAGE_SIZE_def virt_to_phys_def
        PAGE_OFFSET_def)

text \<open>
  C13: over any sequence of allocations and releases, the allocations held at the same
  time never overlap, none of them overlaps a free block, and no byte is lost: held and
  free bytes together are the bytes the pool started with.
\<close>

theorem page_allocations_disjoint:
  assumes "pool_wf p0" and "pool_reach p0 held p"
  shows "held_disjoint held \<and> held_bytes held \<inter> free_bytes (pages_free p) = {} \<and>
    held_bytes held \<union> free_bytes (pages_free p) = free_bytes (pages_free p0)"
  using pool_reach_inv [OF assms(2,1)] by blast

theorem page_allocations_disjoint_witness:
  "held_disjoint [(0x5000, 4096), (0x4000, 4096)]"
proof -
  let ?p1 = "example_pool\<lparr>pages_free := [(0x80004000, 0x3000)]\<rparr>"
  let ?p2 = "example_pool\<lparr>pages_free := [(0x80005000, 0x2000)]\<rparr>"
  let ?p3 = "example_pool\<lparr>pages_free := [(0x80006000, 0x1000)]\<rparr>"
  let ?p4 = "example_pool\<lparr>pages_free := [(0x80002000, 0x1000), (0x80006000, 0x1000)]\<rparr>"
  note ev = page_alloc_def example_pool_def PAGE_ALIGN_def PAGE_SIZE_def virt_to_phys_def
    PAGE_OFFSET_def
  have "pool_reach example_pool [(0x2000, 4096)] ?p1"
    by (rule pool_reach.alloc [OF pool_reach.start]) (simp_all add: ev)
  then have "pool_reach example_pool [(0x4000, 4096), (0x2000, 4096)] ?p2"
    by (rule pool_reach.alloc) (simp_all add: ev)
  then have "pool_reach example_pool [(0x5000, 4096), (0x4000, 4096), (0x2000, 4096)] ?p3"
    by (rule pool_reach.alloc) (simp_all add: ev)
  then have "pool_reach example_pool (remove1 (0x2000, 4096) [(0x5000, 4096), (0x4000, 4096), (0x2000, 4096)])
      (page_free 0x2000 4096 ?p3)"
    by (rule pool_reach.free) simp
  then show ?thesis
    using page_allocations_disjoint [OF example_pool_wf] by fastforce
qed

end
