(* ===== verification/Mmu.thy ===== *)
theory Mmu
  imports Pages
begin

text \<open>
  The i386 page tables, \<^verbatim>\<open>sys/arch/i386/i386/mmu.c\<close>. \<open>ptmem\<close> holds the pages used as page
  directories and page tables, by kernel virtual address and entry index; entries are
  32-bit words. The specification is the translation \<open>pte_of\<close> of a page: mapping a range
  changes exactly the translations of that range.
\<close>

section \<open>Model\<close>

record mmu =
  mmu_pool :: page_pool
  ptmem :: "nat \<Rightarrow> nat \<Rightarrow> u32"
  cr3 :: nat

datatype pgtype = PG_UNMAP | PG_READ | PG_WRITE | PG_SYSTEM | PG_IOMEM

definition PTE_PRESENT :: u32 where "PTE_PRESENT = 0x001"
definition PTE_WRITE :: u32 where "PTE_WRITE = 0x002"
definition PTE_USER :: u32 where "PTE_USER = 0x004"
definition PTE_NCACHE :: u32 where "PTE_NCACHE = 0x010"
definition PTE_ADDRESS :: u32 where "PTE_ADDRESS = 0xfffff000"

definition BOOT_PGD :: nat where "BOOT_PGD = PAGE_OFFSET + 0x3000"

definition PAGE_DIR :: "nat \<Rightarrow> nat" where
  "PAGE_DIR virt = virt div 2 ^ 22 mod 1024"

definition PAGE_TABLE :: "nat \<Rightarrow> nat" where
  "PAGE_TABLE virt = virt div 2 ^ 12 mod 1024"

definition pte_present :: "nat \<Rightarrow> nat \<Rightarrow> mmu \<Rightarrow> bool" where
  "pte_present pgd virt m = (ptmem m pgd (PAGE_DIR virt) AND PTE_PRESENT \<noteq> 0)"

definition pgd_to_pte :: "nat \<Rightarrow> nat \<Rightarrow> mmu \<Rightarrow> nat" where
  "pgd_to_pte pgd virt m = phys_to_virt (unat (ptmem m pgd (PAGE_DIR virt) AND PTE_ADDRESS))"

definition page_present :: "nat \<Rightarrow> nat \<Rightarrow> mmu \<Rightarrow> bool" where
  "page_present pte virt m = (ptmem m pte (PAGE_TABLE virt) AND PTE_PRESENT \<noteq> 0)"

definition pte_to_page :: "nat \<Rightarrow> nat \<Rightarrow> mmu \<Rightarrow> nat" where
  "pte_to_page pte virt m = unat (ptmem m pte (PAGE_TABLE virt) AND PTE_ADDRESS)"

definition set_entry :: "nat \<Rightarrow> nat \<Rightarrow> u32 \<Rightarrow> mmu \<Rightarrow> mmu" where
  "set_entry pg i v m = m\<lparr>ptmem := (ptmem m)(pg := (ptmem m pg)(i := v))\<rparr>"

definition zero_page :: "nat \<Rightarrow> mmu \<Rightarrow> mmu" where
  "zero_page pg m = m\<lparr>ptmem := (ptmem m)(pg := \<lambda>_. 0)\<rparr>"

definition pte_flags :: "pgtype \<Rightarrow> u32" where
  "pte_flags ty =
     (case ty of
        PG_UNMAP \<Rightarrow> 0
      | PG_READ \<Rightarrow> PTE_PRESENT OR PTE_USER
      | PG_WRITE \<Rightarrow> PTE_PRESENT OR PTE_WRITE OR PTE_USER
      | PG_SYSTEM \<Rightarrow> PTE_PRESENT OR PTE_WRITE
      | PG_IOMEM \<Rightarrow> PTE_PRESENT OR PTE_WRITE OR PTE_NCACHE)"

definition pde_flags :: "pgtype \<Rightarrow> u32" where
  "pde_flags ty =
     (if ty = PG_SYSTEM \<or> ty = PG_IOMEM then PTE_PRESENT OR PTE_WRITE
      else PTE_PRESENT OR PTE_WRITE OR PTE_USER)"

text \<open>The body of the loop of \<^verbatim>\<open>mmu_map\<close>; \<open>None\<close> when no page is left for a page table.\<close>

definition map_page :: "nat \<Rightarrow> nat \<Rightarrow> nat \<Rightarrow> pgtype \<Rightarrow> mmu \<Rightarrow> mmu option" where
  "map_page pgd pa va ty m =
     (if pte_present pgd va m
      then Some (set_entry (pgd_to_pte pgd va m) (PAGE_TABLE va) (word_of_nat pa OR pte_flags ty) m)
      else case page_alloc PAGE_SIZE (mmu_pool m) of
             (None, _) \<Rightarrow> None
           | (Some pg, pool) \<Rightarrow>
               let m1 = set_entry pgd (PAGE_DIR va) (word_of_nat pg OR pde_flags ty) (m\<lparr>mmu_pool := pool\<rparr>);
                   pte = phys_to_virt pg
               in Some (set_entry pte (PAGE_TABLE va) (word_of_nat pa OR pte_flags ty) (zero_page pte m1)))"

fun mmu_map_pages :: "nat \<Rightarrow> nat \<Rightarrow> nat \<Rightarrow> nat \<Rightarrow> pgtype \<Rightarrow> mmu \<Rightarrow> int \<times> mmu" where
  "mmu_map_pages 0 pgd pa va ty m = (0, m)"
| "mmu_map_pages (Suc n) pgd pa va ty m =
     (case map_page pgd pa va ty m of
        None \<Rightarrow> (-1, m)
      | Some m' \<Rightarrow> mmu_map_pages n pgd ((pa + PAGE_SIZE) mod 2 ^ 32) ((va + PAGE_SIZE) mod 2 ^ 32) ty m')"

definition mmu_map :: "nat \<Rightarrow> nat \<Rightarrow> nat \<Rightarrow> nat \<Rightarrow> pgtype \<Rightarrow> mmu \<Rightarrow> int \<times> mmu" where
  "mmu_map pgd phys virt sz ty m =
     mmu_map_pages (PAGE_TRUNC sz div PAGE_SIZE) pgd (PAGE_ALIGN phys) (PAGE_ALIGN virt) ty m"

text \<open>
  \<^verbatim>\<open>memcpy(&pgd[i], &boot_pgd[i], 1024 - i)\<close> counts bytes: a quarter of the kernel's
  entries is copied.
\<close>

definition mmu_newmap :: "mmu \<Rightarrow> nat option \<times> mmu" where
  "mmu_newmap m =
     (case page_alloc PAGE_SIZE (mmu_pool m) of
        (None, _) \<Rightarrow> (None, m)
      | (Some pg, pool) \<Rightarrow>
          let pgd = phys_to_virt pg;
              m1 = zero_page pgd (m\<lparr>mmu_pool := pool\<rparr>);
              i = PAGE_DIR PAGE_OFFSET;
              n = (1024 - i) div 4
          in (Some pgd,
              m1\<lparr>ptmem := (ptmem m1)(pgd := \<lambda>j. if i \<le> j \<and> j < i + n then ptmem m1 BOOT_PGD j
                                             else ptmem m1 pgd j)\<rparr>))"

fun mmu_free_tables :: "nat \<Rightarrow> nat \<Rightarrow> mmu \<Rightarrow> mmu" where
  "mmu_free_tables 0 pgd m = m"
| "mmu_free_tables (Suc n) pgd m =
     (let m1 = mmu_free_tables n pgd m; pte = ptmem m1 pgd n
      in if pte \<noteq> 0 then m1\<lparr>mmu_pool := page_free (unat (pte AND PTE_ADDRESS)) PAGE_SIZE (mmu_pool m1)\<rparr>
         else m1)"

definition mmu_delmap :: "nat \<Rightarrow> mmu \<Rightarrow> mmu" where
  "mmu_delmap pgd m =
     (let m1 = mmu_free_tables (PAGE_DIR PAGE_OFFSET) pgd m
      in m1\<lparr>mmu_pool := page_free (virt_to_phys pgd) PAGE_SIZE (mmu_pool m1)\<rparr>)"

definition mmu_switch :: "nat \<Rightarrow> mmu \<Rightarrow> mmu" where
  "mmu_switch pgd m = (let phys = virt_to_phys pgd in if phys \<noteq> cr3 m then m\<lparr>cr3 := phys\<rparr> else m)"

text \<open>
  The loop of \<^verbatim>\<open>mmu_extract\<close>. The page counter wraps, so with \<^verbatim>\<open>end\<close> the last page of the
  address space the loop only ends at an absent page: \<open>None\<close> is a loop that goes on.
\<close>

fun mmu_pages_ok :: "nat \<Rightarrow> nat \<Rightarrow> nat \<Rightarrow> nat \<Rightarrow> mmu \<Rightarrow> bool option" where
  "mmu_pages_ok 0 pgd pg e m = None"
| "mmu_pages_ok (Suc n) pgd pg e m =
     (if e < pg then Some True
      else if \<not> pte_present pgd pg m then Some False
      else if \<not> page_present (pgd_to_pte pgd pg m) pg m then Some False
      else mmu_pages_ok n pgd ((pg + PAGE_SIZE) mod 2 ^ 32) e m)"

text \<open>The result of a call that returns is \<open>Some 0\<close> (\<^verbatim>\<open>NULL\<close>) or the physical address.\<close>

definition mmu_extract :: "nat \<Rightarrow> nat \<Rightarrow> nat \<Rightarrow> mmu \<Rightarrow> nat option" where
  "mmu_extract pgd virt sz m =
     (let start = PAGE_TRUNC virt;
          e = PAGE_TRUNC ((virt + sz + (2 ^ 32 - 1)) mod 2 ^ 32)
      in case mmu_pages_ok (2 ^ 20 + 1) pgd start e m of
           None \<Rightarrow> None
         | Some False \<Rightarrow> Some 0
         | Some True \<Rightarrow>
             Some (pte_to_page (pgd_to_pte pgd start m) start m + (virt - start)))"

record mmumap =
  mm_virt :: nat
  mm_phys :: nat
  mm_size :: nat
  mm_type :: pgtype

text \<open>\<open>None\<close> is the panic of \<^verbatim>\<open>mmu_init\<close>; the table ends before its first entry of type 0.\<close>

fun mmu_init :: "mmumap list \<Rightarrow> mmu \<Rightarrow> mmu option" where
  "mmu_init [] m = Some m"
| "mmu_init (e # es) m =
     (case mmu_map BOOT_PGD (mm_phys e) (mm_virt e) (mm_size e) (mm_type e) m of
        (r, m') \<Rightarrow> if r \<noteq> 0 then None else mmu_init es m')"


section \<open>Entries\<close>

lemma entry_address:
  assumes "PAGE_SIZE dvd pg" "pg < 2 ^ 32" "f AND PTE_ADDRESS = 0"
  shows "unat ((word_of_nat pg OR f) AND PTE_ADDRESS) = pg"
proof -
  from assms(1) obtain k where k: "pg = 4096 * k" by (auto simp: PAGE_SIZE_def)
  have w: "(word_of_nat pg :: u32) = push_bit 12 (word_of_nat k)"
    by (simp add: k push_bit_eq_mult)
  have m: "PTE_ADDRESS = NOT (mask 12)" by (simp add: PTE_ADDRESS_def mask_eq_exp_minus_1)
  have "(word_of_nat pg OR f) AND PTE_ADDRESS = (word_of_nat pg AND PTE_ADDRESS) OR (f AND PTE_ADDRESS)"
    by (rule bit_word_eqI) (auto simp: bit_and_iff bit_or_iff)
  also have "\<dots> = word_of_nat pg AND PTE_ADDRESS" unfolding assms(3) by simp
  also have "\<dots> = word_of_nat pg"
    unfolding w m by (rule bit_word_eqI) (auto simp: bit_and_iff bit_not_iff bit_mask_iff bit_push_bit_iff)
  finally show ?thesis using assms(2) by (simp add: unat_of_nat)
qed

lemma flags_low [simp]: "pte_flags ty AND PTE_ADDRESS = 0" "pde_flags ty AND PTE_ADDRESS = 0"
  by (auto simp: pte_flags_def pde_flags_def PTE_PRESENT_def PTE_WRITE_def PTE_USER_def PTE_NCACHE_def
      PTE_ADDRESS_def split: pgtype.split)

lemma pde_present: "(w OR pde_flags ty) AND PTE_PRESENT \<noteq> 0"
proof -
  have "(w OR pde_flags ty) AND PTE_PRESENT = PTE_PRESENT"
    by (rule bit_word_eqI) (auto simp: pde_flags_def bit_and_iff bit_or_iff)
  then show ?thesis by (simp add: PTE_PRESENT_def)
qed

lemma virt_phys_inverse:
  "pa < 2 ^ 32 - PAGE_OFFSET \<Longrightarrow> virt_to_phys (phys_to_virt pa) = pa"
  by (auto simp: phys_to_virt_def virt_to_phys_def PAGE_OFFSET_def mod_if)

text \<open>Two different pages have different directory or table indices.\<close>

lemma page_index_inj:
  assumes "PAGE_SIZE dvd x" "PAGE_SIZE dvd y" "x < 2 ^ 32" "y < 2 ^ 32"
    and "PAGE_DIR x = PAGE_DIR y" "PAGE_TABLE x = PAGE_TABLE y"
  shows "x = y"
proof -
  obtain a b where ab: "x = 4096 * a" "y = 4096 * b" using assms(1,2) unfolding PAGE_SIZE_def by (elim dvdE)
  have "a < 2 ^ 20" "b < 2 ^ 20" using assms(3,4) ab by auto
  moreover have "a mod 1024 = b mod 1024" using assms(6) ab by (simp add: PAGE_TABLE_def)
  moreover have "a div 1024 mod 1024 = b div 1024 mod 1024"
    using assms(5) ab by (simp add: PAGE_DIR_def flip: div_mult2_eq)
  moreover have "a div 1024 < 1024" "b div 1024 < 1024"
    using \<open>a < 2 ^ 20\<close> \<open>b < 2 ^ 20\<close> by (simp_all add: less_mult_imp_div_less)
  ultimately have "a div 1024 = b div 1024" "a mod 1024 = b mod 1024" by simp_all
  then have "a = b" by (metis div_mult_mod_eq)
  then show ?thesis using ab by simp
qed

section \<open>The translation and the invariant\<close>

definition pte_of :: "nat \<Rightarrow> nat \<Rightarrow> mmu \<Rightarrow> u32" where
  "pte_of pgd va m = (if pte_present pgd va m then ptmem m (pgd_to_pte pgd va m) (PAGE_TABLE va) else 0)"

definition page_bytes :: "nat \<Rightarrow> nat set" where
  "page_bytes pg = {pg ..< pg + PAGE_SIZE}"

text \<open>
  The directory and the user page tables are different pages of the kernel's window that
  the allocator does not own.
\<close>

definition mmu_wf :: "nat \<Rightarrow> mmu \<Rightarrow> bool" where
  "mmu_wf pgd m =
     (pool_wf (mmu_pool m) \<and> page_bytes pgd \<inter> free_bytes (pages_free (mmu_pool m)) = {} \<and>
      (\<forall>x < PAGE_OFFSET. pte_present pgd x m \<longrightarrow>
         page_bytes (pgd_to_pte pgd x m) \<inter> free_bytes (pages_free (mmu_pool m)) = {} \<and>
         pgd_to_pte pgd x m \<noteq> pgd \<and>
         (\<forall>y < PAGE_OFFSET. pte_present pgd y m \<and> PAGE_DIR x \<noteq> PAGE_DIR y \<longrightarrow>
            pgd_to_pte pgd x m \<noteq> pgd_to_pte pgd y m)))"

lemma mmu_wfD:
  assumes "mmu_wf pgd m"
  shows "pool_wf (mmu_pool m)" "page_bytes pgd \<inter> free_bytes (pages_free (mmu_pool m)) = {}"
    "x < PAGE_OFFSET \<Longrightarrow> pte_present pgd x m \<Longrightarrow>
       page_bytes (pgd_to_pte pgd x m) \<inter> free_bytes (pages_free (mmu_pool m)) = {}"
    "x < PAGE_OFFSET \<Longrightarrow> pte_present pgd x m \<Longrightarrow> pgd_to_pte pgd x m \<noteq> pgd"
    "x < PAGE_OFFSET \<Longrightarrow> pte_present pgd x m \<Longrightarrow> y < PAGE_OFFSET \<Longrightarrow> pte_present pgd y m \<Longrightarrow>
       PAGE_DIR x \<noteq> PAGE_DIR y \<Longrightarrow> pgd_to_pte pgd x m \<noteq> pgd_to_pte pgd y m"
  using assms unfolding mmu_wf_def by blast+

lemma set_entry_same_page [simp]:
  "ptmem (set_entry pg i v m) = (ptmem m)(pg := (ptmem m pg)(i := v))"
  "mmu_pool (set_entry pg i v m) = mmu_pool m"
  by (simp_all add: set_entry_def)

lemma zero_page_mem [simp]: "ptmem (zero_page pg m) = (ptmem m)(pg := \<lambda>_. 0)" "mmu_pool (zero_page pg m) = mmu_pool m"
  by (simp_all add: zero_page_def)

lemma set_pte_frame:
  assumes "t \<noteq> pgd"
  shows "pte_present pgd x (set_entry t i v m) = pte_present pgd x m"
    "pgd_to_pte pgd x (set_entry t i v m) = pgd_to_pte pgd x m"
  using assms by (simp_all add: pte_present_def pgd_to_pte_def)

lemma set_pte_wf: "t \<noteq> pgd \<Longrightarrow> mmu_wf pgd (set_entry t i v m) = mmu_wf pgd m"
  by (simp add: mmu_wf_def set_pte_frame)

text \<open>Writing the entry of a page whose table exists.\<close>

lemma set_pte_of:
  assumes wf: "mmu_wf pgd m" and va: "PAGE_SIZE dvd va" "va < PAGE_OFFSET" "pte_present pgd va m"
    and x: "PAGE_SIZE dvd x" "x < PAGE_OFFSET"
  shows "pte_of pgd x (set_entry (pgd_to_pte pgd va m) (PAGE_TABLE va) v m) = (if x = va then v else pte_of pgd x m)"
proof -
  let ?t = "pgd_to_pte pgd va m"
  have t: "?t \<noteq> pgd" using mmu_wfD(4) [OF wf va(2,3)] .
  show ?thesis
  proof (cases "pte_present pgd x m")
    case True
    have "x \<noteq> va \<Longrightarrow> pgd_to_pte pgd x m = ?t \<Longrightarrow> PAGE_TABLE x \<noteq> PAGE_TABLE va"
    proof
      assume a: "x \<noteq> va" "pgd_to_pte pgd x m = ?t" "PAGE_TABLE x = PAGE_TABLE va"
      then have "PAGE_DIR x = PAGE_DIR va" using mmu_wfD(5) [OF wf x(2) True va(2,3)] by auto
      then show False using page_index_inj [of x va] a va x by (simp add: PAGE_OFFSET_def)
    qed
    then show ?thesis using True t va(3) by (auto simp: pte_of_def set_pte_frame [OF t])
  next
    case False
    then show ?thesis using t va(3) by (auto simp: pte_of_def set_pte_frame [OF t])
  qed
qed


text \<open>A page that the allocator hands out for a table.\<close>

lemma page_for_table:
  assumes wf: "pool_wf p" and al: "page_alloc PAGE_SIZE p = (Some pg, p')"
  shows "pool_wf p'" "page_bytes (phys_to_virt pg) \<subseteq> free_bytes (pages_free p)"
    "free_bytes (pages_free p') = free_bytes (pages_free p) - page_bytes (phys_to_virt pg)"
    "PAGE_SIZE dvd pg" "pg < 2 ^ 32"
proof -
  have sz: "0 < PAGE_SIZE" "PAGE_SIZE + 4095 < 2 ^ 32" by (simp_all add: PAGE_SIZE_def)
  note c = page_alloc_cases [OF wf sz al]
  have e: "extent pg PAGE_SIZE = page_bytes (phys_to_virt pg)"
    by (simp add: extent_def page_bytes_def PAGE_ALIGN_def PAGE_SIZE_def)
  show "pool_wf p'" "page_bytes (phys_to_virt pg) \<subseteq> free_bytes (pages_free p)"
    "free_bytes (pages_free p') = free_bytes (pages_free p) - page_bytes (phys_to_virt pg)"
    using c e by simp_all
  obtain r where r: "pg = virt_to_phys r"
    using al by (auto simp: page_alloc_def Let_def split: option.splits)
  then show "pg < 2 ^ 32" by (simp add: virt_to_phys_def)
  have "(phys_to_virt pg + 2147483648) mod 4294967296 = pg mod 4294967296"
    by (simp add: phys_to_virt_def PAGE_OFFSET_def mod_add_left_eq)
  then have "pg = (phys_to_virt pg + 2147483648) mod 4294967296" using \<open>pg < 2 ^ 32\<close> by simp
  moreover have "4096 dvd (phys_to_virt pg + 2147483648) mod (4294967296 :: nat)"
    using c(4) by (intro dvd_mod dvd_add) (simp_all add: PAGE_SIZE_def)
  ultimately show "PAGE_SIZE dvd pg" by (simp add: PAGE_SIZE_def)
qed

lemma new_table:
  assumes wf: "mmu_wf pgd m" and va: "va < PAGE_OFFSET" "\<not> pte_present pgd va m"
    and al: "page_alloc PAGE_SIZE (mmu_pool m) = (Some pg, pool)"
    and m2: "m2 = zero_page (phys_to_virt pg)
      (set_entry pgd (PAGE_DIR va) (word_of_nat pg OR pde_flags ty) (m\<lparr>mmu_pool := pool\<rparr>))"
  shows "mmu_wf pgd m2" "pte_present pgd va m2" "pgd_to_pte pgd va m2 = phys_to_virt pg"
    "x < PAGE_OFFSET \<Longrightarrow> pte_of pgd x m2 = pte_of pgd x m"
proof -
  let ?t = "phys_to_virt pg"
  have pw: "pool_wf (mmu_pool m)" using mmu_wfD(1) wf .
  note p = page_for_table [OF pw al]
  have ne: "page_bytes ?t \<noteq> {}" by (simp add: page_bytes_def PAGE_SIZE_def)
  have tp: "?t \<noteq> pgd" using mmu_wfD(2) [OF wf] p(2) ne by blast
  have same: "PAGE_DIR x \<noteq> PAGE_DIR va \<Longrightarrow>
      pte_present pgd x m2 = pte_present pgd x m \<and> pgd_to_pte pgd x m2 = pgd_to_pte pgd x m" for x
    using tp by (simp add: m2 pte_present_def pgd_to_pte_def)
  have new: "PAGE_DIR x = PAGE_DIR va \<Longrightarrow> pte_present pgd x m2 \<and> pgd_to_pte pgd x m2 = ?t" for x
    using tp entry_address [OF p(4,5) flags_low(2)] pde_present
    by (simp add: m2 pte_present_def pgd_to_pte_def)
  have fresh: "pgd_to_pte pgd x m \<noteq> ?t" if "x < PAGE_OFFSET" "pte_present pgd x m" for x
    using mmu_wfD(3) [OF wf that] p(2) ne by (metis Int_absorb2)
  show "pte_present pgd va m2" "pgd_to_pte pgd va m2 = ?t" using new by auto
  have pool: "mmu_pool m2 = pool" by (simp add: m2)
  show "mmu_wf pgd m2"
    unfolding mmu_wf_def pool
  proof (intro conjI allI impI)
    show "pool_wf pool" by (fact p(1))
    show "page_bytes pgd \<inter> free_bytes (pages_free pool) = {}"
      using mmu_wfD(2) [OF wf] unfolding p(3) by auto
    fix x assume x: "x < PAGE_OFFSET" "pte_present pgd x m2"
    have x': "PAGE_DIR x = PAGE_DIR va \<and> pgd_to_pte pgd x m2 = ?t \<or>
        PAGE_DIR x \<noteq> PAGE_DIR va \<and> pte_present pgd x m \<and> pgd_to_pte pgd x m2 = pgd_to_pte pgd x m"
      using same [of x] new [of x] x(2) by blast
    show "page_bytes (pgd_to_pte pgd x m2) \<inter> free_bytes (pages_free pool) = {}"
      using x' mmu_wfD(3) [OF wf x(1)] unfolding p(3) by auto
    show "pgd_to_pte pgd x m2 \<noteq> pgd" using x' mmu_wfD(4) [OF wf x(1)] tp by auto
    fix y assume y: "y < PAGE_OFFSET" "pte_present pgd y m2 \<and> PAGE_DIR x \<noteq> PAGE_DIR y"
    have y': "PAGE_DIR y = PAGE_DIR va \<and> pgd_to_pte pgd y m2 = ?t \<or>
        PAGE_DIR y \<noteq> PAGE_DIR va \<and> pte_present pgd y m \<and> pgd_to_pte pgd y m2 = pgd_to_pte pgd y m"
      using same [of y] new [of y] y(2) by blast
    show "pgd_to_pte pgd x m2 \<noteq> pgd_to_pte pgd y m2"
      using x' y' y(2) fresh [OF x(1)] fresh [OF y(1)] mmu_wfD(5) [OF wf x(1) _ y(1)] by metis
  qed
  assume x: "x < PAGE_OFFSET"
  show "pte_of pgd x m2 = pte_of pgd x m"
  proof (cases "PAGE_DIR x = PAGE_DIR va")
    case True
    then have "\<not> pte_present pgd x m" using va(2) by (simp add: pte_present_def)
    then show ?thesis using new [OF True] by (simp add: pte_of_def m2)
  next
    case False
    note s = same [OF False]
    have "pte_present pgd x m \<Longrightarrow> ptmem m2 (pgd_to_pte pgd x m) = ptmem m (pgd_to_pte pgd x m)"
      using fresh [OF x] mmu_wfD(4) [OF wf x] by (simp add: m2)
    then show ?thesis using s by (simp add: pte_of_def)
  qed
qed

lemma map_page_spec:
  assumes wf: "mmu_wf pgd m" and va: "PAGE_SIZE dvd va" "va < PAGE_OFFSET"
    and mp: "map_page pgd pa va ty m = Some m'"
  shows "mmu_wf pgd m'"
    "PAGE_SIZE dvd x \<Longrightarrow> x < PAGE_OFFSET \<Longrightarrow>
       pte_of pgd x m' = (if x = va then word_of_nat pa OR pte_flags ty else pte_of pgd x m)"
proof -
  have "mmu_wf pgd m' \<and> (PAGE_SIZE dvd x \<and> x < PAGE_OFFSET \<longrightarrow>
       pte_of pgd x m' = (if x = va then word_of_nat pa OR pte_flags ty else pte_of pgd x m))"
  proof (cases "pte_present pgd va m")
    case True
    then have m': "m' = set_entry (pgd_to_pte pgd va m) (PAGE_TABLE va) (word_of_nat pa OR pte_flags ty) m"
      using mp by (simp add: map_page_def)
    have "pgd_to_pte pgd va m \<noteq> pgd" using mmu_wfD(4) [OF wf va(2) True] .
    then show ?thesis using m' set_pte_of [OF wf va True] set_pte_wf wf by simp
  next
    case False
    then obtain pg pool where al: "page_alloc PAGE_SIZE (mmu_pool m) = (Some pg, pool)"
      using mp by (auto simp: map_page_def split: prod.splits option.splits)
    define m2 where "m2 = zero_page (phys_to_virt pg)
      (set_entry pgd (PAGE_DIR va) (word_of_nat pg OR pde_flags ty) (m\<lparr>mmu_pool := pool\<rparr>))"
    note n = new_table [OF wf va(2) False al m2_def]
    have m': "m' = set_entry (pgd_to_pte pgd va m2) (PAGE_TABLE va) (word_of_nat pa OR pte_flags ty) m2"
      using mp False al n(3) by (simp add: map_page_def Let_def m2_def)
    have "pgd_to_pte pgd va m2 \<noteq> pgd" using mmu_wfD(4) [OF n(1) va(2) n(2)] .
    then show ?thesis using m' set_pte_of [OF n(1) va n(2)] set_pte_wf n(1,4) by simp
  qed
  then show "mmu_wf pgd m'" "PAGE_SIZE dvd x \<Longrightarrow> x < PAGE_OFFSET \<Longrightarrow>
       pte_of pgd x m' = (if x = va then word_of_nat pa OR pte_flags ty else pte_of pgd x m)" by auto
qed


section \<open>Mapping a range\<close>

lemma page_dist:
  assumes "PAGE_SIZE dvd x" "PAGE_SIZE dvd va" "va \<le> x" "x \<noteq> va"
  shows "va + PAGE_SIZE \<le> x"
proof -
  obtain a b where "x = PAGE_SIZE * a" "va = PAGE_SIZE * b" using assms(1,2) by (elim dvdE)
  then show ?thesis using assms(3,4) by (simp add: PAGE_SIZE_def)
qed

lemma mmu_map_pages_spec:
  assumes "mmu_wf pgd m" "PAGE_SIZE dvd va" "va + n * PAGE_SIZE \<le> PAGE_OFFSET" "pa + n * PAGE_SIZE < 2 ^ 32"
    and "mmu_map_pages n pgd pa va ty m = (0, m')"
  shows "mmu_wf pgd m' \<and> (\<forall>x < PAGE_OFFSET. PAGE_SIZE dvd x \<longrightarrow>
    pte_of pgd x m' = (if va \<le> x \<and> x < va + n * PAGE_SIZE then word_of_nat (pa + (x - va)) OR pte_flags ty
                       else pte_of pgd x m))"
  using assms
proof (induction n arbitrary: va pa m)
  case 0
  then show ?case by auto
next
  case (Suc n)
  have va: "va < PAGE_OFFSET" using Suc.prems(3) by (simp add: PAGE_SIZE_def)
  obtain m1 where m1: "map_page pgd pa va ty m = Some m1"
    using Suc.prems(5) by (cases "map_page pgd pa va ty m") auto
  have wr: "(va + PAGE_SIZE) mod 2 ^ 32 = va + PAGE_SIZE" "(pa + PAGE_SIZE) mod 2 ^ 32 = pa + PAGE_SIZE"
    using Suc.prems(3,4) by (simp_all add: PAGE_OFFSET_def PAGE_SIZE_def)
  note s = map_page_spec [OF Suc.prems(1,2) va m1]
  have ih: "mmu_wf pgd m' \<and> (\<forall>x < PAGE_OFFSET. PAGE_SIZE dvd x \<longrightarrow>
    pte_of pgd x m' = (if va + PAGE_SIZE \<le> x \<and> x < va + PAGE_SIZE + n * PAGE_SIZE
      then word_of_nat (pa + PAGE_SIZE + (x - (va + PAGE_SIZE))) OR pte_flags ty else pte_of pgd x m1))"
    using Suc.prems m1 wr by (intro Suc.IH [OF s(1)]) auto
  show ?case
  proof (intro conjI allI impI)
    show "mmu_wf pgd m'" using ih by blast
    fix x assume x: "x < PAGE_OFFSET" "PAGE_SIZE dvd x"
    consider "x = va" | "va + PAGE_SIZE \<le> x" | "x < va" using page_dist [OF x(2) Suc.prems(2)] by linarith
    then show "pte_of pgd x m' = (if va \<le> x \<and> x < va + Suc n * PAGE_SIZE
        then word_of_nat (pa + (x - va)) OR pte_flags ty else pte_of pgd x m)"
    proof cases
      case 1
      then show ?thesis using ih x s(2) [OF x(2,1)] by (simp add: PAGE_SIZE_def)
    next
      case 2
      then have "pa + PAGE_SIZE + (x - (va + PAGE_SIZE)) = pa + (x - va)" by simp
      then show ?thesis using ih x s(2) [OF x(2,1)] 2 by (auto simp: PAGE_SIZE_def)
    next
      case 3
      then show ?thesis using ih x s(2) [OF x(2,1)] by simp
    qed
  qed
qed

text \<open>
  C27: Mapping a page-aligned range of user addresses, when it succeeds, changes the
  translation of every page of the range to the corresponding physical page with the
  flags of the requested type, leaves the translation of every other user page as it
  was, and keeps the page tables disjoint from each other and from free memory.
\<close>

theorem mmu_map_spec:
  assumes "mmu_wf pgd m" and "PAGE_SIZE dvd va" "PAGE_SIZE dvd pa" "PAGE_SIZE dvd sz"
    and "va + sz \<le> PAGE_OFFSET" "pa + sz < 2 ^ 32" and "mmu_map pgd pa va sz ty m = (0, m')"
  shows "mmu_wf pgd m' \<and> (\<forall>x < PAGE_OFFSET. PAGE_SIZE dvd x \<longrightarrow>
    pte_of pgd x m' = (if va \<le> x \<and> x < va + sz then word_of_nat (pa + (x - va)) OR pte_flags ty
                       else pte_of pgd x m))"
proof -
  have "PAGE_ALIGN y = y" if "PAGE_SIZE dvd y" "y + PAGE_SIZE \<le> 2 ^ 32" for y
  proof -
    from that(1) obtain k where "y = 4096 * k" unfolding PAGE_SIZE_def by (elim dvdE)
    then show ?thesis using that(2) by (simp add: PAGE_ALIGN_def PAGE_SIZE_def)
  qed
  moreover have "pa + PAGE_SIZE \<le> 2 ^ 32"
  proof -
    obtain k where "pa = 4096 * k" using assms(3) unfolding PAGE_SIZE_def by (elim dvdE)
    then show ?thesis using assms(6) by (simp add: PAGE_SIZE_def)
  qed
  ultimately have al: "PAGE_ALIGN pa = pa" "PAGE_ALIGN va = va"
    using assms(2,3,5) by (simp_all add: PAGE_OFFSET_def PAGE_SIZE_def)
  obtain n where n: "sz = n * PAGE_SIZE" using assms(4) by (metis dvd_def mult.commute)
  then have "PAGE_TRUNC sz div PAGE_SIZE = n" using assms(5) by (simp add: PAGE_TRUNC_def PAGE_OFFSET_def PAGE_SIZE_def)
  then show ?thesis
    using mmu_map_pages_spec [OF assms(1,2), of n pa ty m'] assms(5-7) n al by (simp add: mmu_map_def)
qed

definition example_mmu :: mmu where
  "example_mmu = \<lparr>mmu_pool = \<lparr>pages_free = [(0x80100000, 0x10000)], total_size = 0x10000, bootdisk_size = 0\<rparr>,
     ptmem = \<lambda>_ _. 0, cr3 = 0\<rparr>"

theorem mmu_map_spec_witness:
  "\<exists>m'. mmu_map BOOT_PGD 0x200000 0x1000 0x1000 PG_READ example_mmu = (0, m') \<and>
     pte_of BOOT_PGD 0x1000 m' = word_of_nat 0x200000 OR pte_flags PG_READ"
proof -
  have wf: "mmu_wf BOOT_PGD example_mmu"
    by (auto simp: mmu_wf_def example_mmu_def pool_wf_def pte_present_def PAGE_SIZE_def page_bytes_def
        BOOT_PGD_def PAGE_OFFSET_def blks_ok_def free_bytes_def)
  obtain r m' where r: "mmu_map BOOT_PGD 0x200000 0x1000 0x1000 PG_READ example_mmu = (r, m')"
    by fastforce
  have "r = 0" using r
    by (simp add: mmu_map_def PAGE_TRUNC_def PAGE_ALIGN_def PAGE_SIZE_def map_page_def example_mmu_def
        pte_present_def page_alloc_def Let_def numeral_eq_Suc [of "num.One"])
  then show ?thesis
    using mmu_map_spec [OF wf, of "0x1000" "0x200000" "0x1000" PG_READ m'] r
    by (simp add: PAGE_SIZE_def PAGE_OFFSET_def)
qed


section \<open>Translating a buffer\<close>

definition pg_mapped :: "nat \<Rightarrow> nat \<Rightarrow> mmu \<Rightarrow> bool" where
  "pg_mapped pgd pg m = (pte_of pgd pg m AND PTE_PRESENT \<noteq> 0)"

lemma pg_mapped_alt:
  "pg_mapped pgd pg m = (pte_present pgd pg m \<and> page_present (pgd_to_pte pgd pg m) pg m)"
  by (simp add: pg_mapped_def pte_of_def page_present_def)

lemma mmu_pages_ok_spec:
  assumes "PAGE_SIZE dvd pg" "PAGE_SIZE dvd e" "e < PAGE_OFFSET" "pg \<le> e + PAGE_SIZE"
    and "e + PAGE_SIZE < pg + n * PAGE_SIZE"
  shows "mmu_pages_ok n pgd pg e m = Some (\<forall>x. PAGE_SIZE dvd x \<and> pg \<le> x \<and> x \<le> e \<longrightarrow> pg_mapped pgd x m)"
  using assms
proof (induction n arbitrary: pg)
  case 0
  then show ?case by simp
next
  case (Suc n)
  show ?case
  proof (cases "e < pg")
    case True
    then show ?thesis by auto
  next
    case False
    have w: "(pg + PAGE_SIZE) mod 2 ^ 32 = pg + PAGE_SIZE"
      using False Suc.prems(3) by (simp add: PAGE_OFFSET_def PAGE_SIZE_def)
    have "pg \<le> x \<longleftrightarrow> x = pg \<or> pg + PAGE_SIZE \<le> x" if "PAGE_SIZE dvd x" for x
      using page_dist [OF that Suc.prems(1)] by auto
    then have all: "(\<forall>x. PAGE_SIZE dvd x \<and> pg \<le> x \<and> x \<le> e \<longrightarrow> pg_mapped pgd x m) \<longleftrightarrow>
        pg_mapped pgd pg m \<and> (\<forall>x. PAGE_SIZE dvd x \<and> pg + PAGE_SIZE \<le> x \<and> x \<le> e \<longrightarrow> pg_mapped pgd x m)"
      using Suc.prems(1) False by (metis leI)
    have ih: "mmu_pages_ok n pgd (pg + PAGE_SIZE) e m =
        Some (\<forall>x. PAGE_SIZE dvd x \<and> pg + PAGE_SIZE \<le> x \<and> x \<le> e \<longrightarrow> pg_mapped pgd x m)"
      using Suc.prems False by (intro Suc.IH) auto
    show ?thesis
      unfolding all using False w ih by (auto simp: pg_mapped_alt)
  qed
qed

lemma mmu_extract_result:
  assumes "0 < sz" and "virt + sz \<le> PAGE_OFFSET"
  shows "mmu_extract pgd virt sz m =
    (if \<forall>x. PAGE_SIZE dvd x \<and> PAGE_TRUNC virt \<le> x \<and> x < virt + sz \<longrightarrow> pg_mapped pgd x m
     then Some (unat (pte_of pgd (PAGE_TRUNC virt) m AND PTE_ADDRESS) + virt mod PAGE_SIZE) else Some 0)"
proof -
  let ?e = "(virt + sz - 1) div PAGE_SIZE * PAGE_SIZE" and ?s = "virt div PAGE_SIZE * PAGE_SIZE"
  have b: "virt < 2 ^ 32" "virt + sz - 1 < 2 ^ 31" using assms by (simp_all add: PAGE_OFFSET_def)
  have t: "PAGE_TRUNC virt = ?s" "virt - ?s = virt mod PAGE_SIZE"
    using b by (simp_all add: PAGE_TRUNC_def minus_div_mult_eq_mod)
  have "(virt + sz + (2 ^ 32 - 1)) mod 2 ^ 32 = virt + sz - 1"
  proof -
    have "virt + sz + (2 ^ 32 - 1) = (virt + sz - 1) + 2 ^ 32" using assms(1) by simp
    then show ?thesis using b(2) by (simp only: mod_add_self2) simp
  qed
  then have e: "PAGE_TRUNC ((virt + sz + (2 ^ 32 - 1)) mod 2 ^ 32) = ?e"
    using b(2) by (simp only: PAGE_TRUNC_def) simp
  have le: "?s \<le> ?e" using assms(1) by (intro mult_le_mono1 div_le_mono) simp
  have "?e \<le> virt + sz - 1" by (rule div_times_less_eq_dividend)
  then have eo: "?e < PAGE_OFFSET" using assms by linarith
  have "mmu_pages_ok (2 ^ 20 + 1) pgd ?s ?e m = Some (\<forall>x. PAGE_SIZE dvd x \<and> ?s \<le> x \<and> x \<le> ?e \<longrightarrow> pg_mapped pgd x m)"
    using le eo by (intro mmu_pages_ok_spec) (simp_all add: PAGE_SIZE_def PAGE_OFFSET_def)
  moreover have "x \<le> ?e \<longleftrightarrow> x < virt + sz" if d: "PAGE_SIZE dvd x" for x
  proof -
    obtain k where k: "x = PAGE_SIZE * k" using d by (elim dvdE)
    show ?thesis using assms(1) unfolding k PAGE_SIZE_def by (auto simp: less_eq_div_iff_mult_less_eq ac_simps)
  qed
  ultimately have ok: "mmu_pages_ok (2 ^ 20 + 1) pgd ?s ?e m =
      Some (\<forall>x. PAGE_SIZE dvd x \<and> ?s \<le> x \<and> x < virt + sz \<longrightarrow> pg_mapped pgd x m)" by auto
  show ?thesis
  proof (cases "\<forall>x. PAGE_SIZE dvd x \<and> ?s \<le> x \<and> x < virt + sz \<longrightarrow> pg_mapped pgd x m")
    case True
    have "?s \<le> virt" by (rule div_times_less_eq_dividend)
    then have "pg_mapped pgd ?s m" using True assms(1) by (metis dvd_triv_right le_refl less_add_same_cancel1 order_le_less_trans)
    then have p: "pte_to_page (pgd_to_pte pgd ?s m) ?s m = unat (pte_of pgd ?s m AND PTE_ADDRESS)"
      by (simp add: pg_mapped_alt pte_of_def pte_to_page_def)
    show ?thesis
      unfolding mmu_extract_def Let_def e t ok p if_P [OF True] by (simp add: True)
  next
    case False
    show ?thesis unfolding mmu_extract_def Let_def e t ok if_not_P [OF False] by (simp add: False)
  qed
qed

text \<open>
  Translating a user buffer always ends; it yields \<^verbatim>\<open>NULL\<close> exactly when a page of the
  buffer is not mapped, and otherwise the physical address of the buffer's first byte.
\<close>

theorem mmu_extract_spec:
  assumes "0 < sz" and "virt + sz \<le> PAGE_OFFSET"
  shows "mmu_extract pgd virt sz m =
    (if \<forall>x. PAGE_SIZE dvd x \<and> PAGE_TRUNC virt \<le> x \<and> x < virt + sz \<longrightarrow> pg_mapped pgd x m
     then Some (unat (pte_of pgd (PAGE_TRUNC virt) m AND PTE_ADDRESS) + virt mod PAGE_SIZE) else Some 0)"
  by (rule mmu_extract_result [OF assms])

theorem mmu_extract_spec_witness:
  "mmu_extract BOOT_PGD 0x1ffe 4 example_mmu = Some 0"
proof -
  have "\<not> pg_mapped BOOT_PGD 0x1000 example_mmu"
    by (simp add: pg_mapped_def pte_of_def pte_present_def example_mmu_def)
  then have n: "\<not> (\<forall>x. PAGE_SIZE dvd x \<and> PAGE_TRUNC 0x1ffe \<le> x \<and> x < 0x1ffe + 4 \<longrightarrow> pg_mapped BOOT_PGD x example_mmu)"
    by (intro notI) (drule spec [of _ "0x1000"], simp add: PAGE_SIZE_def PAGE_TRUNC_def)
  show ?thesis
    using mmu_extract_spec [of 4 "0x1ffe" BOOT_PGD example_mmu] unfolding if_not_P [OF n]
    by (simp add: PAGE_OFFSET_def)
qed

text \<open>
  The later pages of the buffer need not follow the first one in physical memory: the
  result of a buffer of two pages depends on the frame of the first page only.
\<close>

lemma mmu_extract_ignores_later_frames:
  assumes "PAGE_SIZE dvd virt" "virt + 2 * PAGE_SIZE \<le> PAGE_OFFSET"
    and "pg_mapped pgd virt m" "pg_mapped pgd (virt + PAGE_SIZE) m"
  shows "mmu_extract pgd virt (2 * PAGE_SIZE) m = Some (unat (pte_of pgd virt m AND PTE_ADDRESS))"
proof -
  have "x = virt \<or> x = virt + PAGE_SIZE" if x: "PAGE_SIZE dvd x" "virt \<le> x" "x < virt + 2 * PAGE_SIZE" for x
  proof -
    have "PAGE_SIZE dvd virt + PAGE_SIZE" using assms(1) by simp
    then show ?thesis
      using page_dist [OF x(1) assms(1) x(2)] page_dist [OF x(1), of "virt + PAGE_SIZE"] x(3) by linarith
  qed
  moreover have "PAGE_TRUNC virt = virt"
    using assms(1,2) by (auto simp: PAGE_TRUNC_def PAGE_SIZE_def PAGE_OFFSET_def)
  ultimately show ?thesis
    using mmu_extract_result [of "2 * PAGE_SIZE" virt pgd m] assms by (auto simp: PAGE_SIZE_def)
qed

text \<open>A new map has only the first 128 of the kernel's 512 directory entries.\<close>

lemma mmu_newmap_kernel_entries:
  assumes "mmu_newmap m = (Some pgd, m')" "pgd \<noteq> BOOT_PGD" "512 \<le> j" "j < 1024"
  shows "ptmem m' pgd j = (if j < 640 then ptmem m BOOT_PGD j else 0)"
  using assms by (auto simp: mmu_newmap_def Let_def PAGE_DIR_def PAGE_OFFSET_def split: prod.splits option.splits)

end
