(* ===== verification/Vm.thy ===== *)
theory Vm
  imports Mmu
begin

text \<open>
  Virtual address spaces, \<^verbatim>\<open>sys/mem/vm.c\<close>. A \<^verbatim>\<open>struct region\<close> is named by its address and kept
  in \<open>rgns\<close>; the circular list of a map is the list of its region addresses that starts
  with the embedded head, whose address is the address of the map. \<open>vpool\<close> are the blocks
  \<^verbatim>\<open>kmem_alloc\<close> will hand out, \<open>pmem\<close> the contents of physical memory.
\<close>

section \<open>Data\<close>

record region =
  r_addr :: nat
  r_size :: nat
  r_flags :: u32
  r_phys :: nat
  sh_prev :: nat
  sh_next :: nat

record vm_map =
  rlist :: "nat list"
  refcnt :: int
  pgd :: nat

record vmstate =
  mmu_st :: mmu
  rgns :: "nat \<Rightarrow> region"
  maps :: "nat \<Rightarrow> vm_map"
  vpool :: "nat list"
  pmem :: "nat \<Rightarrow> nat"
  kern_map :: nat

definition REG_READ :: u32 where "REG_READ = 0x01"
definition REG_WRITE :: u32 where "REG_WRITE = 0x02"
definition REG_EXEC :: u32 where "REG_EXEC = 0x04"
definition REG_SHARED :: u32 where "REG_SHARED = 0x08"
definition REG_MAPPED :: u32 where "REG_MAPPED = 0x10"
definition REG_FREE :: u32 where "REG_FREE = 0x80"

definition VMA_READ :: u32 where "VMA_READ = 0x01"
definition VMA_WRITE :: u32 where "VMA_WRITE = 0x02"

lemmas reg_defs = REG_READ_def REG_WRITE_def REG_EXEC_def REG_SHARED_def REG_MAPPED_def REG_FREE_def
  VMA_READ_def VMA_WRITE_def

definition USTACK_SIZE :: nat where "USTACK_SIZE = 4096"
definition USTACK_BASE :: nat where "USTACK_BASE = PAGE_SIZE"

record module =
  md_phys :: nat
  md_size :: nat
  md_entry :: nat
  md_text :: nat
  md_data :: nat
  md_textsz :: nat
  md_datasz :: nat
  md_bsssz :: nat

definition upd_region :: "nat \<Rightarrow> (region \<Rightarrow> region) \<Rightarrow> vmstate \<Rightarrow> vmstate" where
  "upd_region r f v = v\<lparr>rgns := (rgns v)(r := f (rgns v r))\<rparr>"

definition upd_map :: "nat \<Rightarrow> (vm_map \<Rightarrow> vm_map) \<Rightarrow> vmstate \<Rightarrow> vmstate" where
  "upd_map m f v = v\<lparr>maps := (maps v)(m := f (maps v m))\<rparr>"

definition vm_kmem_alloc :: "vmstate \<Rightarrow> nat option \<times> vmstate" where
  "vm_kmem_alloc v = (case vpool v of [] \<Rightarrow> (None, v) | a # as \<Rightarrow> (Some a, v\<lparr>vpool := as\<rparr>))"

definition vm_kmem_free :: "nat \<Rightarrow> vmstate \<Rightarrow> vmstate" where
  "vm_kmem_free a v = v\<lparr>vpool := a # vpool v\<rparr>"

definition vm_page_alloc :: "nat \<Rightarrow> vmstate \<Rightarrow> nat option \<times> vmstate" where
  "vm_page_alloc sz v =
     (case page_alloc sz (mmu_pool (mmu_st v)) of
        (r, p) \<Rightarrow> (r, v\<lparr>mmu_st := (mmu_st v)\<lparr>mmu_pool := p\<rparr>\<rparr>))"

definition vm_page_free :: "nat \<Rightarrow> nat \<Rightarrow> vmstate \<Rightarrow> vmstate" where
  "vm_page_free a sz v = v\<lparr>mmu_st := (mmu_st v)\<lparr>mmu_pool := page_free a sz (mmu_pool (mmu_st v))\<rparr>\<rparr>"

definition vm_mmu_map :: "nat \<Rightarrow> nat \<Rightarrow> nat \<Rightarrow> nat \<Rightarrow> pgtype \<Rightarrow> vmstate \<Rightarrow> int \<times> vmstate" where
  "vm_mmu_map pg phys virt sz ty v =
     (case mmu_map pg phys virt sz ty (mmu_st v) of (r, m) \<Rightarrow> (r, v\<lparr>mmu_st := m\<rparr>))"

definition pmem_zero :: "nat \<Rightarrow> nat \<Rightarrow> vmstate \<Rightarrow> vmstate" where
  "pmem_zero a n v = v\<lparr>pmem := \<lambda>x. if a \<le> x \<and> x < a + n then 0 else pmem v x\<rparr>"

definition pmem_copy :: "nat \<Rightarrow> nat \<Rightarrow> nat \<Rightarrow> vmstate \<Rightarrow> vmstate" where
  "pmem_copy dst src n v =
     v\<lparr>pmem := \<lambda>x. if dst \<le> x \<and> x < dst + n then pmem v (src + (x - dst)) else pmem v x\<rparr>"

section \<open>Regions\<close>

definition region_init :: "nat \<Rightarrow> vmstate \<Rightarrow> vmstate" where
  "region_init r v =
     upd_map r (rlist_update (\<lambda>_. [r]))
       (upd_region r (\<lambda>_. \<lparr>r_addr = PAGE_SIZE, r_size = UMEM_MAX - PAGE_SIZE, r_flags = REG_FREE, r_phys = 0,
          sh_prev = r, sh_next = r\<rparr>) v)"

fun insert_after :: "nat \<Rightarrow> nat \<Rightarrow> nat list \<Rightarrow> nat list" where
  "insert_after p r [] = []"
| "insert_after p r (x # xs) = (if x = p then x # r # xs else x # insert_after p r xs)"

definition region_create :: "nat \<Rightarrow> nat \<Rightarrow> nat \<Rightarrow> nat \<Rightarrow> vmstate \<Rightarrow> nat option \<times> vmstate" where
  "region_create mp prev addr sz v =
     (case vm_kmem_alloc v of
        (None, v1) \<Rightarrow> (None, v1)
      | (Some reg, v1) \<Rightarrow>
          (Some reg, upd_map mp (rlist_update (insert_after prev reg))
             (upd_region reg (\<lambda>_. \<lparr>r_addr = addr, r_size = sz, r_flags = REG_FREE, r_phys = 0,
                sh_prev = reg, sh_next = reg\<rparr>) v1)))"

definition unlink_shared :: "nat \<Rightarrow> vmstate \<Rightarrow> vmstate" where
  "unlink_shared reg v =
     (let p = sh_prev (rgns v reg);
          n = sh_next (rgns v reg);
          v1 = upd_region p (sh_next_update (\<lambda>_. n)) v;
          v2 = upd_region (sh_next (rgns v1 reg)) (sh_prev_update (\<lambda>_. sh_prev (rgns v1 reg))) v1
      in if sh_prev (rgns v2 reg) = sh_next (rgns v2 reg)
         then upd_region (sh_prev (rgns v2 reg)) (r_flags_update (\<lambda>f. f AND NOT REG_SHARED)) v2
         else v2)"

definition region_delete :: "nat \<Rightarrow> nat \<Rightarrow> vmstate \<Rightarrow> vmstate" where
  "region_delete mp reg v =
     (let v1 = (if r_flags (rgns v reg) AND REG_SHARED \<noteq> 0 then unlink_shared reg v else v)
      in if mp \<noteq> reg then vm_kmem_free reg v1 else v1)"

definition region_find :: "nat \<Rightarrow> nat \<Rightarrow> nat \<Rightarrow> vmstate \<Rightarrow> nat option" where
  "region_find mp addr sz v =
     find (\<lambda>r. r_addr (rgns v r) \<le> addr \<and>
             (addr + sz) mod 2 ^ 32 \<le> (r_addr (rgns v r) + r_size (rgns v r)) mod 2 ^ 32)
       (rlist (maps v mp))"

definition region_alloc :: "nat \<Rightarrow> nat \<Rightarrow> vmstate \<Rightarrow> nat option \<times> vmstate" where
  "region_alloc mp sz v =
     (case find (\<lambda>r. r_flags (rgns v r) AND REG_FREE \<noteq> 0 \<and> sz \<le> r_size (rgns v r)) (rlist (maps v mp)) of
        None \<Rightarrow> (None, v)
      | Some reg \<Rightarrow>
          if r_size (rgns v reg) \<noteq> sz then
            (case region_create mp reg (r_addr (rgns v reg) + sz) (r_size (rgns v reg) - sz) v of
               (None, v1) \<Rightarrow> (None, v1)
             | (Some _, v1) \<Rightarrow> (Some reg, upd_region reg (r_size_update (\<lambda>_. sz)) v1))
          else (Some reg, v))"

fun next_of :: "nat \<Rightarrow> nat list \<Rightarrow> nat option" where
  "next_of r [] = None"
| "next_of r [x] = None"
| "next_of r (x # y # xs) = (if x = r then Some y else next_of r (y # xs))"

fun prev_of :: "nat \<Rightarrow> nat list \<Rightarrow> nat option" where
  "prev_of r [] = None"
| "prev_of r [x] = None"
| "prev_of r (x # y # xs) = (if y = r then Some x else prev_of r (y # xs))"

text \<open>The successor of the last region is the head, which is never merged into its predecessor.\<close>

definition merge_next :: "nat \<Rightarrow> nat \<Rightarrow> vmstate \<Rightarrow> vmstate" where
  "merge_next mp reg v =
     (case next_of reg (rlist (maps v mp)) of
        None \<Rightarrow> v
      | Some nx \<Rightarrow>
          if r_flags (rgns v nx) AND REG_FREE \<noteq> 0
          then vm_kmem_free nx
                 (upd_region reg (r_size_update (\<lambda>s. (s + r_size (rgns v nx)) mod 2 ^ 32))
                   (upd_map mp (rlist_update (remove1 nx)) v))
          else v)"

definition merge_prev :: "nat \<Rightarrow> nat \<Rightarrow> vmstate \<Rightarrow> vmstate" where
  "merge_prev mp reg v =
     (case prev_of reg (rlist (maps v mp)) of
        None \<Rightarrow> v
      | Some pv \<Rightarrow>
          if r_flags (rgns v pv) AND REG_FREE \<noteq> 0
          then vm_kmem_free reg
                 (upd_region pv (r_size_update (\<lambda>s. (s + r_size (rgns v reg)) mod 2 ^ 32))
                   (upd_map mp (rlist_update (remove1 reg)) v))
          else v)"

text \<open>
  \<^verbatim>\<open>region_free\<close> clears the flags before it tests \<^verbatim>\<open>REG_SHARED\<close>, so a shared region is never
  taken off its list of sharers here.
\<close>

definition region_free :: "nat \<Rightarrow> nat \<Rightarrow> vmstate \<Rightarrow> vmstate" where
  "region_free mp reg v =
     (let v1 = upd_region reg (r_flags_update (\<lambda>_. REG_FREE)) v;
          v2 = (if r_flags (rgns v1 reg) AND REG_SHARED \<noteq> 0 then unlink_shared reg v1 else v1)
      in merge_prev mp reg (merge_next mp reg v2))"

definition region_split :: "nat \<Rightarrow> nat \<Rightarrow> nat \<Rightarrow> nat \<Rightarrow> vmstate \<Rightarrow> nat option \<times> vmstate" where
  "region_split mp reg0 addr sz v0 =
     (let split_prev = r_addr (rgns v0 reg0) \<noteq> addr;
          diff = addr - r_addr (rgns v0 reg0)
      in case (if split_prev
               then (case region_create mp reg0 addr ((r_size (rgns v0 reg0) + 2 ^ 32 - diff) mod 2 ^ 32) v0 of
                       (None, v1) \<Rightarrow> (None, v1)
                     | (Some reg, v1) \<Rightarrow> (Some reg, upd_region reg0 (r_size_update (\<lambda>_. diff)) v1))
               else (Some reg0, v0)) of
           (None, v1) \<Rightarrow> (None, v1)
         | (Some reg, v1) \<Rightarrow>
             (case (if r_size (rgns v1 reg) \<noteq> sz
                    then (case region_create mp reg ((r_addr (rgns v1 reg) + sz) mod 2 ^ 32)
                                 ((r_size (rgns v1 reg) + 2 ^ 32 - sz) mod 2 ^ 32) v1 of
                            (None, v2) \<Rightarrow> (False, if split_prev then region_free mp reg v2 else v2)
                          | (Some _, v2) \<Rightarrow> (True, upd_region reg (r_size_update (\<lambda>_. sz)) v2))
                    else (True, v1)) of
                (False, v2) \<Rightarrow> (None, v2)
              | (True, v2) \<Rightarrow> (Some reg, upd_region reg (r_flags_update (\<lambda>_. 0)) v2)))"


section \<open>Operations on a map\<close>

text \<open>The result is an error code, the address (meaningful on success) and the new state.\<close>

definition alloc_backing :: "nat \<Rightarrow> nat \<Rightarrow> nat \<Rightarrow> nat \<Rightarrow> vmstate \<Rightarrow> errno \<times> nat \<times> vmstate" where
  "alloc_backing mp addr reg sz v0 =
     (let v = upd_region reg (r_flags_update (\<lambda>_. REG_READ OR REG_WRITE)) v0
      in case vm_page_alloc sz v of
           (None, v1) \<Rightarrow> (ENOMEM, addr, region_free mp reg v1)
         | (Some phys, v1) \<Rightarrow>
             if phys = 0 then (ENOMEM, addr, region_free mp reg v1)
             else case vm_mmu_map (pgd (maps v1 mp)) phys (r_addr (rgns v1 reg)) sz PG_WRITE v1 of
                    (r, v2) \<Rightarrow>
                      if r \<noteq> 0 then (ENOMEM, addr, region_free mp reg (vm_page_free phys sz v2))
                      else (0, r_addr (rgns v2 reg),
                            pmem_zero phys (r_size (rgns v2 reg))
                              (upd_region reg (r_phys_update (\<lambda>_. phys)) v2)))"

definition do_allocate :: "nat \<Rightarrow> nat \<Rightarrow> nat \<Rightarrow> bool \<Rightarrow> vmstate \<Rightarrow> errno \<times> nat \<times> vmstate" where
  "do_allocate mp addr sz0 anywhere v =
     (if sz0 = 0 then (EINVAL, addr, v)
      else if anywhere then
        (let sz = PAGE_ALIGN sz0
         in case region_alloc mp sz v of
              (None, v1) \<Rightarrow> (ENOMEM, addr, v1)
            | (Some reg, v1) \<Rightarrow> alloc_backing mp addr reg sz v1)
      else
        (let start = PAGE_TRUNC addr;
             e = PAGE_ALIGN ((start + sz0) mod 2 ^ 32);
             sz = (e + 2 ^ 32 - start) mod 2 ^ 32
         in case region_find mp start sz v of
              None \<Rightarrow> (EINVAL, addr, v)
            | Some reg \<Rightarrow>
                if r_flags (rgns v reg) AND REG_FREE = 0 then (EINVAL, addr, v)
                else case region_split mp reg start sz v of
                       (None, v1) \<Rightarrow> (ENOMEM, addr, v1)
                     | (Some reg', v1) \<Rightarrow> alloc_backing mp addr reg' sz v1))"

definition do_free :: "nat \<Rightarrow> nat \<Rightarrow> vmstate \<Rightarrow> errno \<times> vmstate" where
  "do_free mp addr0 v =
     (let addr = PAGE_TRUNC addr0
      in case region_find mp addr 1 v of
           None \<Rightarrow> (EINVAL, v)
         | Some reg \<Rightarrow>
             let g = rgns v reg
             in if r_addr g \<noteq> addr \<or> r_flags g AND REG_FREE \<noteq> 0 then (EINVAL, v)
                else let v1 = snd (vm_mmu_map (pgd (maps v mp)) (r_phys g) (r_addr g) (r_size g) PG_UNMAP v);
                         v2 = (if r_flags g AND REG_SHARED = 0 \<and> r_flags g AND REG_MAPPED = 0
                               then vm_page_free (r_phys g) (r_size g) v1 else v1)
                     in (0, region_free mp reg v2))"

definition attr_new_flags :: "u32 \<Rightarrow> u32 \<Rightarrow> u32" where
  "attr_new_flags flags attr =
     (if flags AND REG_WRITE \<noteq> 0
      then if attr AND VMA_WRITE = 0 then REG_READ else 0
      else if attr AND VMA_WRITE \<noteq> 0 then REG_READ OR REG_WRITE else 0)"

definition do_attribute :: "nat \<Rightarrow> nat \<Rightarrow> u32 \<Rightarrow> vmstate \<Rightarrow> errno \<times> vmstate" where
  "do_attribute mp addr0 attr v =
     (let addr = PAGE_TRUNC addr0
      in case region_find mp addr 1 v of
           None \<Rightarrow> (EINVAL, v)
         | Some reg \<Rightarrow>
             let g = rgns v reg; nf = attr_new_flags (r_flags g) attr;
                 ty = (if nf AND REG_WRITE \<noteq> 0 then PG_WRITE else PG_READ)
             in if r_addr g \<noteq> addr \<or> r_flags g AND REG_FREE \<noteq> 0 then (EINVAL, v)
                else if r_flags g AND REG_MAPPED \<noteq> 0 then (EINVAL, v)
                else if nf = 0 then (0, v)
                else if r_flags g AND REG_SHARED \<noteq> 0 then
                  (case vm_page_alloc (r_size g) v of
                     (None, v1) \<Rightarrow> (ENOMEM, v1)
                   | (Some new, v1) \<Rightarrow>
                       if new = 0 then (ENOMEM, v1)
                       else let v2 = pmem_copy new (r_phys g) (r_size g) v1
                            in case vm_mmu_map (pgd (maps v2 mp)) new (r_addr g) (r_size g) ty v2 of
                                 (r, v3) \<Rightarrow>
                                   if r \<noteq> 0 then (ENOMEM, vm_page_free new (r_size g) v3)
                                   else let v4 = upd_region reg (r_phys_update (\<lambda>_. new)) v3;
                                            v5 = unlink_shared reg v4;
                                            v6 = upd_region reg (\<lambda>x. x\<lparr>sh_next := reg, sh_prev := reg\<rparr>) v5
                                        in (0, upd_region reg (r_flags_update (\<lambda>_. nf)) v6))
                else case vm_mmu_map (pgd (maps v mp)) (r_phys g) (r_addr g) (r_size g) ty v of
                       (r, v1) \<Rightarrow>
                         if r \<noteq> 0 then (ENOMEM, v1)
                         else (0, upd_region reg (r_flags_update (\<lambda>_. nf)) v1))"

text \<open>
  \<^verbatim>\<open>do_map\<close> without its two \<^verbatim>\<open>umem_copyout\<close> calls, which its caller makes: the address to be
  stored in \<^verbatim>\<open>*alloc\<close> is part of the result.
\<close>

definition do_map :: "nat \<Rightarrow> nat \<Rightarrow> nat \<Rightarrow> nat \<Rightarrow> vmstate \<Rightarrow> errno \<times> nat \<times> vmstate" where
  "do_map curmap mp addr sz0 v =
     (let start = PAGE_TRUNC addr;
          e = PAGE_ALIGN ((addr + sz0) mod 2 ^ 32);
          sz = (e + 2 ^ 32 - start) mod 2 ^ 32;
          offset = addr - start
      in if sz0 = 0 then (EINVAL, 0, v)
         else case region_find mp start sz v of
           None \<Rightarrow> (EINVAL, 0, v)
         | Some tgt \<Rightarrow>
             if r_flags (rgns v tgt) AND REG_FREE \<noteq> 0 then (EINVAL, 0, v)
             else case region_alloc curmap sz v of
                    (None, v1) \<Rightarrow> (ENOMEM, 0, v1)
                  | (Some reg, v1) \<Rightarrow>
                      let tg = rgns v1 tgt;
                          ty = (if r_flags tg AND REG_WRITE \<noteq> 0 then PG_WRITE else PG_READ);
                          phys = r_phys tg + (start - r_addr tg)
                      in case vm_mmu_map (pgd (maps v1 curmap)) phys (r_addr (rgns v1 reg)) sz ty v1 of
                           (r, v2) \<Rightarrow>
                             if r \<noteq> 0 then (ENOMEM, 0, region_free curmap reg v2)
                             else (0, r_addr (rgns v2 reg) + offset,
                                   upd_region reg (\<lambda>x. x\<lparr>r_flags := r_flags (rgns v2 tgt) OR REG_MAPPED,
                                     r_phys := phys\<rparr>) v2))"

section \<open>Maps\<close>

definition vm_create :: "vmstate \<Rightarrow> nat option \<times> vmstate" where
  "vm_create v =
     (case vm_kmem_alloc v of
        (None, v1) \<Rightarrow> (None, v1)
      | (Some mp, v1) \<Rightarrow>
          let v2 = upd_map mp (refcnt_update (\<lambda>_. 1)) v1
          in case mmu_newmap (mmu_st v2) of
               (None, m) \<Rightarrow> (None, vm_kmem_free mp (v2\<lparr>mmu_st := m\<rparr>))
             | (Some pg, m) \<Rightarrow>
                 (Some mp, region_init mp (upd_map mp (pgd_update (\<lambda>_. pg)) (v2\<lparr>mmu_st := m\<rparr>))))"

text \<open>The regions of a dying map, from the head on.\<close>

fun vm_release :: "nat \<Rightarrow> nat list \<Rightarrow> vmstate \<Rightarrow> vmstate" where
  "vm_release mp [] v = v"
| "vm_release mp (reg # rs) v =
     (let g = rgns v reg;
          v1 = (if r_flags g \<noteq> REG_FREE
                then let a = snd (vm_mmu_map (pgd (maps v mp)) (r_phys g) (r_addr g) (r_size g) PG_UNMAP v)
                     in if r_flags g AND REG_SHARED = 0 \<and> r_flags g AND REG_MAPPED = 0
                        then vm_page_free (r_phys g) (r_size g) a else a
                else v)
      in vm_release mp rs (region_delete mp reg v1))"

definition vm_terminate :: "nat \<Rightarrow> vmstate \<Rightarrow> vmstate" where
  "vm_terminate mp v0 =
     (let v = upd_map mp (refcnt_update (\<lambda>n. n - 1)) v0
      in if 1 \<le> refcnt (maps v mp) then v
         else let v1 = vm_release mp (rlist (maps v mp)) v;
                  v2 = v1\<lparr>mmu_st := mmu_delmap (pgd (maps v1 mp)) (mmu_st v1)\<rparr>
              in vm_kmem_free mp v2)"

definition vm_reference :: "nat \<Rightarrow> vmstate \<Rightarrow> vmstate" where
  "vm_reference mp v = upd_map mp (refcnt_update (\<lambda>n. n + 1)) v"

definition vm_switch :: "nat \<Rightarrow> vmstate \<Rightarrow> vmstate" where
  "vm_switch mp v =
     (if mp \<noteq> kern_map v then v\<lparr>mmu_st := mmu_switch (pgd (maps v mp)) (mmu_st v)\<rparr> else v)"

text \<open>
  \<^verbatim>\<open>do_fork\<close>: one region of the original map is copied to \<open>dest\<close>. \<open>None\<close>: a resource ran
  out and the function returns \<^verbatim>\<open>NULL\<close> with the unfinished map left behind.
\<close>

definition fork_backing :: "nat \<Rightarrow> nat \<Rightarrow> nat \<Rightarrow> vmstate \<Rightarrow> bool \<times> vmstate" where
  "fork_backing mp src dest v =
     (let sf = r_flags (rgns v src)
      in if sf = REG_FREE then (True, v)
         else let v1 = (if sf AND REG_WRITE = 0 \<and> sf AND REG_MAPPED = 0
                        then upd_region dest (r_flags_update (\<lambda>f. f OR REG_SHARED)) v else v)
              in case (if r_flags (rgns v1 dest) AND REG_SHARED = 0
                       then (case vm_page_alloc (r_size (rgns v1 src)) v1 of
                               (None, v2) \<Rightarrow> (False, upd_region dest (r_phys_update (\<lambda>_. 0)) v2)
                             | (Some ph, v2) \<Rightarrow>
                                 let v3 = upd_region dest (r_phys_update (\<lambda>_. ph)) v2
                                 in (ph \<noteq> 0, if ph \<noteq> 0
                                      then pmem_copy ph (r_phys (rgns v3 src)) (r_size (rgns v3 src)) v3 else v3))
                       else (True, v1)) of
                   (False, v2) \<Rightarrow> (False, v2)
                 | (True, v2) \<Rightarrow>
                     let g = rgns v2 dest;
                         ty = (if r_flags g AND REG_WRITE \<noteq> 0 then PG_WRITE else PG_READ)
                     in case vm_mmu_map (pgd (maps v2 mp)) (r_phys g) (r_addr g) (r_size g) ty v2 of
                          (r, v3) \<Rightarrow> (r = 0, v3))"

fun fork_copy :: "nat \<Rightarrow> nat list \<Rightarrow> vmstate \<Rightarrow> bool \<times> vmstate" where
  "fork_copy mp [] v = (True, v)"
| "fork_copy mp (src # srcs) v =
     (case vm_kmem_alloc v of
        (None, v1) \<Rightarrow> (False, v1)
      | (Some dest, v1) \<Rightarrow>
          let v2 = upd_map mp (rlist_update (\<lambda>l. l @ [dest])) (upd_region dest (\<lambda>_. rgns v1 src) v1)
          in case fork_backing mp src dest v2 of
               (False, v3) \<Rightarrow> (False, v3)
             | (True, v3) \<Rightarrow> fork_copy mp srcs v3)"

fun fork_link :: "(nat \<times> nat) list \<Rightarrow> vmstate \<Rightarrow> vmstate" where
  "fork_link [] v = v"
| "fork_link ((dest, src) # ps) v =
     (let v1 = (if r_flags (rgns v dest) AND REG_SHARED \<noteq> 0
                then let a = upd_region src (r_flags_update (\<lambda>f. f OR REG_SHARED)) v;
                         b = upd_region dest (\<lambda>x. x\<lparr>sh_prev := src, sh_next := sh_next (rgns a src)\<rparr>) a;
                         c = upd_region (sh_next (rgns b src)) (sh_prev_update (\<lambda>_. dest)) b
                     in upd_region src (sh_next_update (\<lambda>_. dest)) c
                else v)
      in fork_link ps v1)"

definition do_fork :: "nat \<Rightarrow> vmstate \<Rightarrow> nat option \<times> vmstate" where
  "do_fork org v0 =
     (case vm_create v0 of
        (None, v1) \<Rightarrow> (None, v1)
      | (Some mp, v1) \<Rightarrow>
          let v2 = upd_region mp (\<lambda>_. rgns v1 org) v1;
              others = tl (rlist (maps v2 org))
          in if others = [] then (Some mp, v2)
             else case fork_backing mp org mp v2 of
                    (False, v3) \<Rightarrow> (None, v3)
                  | (True, v3) \<Rightarrow>
                      (case fork_copy mp others v3 of
                         (False, v4) \<Rightarrow> (None, v4)
                       | (True, v4) \<Rightarrow>
                           (Some mp, fork_link (zip (rlist (maps v4 mp)) (rlist (maps v4 org))) v4)))"

definition vm_fork :: "nat \<Rightarrow> vmstate \<Rightarrow> nat option \<times> vmstate" where
  "vm_fork org v = do_fork org v"

definition mmu_addr :: "nat \<Rightarrow> nat \<Rightarrow> mmu \<Rightarrow> nat" where
  "mmu_addr pg va m = unat (pte_of pg va m AND PTE_ADDRESS) + va mod PAGE_SIZE"

text \<open>\<open>memcpy\<close> to a user address goes through the page tables of the map just switched to.\<close>

definition vm_load :: "nat \<Rightarrow> module \<Rightarrow> vmstate \<Rightarrow> int \<times> nat \<times> vmstate" where
  "vm_load mp md v0 =
     (let v = vm_switch mp v0;
          copy = (\<lambda>va src n w. pmem_copy (mmu_addr (pgd (maps w mp)) va (mmu_st w)) src n w)
      in case do_allocate mp (md_text md) (md_textsz md) False v of
           (err, text, v1) \<Rightarrow>
             if err \<noteq> 0 then (-1, 0, v1)
             else case do_attribute mp text VMA_READ (copy text (md_phys md) (md_textsz md) v1) of
                    (err, v2) \<Rightarrow>
                      if err \<noteq> 0 then (-1, 0, v2)
                      else case (if md_datasz md + md_bsssz md \<noteq> 0
                                 then (case do_allocate mp (md_data md) (md_datasz md + md_bsssz md) False v2 of
                                         (err, dat, v3) \<Rightarrow>
                                           (err, if err = 0
                                             then copy dat (md_phys md + (md_data md - md_text md)) (md_datasz md) v3
                                             else v3))
                                 else (0, v2)) of
                             (err, v4) \<Rightarrow>
                               if err \<noteq> 0 then (-1, 0, v4)
                               else case do_allocate mp USTACK_BASE USTACK_SIZE False v4 of
                                      (err, stack, v5) \<Rightarrow>
                                        if err \<noteq> 0 then (-1, stack, v5)
                                        else (0, stack, vm_page_free (md_phys md) (md_size md) v5))"

definition vm_translate :: "nat \<Rightarrow> nat \<Rightarrow> nat \<Rightarrow> vmstate \<Rightarrow> nat option" where
  "vm_translate mp addr sz v = mmu_extract (pgd (maps v mp)) addr sz (mmu_st v)"

text \<open>\<open>None\<close>: the assertion that the kernel's own map can be made fails.\<close>

definition vm_init :: "vmstate \<Rightarrow> vmstate option" where
  "vm_init v =
     (case mmu_newmap (mmu_st v) of
        (None, _) \<Rightarrow> None
      | (Some pg, m) \<Rightarrow>
          let v1 = upd_map (kern_map v) (pgd_update (\<lambda>_. pg)) (v\<lparr>mmu_st := mmu_switch pg m\<rparr>)
          in Some (region_init (kern_map v) v1))"

end
