(* ===== verification/Vm_Inv.thy ===== *)
theory Vm_Inv
  imports Vm
begin

text \<open>
  The address space as a tiling: the regions of a map cover the user addresses from the
  first page to \<^verbatim>\<open>UMEM_MAX\<close> without gap or overlap. \<open>look\<close> reads the flags at an address;
  the operations are specified by how they change it.
\<close>

section \<open>Tilings\<close>

type_synonym seg = "nat \<times> nat \<times> u32"

fun seg_ok :: "nat \<Rightarrow> nat \<Rightarrow> seg list \<Rightarrow> bool" where
  "seg_ok lo hi [] = (lo = hi)"
| "seg_ok lo hi ((a, s, f) # r) =
     (a = lo \<and> 0 < s \<and> PAGE_SIZE dvd s \<and> (f AND REG_FREE \<noteq> 0 \<longrightarrow> f = REG_FREE) \<and> seg_ok (a + s) hi r)"

fun look :: "nat \<Rightarrow> seg list \<Rightarrow> u32 option" where
  "look x [] = None"
| "look x ((a, s, f) # r) = (if a \<le> x \<and> x < a + s then Some f else look x r)"

lemma seg_ok_append: "seg_ok lo hi (xs @ ys) \<longleftrightarrow> (\<exists>mid. seg_ok lo mid xs \<and> seg_ok mid hi ys)"
  by (induction xs arbitrary: lo) auto

lemma seg_ok_le: "seg_ok lo hi xs \<Longrightarrow> lo \<le> hi"
  by (induction xs arbitrary: lo) fastforce+

lemma look_outside: "seg_ok lo hi xs \<Longrightarrow> x < lo \<or> hi \<le> x \<Longrightarrow> look x xs = None"
proof (induction xs arbitrary: lo)
  case (Cons t xs)
  obtain a s f where t: "t = (a, s, f)" by (cases t)
  have "a + s \<le> hi" using Cons.prems t seg_ok_le by auto
  then show ?case using Cons t by auto
qed simp

lemma look_append: "look x (xs @ ys) = (case look x xs of None \<Rightarrow> look x ys | Some f \<Rightarrow> Some f)"
  by (induction xs) auto

text \<open>One segment in a tiling.\<close>

lemma seg_ok_mid:
  "seg_ok lo hi (xs @ (a, s, f) # ys) \<longleftrightarrow>
     seg_ok lo a xs \<and> 0 < s \<and> PAGE_SIZE dvd s \<and> (f AND REG_FREE \<noteq> 0 \<longrightarrow> f = REG_FREE) \<and> seg_ok (a + s) hi ys"
  by (auto simp: seg_ok_append)

lemma look_mid:
  assumes "seg_ok lo hi (xs @ (a, s, f) # ys)"
  shows "look x (xs @ (a, s, g) # ys) = (if a \<le> x \<and> x < a + s then Some g else look x (xs @ (a, s, f) # ys))"
proof -
  have "seg_ok lo a xs" using assms by (simp add: seg_ok_mid)
  then have "a \<le> x \<Longrightarrow> look x xs = None" using look_outside by blast
  then show ?thesis by (auto simp: look_append split: option.split)
qed

lemma seg_split:
  assumes "seg_ok lo hi (xs @ (a, s, f) # ys)" "0 < d" "d < s" "PAGE_SIZE dvd d"
  shows "seg_ok lo hi (xs @ (a, d, f) # (a + d, s - d, f) # ys)"
    "look x (xs @ (a, d, f) # (a + d, s - d, f) # ys) = look x (xs @ (a, s, f) # ys)"
  using assms by (auto simp: seg_ok_append dvd_diff_nat look_append split: option.split)

lemma seg_merge:
  assumes "seg_ok lo hi (xs @ (a, s, f) # (b, t, f) # ys)"
  shows "seg_ok lo hi (xs @ (a, s + t, f) # ys)"
    "look x (xs @ (a, s + t, f) # ys) = look x (xs @ (a, s, f) # (b, t, f) # ys)"
  using assms by (auto simp: seg_ok_append add.assoc look_append split: option.split)

section \<open>Maps as tilings\<close>

definition seg_of :: "vmstate \<Rightarrow> nat \<Rightarrow> seg" where
  "seg_of v r = (r_addr (rgns v r), r_size (rgns v r), r_flags (rgns v r))"

definition segs :: "nat \<Rightarrow> vmstate \<Rightarrow> seg list" where
  "segs mp v = map (seg_of v) (rlist (maps v mp))"

definition map_ok :: "nat \<Rightarrow> vmstate \<Rightarrow> bool" where
  "map_ok mp v =
     (rlist (maps v mp) \<noteq> [] \<and> hd (rlist (maps v mp)) = mp \<and> distinct (rlist (maps v mp) @ vpool v) \<and>
      seg_ok PAGE_SIZE UMEM_MAX (segs mp v))"

text \<open>The flags at a user address.\<close>

definition flags_at :: "nat \<Rightarrow> vmstate \<Rightarrow> nat \<Rightarrow> u32 option" where
  "flags_at mp v x = look x (segs mp v)"

lemma upd_region_proj [simp]:
  "rgns (upd_region r f v) = (rgns v)(r := f (rgns v r))" "maps (upd_region r f v) = maps v"
  "vpool (upd_region r f v) = vpool v" "mmu_st (upd_region r f v) = mmu_st v" "pmem (upd_region r f v) = pmem v"
  by (simp_all add: upd_region_def)

lemma upd_map_proj [simp]:
  "rgns (upd_map m f v) = rgns v" "maps (upd_map m f v) = (maps v)(m := f (maps v m))"
  "vpool (upd_map m f v) = vpool v" "mmu_st (upd_map m f v) = mmu_st v" "pmem (upd_map m f v) = pmem v"
  by (simp_all add: upd_map_def)

lemma backing_proj [simp]:
  "rgns (snd (vm_page_alloc sz v)) = rgns v" "maps (snd (vm_page_alloc sz v)) = maps v"
  "vpool (snd (vm_page_alloc sz v)) = vpool v"
  "rgns (vm_page_free a sz v) = rgns v" "maps (vm_page_free a sz v) = maps v" "vpool (vm_page_free a sz v) = vpool v"
  "rgns (snd (vm_mmu_map pg ph va sz ty v)) = rgns v" "maps (snd (vm_mmu_map pg ph va sz ty v)) = maps v"
  "vpool (snd (vm_mmu_map pg ph va sz ty v)) = vpool v"
  "rgns (pmem_zero a n v) = rgns v" "maps (pmem_zero a n v) = maps v" "vpool (pmem_zero a n v) = vpool v"
  "rgns (pmem_copy a b n v) = rgns v" "maps (pmem_copy a b n v) = maps v" "vpool (pmem_copy a b n v) = vpool v"
  "rgns (vm_kmem_free r v) = rgns v" "maps (vm_kmem_free r v) = maps v" "vpool (vm_kmem_free r v) = r # vpool v"
  by (simp_all add: vm_page_alloc_def vm_page_free_def vm_mmu_map_def pmem_zero_def pmem_copy_def vm_kmem_free_def
      split: prod.split)

definition vm_same :: "vmstate \<Rightarrow> vmstate \<Rightarrow> bool" where
  "vm_same v v' = (rgns v' = rgns v \<and> maps v' = maps v \<and> vpool v' = vpool v)"

lemma vm_same_segs: "vm_same v v' \<Longrightarrow> segs mp v' = segs mp v"
  by (simp add: vm_same_def segs_def seg_of_def [abs_def])

lemma vm_same_ok: "vm_same v v' \<Longrightarrow> map_ok mp v' = map_ok mp v"
  using vm_same_segs [of v v' mp] by (simp add: map_ok_def vm_same_def)

lemma vm_same_flags: "vm_same v v' \<Longrightarrow> flags_at mp v' = flags_at mp v"
  by (simp add: fun_eq_iff flags_at_def vm_same_segs)

lemma vm_same_backing [simp]:
  "vm_same v (snd (vm_page_alloc sz v))" "vm_same v (vm_page_free a sz v)"
  "vm_same v (snd (vm_mmu_map pg ph va sz ty v))" "vm_same v (pmem_zero a n v)" "vm_same v (pmem_copy a b n v)"
  by (simp_all add: vm_same_def)

lemma vm_same_trans: "vm_same u v \<Longrightarrow> vm_same v w \<Longrightarrow> vm_same u w"
  by (simp add: vm_same_def)

lemma vm_same_result:
  "vm_page_alloc sz v = (r, v') \<Longrightarrow> vm_same v v'" "vm_mmu_map pg ph va sz ty v = (i, v') \<Longrightarrow> vm_same v v'"
  by (metis snd_conv vm_same_backing(1), metis snd_conv vm_same_backing(3))

lemma map_ok_split:
  assumes "map_ok mp v" "r \<in> set (rlist (maps v mp))"
  obtains xs ys where "rlist (maps v mp) = xs @ r # ys" "r \<notin> set xs" "r \<notin> set ys"
proof -
  obtain xs ys where l: "rlist (maps v mp) = xs @ r # ys" using assms(2) by (meson split_list)
  moreover have "distinct (rlist (maps v mp))" using assms(1) by (simp add: map_ok_def)
  ultimately show thesis using that by auto
qed

lemma insert_after_split: "p \<notin> set xs \<Longrightarrow> insert_after p r (xs @ p # ys) = xs @ p # r # ys"
  by (induction xs) auto

lemma next_of_split:
  "r \<notin> set xs \<Longrightarrow> next_of r (xs @ r # ys) = (case ys of [] \<Rightarrow> None | y # _ \<Rightarrow> Some y)"
proof (induction xs)
  case Nil
  then show ?case by (cases ys) auto
next
  case (Cons x xs)
  then show ?case by (cases "xs @ r # ys") (auto simp: Cons_eq_append_conv)
qed

lemma prev_of_hd: "r \<notin> set ys \<Longrightarrow> prev_of r (x # ys) = None"
  by (induction ys arbitrary: x) auto

lemma prev_of_split:
  "r \<notin> set xs \<Longrightarrow> r \<notin> set ys \<Longrightarrow> prev_of r (xs @ r # ys) = (if xs = [] then None else Some (last xs))"
proof (induction xs)
  case Nil
  then show ?case by (simp add: prev_of_hd)
next
  case (Cons x xs)
  then show ?case by (cases xs) auto
qed

lemma segs_split:
  "rlist (maps v mp) = xs @ r # ys \<Longrightarrow> segs mp v = map (seg_of v) xs @ seg_of v r # map (seg_of v) ys"
  by (simp add: segs_def)

lemma seg_of_other: "r \<notin> set xs \<Longrightarrow> map (seg_of (upd_region r f v)) xs = map (seg_of v) xs"
  by (induction xs) (auto simp: seg_of_def)

lemma seg_of_cong: "rgns v' = rgns v \<Longrightarrow> seg_of v' = seg_of v"
  by (simp add: seg_of_def [abs_def])

section \<open>Effects of the region operations\<close>

text \<open>Changing one region of a map.\<close>

lemma segs_upd_region:
  assumes "rlist (maps v mp) = xs @ r # ys" "r \<notin> set xs" "r \<notin> set ys"
  shows "segs mp (upd_region r f v) =
    map (seg_of v) xs @ (r_addr (f (rgns v r)), r_size (f (rgns v r)), r_flags (f (rgns v r))) # map (seg_of v) ys"
  using assms by (simp add: segs_def seg_of_other) (simp add: seg_of_def)

lemma set_flags_spec:
  assumes ok: "map_ok mp v" and r: "r \<in> set (rlist (maps v mp))"
    and f: "g AND REG_FREE \<noteq> 0 \<longrightarrow> g = REG_FREE"
  shows "map_ok mp (upd_region r (r_flags_update (\<lambda>_. g)) v)"
    "flags_at mp (upd_region r (r_flags_update (\<lambda>_. g)) v) x =
       (if r_addr (rgns v r) \<le> x \<and> x < r_addr (rgns v r) + r_size (rgns v r) then Some g else flags_at mp v x)"
proof -
  obtain xs ys where l: "rlist (maps v mp) = xs @ r # ys" "r \<notin> set xs" "r \<notin> set ys"
    using map_ok_split [OF ok r] .
  let ?v = "upd_region r (r_flags_update (\<lambda>_. g)) v"
  let ?a = "r_addr (rgns v r)" and ?s = "r_size (rgns v r)" and ?f = "r_flags (rgns v r)"
  have s: "segs mp v = map (seg_of v) xs @ (?a, ?s, ?f) # map (seg_of v) ys"
    using segs_split [OF l(1)] by (simp add: seg_of_def)
  have s': "segs mp ?v = map (seg_of v) xs @ (?a, ?s, g) # map (seg_of v) ys"
    using segs_upd_region [OF l] by simp
  have sok: "seg_ok PAGE_SIZE UMEM_MAX (segs mp v)" using ok by (simp add: map_ok_def)
  then have "seg_ok PAGE_SIZE UMEM_MAX (segs mp ?v)" unfolding s s' using f by (simp add: seg_ok_mid)
  then show "map_ok mp ?v" using ok by (simp add: map_ok_def)
  show "flags_at mp ?v x = (if ?a \<le> x \<and> x < ?a + ?s then Some g else flags_at mp v x)"
    unfolding flags_at_def s' using look_mid [OF sok [unfolded s], of x g] s by simp
qed

lemma upd_phys_same:
  "map_ok mp (upd_region r (r_phys_update f) v) = map_ok mp v"
  "flags_at mp (upd_region r (r_phys_update f) v) = flags_at mp v"
proof -
  have "segs mp (upd_region r (r_phys_update f) v) = segs mp v" by (simp add: segs_def seg_of_def)
  then show "map_ok mp (upd_region r (r_phys_update f) v) = map_ok mp v"
    "flags_at mp (upd_region r (r_phys_update f) v) = flags_at mp v"
    by (simp_all add: map_ok_def flags_at_def fun_eq_iff)
qed

text \<open>Splitting a region: a new region takes over its upper part.\<close>

lemma split_spec:
  assumes ok: "map_ok mp v" and r: "r \<in> set (rlist (maps v mp))" and fr: "r_flags (rgns v r) = REG_FREE"
    and d: "0 < d" "d < r_size (rgns v r)" "PAGE_SIZE dvd d"
    and c: "region_create mp r (r_addr (rgns v r) + d) (r_size (rgns v r) - d) v = (Some n, v1)"
    and v': "v' = upd_region r (r_size_update (\<lambda>_. d)) v1"
  shows "map_ok mp v'" "flags_at mp v' = flags_at mp v" "n \<in> set (rlist (maps v' mp))" "r \<in> set (rlist (maps v' mp))"
    "n \<noteq> r" "rgns v' n = \<lparr>r_addr = r_addr (rgns v r) + d, r_size = r_size (rgns v r) - d, r_flags = REG_FREE,
       r_phys = 0, sh_prev = n, sh_next = n\<rparr>" "rgns v' r = (rgns v r)\<lparr>r_size := d\<rparr>"
proof -
  obtain xs ys where l: "rlist (maps v mp) = xs @ r # ys" "r \<notin> set xs" "r \<notin> set ys"
    using map_ok_split [OF ok r] .
  let ?a = "r_addr (rgns v r)" and ?s = "r_size (rgns v r)"
  let ?new = "\<lparr>r_addr = ?a + d, r_size = ?s - d, r_flags = REG_FREE, r_phys = 0, sh_prev = n, sh_next = n\<rparr>"
  obtain as where pool: "vpool v = n # as"
    and v1: "v1 = upd_map mp (rlist_update (insert_after r n)) (upd_region n (\<lambda>_. ?new) (v\<lparr>vpool := as\<rparr>))"
    using c by (auto simp: region_create_def vm_kmem_alloc_def split: list.splits)
  have dist: "distinct (rlist (maps v mp) @ vpool v)" using ok by (simp add: map_ok_def)
  have n: "n \<notin> set xs" "n \<noteq> r" "n \<notin> set ys" using dist l(1) pool by auto
  then show "n \<noteq> r" by simp
  have l': "rlist (maps v' mp) = xs @ r # n # ys"
    using l by (simp add: v' v1 insert_after_split)
  show "n \<in> set (rlist (maps v' mp))" "r \<in> set (rlist (maps v' mp))" using l' by simp_all
  show rn: "rgns v' n = ?new" and rr: "rgns v' r = (rgns v r)\<lparr>r_size := d\<rparr>" using n by (simp_all add: v' v1)
  have o: "map (seg_of v') xs = map (seg_of v) xs" "map (seg_of v') ys = map (seg_of v) ys"
    using l n by (auto simp: seg_of_def v' v1)
  have s: "segs mp v = map (seg_of v) xs @ (?a, ?s, REG_FREE) # map (seg_of v) ys"
    using segs_split [OF l(1)] fr by (simp add: seg_of_def)
  have s': "segs mp v' = map (seg_of v) xs @ (?a, d, REG_FREE) # (?a + d, ?s - d, REG_FREE) # map (seg_of v) ys"
    using o rn rr fr by (simp add: segs_def l') (simp add: seg_of_def)
  have sok: "seg_ok PAGE_SIZE UMEM_MAX (segs mp v)" using ok by (simp add: map_ok_def)
  note sp = seg_split [OF sok [unfolded s] d]
  have "vpool v' = as" by (simp add: v' v1)
  then have "distinct (rlist (maps v' mp) @ vpool v')" using dist l(1) l' pool by auto
  moreover have "hd (rlist (maps v' mp)) = mp" using ok l l' by (cases xs) (auto simp: map_ok_def)
  ultimately show "map_ok mp v'" using sp(1) s' l' by (simp add: map_ok_def)
  show "flags_at mp v' = flags_at mp v" using sp(2) s s' by (simp add: fun_eq_iff flags_at_def)
qed

lemma region_create_None: "region_create mp r a s v = (None, v1) \<Longrightarrow> v1 = v"
  by (auto simp: region_create_def vm_kmem_alloc_def split: list.splits)


text \<open>Merging two free neighbours.\<close>

lemma merge_pair:
  assumes ok: "map_ok mp v" and l: "rlist (maps v mp) = xs @ p # q # ys"
    and fr: "r_flags (rgns v p) = REG_FREE" "r_flags (rgns v q) = REG_FREE"
    and v': "v' = vm_kmem_free q (upd_region p (r_size_update (\<lambda>s. (s + r_size (rgns v q)) mod 2 ^ 32))
                (upd_map mp (rlist_update (remove1 q)) v))"
  shows "map_ok mp v'" "flags_at mp v' = flags_at mp v" "rlist (maps v' mp) = xs @ p # ys"
    "r_flags (rgns v' p) = REG_FREE"
proof -
  let ?a = "r_addr (rgns v p)" and ?s = "r_size (rgns v p)" and ?b = "r_addr (rgns v q)" and ?t = "r_size (rgns v q)"
  have dist: "distinct (rlist (maps v mp) @ vpool v)" using ok by (simp add: map_ok_def)
  have n: "p \<notin> set xs" "p \<noteq> q" "p \<notin> set ys" "q \<notin> set xs" "q \<notin> set ys" using dist l by auto
  show l': "rlist (maps v' mp) = xs @ p # ys" using l n by (simp add: v' remove1_append)
  have sok: "seg_ok PAGE_SIZE UMEM_MAX (segs mp v)" using ok by (simp add: map_ok_def)
  have s: "segs mp v = map (seg_of v) xs @ (?a, ?s, REG_FREE) # (?b, ?t, REG_FREE) # map (seg_of v) ys"
    using fr by (simp add: segs_def l) (simp add: seg_of_def)
  have "?a + ?s + ?t \<le> UMEM_MAX"
    using sok seg_ok_le unfolding s by (fastforce simp: seg_ok_append)
  then have sz: "(?s + ?t) mod 2 ^ 32 = ?s + ?t" by (simp add: UMEM_MAX_def)
  have o: "map (seg_of v') xs = map (seg_of v) xs" "map (seg_of v') ys = map (seg_of v) ys"
    using n by (auto simp: seg_of_def v')
  have s': "segs mp v' = map (seg_of v) xs @ (?a, ?s + ?t, REG_FREE) # map (seg_of v) ys"
    using o fr sz by (simp add: segs_def l') (simp add: seg_of_def v')
  note m = seg_merge [OF sok [unfolded s]]
  have "distinct (rlist (maps v' mp) @ vpool v')" using dist unfolding l' l by (auto simp: v')
  moreover have "hd (rlist (maps v' mp)) = mp" using ok l l' by (cases xs) (auto simp: map_ok_def)
  ultimately show "map_ok mp v'" using m(1) s' l' by (simp add: map_ok_def)
  show "flags_at mp v' = flags_at mp v" using m(2) s s' by (simp add: fun_eq_iff flags_at_def)
  show "r_flags (rgns v' p) = REG_FREE" using fr by (simp add: v')
qed

lemma map_ok_free_exact:
  assumes "map_ok mp v" "r \<in> set (rlist (maps v mp))" "r_flags (rgns v r) AND REG_FREE \<noteq> 0"
  shows "r_flags (rgns v r) = REG_FREE"
proof -
  obtain xs ys where l: "rlist (maps v mp) = xs @ r # ys" using assms(2) by (meson split_list)
  have "seg_ok PAGE_SIZE UMEM_MAX (map (seg_of v) xs @ seg_of v r # map (seg_of v) ys)"
    using assms(1) segs_split [OF l] by (simp add: map_ok_def)
  then show ?thesis using assms(3) by (simp add: seg_of_def seg_ok_mid)
qed

lemma merge_next_spec:
  assumes ok: "map_ok mp v" and r: "r \<in> set (rlist (maps v mp))" and fr: "r_flags (rgns v r) = REG_FREE"
  shows "map_ok mp (merge_next mp r v)" "flags_at mp (merge_next mp r v) = flags_at mp v"
    "r \<in> set (rlist (maps (merge_next mp r v) mp))" "r_flags (rgns (merge_next mp r v) r) = REG_FREE"
proof -
  obtain xs ys where l: "rlist (maps v mp) = xs @ r # ys" "r \<notin> set xs" "r \<notin> set ys"
    using map_ok_split [OF ok r] .
  note nx = next_of_split [OF l(2), of ys]
  have "map_ok mp (merge_next mp r v) \<and> flags_at mp (merge_next mp r v) = flags_at mp v \<and>
    r \<in> set (rlist (maps (merge_next mp r v) mp)) \<and> r_flags (rgns (merge_next mp r v) r) = REG_FREE"
  proof (cases "merge_next mp r v = v")
    case True
    then show ?thesis using assms by simp
  next
    case False
    then obtain y zs where y: "ys = y # zs" "r_flags (rgns v y) AND REG_FREE \<noteq> 0"
      using nx l(1) by (cases ys) (auto simp: merge_next_def split: if_splits)
    then have yf: "r_flags (rgns v y) = REG_FREE" using map_ok_free_exact [OF ok] l(1) by simp
    have l2: "rlist (maps v mp) = xs @ r # y # zs" using l(1) y(1) by simp
    have v': "merge_next mp r v = vm_kmem_free y (upd_region r (r_size_update (\<lambda>s. (s + r_size (rgns v y)) mod 2 ^ 32))
                (upd_map mp (rlist_update (remove1 y)) v))"
      using nx l(1) y by (simp add: merge_next_def)
    show ?thesis using merge_pair [OF ok l2 fr yf v'] by simp
  qed
  then show "map_ok mp (merge_next mp r v)" "flags_at mp (merge_next mp r v) = flags_at mp v"
    "r \<in> set (rlist (maps (merge_next mp r v) mp))" "r_flags (rgns (merge_next mp r v) r) = REG_FREE" by auto
qed

lemma merge_prev_spec:
  assumes ok: "map_ok mp v" and r: "r \<in> set (rlist (maps v mp))" and fr: "r_flags (rgns v r) = REG_FREE"
  shows "map_ok mp (merge_prev mp r v)" "flags_at mp (merge_prev mp r v) = flags_at mp v"
proof -
  obtain xs ys where l: "rlist (maps v mp) = xs @ r # ys" "r \<notin> set xs" "r \<notin> set ys"
    using map_ok_split [OF ok r] .
  note pv = prev_of_split [OF l(2,3)]
  have "map_ok mp (merge_prev mp r v) \<and> flags_at mp (merge_prev mp r v) = flags_at mp v"
  proof (cases "merge_prev mp r v = v")
    case True
    then show ?thesis using assms by simp
  next
    case False
    then have x: "xs \<noteq> []" "r_flags (rgns v (last xs)) AND REG_FREE \<noteq> 0"
      using pv l(1) by (auto simp: merge_prev_def split: if_splits)
    then obtain zs p where z: "xs = zs @ [p]" by (cases xs rule: rev_cases) auto
    then have pf: "r_flags (rgns v p) = REG_FREE" using map_ok_free_exact [OF ok, of p] l(1) x(2) by simp
    have l2: "rlist (maps v mp) = zs @ p # r # ys" using l(1) z by simp
    have v': "merge_prev mp r v = vm_kmem_free r (upd_region p (r_size_update (\<lambda>s. (s + r_size (rgns v r)) mod 2 ^ 32))
                (upd_map mp (rlist_update (remove1 r)) v))"
      using pv l(1) z x by (simp add: merge_prev_def)
    show ?thesis using merge_pair [OF ok l2 pf fr v'] by simp
  qed
  then show "map_ok mp (merge_prev mp r v)" "flags_at mp (merge_prev mp r v) = flags_at mp v" by auto
qed

lemma free_not_shared: "REG_FREE AND REG_SHARED = 0" "REG_FREE AND REG_FREE = REG_FREE" "REG_FREE \<noteq> 0"
  by (simp_all add: reg_defs)

lemma region_free_spec:
  assumes ok: "map_ok mp v" and r: "r \<in> set (rlist (maps v mp))"
  shows "map_ok mp (region_free mp r v)"
    "flags_at mp (region_free mp r v) x =
       (if r_addr (rgns v r) \<le> x \<and> x < r_addr (rgns v r) + r_size (rgns v r) then Some REG_FREE else flags_at mp v x)"
proof -
  let ?w = "upd_region r (r_flags_update (\<lambda>_. REG_FREE)) v"
  note f = set_flags_spec [OF ok r, of REG_FREE]
  have w: "map_ok mp ?w" "r \<in> set (rlist (maps ?w mp))" "r_flags (rgns ?w r) = REG_FREE"
    using f(1) r by simp_all
  note n = merge_next_spec [OF w]
  note p = merge_prev_spec [OF n(1,3,4)]
  have e: "region_free mp r v = merge_prev mp r (merge_next mp r ?w)"
    by (simp add: region_free_def Let_def free_not_shared)
  show "map_ok mp (region_free mp r v)" using p(1) e by simp
  show "flags_at mp (region_free mp r v) x =
       (if r_addr (rgns v r) \<le> x \<and> x < r_addr (rgns v r) + r_size (rgns v r) then Some REG_FREE else flags_at mp v x)"
    using p(2) n(2) e f(2) [of x] by simp
qed


section \<open>Finding and splitting regions\<close>

lemma PAGE_TRUNC_le: "PAGE_TRUNC x \<le> x"
  using div_times_less_eq_dividend [of "x mod 2 ^ 32" PAGE_SIZE] mod_less_eq_dividend [of x "2 ^ 32"]
  unfolding PAGE_TRUNC_def by linarith

lemma seg_ok_dvd: "seg_ok lo hi zs \<Longrightarrow> PAGE_SIZE dvd lo \<Longrightarrow> PAGE_SIZE dvd hi"
proof (induction zs arbitrary: lo)
  case (Cons z zs)
  obtain a s f where "z = (a, s, f)" by (cases z)
  then show ?case using Cons.prems Cons.IH [of "a + s"] by auto
qed simp

lemma region_bounds:
  assumes ok: "map_ok mp v" and r: "r \<in> set (rlist (maps v mp))"
  shows "r_addr (rgns v r) + r_size (rgns v r) \<le> UMEM_MAX" "0 < r_size (rgns v r)"
    "PAGE_SIZE dvd r_addr (rgns v r)" "PAGE_SIZE dvd r_size (rgns v r)" "PAGE_SIZE \<le> r_addr (rgns v r)"
proof -
  obtain xs ys where l: "rlist (maps v mp) = xs @ r # ys" using r by (meson split_list)
  have s: "seg_ok PAGE_SIZE UMEM_MAX (map (seg_of v) xs @ seg_of v r # map (seg_of v) ys)"
    using ok segs_split [OF l] by (simp add: map_ok_def)
  then have "seg_ok PAGE_SIZE (r_addr (rgns v r)) (map (seg_of v) xs)"
    "seg_ok (r_addr (rgns v r) + r_size (rgns v r)) UMEM_MAX (map (seg_of v) ys)"
    "0 < r_size (rgns v r)" "PAGE_SIZE dvd r_size (rgns v r)"
    by (simp_all add: seg_of_def seg_ok_mid)
  then show "r_addr (rgns v r) + r_size (rgns v r) \<le> UMEM_MAX" "0 < r_size (rgns v r)"
    "PAGE_SIZE dvd r_addr (rgns v r)" "PAGE_SIZE dvd r_size (rgns v r)" "PAGE_SIZE \<le> r_addr (rgns v r)"
    using seg_ok_le seg_ok_dvd by auto
qed

lemma flags_at_region:
  assumes ok: "map_ok mp v" and r: "r \<in> set (rlist (maps v mp))"
    and x: "r_addr (rgns v r) \<le> x" "x < r_addr (rgns v r) + r_size (rgns v r)"
  shows "flags_at mp v x = Some (r_flags (rgns v r))"
proof -
  have "upd_region r (r_flags_update (\<lambda>_. r_flags (rgns v r))) v = v" by (simp add: upd_region_def)
  moreover have "r_flags (rgns v r) AND REG_FREE \<noteq> 0 \<longrightarrow> r_flags (rgns v r) = REG_FREE"
    using map_ok_free_exact [OF ok r] by blast
  ultimately show ?thesis using set_flags_spec(2) [OF ok r, of "r_flags (rgns v r)" x] x by simp
qed

lemma region_alloc_spec:
  assumes ok: "map_ok mp v" and sz: "0 < sz" "PAGE_SIZE dvd sz" and al: "region_alloc mp sz v = (res, v')"
  shows "map_ok mp v' \<and> flags_at mp v' = flags_at mp v \<and>
    (case res of None \<Rightarrow> v' = v
     | Some r \<Rightarrow> r \<in> set (rlist (maps v' mp)) \<and> r_size (rgns v' r) = sz \<and> r_flags (rgns v' r) = REG_FREE)"
proof (cases "find (\<lambda>r. r_flags (rgns v r) AND REG_FREE \<noteq> 0 \<and> sz \<le> r_size (rgns v r)) (rlist (maps v mp))")
  case None
  then show ?thesis using al ok by (auto simp: region_alloc_def)
next
  case (Some reg)
  then have reg: "reg \<in> set (rlist (maps v mp))" "r_flags (rgns v reg) AND REG_FREE \<noteq> 0" "sz \<le> r_size (rgns v reg)"
    by (auto simp: find_Some_iff)
  then have fr: "r_flags (rgns v reg) = REG_FREE" using map_ok_free_exact [OF ok] by blast
  show ?thesis
  proof (cases "r_size (rgns v reg) = sz")
    case True
    then have "res = Some reg \<and> v' = v" using al Some by (simp add: region_alloc_def)
    then show ?thesis using True ok reg fr by simp
  next
    case False
    then have lt: "sz < r_size (rgns v reg)" using reg(3) by simp
    obtain rc v1 where c: "region_create mp reg (r_addr (rgns v reg) + sz) (r_size (rgns v reg) - sz) v = (rc, v1)"
      by fastforce
    show ?thesis
    proof (cases rc)
      case None
      then show ?thesis using al Some c False ok region_create_None [of mp reg] by (auto simp: region_alloc_def)
    next
      case (Some n)
      have v': "res = Some reg" "v' = upd_region reg (r_size_update (\<lambda>_. sz)) v1"
        using al \<open>find _ _ = Some reg\<close> c Some False by (auto simp: region_alloc_def)
      note s = split_spec [OF ok reg(1) fr sz(1) lt sz(2) c [unfolded Some] v'(2)]
      show ?thesis using s v'(1) fr by simp
    qed
  qed
qed

lemma region_find_spec:
  assumes ok: "map_ok mp v" and f: "region_find mp a sz v = Some r" and b: "a + sz \<le> UMEM_MAX"
  shows "r \<in> set (rlist (maps v mp))" "r_addr (rgns v r) \<le> a" "a + sz \<le> r_addr (rgns v r) + r_size (rgns v r)"
proof -
  have r: "r \<in> set (rlist (maps v mp))" "r_addr (rgns v r) \<le> a"
    "(a + sz) mod 2 ^ 32 \<le> (r_addr (rgns v r) + r_size (rgns v r)) mod 2 ^ 32"
    using f by (auto simp: region_find_def find_Some_iff)
  show "r \<in> set (rlist (maps v mp))" "r_addr (rgns v r) \<le> a" by (fact r)+
  show "a + sz \<le> r_addr (rgns v r) + r_size (rgns v r)"
    using r(3) b region_bounds(1) [OF ok r(1)] by (simp add: UMEM_MAX_def)
qed

lemma region_split_upper:
  assumes ok: "map_ok mp v" and r: "r \<in> set (rlist (maps v mp))" and fr: "r_flags (rgns v r) = REG_FREE"
    and sz: "0 < sz" "PAGE_SIZE dvd sz" "sz \<le> r_size (rgns v r)"
    and v': "(if r_size (rgns v r) \<noteq> sz
              then (case region_create mp r ((r_addr (rgns v r) + sz) mod 2 ^ 32)
                           ((r_size (rgns v r) + 2 ^ 32 - sz) mod 2 ^ 32) v of
                      (None, v2) \<Rightarrow> (False, w v2)
                    | (Some _, v2) \<Rightarrow> (True, upd_region r (r_size_update (\<lambda>_. sz)) v2))
              else (True, v)) = (res, v')"
  shows "res \<Longrightarrow> map_ok mp v' \<and> flags_at mp v' = flags_at mp v \<and> r \<in> set (rlist (maps v' mp)) \<and>
      rgns v' r = (rgns v r)\<lparr>r_size := sz\<rparr>"
    and "\<not> res \<Longrightarrow> v' = w v"
proof -
  have b: "r_addr (rgns v r) + r_size (rgns v r) \<le> UMEM_MAX" using region_bounds [OF ok r] by simp
  have m: "(r_addr (rgns v r) + sz) mod 2 ^ 32 = r_addr (rgns v r) + sz"
    "(r_size (rgns v r) + 2 ^ 32 - sz) mod 2 ^ 32 = r_size (rgns v r) - sz"
  proof -
    show "(r_addr (rgns v r) + sz) mod 2 ^ 32 = r_addr (rgns v r) + sz" using b sz(3) by (simp add: UMEM_MAX_def)
    have "r_size (rgns v r) + 2 ^ 32 - sz = (r_size (rgns v r) - sz) + 2 ^ 32" using sz(3) by simp
    then show "(r_size (rgns v r) + 2 ^ 32 - sz) mod 2 ^ 32 = r_size (rgns v r) - sz"
      using b by (simp only: mod_add_self2) (simp add: UMEM_MAX_def)
  qed
  obtain rc v2 where c: "region_create mp r (r_addr (rgns v r) + sz) (r_size (rgns v r) - sz) v = (rc, v2)" by fastforce
  have "(res \<longrightarrow> map_ok mp v' \<and> flags_at mp v' = flags_at mp v \<and> r \<in> set (rlist (maps v' mp)) \<and>
      rgns v' r = (rgns v r)\<lparr>r_size := sz\<rparr>) \<and> (\<not> res \<longrightarrow> v' = w v)"
  proof (cases "r_size (rgns v r) = sz")
    case True
    then have "(rgns v r)\<lparr>r_size := sz\<rparr> = rgns v r" by (metis region.surjective region.update_convs(2))
    then show ?thesis using True v' ok r by simp
  next
    case False
    then have lt: "sz < r_size (rgns v r)" using sz(3) by simp
    show ?thesis
    proof (cases rc)
      case None
      then show ?thesis using v' False c m region_create_None [of mp r] by auto
    next
      case (Some n)
      have e: "res" "v' = upd_region r (r_size_update (\<lambda>_. sz)) v2" using v' False c m Some by auto
      show ?thesis using split_spec [OF ok r fr sz(1) lt sz(2) c [unfolded Some] e(2)] e(1) by simp
    qed
  qed
  then show "res \<Longrightarrow> map_ok mp v' \<and> flags_at mp v' = flags_at mp v \<and> r \<in> set (rlist (maps v' mp)) \<and>
      rgns v' r = (rgns v r)\<lparr>r_size := sz\<rparr>"
    and "\<not> res \<Longrightarrow> v' = w v" by auto
qed


lemma region_split_spec:
  assumes ok: "map_ok mp v" and r: "r \<in> set (rlist (maps v mp))" and fr: "r_flags (rgns v r) = REG_FREE"
    and sz: "0 < sz" "PAGE_SIZE dvd sz" "PAGE_SIZE dvd a"
    and in_r: "r_addr (rgns v r) \<le> a" "a + sz \<le> r_addr (rgns v r) + r_size (rgns v r)"
    and sp: "region_split mp r a sz v = (res, v')"
  shows "map_ok mp v' \<and>
    (case res of None \<Rightarrow> flags_at mp v' = flags_at mp v
     | Some n \<Rightarrow> n \<in> set (rlist (maps v' mp)) \<and> r_addr (rgns v' n) = a \<and> r_size (rgns v' n) = sz \<and>
         (\<forall>x. flags_at mp v' x = (if a \<le> x \<and> x < a + sz then Some 0 else flags_at mp v x)))"
proof -
  let ?d = "a - r_addr (rgns v r)" and ?P = "r_addr (rgns v r) \<noteq> a"
  have b: "r_addr (rgns v r) + r_size (rgns v r) \<le> UMEM_MAX" "PAGE_SIZE dvd r_addr (rgns v r)"
    using region_bounds [OF ok r] by simp_all
  have d: "?P \<Longrightarrow> 0 < ?d" "?d < r_size (rgns v r)" "PAGE_SIZE dvd ?d" "r_addr (rgns v r) + ?d = a"
    using in_r sz b by (auto simp: dvd_diff_nat)
  have m: "(r_size (rgns v r) + 2 ^ 32 - ?d) mod 2 ^ 32 = r_size (rgns v r) - ?d"
  proof -
    have "r_size (rgns v r) + 2 ^ 32 - ?d = (r_size (rgns v r) - ?d) + 2 ^ 32" using d(2) by simp
    then show ?thesis using b(1) by (simp only: mod_add_self2) (simp add: UMEM_MAX_def)
  qed
  define st where "st = (if ?P
      then (case region_create mp r a (r_size (rgns v r) - ?d) v of
              (None, v1) \<Rightarrow> (None, v1)
            | (Some reg, v1) \<Rightarrow> (Some reg, upd_region r (r_size_update (\<lambda>_. ?d)) v1))
      else (Some r, v))"
  obtain o1 v1 where st: "st = (o1, v1)" by fastforce
  have e: "region_split mp r a sz v =
     (case (o1, v1) of
           (None, v1) \<Rightarrow> (None, v1)
         | (Some reg, v1) \<Rightarrow>
             (case (if r_size (rgns v1 reg) \<noteq> sz
                    then (case region_create mp reg ((r_addr (rgns v1 reg) + sz) mod 2 ^ 32)
                                 ((r_size (rgns v1 reg) + 2 ^ 32 - sz) mod 2 ^ 32) v1 of
                            (None, v2) \<Rightarrow> (False, if ?P then region_free mp reg v2 else v2)
                          | (Some _, v2) \<Rightarrow> (True, upd_region reg (r_size_update (\<lambda>_. sz)) v2))
                    else (True, v1)) of
                (False, v2) \<Rightarrow> (None, v2)
              | (True, v2) \<Rightarrow> (Some reg, upd_region reg (r_flags_update (\<lambda>_. 0)) v2)))"
    unfolding region_split_def Let_def m st [symmetric] st_def ..
  have one: "case o1 of None \<Rightarrow> v1 = v
    | Some reg \<Rightarrow> map_ok mp v1 \<and> flags_at mp v1 = flags_at mp v \<and> reg \<in> set (rlist (maps v1 mp)) \<and>
        r_flags (rgns v1 reg) = REG_FREE \<and> r_addr (rgns v1 reg) = a \<and> sz \<le> r_size (rgns v1 reg)"
  proof (cases ?P)
    case False
    then have "o1 = Some r" "v1 = v" using st by (simp_all add: st_def)
    then show ?thesis using False ok r fr in_r by simp
  next
    case True
    obtain rc w where c: "region_create mp r (r_addr (rgns v r) + ?d) (r_size (rgns v r) - ?d) v = (rc, w)" by fastforce
    show ?thesis
    proof (cases rc)
      case None
      then show ?thesis using st True c d(4) region_create_None [of mp r] by (simp add: st_def)
    next
      case (Some n)
      have v1: "o1 = Some n" "v1 = upd_region r (r_size_update (\<lambda>_. ?d)) w"
        using st True c d(4) Some by (auto simp: st_def)
      show ?thesis
        using split_spec [OF ok r fr d(1) [OF True] d(2,3) c [unfolded Some] v1(2)] v1(1) d(4) in_r by simp
    qed
  qed
  show ?thesis
  proof (cases o1)
    case None
    then show ?thesis using one e sp ok by simp
  next
    case (Some reg)
    have g: "map_ok mp v1" "flags_at mp v1 = flags_at mp v" "reg \<in> set (rlist (maps v1 mp))"
      "r_flags (rgns v1 reg) = REG_FREE" "r_addr (rgns v1 reg) = a" "sz \<le> r_size (rgns v1 reg)"
      using one Some by simp_all
    obtain ok2 v2 where two: "(if r_size (rgns v1 reg) \<noteq> sz
                    then (case region_create mp reg ((r_addr (rgns v1 reg) + sz) mod 2 ^ 32)
                                 ((r_size (rgns v1 reg) + 2 ^ 32 - sz) mod 2 ^ 32) v1 of
                            (None, v2) \<Rightarrow> (False, if ?P then region_free mp reg v2 else v2)
                          | (Some _, v2) \<Rightarrow> (True, upd_region reg (r_size_update (\<lambda>_. sz)) v2))
                    else (True, v1)) = (ok2, v2)" by fastforce
    note u = region_split_upper [OF g(1,3,4) sz(1,2) g(6) two]
    show ?thesis
    proof (cases ok2)
      case True
      have h: "map_ok mp v2" "flags_at mp v2 = flags_at mp v1" "reg \<in> set (rlist (maps v2 mp))"
        "rgns v2 reg = (rgns v1 reg)\<lparr>r_size := sz\<rparr>" using u(1) True by auto
      have "res = Some reg" "v' = upd_region reg (r_flags_update (\<lambda>_. 0)) v2"
        using sp e Some two True by auto
      then show ?thesis using set_flags_spec [OF h(1,3), of 0] h g by simp
    next
      case False
      have v2: "v2 = (if ?P then region_free mp reg v1 else v1)" using u(2) False by simp
      have res: "res = None" "v' = v2" using sp e Some two False by auto
      have "flags_at mp (region_free mp reg v1) = flags_at mp v1"
        using region_free_spec(2) [OF g(1,3)] flags_at_region [OF g(1,3)] g(4) by (auto simp: fun_eq_iff)
      then show ?thesis using res v2 g region_free_spec(1) [OF g(1,3)] by simp
    qed
  qed
qed


section \<open>Allocation and release\<close>

lemma rw_not_free: "(REG_READ OR REG_WRITE) AND REG_FREE = 0"
  by (simp add: reg_defs)

lemma alloc_backing_spec:
  assumes ok: "map_ok mp v0" and r: "r \<in> set (rlist (maps v0 mp))"
    and al: "alloc_backing mp addr r sz v0 = (err, a, v')"
  shows "map_ok mp v' \<and> (\<forall>x. flags_at mp v' x =
      (if r_addr (rgns v0 r) \<le> x \<and> x < r_addr (rgns v0 r) + r_size (rgns v0 r)
       then Some (if err = 0 then REG_READ OR REG_WRITE else REG_FREE) else flags_at mp v0 x)) \<and>
    (err = 0 \<longrightarrow> a = r_addr (rgns v0 r) \<and> r \<in> set (rlist (maps v' mp)) \<and> r_addr (rgns v' r) = a \<and>
       r_size (rgns v' r) = r_size (rgns v0 r) \<and> (\<forall>i < r_size (rgns v0 r). pmem v' (r_phys (rgns v' r) + i) = 0))"
proof -
  let ?v = "upd_region r (r_flags_update (\<lambda>_. REG_READ OR REG_WRITE)) v0"
  let ?in = "\<lambda>x. r_addr (rgns v0 r) \<le> x \<and> x < r_addr (rgns v0 r) + r_size (rgns v0 r)"
  note f = set_flags_spec [OF ok r, of "REG_READ OR REG_WRITE", simplified rw_not_free, simplified]
  have fail: "map_ok mp (region_free mp r w) \<and>
      (\<forall>x. flags_at mp (region_free mp r w) x = (if ?in x then Some REG_FREE else flags_at mp v0 x))"
    if w: "vm_same ?v w" for w
  proof -
    have "map_ok mp w" "r \<in> set (rlist (maps w mp))"
      using vm_same_ok [OF w] f(1) r w by (simp_all add: vm_same_def)
    then show ?thesis
      using region_free_spec [of mp w r] vm_same_flags [OF w] f(2) w by (auto simp: vm_same_def)
  qed
  obtain ph v1 where p: "vm_page_alloc sz ?v = (ph, v1)" by fastforce
  have s1: "vm_same ?v v1" using vm_same_result(1) [OF p] .
  show ?thesis
  proof (cases "ph = None \<or> ph = Some 0")
    case True
    then have "err = ENOMEM" "v' = region_free mp r v1" using al p by (auto simp: alloc_backing_def Let_def)
    then show ?thesis using fail [OF s1] by (simp add: errno_defs)
  next
    case False
    then obtain phys where ph: "ph = Some phys" "phys \<noteq> 0" by auto
    obtain rc v2 where mm: "vm_mmu_map (pgd (maps v1 mp)) phys (r_addr (rgns v1 r)) sz PG_WRITE v1 = (rc, v2)"
      by fastforce
    have s2: "vm_same ?v v2" using vm_same_trans [OF s1 vm_same_result(2) [OF mm]] .
    show ?thesis
    proof (cases "rc = 0")
      case False
      then have "err = ENOMEM" "v' = region_free mp r (vm_page_free phys sz v2)"
        using al p ph mm by (auto simp: alloc_backing_def Let_def)
      moreover have "vm_same ?v (vm_page_free phys sz v2)" using s2 by (simp add: vm_same_def)
      ultimately show ?thesis using fail by (simp add: errno_defs)
    next
      case True
      have e: "err = 0" "a = r_addr (rgns v2 r)"
        "v' = pmem_zero phys (r_size (rgns v2 r)) (upd_region r (r_phys_update (\<lambda>_. phys)) v2)"
        using al p ph mm True by (auto simp: alloc_backing_def Let_def)
      have rg: "rgns v2 = rgns ?v" using s2 by (simp add: vm_same_def)
      have s3: "vm_same (upd_region r (r_phys_update (\<lambda>_. phys)) v2) v'" unfolding e(3) by simp
      have "map_ok mp v'" using vm_same_ok [OF s3] upd_phys_same(1) vm_same_ok [OF s2] f(1) by simp
      moreover have "flags_at mp v' = flags_at mp ?v"
        using vm_same_flags [OF s3] upd_phys_same(2) vm_same_flags [OF s2] by simp
      moreover have "pmem v' (r_phys (rgns v' r) + i) = 0" if "i < r_size (rgns v0 r)" for i
        using that rg by (simp add: e(3) pmem_zero_def)
      moreover have "r \<in> set (rlist (maps v' mp))" "r_addr (rgns v' r) = r_addr (rgns v0 r)"
        "r_size (rgns v' r) = r_size (rgns v0 r)"
        using s2 r rg by (simp_all add: e(3) vm_same_def)
      ultimately show ?thesis using f(2) e(1,2) rg by simp
    qed
  qed
qed

text \<open>Backing a region that was carved out of free space.\<close>

lemma alloc_backing_free:
  assumes ok: "map_ok mp v1" and r: "r \<in> set (rlist (maps v1 mp))" "r_size (rgns v1 r) = n"
    and fl: "\<And>x. \<not> (r_addr (rgns v1 r) \<le> x \<and> x < r_addr (rgns v1 r) + n) \<Longrightarrow> flags_at mp v1 x = flags_at mp v x"
    and fr: "\<And>x. r_addr (rgns v1 r) \<le> x \<and> x < r_addr (rgns v1 r) + n \<Longrightarrow> flags_at mp v x = Some REG_FREE"
    and al: "alloc_backing mp addr r n v1 = (err, a, v')"
  shows "map_ok mp v' \<and>
    (if err = 0
     then a = r_addr (rgns v1 r) \<and>
       (\<forall>x. flags_at mp v' x = (if a \<le> x \<and> x < a + n then Some (REG_READ OR REG_WRITE) else flags_at mp v x)) \<and>
       (\<forall>x. a \<le> x \<and> x < a + n \<longrightarrow> flags_at mp v x = Some REG_FREE) \<and>
       (\<exists>r \<in> set (rlist (maps v' mp)). r_addr (rgns v' r) = a \<and> r_size (rgns v' r) = n \<and>
         (\<forall>i < n. pmem v' (r_phys (rgns v' r) + i) = 0))
     else flags_at mp v' = flags_at mp v)"
proof (cases "err = 0")
  case True
  then show ?thesis using alloc_backing_spec [OF ok r(1) al] r(2) fl fr by auto
next
  case False
  then have "flags_at mp v' x = flags_at mp v x" for x
    using alloc_backing_spec [OF ok r(1) al] r(2) fl [of x] fr [of x] by auto
  then show ?thesis using False alloc_backing_spec [OF ok r(1) al] by auto
qed



lemma seg_mem_bounds: "seg_ok lo hi zs \<Longrightarrow> (a, s, f) \<in> set zs \<Longrightarrow> lo \<le> a \<and> a + s \<le> hi"
proof (induction zs arbitrary: lo)
  case (Cons z zs)
  obtain b t g where z: "z = (b, t, g)" by (cases z)
  show ?case
  proof (cases "(a, s, f) = z")
    case True
    then show ?thesis using Cons.prems z seg_ok_le [of "b + t" hi zs] by auto
  next
    case False
    then have "(a, s, f) \<in> set zs" "seg_ok (b + t) hi zs" using Cons.prems z by auto
    then show ?thesis using Cons.IH [of "b + t"] Cons.prems z by auto
  qed
qed simp

lemma region_unique:
  assumes ok: "map_ok mp v" and r: "r \<in> set (rlist (maps v mp))" and q: "q \<in> set (rlist (maps v mp))"
    and xr: "r_addr (rgns v r) \<le> x" "x < r_addr (rgns v r) + r_size (rgns v r)"
    and xq: "r_addr (rgns v q) \<le> x" "x < r_addr (rgns v q) + r_size (rgns v q)"
  shows "q = r"
proof (rule ccontr)
  assume ne: "q \<noteq> r"
  obtain xs ys where l: "rlist (maps v mp) = xs @ r # ys" using r by (meson split_list)
  have "seg_ok PAGE_SIZE UMEM_MAX (map (seg_of v) xs @ seg_of v r # map (seg_of v) ys)"
    using ok segs_split [OF l] by (simp add: map_ok_def)
  then have s: "seg_ok PAGE_SIZE (r_addr (rgns v r)) (map (seg_of v) xs)"
    "seg_ok (r_addr (rgns v r) + r_size (rgns v r)) UMEM_MAX (map (seg_of v) ys)"
    by (simp_all add: seg_of_def seg_ok_mid)
  have "q \<in> set xs \<or> q \<in> set ys" using q l ne by auto
  then have "(r_addr (rgns v q), r_size (rgns v q), r_flags (rgns v q)) \<in> set (map (seg_of v) xs) \<or>
      (r_addr (rgns v q), r_size (rgns v q), r_flags (rgns v q)) \<in> set (map (seg_of v) ys)"
    by (auto simp: seg_of_def [symmetric])
  then show False using seg_mem_bounds [OF s(1)] seg_mem_bounds [OF s(2)] xr xq by fastforce
qed

lemma region_find_at:
  assumes ok: "map_ok mp v" and r: "r \<in> set (rlist (maps v mp))"
    and x: "r_addr (rgns v r) \<le> x" "x < r_addr (rgns v r) + r_size (rgns v r)"
  shows "region_find mp x 1 v = Some r"
proof -
  have b: "x + 1 \<le> UMEM_MAX" using region_bounds(1) [OF ok r] x by simp
  have "\<exists>q \<in> set (rlist (maps v mp)). r_addr (rgns v q) \<le> x \<and>
      (x + 1) mod 2 ^ 32 \<le> (r_addr (rgns v q) + r_size (rgns v q)) mod 2 ^ 32"
    using r x region_bounds(1) [OF ok r] by (intro bexI [of _ r]) (auto simp: UMEM_MAX_def)
  then obtain q where q: "region_find mp x 1 v = Some q"
    by (cases "region_find mp x 1 v") (auto simp: region_find_def find_None_iff)
  note s = region_find_spec [OF ok q b]
  show ?thesis using q region_unique [OF ok r s(1) x s(2)] s(3) by simp
qed

text \<open>
  C28: Releasing user memory. The call succeeds exactly on the start of an allocated
  region, which becomes free; nothing else of the address space changes, and a failed
  call changes nothing at all.
\<close>

theorem do_free_spec:
  assumes "map_ok mp v" and "addr < UMEM_MAX" and "do_free mp addr v = (err, v')"
  shows "if \<exists>r \<in> set (rlist (maps v mp)). r_addr (rgns v r) = PAGE_TRUNC addr \<and> r_flags (rgns v r) AND REG_FREE = 0
    then err = 0 \<and> map_ok mp v' \<and>
      (\<exists>r \<in> set (rlist (maps v mp)). r_addr (rgns v r) = PAGE_TRUNC addr \<and>
        (\<forall>x. flags_at mp v' x = (if r_addr (rgns v r) \<le> x \<and> x < r_addr (rgns v r) + r_size (rgns v r)
                                 then Some REG_FREE else flags_at mp v x)))
    else err = EINVAL \<and> v' = v"
proof (cases "\<exists>r \<in> set (rlist (maps v mp)). r_addr (rgns v r) = PAGE_TRUNC addr \<and> r_flags (rgns v r) AND REG_FREE = 0")
  case True
  then obtain r where r: "r \<in> set (rlist (maps v mp))" "r_addr (rgns v r) = PAGE_TRUNC addr"
    "r_flags (rgns v r) AND REG_FREE = 0" by blast
  have f: "region_find mp (PAGE_TRUNC addr) 1 v = Some r"
    using region_find_at [OF assms(1) r(1)] r(2) region_bounds(2) [OF assms(1) r(1)] by simp
  let ?g = "rgns v r"
  let ?v1 = "snd (vm_mmu_map (pgd (maps v mp)) (r_phys ?g) (r_addr ?g) (r_size ?g) PG_UNMAP v)"
  let ?v2 = "if r_flags ?g AND REG_SHARED = 0 \<and> r_flags ?g AND REG_MAPPED = 0
             then vm_page_free (r_phys ?g) (r_size ?g) ?v1 else ?v1"
  have e: "err = 0" "v' = region_free mp r ?v2"
    using assms(3) f r by (auto simp: do_free_def Let_def)
  have s: "vm_same v ?v2" by (simp add: vm_same_def)
  have "map_ok mp ?v2" "r \<in> set (rlist (maps ?v2 mp))" using vm_same_ok [OF s] assms(1) r(1) s by (simp_all add: vm_same_def)
  note q = region_free_spec [OF this]
  have rg: "rgns ?v2 = rgns v" using s by (simp add: vm_same_def)
  show ?thesis
    unfolding if_P [OF True] using e q r rg vm_same_flags [OF s] by auto
next
  case False
  have "err = EINVAL \<and> v' = v"
  proof (cases "region_find mp (PAGE_TRUNC addr) 1 v")
    case None
    then show ?thesis using assms(3) by (simp add: do_free_def Let_def)
  next
    case (Some r)
    have "PAGE_TRUNC addr + 1 \<le> UMEM_MAX" using assms(2) PAGE_TRUNC_le [of addr] by linarith
    then have "r \<in> set (rlist (maps v mp))" using region_find_spec(1) [OF assms(1) Some] by blast
    then show ?thesis using assms(3) Some False by (auto simp: do_free_def Let_def split: if_splits)
  qed
  then show ?thesis unfolding if_not_P [OF False] .
qed


text \<open>A fresh map over 64 KB of page memory.\<close>

definition example_vm :: vmstate where
  "example_vm = region_init 0x80005000
     \<lparr>mmu_st = example_mmu, rgns = \<lambda>_. \<lparr>r_addr = 0, r_size = 0, r_flags = 0, r_phys = 0, sh_prev = 0, sh_next = 0\<rparr>,
      maps = \<lambda>_. \<lparr>rlist = [], refcnt = 1, pgd = BOOT_PGD\<rparr>,
      vpool = [0x80006000, 0x80007000, 0x80008000], pmem = \<lambda>_. 7, kern_map = 0x80009000\<rparr>"

lemma example_vm_ok: "map_ok 0x80005000 example_vm"
  by (simp add: map_ok_def segs_def seg_of_def example_vm_def region_init_def upd_map_def upd_region_def
      UMEM_MAX_def PAGE_SIZE_def)

lemma example_alloc: "fst (do_allocate 0x80005000 0x4000 100 False example_vm) = 0"
proof -
  have p1: "vm_page_alloc 0x1000 w = (Some 0x100000, w\<lparr>mmu_st := (mmu_st w)\<lparr>mmu_pool := (mmu_pool (mmu_st w))\<lparr>pages_free := [(0x80101000, 0xf000)]\<rparr>\<rparr>\<rparr>)"
    if "pages_free (mmu_pool (mmu_st w)) = [(0x80100000, 0x10000)]" for w
    using that by (simp add: vm_page_alloc_def page_alloc_def PAGE_ALIGN_def PAGE_SIZE_def Let_def virt_to_phys_def PAGE_OFFSET_def)
  have p2: "fst (mmu_map g pa va 0x1000 ty m) = 0"
    if "pages_free (mmu_pool m) = [(0x80101000, 0xf000)]" for g pa va ty m
    using that by (simp add: mmu_map_def PAGE_TRUNC_def PAGE_ALIGN_def PAGE_SIZE_def map_page_def page_alloc_def
        Let_def numeral_eq_Suc [of "num.One"] split: prod.split option.split)
  have p3: "vm_mmu_map g pa va 0x1000 ty w = (0, w\<lparr>mmu_st := snd (mmu_map g pa va 0x1000 ty (mmu_st w))\<rparr>)"
    if "pages_free (mmu_pool (mmu_st w)) = [(0x80101000, 0xf000)]" for g pa va ty w
    using p2 [OF that, of g pa va ty] by (cases "mmu_map g pa va 0x1000 ty (mmu_st w)") (simp add: vm_mmu_map_def)
  show ?thesis
    by (simp add: do_allocate_def Let_def PAGE_TRUNC_def PAGE_ALIGN_def PAGE_SIZE_def example_vm_def region_init_def
        upd_map_def upd_region_def region_find_def region_split_def region_create_def vm_kmem_alloc_def
        UMEM_MAX_def free_not_shared alloc_backing_def p1 p3 example_mmu_def)
qed


text \<open>The same map with one page allocated at its start.\<close>

definition example_used :: vmstate where
  "example_used = example_vm\<lparr>
     rgns := (rgns example_vm)(0x80005000 := \<lparr>r_addr = 0x1000, r_size = 0x1000, r_flags = REG_READ OR REG_WRITE,
                                 r_phys = 0x200000, sh_prev = 0x80005000, sh_next = 0x80005000\<rparr>,
                               0x80006000 := \<lparr>r_addr = 0x2000, r_size = 0x7fffe000, r_flags = REG_FREE, r_phys = 0,
                                 sh_prev = 0x80006000, sh_next = 0x80006000\<rparr>),
     maps := (maps example_vm)(0x80005000 := \<lparr>rlist = [0x80005000, 0x80006000], refcnt = 1, pgd = BOOT_PGD\<rparr>),
     vpool := [0x80007000, 0x80008000]\<rparr>"

theorem do_free_spec_witness:
  "\<exists>v'. do_free 0x80005000 0x1234 example_used = (0, v') \<and> map_ok 0x80005000 v' \<and>
     flags_at 0x80005000 v' 0x1fff = Some REG_FREE"
proof -
  obtain err v' where r: "do_free 0x80005000 0x1234 example_used = (err, v')" by fastforce
  have ok: "map_ok 0x80005000 example_used"
    by (simp add: map_ok_def segs_def seg_of_def example_used_def UMEM_MAX_def PAGE_SIZE_def REG_FREE_def
        REG_READ_def REG_WRITE_def)
  have ex: "rlist (maps example_used 0x80005000) = [0x80005000, 0x80006000]"
    "rgns example_used 0x80005000 = \<lparr>r_addr = 0x1000, r_size = 0x1000, r_flags = REG_READ OR REG_WRITE,
       r_phys = 0x200000, sh_prev = 0x80005000, sh_next = 0x80005000\<rparr>"
    "r_addr (rgns example_used 0x80006000) = 0x2000" "PAGE_TRUNC 0x1234 = 0x1000"
    by (simp_all add: example_used_def PAGE_TRUNC_def PAGE_SIZE_def)
  have u: "(0x1234 :: nat) < UMEM_MAX" by (simp add: UMEM_MAX_def)
  show ?thesis
    using r do_free_spec [OF ok u r] by (simp add: ex REG_FREE_def REG_READ_def REG_WRITE_def)
qed

end
