(* ===== verification/Kmem.thy ===== *)
theory Kmem
  imports Vm_Inv
begin

text \<open>
  The kernel's memory allocator, \<^verbatim>\<open>sys/mem/kmem.c\<close>, on top of the kernel page allocator. Block and page
  headers are stores indexed by their address; the blocks that a page links through \<^verbatim>\<open>pg_next\<close> are
  the list \<open>pg_blks\<close>. The scheduler lock around the two operations and the assertions of \<^verbatim>\<open>kmem_check\<close>,
  which the invariant \<open>kmem_ok\<close> implies, are left out. What the allocator promises its clients is the
  locale \<open>allocator\<close>.
\<close>

section \<open>The operations\<close>

definition ALIGN_SIZE :: nat where "ALIGN_SIZE = 16"
definition ALLOC_MAGIC :: nat where "ALLOC_MAGIC = 0xcafe"
definition FREE_MAGIC :: nat where "FREE_MAGIC = 0xdead"
definition PAGE_MAGIC :: nat where "PAGE_MAGIC = 0xbeef"
definition BLKHDR_SIZE :: nat where "BLKHDR_SIZE = 16"
definition PGHDR_SIZE :: nat where "PGHDR_SIZE = 28"
definition MAX_ALLOC_SIZE :: nat where "MAX_ALLOC_SIZE = PAGE_SIZE - PGHDR_SIZE"
definition MIN_BLOCK_SIZE :: nat where "MIN_BLOCK_SIZE = BLKHDR_SIZE + 16"
definition MAX_BLOCK_SIZE :: nat where "MAX_BLOCK_SIZE = PAGE_SIZE - (PGHDR_SIZE - BLKHDR_SIZE)"
definition NR_BLOCK_LIST :: nat where "NR_BLOCK_LIST = PAGE_SIZE div ALIGN_SIZE"

lemmas kmem_sizes = ALIGN_SIZE_def BLKHDR_SIZE_def PGHDR_SIZE_def MAX_ALLOC_SIZE_def MIN_BLOCK_SIZE_def
  MAX_BLOCK_SIZE_def NR_BLOCK_LIST_def PAGE_SIZE_def

definition ALLOC_ALIGN :: "nat \<Rightarrow> nat" where
  "ALLOC_ALIGN n = ((n + (ALIGN_SIZE - 1)) mod 2 ^ 32) div ALIGN_SIZE * ALIGN_SIZE"

definition PAGE_TOP :: "nat \<Rightarrow> nat" where
  "PAGE_TOP a = a div PAGE_SIZE * PAGE_SIZE"

record block_hdr =
  bk_magic :: nat
  bk_size :: nat

record page_hdr =
  pg_magic :: nat
  nallocs :: nat
  pg_blks :: "nat list"

record kmem =
  blocks :: "nat \<Rightarrow> block_hdr"
  kpages :: "nat \<Rightarrow> page_hdr"
  free_blocks :: "nat \<Rightarrow> nat list"
  kmem_pages :: "nat list"
  kpool :: page_pool

definition BLKIDX :: "nat \<Rightarrow> kmem \<Rightarrow> nat" where
  "BLKIDX b k = bk_size (blocks k b) div 16"

definition upd_block :: "nat \<Rightarrow> (block_hdr \<Rightarrow> block_hdr) \<Rightarrow> kmem \<Rightarrow> kmem" where
  "upd_block b f k = k\<lparr>blocks := (blocks k)(b := f (blocks k b))\<rparr>"

definition upd_page :: "nat \<Rightarrow> (page_hdr \<Rightarrow> page_hdr) \<Rightarrow> kmem \<Rightarrow> kmem" where
  "upd_page pg f k = k\<lparr>kpages := (kpages k)(pg := f (kpages k pg))\<rparr>"

definition free_link :: "nat \<Rightarrow> kmem \<Rightarrow> kmem" where
  "free_link b k = k\<lparr>free_blocks := (free_blocks k)(BLKIDX b k := b # free_blocks k (BLKIDX b k))\<rparr>"

definition free_unlink :: "nat \<Rightarrow> kmem \<Rightarrow> kmem" where
  "free_unlink b k = k\<lparr>free_blocks := (\<lambda>i. remove1 b (free_blocks k i))\<rparr>"

fun block_search :: "(nat \<Rightarrow> nat list) \<Rightarrow> nat \<Rightarrow> nat \<Rightarrow> nat option" where
  "block_search fl 0 i = None"
| "block_search fl (Suc n) i = (if fl i \<noteq> [] then Some (hd (fl i)) else block_search fl n (i + 1))"

definition block_find :: "nat \<Rightarrow> kmem \<Rightarrow> nat option" where
  "block_find sz k = block_search (free_blocks k) (NR_BLOCK_LIST - sz div 16) (sz div 16)"

datatype kmem_res = KPtr nat | KNull | KPanic

definition split_block :: "nat \<Rightarrow> nat \<Rightarrow> nat \<Rightarrow> kmem \<Rightarrow> kmem" where
  "split_block b pg sz k =
     (let newblk = (b + sz) mod 2 ^ 32;
          rest = (bk_size (blocks k b) + 2 ^ 32 - sz) mod 2 ^ 32;
          k1 = upd_block newblk (\<lambda>_. \<lparr>bk_magic = FREE_MAGIC, bk_size = rest mod 2 ^ 16\<rparr>) k;
          k2 = free_link newblk k1;
          k3 = upd_page pg (pg_blks_update (insert_after b newblk)) k2
      in upd_block b (bk_size_update (\<lambda>_. sz mod 2 ^ 16)) k3)"

definition take_block :: "nat \<Rightarrow> nat \<Rightarrow> nat \<Rightarrow> kmem \<Rightarrow> kmem_res \<times> kmem" where
  "take_block b pg sz k =
     (if pg_magic (kpages k pg) \<noteq> PAGE_MAGIC \<or> bk_magic (blocks k b) \<noteq> FREE_MAGIC then (KPanic, k)
      else let k1 = (if MIN_BLOCK_SIZE \<le> (bk_size (blocks k b) + 2 ^ 32 - sz) mod 2 ^ 32 then split_block b pg sz k else k);
               k2 = upd_block b (bk_magic_update (\<lambda>_. ALLOC_MAGIC)) k1;
               k3 = upd_page pg (nallocs_update (\<lambda>n. (n + 1) mod 2 ^ 16)) k2
           in (KPtr (b + BLKHDR_SIZE), k3))"

definition new_page :: "nat \<Rightarrow> kmem \<Rightarrow> kmem" where
  "new_page pg k =
     (let b = pg + (PGHDR_SIZE - BLKHDR_SIZE);
          k1 = upd_page pg (\<lambda>_. \<lparr>pg_magic = PAGE_MAGIC, nallocs = 0, pg_blks = [b]\<rparr>) k;
          k2 = k1\<lparr>kmem_pages := pg # kmem_pages k1\<rparr>
      in upd_block b (\<lambda>_. \<lparr>bk_magic = FREE_MAGIC, bk_size = MAX_BLOCK_SIZE\<rparr>) k2)"

text \<open>A kernel page at physical address 0 would be taken for a failure, as the source does.\<close>

definition kmem_alloc :: "nat \<Rightarrow> kmem \<Rightarrow> kmem_res \<times> kmem" where
  "kmem_alloc n k =
     (let sz = ALLOC_ALIGN ((n + BLKHDR_SIZE) mod 2 ^ 32)
      in case block_find sz k of
           Some b \<Rightarrow> take_block b (PAGE_TOP b) sz (free_unlink b k)
         | None \<Rightarrow>
             (case kpage_alloc PAGE_SIZE (kpool k) of
                (None, kp) \<Rightarrow> (KNull, k\<lparr>kpool := kp\<rparr>)
              | (Some pa, kp) \<Rightarrow>
                  if pa = 0 then (KNull, k\<lparr>kpool := kp\<rparr>)
                  else let pg = phys_to_virt pa
                       in take_block (pg + (PGHDR_SIZE - BLKHDR_SIZE)) pg sz (new_page pg (k\<lparr>kpool := kp\<rparr>))))"

fun drop_blocks :: "nat list \<Rightarrow> kmem \<Rightarrow> kmem" where
  "drop_blocks [] k = k"
| "drop_blocks (b # bs) k = drop_blocks bs (upd_block b (bk_magic_update (\<lambda>_. 0)) (free_unlink b k))"

definition release_page :: "nat \<Rightarrow> kmem \<Rightarrow> kmem" where
  "release_page pg k =
     (let k1 = drop_blocks (pg_blks (kpages k pg)) k;
          k2 = k1\<lparr>kmem_pages := remove1 pg (kmem_pages k1)\<rparr>;
          k3 = upd_page pg (pg_magic_update (\<lambda>_. 0)) k2
      in k3\<lparr>kpool := kpage_free (virt_to_phys pg) PAGE_SIZE (kpool k3)\<rparr>)"

text \<open>\<open>None\<close>: the kernel panics on an address that is not an allocated block.\<close>

definition kmem_free :: "nat \<Rightarrow> kmem \<Rightarrow> kmem option" where
  "kmem_free p k =
     (let b = (p + 2 ^ 32 - BLKHDR_SIZE) mod 2 ^ 32
      in if bk_magic (blocks k b) \<noteq> ALLOC_MAGIC then None
         else let k1 = free_link b (upd_block b (bk_magic_update (\<lambda>_. FREE_MAGIC)) k);
                  pg = PAGE_TOP b;
                  k2 = upd_page pg (nallocs_update (\<lambda>n. (n + (2 ^ 16 - 1)) mod 2 ^ 16)) k1
              in Some (if nallocs (kpages k2 pg) \<le> 0 then release_page pg k2 else k2))"

definition kmem_init :: "kmem \<Rightarrow> kmem" where
  "kmem_init k = k\<lparr>kmem_pages := [], free_blocks := (\<lambda>_. [])\<rparr>"

section \<open>Blocks that tile a page\<close>

fun chain :: "(nat \<Rightarrow> nat) \<Rightarrow> nat \<Rightarrow> nat list \<Rightarrow> nat \<Rightarrow> bool" where
  "chain f a [] e = (a = e)"
| "chain f a (b # bs) e = (b = a \<and> MIN_BLOCK_SIZE \<le> f b \<and> chain f (a + f b) bs e)"

lemma chain_append: "chain f a (xs @ ys) e \<longleftrightarrow> (\<exists>m. chain f a xs m \<and> chain f m ys e)"
  by (induction xs arbitrary: a) auto

lemma chain_le: "chain f a bs e \<Longrightarrow> a + MIN_BLOCK_SIZE * length bs \<le> e"
proof (induction bs arbitrary: a)
  case (Cons b bs)
  then have "a + f b + MIN_BLOCK_SIZE * length bs \<le> e" "MIN_BLOCK_SIZE \<le> f b" by auto
  then show ?case by (simp add: algebra_simps)
qed simp

lemma chain_bounds: "chain f a bs e \<Longrightarrow> b \<in> set bs \<Longrightarrow> a \<le> b \<and> b + f b \<le> e \<and> MIN_BLOCK_SIZE \<le> f b"
proof (induction bs arbitrary: a)
  case (Cons x bs)
  then have "chain f (a + f x) bs e" by auto
  from chain_le [OF this] have "a + f x \<le> e" by linarith
  then show ?case using Cons.prems Cons.IH [of "a + f x"] by (cases "b = x") auto
qed simp

lemma chain_order:
  "chain f a bs e \<Longrightarrow> b \<in> set bs \<Longrightarrow> c \<in> set bs \<Longrightarrow> b \<noteq> c \<Longrightarrow> b + f b \<le> c \<or> c + f c \<le> b"
proof (induction bs arbitrary: a)
  case (Cons x bs)
  have "\<forall>d \<in> set bs. x + f x \<le> d" using chain_bounds [of f "a + f x" bs e] Cons.prems(1) by auto
  then show ?case using Cons by auto
qed simp

lemma chain_distinct: "chain f a bs e \<Longrightarrow> distinct bs"
proof (induction bs arbitrary: a)
  case (Cons x bs)
  have "\<forall>d \<in> set bs. x + f x \<le> d" "0 < f x"
    using chain_bounds [of f "a + f x" bs e] Cons.prems by (auto simp: kmem_sizes)
  then show ?case using Cons by force
qed simp

lemma chain_cong: "\<forall>b \<in> set bs. f b = g b \<Longrightarrow> chain f a bs e = chain g a bs e"
  by (induction bs arbitrary: a) auto

lemma chain_split:
  assumes "chain f a (xs @ b # ys) e" "MIN_BLOCK_SIZE \<le> s" "s + MIN_BLOCK_SIZE \<le> f b"
  shows "chain (f(b := s, b + s := f b - s)) a (xs @ b # (b + s) # ys) e"
proof -
  let ?g = "f(b := s, b + s := f b - s)"
  obtain m where m: "chain f a xs m" "chain f m (b # ys) e" using assms(1) unfolding chain_append by blast
  have b: "b = m" "chain f (b + f b) ys e" using m(2) by auto
  have "\<forall>x \<in> set xs. x + f x \<le> b" "\<forall>y \<in> set ys. b + f b \<le> y" "0 < MIN_BLOCK_SIZE"
    using chain_bounds [OF m(1)] chain_bounds [OF b(2)] b(1) by (auto simp: kmem_sizes)
  then have "\<forall>x \<in> set xs. ?g x = f x" "\<forall>y \<in> set ys. ?g y = f y"
    using chain_bounds [OF m(1)] assms(2,3) by fastforce+
  then have "chain ?g a xs m" "chain ?g (b + f b) ys e" using m(1) b(2) by (simp_all add: chain_cong [of _ ?g f])
  then show ?thesis using b(1) assms(2,3) \<open>0 < MIN_BLOCK_SIZE\<close> unfolding chain_append by auto
qed

lemma remove1_fst:
  "distinct (map fst h) \<Longrightarrow> (p, n) \<in> set h \<Longrightarrow>
   set (remove1 (p, n) h) = {x \<in> set h. fst x \<noteq> p} \<and> distinct (map fst (remove1 (p, n) h))"
  by (induction h) (force simp: image_iff)+

lemma filter_count:
  "distinct bs \<Longrightarrow> b \<in> set bs \<Longrightarrow> \<not> P b \<Longrightarrow> length (filter (\<lambda>x. x = b \<or> P x) bs) = Suc (length (filter P bs))"
proof (induction bs)
  case (Cons x bs)
  show ?case
  proof (cases "x = b")
    case True
    then have "filter (\<lambda>x. x = b \<or> P x) bs = filter P bs" using Cons.prems(1) by (auto intro: filter_cong)
    then show ?thesis using True Cons.prems by simp
  next
    case False
    then show ?thesis using Cons by auto
  qed
qed simp

section \<open>The invariant\<close>

abbreviation blk_size :: "kmem \<Rightarrow> nat \<Rightarrow> nat" where "blk_size k b \<equiv> bk_size (blocks k b)"
abbreviation blk_magic :: "kmem \<Rightarrow> nat \<Rightarrow> nat" where "blk_magic k b \<equiv> bk_magic (blocks k b)"
abbreviation blks :: "kmem \<Rightarrow> nat \<Rightarrow> nat list" where "blks k pg \<equiv> pg_blks (kpages k pg)"

definition in_page :: "kmem \<Rightarrow> nat \<Rightarrow> bool" where
  "in_page k b = (PAGE_TOP b \<in> set (kmem_pages k) \<and> b \<in> set (blks k (PAGE_TOP b)))"

definition page_ok :: "kmem \<Rightarrow> nat \<Rightarrow> bool" where
  "page_ok k pg = (PAGE_SIZE dvd pg \<and> pg_magic (kpages k pg) = PAGE_MAGIC \<and>
     chain (blk_size k) (pg + 12) (blks k pg) (pg + PAGE_SIZE) \<and>
     (\<forall>b \<in> set (blks k pg). blk_magic k b \<in> {ALLOC_MAGIC, FREE_MAGIC}) \<and>
     nallocs (kpages k pg) = length (filter (\<lambda>b. blk_magic k b = ALLOC_MAGIC) (blks k pg)))"

text \<open>
  \<open>kmem_core X\<close>: everything but the free lists of the blocks in \<open>X\<close>, which an operation has in hand,
  and but the rule that a page is given back with its last block.
\<close>

definition kmem_core :: "nat set \<Rightarrow> kmem \<Rightarrow> bool" where
  "kmem_core X k = (distinct (kmem_pages k) \<and> pool_wf (kpool k) \<and>
     (\<forall>pg \<in> set (kmem_pages k). page_ok k pg \<and> {pg ..< pg + PAGE_SIZE} \<subseteq> {PAGE_OFFSET ..< 2 ^ 32} \<and>
        {pg ..< pg + PAGE_SIZE} \<inter> free_bytes (pages_free (kpool k)) = {}) \<and>
     (\<forall>i. distinct (free_blocks k i)) \<and>
     (\<forall>i b. b \<in> set (free_blocks k i) \<longleftrightarrow> b \<notin> X \<and> i = BLKIDX b k \<and> blk_magic k b = FREE_MAGIC \<and> in_page k b))"

definition kmem_ok :: "kmem \<Rightarrow> bool" where
  "kmem_ok k = (kmem_core {} k \<and> (\<forall>pg \<in> set (kmem_pages k). 0 < nallocs (kpages k pg)))"

text \<open>The abstraction: the blocks handed out, as pairs of an address and a length.\<close>

definition live :: "kmem \<Rightarrow> (nat \<times> nat) set" where
  "live k = {(b + BLKHDR_SIZE, blk_size k b - BLKHDR_SIZE) | b. in_page k b \<and> blk_magic k b = ALLOC_MAGIC}"

lemma kmem_proj [simp]:
  "blocks (upd_block b f k) = (blocks k)(b := f (blocks k b))" "kpages (upd_block b f k) = kpages k"
  "free_blocks (upd_block b f k) = free_blocks k" "kmem_pages (upd_block b f k) = kmem_pages k" "kpool (upd_block b f k) = kpool k"
  "blocks (upd_page pg g k) = blocks k" "kpages (upd_page pg g k) = (kpages k)(pg := g (kpages k pg))"
  "free_blocks (upd_page pg g k) = free_blocks k" "kmem_pages (upd_page pg g k) = kmem_pages k" "kpool (upd_page pg g k) = kpool k"
  "blocks (free_link b k) = blocks k" "kpages (free_link b k) = kpages k" "kmem_pages (free_link b k) = kmem_pages k"
  "kpool (free_link b k) = kpool k" "free_blocks (free_link b k) = (free_blocks k)(BLKIDX b k := b # free_blocks k (BLKIDX b k))"
  "blocks (free_unlink b k) = blocks k" "kpages (free_unlink b k) = kpages k" "kmem_pages (free_unlink b k) = kmem_pages k"
  "kpool (free_unlink b k) = kpool k" "free_blocks (free_unlink b k) = (\<lambda>i. remove1 b (free_blocks k i))"
  by (simp_all add: upd_block_def upd_page_def free_link_def free_unlink_def)

lemma magic_distinct [simp]: "ALLOC_MAGIC \<noteq> FREE_MAGIC" "FREE_MAGIC \<noteq> ALLOC_MAGIC" "ALLOC_MAGIC \<noteq> 0" "FREE_MAGIC \<noteq> 0"
  by (simp_all add: ALLOC_MAGIC_def FREE_MAGIC_def)

lemma PAGE_TOP_in: "PAGE_SIZE dvd pg \<Longrightarrow> pg \<le> a \<Longrightarrow> a < pg + PAGE_SIZE \<Longrightarrow> PAGE_TOP a = pg"
  by (auto simp: PAGE_TOP_def PAGE_SIZE_def elim!: dvdE)

lemma page_okD:
  assumes "page_ok k pg" "b \<in> set (blks k pg)"
  shows "pg + 12 \<le> b" "b + blk_size k b \<le> pg + PAGE_SIZE" "32 \<le> blk_size k b" "PAGE_TOP b = pg" "blk_size k b \<le> 4084"
proof -
  note c = chain_bounds [of "blk_size k" "pg + 12" "blks k pg" "pg + PAGE_SIZE" b]
  show *: "pg + 12 \<le> b" "b + blk_size k b \<le> pg + PAGE_SIZE" "32 \<le> blk_size k b"
    using c assms by (auto simp: page_ok_def kmem_sizes)
  then show "PAGE_TOP b = pg" "blk_size k b \<le> 4084" using assms(1) PAGE_TOP_in [of pg b] by (auto simp: page_ok_def PAGE_SIZE_def)
qed

lemma nallocs_bound: "page_ok k pg \<Longrightarrow> nallocs (kpages k pg) < 128"
proof -
  assume p: "page_ok k pg"
  then have "12 + 32 * length (blks k pg) \<le> 4096" using chain_le [of "blk_size k" "pg + 12" "blks k pg" "pg + PAGE_SIZE"]
    by (simp add: page_ok_def kmem_sizes)
  moreover have "nallocs (kpages k pg) \<le> length (blks k pg)" using p by (simp add: page_ok_def)
  ultimately show ?thesis by linarith
qed

lemma in_page_iff:
  "\<forall>pg \<in> set (kmem_pages k). page_ok k pg \<Longrightarrow> pg \<in> set (kmem_pages k) \<Longrightarrow> b \<in> set (blks k pg) \<Longrightarrow> in_page k b"
  using page_okD(4) by (auto simp: in_page_def)

section \<open>Each step of an operation\<close>

lemma coreD:
  assumes "kmem_core X k"
  shows "distinct (kmem_pages k)" "pool_wf (kpool k)" "\<And>pg. pg \<in> set (kmem_pages k) \<Longrightarrow> page_ok k pg"
    "\<And>pg. pg \<in> set (kmem_pages k) \<Longrightarrow> {pg ..< pg + PAGE_SIZE} \<subseteq> {PAGE_OFFSET ..< 2 ^ 32}"
    "\<And>pg. pg \<in> set (kmem_pages k) \<Longrightarrow> {pg ..< pg + PAGE_SIZE} \<inter> free_bytes (pages_free (kpool k)) = {}"
    "\<And>i. distinct (free_blocks k i)"
    "\<And>i b. b \<in> set (free_blocks k i) \<longleftrightarrow> b \<notin> X \<and> i = BLKIDX b k \<and> blk_magic k b = FREE_MAGIC \<and> in_page k b"
  using assms by (simp_all add: kmem_core_def)

lemma coreI:
  assumes "distinct (kmem_pages k)" "pool_wf (kpool k)" "\<And>pg. pg \<in> set (kmem_pages k) \<Longrightarrow> page_ok k pg"
    "\<And>pg. pg \<in> set (kmem_pages k) \<Longrightarrow> {pg ..< pg + PAGE_SIZE} \<subseteq> {PAGE_OFFSET ..< 2 ^ 32}"
    "\<And>pg. pg \<in> set (kmem_pages k) \<Longrightarrow> {pg ..< pg + PAGE_SIZE} \<inter> free_bytes (pages_free (kpool k)) = {}"
    "\<And>i. distinct (free_blocks k i)"
    "\<And>i b. b \<in> set (free_blocks k i) \<longleftrightarrow> b \<notin> X \<and> i = BLKIDX b k \<and> blk_magic k b = FREE_MAGIC \<and> in_page k b"
  shows "kmem_core X k"
  unfolding kmem_core_def using assms by (intro conjI ballI allI) blast+

lemma in_pageD:
  assumes "kmem_core X k" "in_page k b"
  shows "page_ok k (PAGE_TOP b)" "b \<in> set (blks k (PAGE_TOP b))" "PAGE_TOP b \<in> set (kmem_pages k)"
    "PAGE_TOP b + 12 \<le> b" "b + blk_size k b \<le> PAGE_TOP b + PAGE_SIZE" "32 \<le> blk_size k b" "blk_size k b \<le> 4084"
    "PAGE_OFFSET \<le> b" "b + blk_size k b \<le> 2 ^ 32" "blk_magic k b \<in> {ALLOC_MAGIC, FREE_MAGIC}"
proof -
  show *: "page_ok k (PAGE_TOP b)" "b \<in> set (blks k (PAGE_TOP b))" "PAGE_TOP b \<in> set (kmem_pages k)"
    using assms coreD(3) [OF assms(1)] by (auto simp: in_page_def)
  note p = page_okD [OF *(1,2)]
  show **: "PAGE_TOP b + 12 \<le> b" "b + blk_size k b \<le> PAGE_TOP b + PAGE_SIZE" "32 \<le> blk_size k b" "blk_size k b \<le> 4084"
    using p by simp_all
  have "PAGE_OFFSET \<le> PAGE_TOP b" "PAGE_TOP b + PAGE_SIZE \<le> 2 ^ 32"
    using coreD(4) [OF assms(1) *(3)] by (simp_all add: PAGE_SIZE_def)
  then show "PAGE_OFFSET \<le> b" "b + blk_size k b \<le> 2 ^ 32" using ** by linarith+
  show "blk_magic k b \<in> {ALLOC_MAGIC, FREE_MAGIC}" using * by (auto simp: page_ok_def)
qed

lemma block_search_Some:
  "block_search fl n i = Some b \<Longrightarrow> \<exists>j. i \<le> j \<and> j < i + n \<and> b \<in> set (fl j)"
proof (induction n arbitrary: i)
  case (Suc n)
  show ?case
  proof (cases "fl i = []")
    case True
    then obtain j where "i + 1 \<le> j" "j < i + 1 + n" "b \<in> set (fl j)" using Suc by force
    then show ?thesis by (intro exI [of _ j]) simp
  next
    case False
    then show ?thesis using Suc.prems by (intro exI [of _ i]) auto
  qed
qed simp

lemma page_ok_cong:
  assumes "kpages k' pg = kpages k pg" "\<forall>b \<in> set (blks k pg). blocks k' b = blocks k b"
  shows "page_ok k' pg = page_ok k pg"
proof -
  have "filter (\<lambda>b. blk_magic k' b = ALLOC_MAGIC) (blks k pg) = filter (\<lambda>b. blk_magic k b = ALLOC_MAGIC) (blks k pg)"
    using assms(2) by (intro filter_cong) auto
  moreover have "chain (blk_size k') a (blks k pg) e = chain (blk_size k) a (blks k pg) e" for a e
    using assms(2) by (intro chain_cong) auto
  ultimately show ?thesis using assms by (simp add: page_ok_def)
qed

lemma core_unlink:
  assumes "kmem_core {} k"
  shows "kmem_core {b} (free_unlink b k)" "in_page (free_unlink b k) = in_page k"
proof -
  show i: "in_page (free_unlink b k) = in_page k" by (rule ext) (simp add: in_page_def)
  have "page_ok (free_unlink b k) pg = page_ok k pg" for pg by (rule page_ok_cong) simp_all
  then show "kmem_core {b} (free_unlink b k)"
    using assms i by (auto simp: kmem_core_def BLKIDX_def)
qed

lemma in_page_top:
  assumes "kmem_core X k" "in_page k b" "b \<le> a" "a < b + blk_size k b"
  shows "PAGE_TOP a = PAGE_TOP b"
  using in_pageD [OF assms(1,2)] assms(3,4) PAGE_TOP_in [of "PAGE_TOP b" a] by (auto simp: page_ok_def)

lemma in_page_inside:
  assumes "kmem_core X k" "in_page k b" "b < a" "a < b + blk_size k b"
  shows "\<not> in_page k a"
proof
  assume "in_page k a"
  then have "a \<in> set (blks k (PAGE_TOP b))" using in_page_top [OF assms(1,2), of a] assms(3,4) by (auto simp: in_page_def)
  then show False
    using chain_order [of "blk_size k" _ "blks k (PAGE_TOP b)" _ a b] in_pageD [OF assms(1,2)]
      page_okD(3) [of k "PAGE_TOP b" a] assms(3,4) by (fastforce simp: page_ok_def)
qed

lemma core_mark_alloc:
  assumes c: "kmem_core {b} k" and b: "in_page k b" "blk_magic k b = FREE_MAGIC"
  defines "k' \<equiv> upd_page (PAGE_TOP b) (nallocs_update (\<lambda>n. (n + 1) mod 2 ^ 16)) (upd_block b (bk_magic_update (\<lambda>_. ALLOC_MAGIC)) k)"
  shows "kmem_core {} k'" "in_page k' = in_page k" "\<And>x. blk_size k' x = blk_size k x"
    "\<And>x. blk_magic k' x = (if x = b then ALLOC_MAGIC else blk_magic k x)"
    "nallocs (kpages k' (PAGE_TOP b)) = nallocs (kpages k (PAGE_TOP b)) + 1"
    "\<And>pg. pg \<noteq> PAGE_TOP b \<Longrightarrow> kpages k' pg = kpages k pg" "kmem_pages k' = kmem_pages k"
proof -
  let ?pg = "PAGE_TOP b"
  note p = in_pageD [OF c b(1)]
  show sz: "\<And>x. blk_size k' x = blk_size k x"
    and mg: "\<And>x. blk_magic k' x = (if x = b then ALLOC_MAGIC else blk_magic k x)"
    and o: "\<And>pg. pg \<noteq> PAGE_TOP b \<Longrightarrow> kpages k' pg = kpages k pg" and kp: "kmem_pages k' = kmem_pages k"
    by (simp_all add: k'_def)
  have bl: "blks k' = blks k" by (rule ext) (simp add: k'_def)
  show n: "nallocs (kpages k' ?pg) = nallocs (kpages k ?pg) + 1" using nallocs_bound [OF p(1)] by (simp add: k'_def)
  show i: "in_page k' = in_page k" by (rule ext) (simp add: in_page_def fun_cong [OF bl] kp)
  have "filter (\<lambda>x. blk_magic k' x = ALLOC_MAGIC) (blks k ?pg) = filter (\<lambda>x. x = b \<or> blk_magic k x = ALLOC_MAGIC) (blks k ?pg)"
    by (intro filter_cong) (auto simp: mg)
  moreover have "distinct (blks k ?pg)" using p(1) chain_distinct by (auto simp: page_ok_def)
  ultimately have "page_ok k' ?pg"
    using p(1,2) n b(2) filter_count [of "blks k ?pg" b "\<lambda>x. blk_magic k x = ALLOC_MAGIC"]
    by (simp add: page_ok_def fun_cong [OF bl] sz mg) (simp add: k'_def)
  moreover have "page_ok k' pg" if "pg \<noteq> ?pg" "pg \<in> set (kmem_pages k)" for pg
    using that coreD(3) [OF c that(2)] page_okD(4) [of k pg b]
    by (subst page_ok_cong [of k' pg k]) (auto simp: k'_def)
  ultimately have "page_ok k' pg" if "pg \<in> set (kmem_pages k)" for pg using that by metis
  moreover have "kpool k' = kpool k" "free_blocks k' = free_blocks k" by (simp_all add: k'_def)
  moreover have "BLKIDX x k' = BLKIDX x k" for x by (simp add: BLKIDX_def sz)
  ultimately show "kmem_core {} k'"
    using coreD [OF c] by (intro coreI) (simp_all add: kp i mg b(2))
qed

lemma split_block_eqs:
  assumes c: "kmem_core {b} k" and b: "in_page k b" and sz: "32 \<le> s" "s + 32 \<le> blk_size k b"
  defines "k' \<equiv> split_block b (PAGE_TOP b) s k"
  shows "blocks k' = (blocks k)(b + s := \<lparr>bk_magic = FREE_MAGIC, bk_size = blk_size k b - s\<rparr>, b := (blocks k b)\<lparr>bk_size := s\<rparr>)"
    "kpages k' = (kpages k)(PAGE_TOP b := pg_blks_update (insert_after b (b + s)) (kpages k (PAGE_TOP b)))"
    "free_blocks k' = (free_blocks k)((blk_size k b - s) div 16 := (b + s) # free_blocks k ((blk_size k b - s) div 16))"
    "kmem_pages k' = kmem_pages k" "kpool k' = kpool k"
proof -
  note p = in_pageD [OF c b]
  have e: "(b + s) mod 2 ^ 32 = b + s" "(blk_size k b + 2 ^ 32 - s) mod 2 ^ 32 = blk_size k b - s"
    "(blk_size k b - s) mod 2 ^ 16 = blk_size k b - s" "s mod 2 ^ 16 = s"
    using p sz by (simp_all add: mod_if)
  show "blocks k' = (blocks k)(b + s := \<lparr>bk_magic = FREE_MAGIC, bk_size = blk_size k b - s\<rparr>, b := (blocks k b)\<lparr>bk_size := s\<rparr>)"
    "kpages k' = (kpages k)(PAGE_TOP b := pg_blks_update (insert_after b (b + s)) (kpages k (PAGE_TOP b)))"
    "free_blocks k' = (free_blocks k)((blk_size k b - s) div 16 := (b + s) # free_blocks k ((blk_size k b - s) div 16))"
    "kmem_pages k' = kmem_pages k" "kpool k' = kpool k"
    unfolding k'_def split_block_def Let_def e using sz(1) by (simp_all add: BLKIDX_def)
qed

lemma core_split:
  assumes c: "kmem_core {b} k" and b: "in_page k b" and sz: "32 \<le> s" "s + 32 \<le> blk_size k b"
  defines "k' \<equiv> split_block b (PAGE_TOP b) s k"
  shows "kmem_core {b} k'" "\<And>x. in_page k' x \<longleftrightarrow> in_page k x \<or> x = b + s"
proof -
  let ?pg = "PAGE_TOP b"
  note p = in_pageD [OF c b]
  note e = split_block_eqs [OF c b sz, folded k'_def]
  have top: "PAGE_TOP (b + s) = ?pg" using in_page_top [OF c b, of "b + s"] sz by simp
  have new: "\<not> in_page k (b + s)" using in_page_inside [OF c b, of "b + s"] sz by simp
  obtain xs ys where l: "blks k ?pg = xs @ b # ys" using p(2) by (meson split_list)
  have d: "distinct (blks k ?pg)" using p(1) chain_distinct by (auto simp: page_ok_def)
  then have l': "blks k' ?pg = xs @ b # (b + s) # ys" using l by (simp add: e insert_after_split)
  have n: "b + s \<notin> set (blks k ?pg)" using new top p(3) by (simp add: in_page_def)
  show i: "\<And>x. in_page k' x \<longleftrightarrow> in_page k x \<or> x = b + s"
  proof -
    fix x
    show "in_page k' x \<longleftrightarrow> in_page k x \<or> x = b + s"
      using top p(3) l l' by (cases "PAGE_TOP x = ?pg") (auto simp: in_page_def e(2,4))
  qed
  have f: "blk_size k' = (blk_size k)(b := s, b + s := blk_size k b - s)" using sz by (auto simp: e(1) fun_eq_iff)
  have m: "blk_magic k' x = (if x = b + s then FREE_MAGIC else blk_magic k x)" for x using sz by (simp add: e(1))
  then have "filter (\<lambda>x. blk_magic k' x = ALLOC_MAGIC) zs = filter (\<lambda>x. blk_magic k x = ALLOC_MAGIC) zs" if "b + s \<notin> set zs" for zs
    using that by (intro filter_cong) auto
  then have "filter (\<lambda>x. blk_magic k' x = ALLOC_MAGIC) (blks k' ?pg) = filter (\<lambda>x. blk_magic k x = ALLOC_MAGIC) (blks k ?pg)"
    using n l sz by (simp add: l' m)
  moreover have "chain (blk_size k') (?pg + 12) (blks k' ?pg) (?pg + PAGE_SIZE)"
    unfolding f l' using p(1) l sz by (intro chain_split) (simp_all add: page_ok_def kmem_sizes)
  moreover have "\<forall>x \<in> set (blks k' ?pg). blk_magic k' x \<in> {ALLOC_MAGIC, FREE_MAGIC}"
    using p(1) l by (auto simp: page_ok_def l' m)
  ultimately have "page_ok k' ?pg" using p(1) unfolding page_ok_def by (simp add: e(2))
  moreover have "page_ok k' pg" if "pg \<noteq> ?pg" "pg \<in> set (kmem_pages k)" for pg
    using that coreD(3) [OF c that(2)] page_okD(4) [of k pg] top
    by (subst page_ok_cong [of k' pg k]) (auto simp: e(1,2))
  ultimately have "page_ok k' pg" if "pg \<in> set (kmem_pages k)" for pg using that by metis
  moreover have "BLKIDX x k' = (if x = b then s div 16 else if x = b + s then (blk_size k b - s) div 16 else BLKIDX x k)" for x
    using sz by (simp add: BLKIDX_def fun_cong [OF f])
  ultimately show "kmem_core {b} k'"
    using coreD [OF c] new sz by (intro coreI) (auto simp: e i)
qed

lemma core_new_page:
  assumes c: "kmem_core {} k" and a: "kpage_alloc PAGE_SIZE (kpool k) = (Some pa, kp)"
  defines "pg \<equiv> phys_to_virt pa" and "k' \<equiv> new_page (phys_to_virt pa) (k\<lparr>kpool := kp\<rparr>)"
  shows "kmem_core {pg + 12} k'" "\<And>x. in_page k' x \<longleftrightarrow> in_page k x \<or> x = pg + 12" "PAGE_TOP (pg + 12) = pg"
    "blocks k' = (blocks k)(pg + 12 := \<lparr>bk_magic = FREE_MAGIC, bk_size = 4084\<rparr>)" "\<not> in_page k (pg + 12)"
    "kmem_pages k' = pg # kmem_pages k" "\<And>q. q \<noteq> pg \<Longrightarrow> kpages k' q = kpages k q" "nallocs (kpages k' pg) = 0"
proof -
  have al: "PAGE_ALIGN PAGE_SIZE = PAGE_SIZE" by (simp add: PAGE_ALIGN_def PAGE_SIZE_def)
  have "page_alloc PAGE_SIZE (kpool k) = (Some pa, kp)" using a by (simp add: page_alloc_def kpage_alloc_def)
  note q = page_alloc_cases [OF coreD(2) [OF c] _ _ this, unfolded extent_def pg_def [symmetric] al]
  have q: "pool_wf kp" "{pg ..< pg + PAGE_SIZE} \<subseteq> free_bytes (pages_free (kpool k))"
    "free_bytes (pages_free kp) = free_bytes (pages_free (kpool k)) - {pg ..< pg + PAGE_SIZE}" "PAGE_SIZE dvd pg"
    using q by (simp_all add: PAGE_SIZE_def)
  have rng: "{pg ..< pg + PAGE_SIZE} \<subseteq> {PAGE_OFFSET ..< 2 ^ 32}" using q(2) coreD(2) [OF c] unfolding pool_wf_def by blast
  have "pg \<in> {pg ..< pg + PAGE_SIZE}" by (simp add: PAGE_SIZE_def)
  then have new: "pg \<notin> set (kmem_pages k)" using q(2) coreD(5) [OF c, of pg] by blast
  show top: "PAGE_TOP (pg + 12) = pg" using PAGE_TOP_in [OF q(4)] by (simp add: PAGE_SIZE_def)
  show e: "blocks k' = (blocks k)(pg + 12 := \<lparr>bk_magic = FREE_MAGIC, bk_size = 4084\<rparr>)"
    and kps: "kmem_pages k' = pg # kmem_pages k"
    by (simp_all add: k'_def new_page_def Let_def pg_def kmem_sizes)
  have kpg: "kpages k' = (kpages k)(pg := \<lparr>pg_magic = PAGE_MAGIC, nallocs = 0, pg_blks = [pg + 12]\<rparr>)"
    "free_blocks k' = free_blocks k" "kpool k' = kp"
    by (simp_all add: k'_def new_page_def Let_def pg_def kmem_sizes)
  then show "\<And>q. q \<noteq> pg \<Longrightarrow> kpages k' q = kpages k q" "nallocs (kpages k' pg) = 0" by simp_all
  show n: "\<not> in_page k (pg + 12)" using new top by (simp add: in_page_def)
  show i: "in_page k' x \<longleftrightarrow> in_page k x \<or> x = pg + 12" for x
    using new top by (cases "PAGE_TOP x = pg") (auto simp: in_page_def kps kpg)
  have "page_ok k' pg" using q(4) by (simp add: page_ok_def kpg e kmem_sizes)
  moreover have "page_ok k' p'" if "p' \<in> set (kmem_pages k)" for p'
    using that coreD(3) [OF c that] page_okD(4) [of k p' "pg + 12"] top new
    by (subst page_ok_cong [of k' p' k]) (auto simp: e kpg)
  moreover have "BLKIDX x k' = BLKIDX x k" if "in_page k x" for x using that n by (auto simp: BLKIDX_def e)
  ultimately show "kmem_core {pg + 12} k'"
  proof (intro coreI)
    fix p' assume "p' \<in> set (kmem_pages k')"
    then show "{p' ..< p' + PAGE_SIZE} \<inter> free_bytes (pages_free (kpool k')) = {}"
      using coreD(5) [OF c, of p'] unfolding kps kpg q(3) by auto
  qed (use coreD [OF c] new rng q(1) n in \<open>auto simp: e i kps kpg\<close>)
qed

lemma core_mark_free:
  assumes c: "kmem_core {} k" and b: "in_page k b" "blk_magic k b = ALLOC_MAGIC"
  defines "k' \<equiv> upd_page (PAGE_TOP b) (nallocs_update (\<lambda>n. (n + (2 ^ 16 - 1)) mod 2 ^ 16))
    (free_link b (upd_block b (bk_magic_update (\<lambda>_. FREE_MAGIC)) k))"
  shows "kmem_core {} k'" "in_page k' = in_page k" "\<And>x. blk_size k' x = blk_size k x"
    "\<And>x. blk_magic k' x = (if x = b then FREE_MAGIC else blk_magic k x)" "kmem_pages k' = kmem_pages k"
    "\<And>pg. pg \<noteq> PAGE_TOP b \<Longrightarrow> kpages k' pg = kpages k pg"
proof -
  let ?pg = "PAGE_TOP b"
  note p = in_pageD [OF c b(1)]
  show sz: "\<And>x. blk_size k' x = blk_size k x"
    and mg: "\<And>x. blk_magic k' x = (if x = b then FREE_MAGIC else blk_magic k x)"
    and kp: "kmem_pages k' = kmem_pages k" and "\<And>pg. pg \<noteq> PAGE_TOP b \<Longrightarrow> kpages k' pg = kpages k pg"
    by (simp_all add: k'_def)
  have bl: "blks k' = blks k" by (rule ext) (simp add: k'_def)
  show i: "in_page k' = in_page k" by (rule ext) (simp add: in_page_def fun_cong [OF bl] kp)
  have d: "distinct (blks k ?pg)" using p(1) chain_distinct by (auto simp: page_ok_def)
  have "filter (\<lambda>x. blk_magic k x = ALLOC_MAGIC) (blks k ?pg) = filter (\<lambda>x. x = b \<or> blk_magic k' x = ALLOC_MAGIC) (blks k ?pg)"
    using b(2) by (intro filter_cong) (auto simp: mg)
  then have l: "length (filter (\<lambda>x. blk_magic k x = ALLOC_MAGIC) (blks k ?pg)) = Suc (length (filter (\<lambda>x. blk_magic k' x = ALLOC_MAGIC) (blks k ?pg)))"
    using filter_count [OF d p(2), of "\<lambda>x. blk_magic k' x = ALLOC_MAGIC"] by (simp add: mg)
  then have "nallocs (kpages k' ?pg) = nallocs (kpages k ?pg) - 1"
    using p(1) nallocs_bound [OF p(1)] by (simp add: k'_def page_ok_def mod_if)
  then have "page_ok k' ?pg"
    using p(1,2) l by (simp add: page_ok_def fun_cong [OF bl] sz mg) (simp add: k'_def)
  moreover have "page_ok k' pg" if "pg \<noteq> ?pg" "pg \<in> set (kmem_pages k)" for pg
    using that coreD(3) [OF c that(2)] page_okD(4) [of k pg b]
    by (subst page_ok_cong [of k' pg k]) (auto simp: k'_def)
  ultimately have "page_ok k' pg" if "pg \<in> set (kmem_pages k)" for pg using that by metis
  moreover have "BLKIDX x k' = BLKIDX x k" for x by (simp add: BLKIDX_def sz)
  moreover have "free_blocks k' = (free_blocks k)(BLKIDX b k := b # free_blocks k (BLKIDX b k))" "kpool k' = kpool k"
    by (simp_all add: k'_def BLKIDX_def)
  ultimately show "kmem_core {} k'"
    using coreD [OF c] b by (intro coreI) (auto simp: kp i mg)
qed

lemma drop_blocks_eqs:
  "kpages (drop_blocks bs k) = kpages k" "kmem_pages (drop_blocks bs k) = kmem_pages k" "kpool (drop_blocks bs k) = kpool k"
  "blocks (drop_blocks bs k) = (\<lambda>b. if b \<in> set bs then (blocks k b)\<lparr>bk_magic := 0\<rparr> else blocks k b)"
  by (induction bs arbitrary: k) (auto simp: fun_eq_iff)

lemma drop_blocks_free:
  "(\<And>i. distinct (free_blocks k i)) \<Longrightarrow>
   distinct (free_blocks (drop_blocks bs k) i) \<and> set (free_blocks (drop_blocks bs k) i) = set (free_blocks k i) - set bs"
proof (induction bs arbitrary: k)
  case (Cons b bs)
  then show ?case using Cons.IH [of "upd_block b (bk_magic_update (\<lambda>_. 0)) (free_unlink b k)"] by auto
qed simp

lemma core_release:
  assumes c: "kmem_core {} k" and pg: "pg \<in> set (kmem_pages k)" and n: "nallocs (kpages k pg) = 0"
  defines "k' \<equiv> release_page pg k"
  shows "kmem_core {} k'" "\<And>x. in_page k' x \<longleftrightarrow> in_page k x \<and> PAGE_TOP x \<noteq> pg"
    "\<And>x. blk_size k' x = blk_size k x" "\<And>x. in_page k' x \<Longrightarrow> blk_magic k' x = blk_magic k x"
    "set (kmem_pages k') = set (kmem_pages k) - {pg}" "\<And>q. q \<noteq> pg \<Longrightarrow> kpages k' q = kpages k q"
proof -
  note p = coreD(3) [OF c pg]
  have e: "kpages k' = (kpages k)(pg := pg_magic_update (\<lambda>_. 0) (kpages k pg))" "kmem_pages k' = remove1 pg (kmem_pages k)"
    "blocks k' = (\<lambda>b. if b \<in> set (blks k pg) then (blocks k b)\<lparr>bk_magic := 0\<rparr> else blocks k b)"
    "kpool k' = kpage_free (virt_to_phys pg) PAGE_SIZE (kpool k)"
    "free_blocks k' = free_blocks (drop_blocks (blks k pg) k)"
    by (simp_all add: k'_def release_page_def Let_def drop_blocks_eqs)
  show kps: "set (kmem_pages k') = set (kmem_pages k) - {pg}" using coreD(1) [OF c] by (simp add: e)
  show "\<And>q. q \<noteq> pg \<Longrightarrow> kpages k' q = kpages k q" by (simp add: e)
  show sz: "\<And>x. blk_size k' x = blk_size k x" by (simp add: e)
  show i: "\<And>x. in_page k' x \<longleftrightarrow> in_page k x \<and> PAGE_TOP x \<noteq> pg" unfolding in_page_def kps by (auto simp: e(1))
  have out: "blocks k' x = blocks k x" if "PAGE_TOP x \<noteq> pg" for x using that page_okD(4) [OF p, of x] by (auto simp: e)
  show "\<And>x. in_page k' x \<Longrightarrow> blk_magic k' x = blk_magic k x" using i out by simp
  have al: "PAGE_ALIGN PAGE_SIZE = PAGE_SIZE" by (simp add: PAGE_ALIGN_def PAGE_SIZE_def)
  have "PAGE_OFFSET \<le> pg" "pg < 2 ^ 32" using coreD(4) [OF c pg] by (simp_all add: PAGE_SIZE_def)
  note pv = phys_virt_inverse [OF this]
  have "kpage_free (virt_to_phys pg) PAGE_SIZE (kpool k) = page_free (virt_to_phys pg) PAGE_SIZE (kpool k)"
    by (simp add: kpage_free_def page_free_def)
  then have pool: "pool_wf (kpool k')" "free_bytes (pages_free (kpool k')) = free_bytes (pages_free (kpool k)) \<union> {pg ..< pg + PAGE_SIZE}"
    using page_free_cases [OF coreD(2) [OF c], of PAGE_SIZE "virt_to_phys pg"] coreD(4,5) [OF c pg] p
    unfolding extent_def pv al e(4) by (simp_all add: PAGE_SIZE_def page_ok_def)
  show "kmem_core {} k'"
  proof (intro coreI)
    fix q assume q: "q \<in> set (kmem_pages k')"
    then have q': "q \<in> set (kmem_pages k)" "q \<noteq> pg" using kps by auto
    then have "PAGE_SIZE dvd q" "PAGE_SIZE dvd pg" using coreD(3) [OF c] pg by (auto simp: page_ok_def)
    then have "{q ..< q + PAGE_SIZE} \<inter> {pg ..< pg + PAGE_SIZE} = {}"
      using q'(2) PAGE_TOP_in [of q] PAGE_TOP_in [of pg] by fastforce
    then show "{q ..< q + PAGE_SIZE} \<inter> free_bytes (pages_free (kpool k')) = {}"
      using coreD(5) [OF c q'(1)] unfolding pool by blast
    show "page_ok k' q" using q' out page_okD(4) [OF coreD(3) [OF c q'(1)]] coreD(3) [OF c q'(1)]
      by (subst page_ok_cong [of k' q k]) (auto simp: e(1))
    show "{q ..< q + PAGE_SIZE} \<subseteq> {PAGE_OFFSET ..< 2 ^ 32}" by (rule coreD(4) [OF c q'(1)])
  next
    fix j b
    have x: "BLKIDX b k' = BLKIDX b k" by (simp add: BLKIDX_def sz)
    have fr: "set (free_blocks k' j) = set (free_blocks k j) - set (blks k pg)"
      using drop_blocks_free [of k "blks k pg" j] coreD(6) [OF c] by (simp add: e(5))
    have "b \<in> set (blks k pg) \<longleftrightarrow> PAGE_TOP b = pg" if "in_page k b"
      using that page_okD(4) [OF p, of b] by (auto simp: in_page_def)
    then show "b \<in> set (free_blocks k' j) \<longleftrightarrow> b \<notin> {} \<and> j = BLKIDX b k' \<and> blk_magic k' b = FREE_MAGIC \<and> in_page k' b"
      unfolding x fr i Diff_iff coreD(7) [OF c] using out [of b] by metis
  qed (use coreD(1,6) [OF c] pool(1) drop_blocks_free [of k "blks k pg"] in \<open>simp_all add: e(2,5)\<close>)
qed

section \<open>The operations on the blocks handed out\<close>

lemma live_disjoint:
  assumes c: "kmem_core X k" and l: "(p, s) \<in> live k" "(q, t) \<in> live k" "(p, s) \<noteq> (q, t)"
  shows "p + s \<le> q \<or> q + t \<le> p"
proof -
  obtain a b where a: "p = a + 16" "s = blk_size k a - 16" "in_page k a" and b: "q = b + 16" "t = blk_size k b - 16" "in_page k b"
    using l(1,2) by (auto simp: live_def kmem_sizes)
  note pa = in_pageD [OF c a(3)] and pb = in_pageD [OF c b(3)]
  have "a \<noteq> b" using l(3) a b by auto
  then have "a + blk_size k a \<le> b \<or> b + blk_size k b \<le> a"
  proof (cases "PAGE_TOP a = PAGE_TOP b")
    case True
    then show ?thesis using chain_order [of "blk_size k" "PAGE_TOP b + 12" "blks k (PAGE_TOP b)" _ a b] pa pb \<open>a \<noteq> b\<close>
      by (auto simp: page_ok_def)
  next
    case False
    then show ?thesis using in_page_top [OF c a(3), of b] in_page_top [OF c b(3), of a] by linarith
  qed
  then show ?thesis using a b pa(6) pb(6) by linarith
qed

lemma live_range: "kmem_core X k \<Longrightarrow> (p, s) \<in> live k \<Longrightarrow> PAGE_OFFSET \<le> p \<and> p + s \<le> 2 ^ 32 \<and> 16 \<le> s"
  using in_pageD [of X k "p - 16"] by (auto simp: live_def kmem_sizes)

lemma take_block_ok:
  assumes c: "kmem_core {b} k" and b: "in_page k b" "blk_magic k b = FREE_MAGIC" and s: "32 \<le> s" "s \<le> blk_size k b"
  obtains k' sz where "take_block b (PAGE_TOP b) s k = (KPtr (b + 16), k')" "kmem_core {} k'" "s \<le> sz + 16"
    "live k' = insert (b + 16, sz) (live k)" "\<forall>t. (b + 16, t) \<notin> live k" "kmem_pages k' = kmem_pages k"
    "\<forall>pg. nallocs (kpages k' pg) = nallocs (kpages k pg) + (if pg = PAGE_TOP b then 1 else 0)"
proof -
  note p = in_pageD [OF c b(1)]
  define k1 where "k1 = (if 32 \<le> blk_size k b - s then split_block b (PAGE_TOP b) s k else k)"
  have c1: "kmem_core {b} k1" "\<And>x. in_page k1 x \<longleftrightarrow> in_page k x \<or> x = b + s \<and> 32 \<le> blk_size k b - s"
    using core_split [OF c b(1) s(1)] c by (auto simp: k1_def)
  have new: "32 \<le> blk_size k b - s \<Longrightarrow> \<not> in_page k (b + s)" using in_page_inside [OF c b(1), of "b + s"] s by simp
  have m1: "blk_magic k1 x = blk_magic k x" if "x \<noteq> b + s" for x
    using split_block_eqs [OF c b(1) s(1)] that by (auto simp: k1_def)
  have s1: "blk_size k1 x = blk_size k x" if "x \<noteq> b + s" "x \<noteq> b" for x
    using split_block_eqs [OF c b(1) s(1)] that by (auto simp: k1_def)
  have n1: "32 \<le> blk_size k b - s \<Longrightarrow> blk_magic k1 (b + s) = FREE_MAGIC" "blocks k1 (b + s) = blocks k (b + s) \<or> 32 \<le> blk_size k b - s"
    "s \<le> blk_size k1 b" "kmem_pages k1 = kmem_pages k" "\<And>pg. nallocs (kpages k1 pg) = nallocs (kpages k pg)"
    using split_block_eqs [OF c b(1) s(1)] s by (auto simp: k1_def)
  have b1: "in_page k1 b" "blk_magic k1 b = FREE_MAGIC" using c1(2) b m1 [of b] s by auto
  define k2 where "k2 = upd_page (PAGE_TOP b) (nallocs_update (\<lambda>n. (n + 1) mod 2 ^ 16)) (upd_block b (bk_magic_update (\<lambda>_. ALLOC_MAGIC)) k1)"
  note f = core_mark_alloc [OF c1(1) b1, folded k2_def]
  have d: "(blk_size k b + 2 ^ 32 - s) mod 2 ^ 32 = blk_size k b - s" using p s by (simp add: mod_if)
  have t: "take_block b (PAGE_TOP b) s k = (KPtr (b + 16), k2)"
    unfolding take_block_def Let_def d using p(1) b(2) by (simp add: k1_def k2_def kmem_sizes page_ok_def)
  have lv: "x = b \<or> in_page k x \<and> blk_magic k x = ALLOC_MAGIC \<longleftrightarrow> in_page k2 x \<and> blk_magic k2 x = ALLOC_MAGIC" for x
    unfolding f(2,4) c1(2) using b m1 [of x] n1(1,2) new s by (cases "x = b + s") auto
  have sz: "blk_size k2 x = blk_size k x" if "x \<noteq> b" "in_page k x" for x
    unfolding f(3) using that s1 [of x] n1(2) new by (cases "x = b + s") auto
  have nb: "\<not> (in_page k b \<and> blk_magic k b = ALLOC_MAGIC)" using b(2) by simp
  have "live k2 = insert (b + 16, blk_size k2 b - 16) {(x + 16, blk_size k2 x - 16) | x. in_page k x \<and> blk_magic k x = ALLOC_MAGIC}"
    unfolding live_def lv [symmetric] BLKHDR_SIZE_def by blast
  also have "{(x + 16, blk_size k2 x - 16) | x. in_page k x \<and> blk_magic k x = ALLOC_MAGIC} = live k"
    unfolding live_def BLKHDR_SIZE_def using sz nb by (metis (no_types, lifting))
  finally have l: "live k2 = insert (b + 16, blk_size k1 b - 16) (live k)" unfolding f(3) .
  show thesis
  proof (rule that [OF t f(1) _ l])
    show "\<forall>t. (b + 16, t) \<notin> live k" using nb by (auto simp: live_def BLKHDR_SIZE_def)
    show "\<forall>pg. nallocs (kpages k2 pg) = nallocs (kpages k pg) + (if pg = PAGE_TOP b then 1 else 0)"
      using f(5,6) n1(5) by simp
  qed (use n1(3,4) f(7) s in simp_all)
qed

lemma alloc_size:
  assumes "0 < n" "n \<le> 4048"
  shows "ALLOC_ALIGN ((n + BLKHDR_SIZE) mod 2 ^ 32) = (n + 31) div 16 * 16"
    "32 \<le> (n + 31) div 16 * 16" "(n + 31) div 16 * 16 \<le> 4064" "n + 16 \<le> (n + 31) div 16 * 16"
  using assms by (simp_all add: ALLOC_ALIGN_def kmem_sizes)

lemma kmem_okI:
  assumes "kmem_core {} k'" "kmem_pages k' = pgs" "\<forall>pg \<in> set pgs. 0 < nallocs (kpages k' pg)"
  shows "kmem_ok k'"
  using assms by (simp add: kmem_ok_def)

lemma core_pool:
  assumes c: "kmem_core X k" and a: "kpage_alloc PAGE_SIZE (kpool k) = (Some pa, kp)"
  shows "kmem_core X (k\<lparr>kpool := kp\<rparr>)"
proof -
  have "page_alloc PAGE_SIZE (kpool k) = (Some pa, kp)" using a by (simp add: page_alloc_def kpage_alloc_def)
  then have q: "pool_wf kp" "free_bytes (pages_free kp) \<subseteq> free_bytes (pages_free (kpool k))"
    using page_alloc_cases [OF coreD(2) [OF c], of PAGE_SIZE pa kp] by (auto simp: PAGE_SIZE_def)
  have "page_ok (k\<lparr>kpool := kp\<rparr>) pg = page_ok k pg" for pg by (rule page_ok_cong) simp_all
  moreover have "{pg ..< pg + PAGE_SIZE} \<inter> free_bytes (pages_free kp) = {}" if "pg \<in> set (kmem_pages k)" for pg
    using coreD(5) [OF c that] q(2) by blast
  ultimately show ?thesis using c q(1) by (simp add: kmem_core_def in_page_def BLKIDX_def)
qed

lemma live_cong:
  assumes "\<And>x. in_page k' x \<and> blk_magic k' x = ALLOC_MAGIC \<longleftrightarrow> in_page k x \<and> blk_magic k x = ALLOC_MAGIC"
    "\<And>x. in_page k x \<Longrightarrow> blk_size k' x = blk_size k x"
  shows "live k' = live k"
  unfolding live_def using assms by (metis (no_types, lifting))

lemma live_new_page:
  assumes "kmem_core {} k" "kpage_alloc PAGE_SIZE (kpool k) = (Some v, kp)"
  shows "live (new_page (phys_to_virt v) (k\<lparr>kpool := kp\<rparr>)) = live k"
proof -
  note np = core_new_page [OF assms]
  show ?thesis
  proof (rule live_cong)
    fix x
    show "in_page (new_page (phys_to_virt v) (k\<lparr>kpool := kp\<rparr>)) x \<and> blk_magic (new_page (phys_to_virt v) (k\<lparr>kpool := kp\<rparr>)) x = ALLOC_MAGIC
        \<longleftrightarrow> in_page k x \<and> blk_magic k x = ALLOC_MAGIC"
      unfolding np(2,4) using np(5) by (cases "x = phys_to_virt v + 12") auto
    show "in_page k x \<Longrightarrow> blk_size (new_page (phys_to_virt v) (k\<lparr>kpool := kp\<rparr>)) x = blk_size k x"
      unfolding np(4) using np(5) by (cases "x = phys_to_virt v + 12") auto
  qed
qed

lemma kmem_alloc_ok:
  assumes ok: "kmem_ok k" and n: "0 < n" "n \<le> 4048" and a: "kmem_alloc n k = (r, k')"
  shows "kmem_ok k' \<and> (r = KNull \<and> live k' = live k \<or>
    (\<exists>p sz. r = KPtr p \<and> n \<le> sz \<and> (\<forall>t. (p, t) \<notin> live k) \<and> live k' = insert (p, sz) (live k)))"
proof -
  let ?s = "(n + 31) div 16 * 16"
  note sz = alloc_size [OF n]
  have c: "kmem_core {} k" and na: "\<forall>pg \<in> set (kmem_pages k). 0 < nallocs (kpages k pg)" using ok by (simp_all add: kmem_ok_def)
  show ?thesis
  proof (cases "block_find ?s k")
    case (Some b)
    obtain j where j: "?s div 16 \<le> j" "b \<in> set (free_blocks k j)"
      using Some block_search_Some by (force simp: block_find_def)
    then have b: "in_page k b" "blk_magic k b = FREE_MAGIC" "?s \<le> blk_size k b"
      using coreD(7) [OF c, of b j] by (auto simp: BLKIDX_def)
    have b': "in_page (free_unlink b k) b" "blk_magic (free_unlink b k) b = FREE_MAGIC" "?s \<le> blk_size (free_unlink b k) b"
      using b by (simp_all add: core_unlink(2) [OF c])
    have l: "live (free_unlink b k) = live k" by (simp add: live_def core_unlink(2) [OF c])
    from take_block_ok [OF core_unlink(1) [OF c, of b] b'(1,2) sz(2) b'(3)] obtain k2 s2 where
      t: "take_block b (PAGE_TOP b) ?s (free_unlink b k) = (KPtr (b + 16), k2)" "kmem_core {} k2" "?s \<le> s2 + 16"
      "live k2 = insert (b + 16, s2) (live k)" "\<forall>t. (b + 16, t) \<notin> live k" "kmem_pages k2 = kmem_pages k"
      "\<forall>pg. nallocs (kpages k2 pg) = nallocs (kpages k pg) + (if pg = PAGE_TOP b then 1 else 0)"
      unfolding l by (metis kmem_proj(17,18))
    have "r = KPtr (b + 16)" "k' = k2" using a t(1) Some unfolding kmem_alloc_def Let_def sz(1) by simp_all
    moreover have "kmem_ok k2" using t(7) na by (intro kmem_okI [OF t(2,6)]) auto
    moreover have "n \<le> s2" using t(3) sz(4) by linarith
    ultimately show ?thesis using t(4,5) by blast
  next
    case None
    obtain pa kp where ka: "kpage_alloc PAGE_SIZE (kpool k) = (pa, kp)" by (cases "kpage_alloc PAGE_SIZE (kpool k)")
    show ?thesis
    proof (cases pa)
      case (Some v)
      note ka = ka [unfolded Some] and np = core_new_page [OF c ka [unfolded Some]]
      let ?pg = "phys_to_virt v" and ?k1 = "new_page (phys_to_virt v) (k\<lparr>kpool := kp\<rparr>)"
      show ?thesis
      proof (cases "v = 0")
        case True
        have "k' = k\<lparr>kpool := kp\<rparr>" "r = KNull" using a None ka True unfolding kmem_alloc_def Let_def sz(1) by simp_all
        then show ?thesis using core_pool [OF c ka] na by (simp add: kmem_ok_def live_def in_page_def)
      next
        case False
        have l: "live ?k1 = live k" by (rule live_new_page [OF c ka])
        have b: "in_page ?k1 (?pg + 12)" "blk_magic ?k1 (?pg + 12) = FREE_MAGIC" "?s \<le> blk_size ?k1 (?pg + 12)"
          using sz(3) by (simp_all add: np(2,4))
        from take_block_ok [OF np(1) b(1,2) sz(2) b(3)] obtain k2 s2 where
          t: "take_block (?pg + 12) ?pg ?s ?k1 = (KPtr (?pg + 12 + 16), k2)" "kmem_core {} k2" "?s \<le> s2 + 16"
          "live k2 = insert (?pg + 12 + 16, s2) (live k)" "\<forall>t. (?pg + 12 + 16, t) \<notin> live k" "kmem_pages k2 = ?pg # kmem_pages k"
          "\<forall>pg. nallocs (kpages k2 pg) = nallocs (kpages ?k1 pg) + (if pg = ?pg then 1 else 0)"
          unfolding l np(3,6) by metis
        have "r = KPtr (?pg + 12 + 16)" "k' = k2"
          using a t(1) None ka False unfolding kmem_alloc_def Let_def sz(1) by (auto simp: kmem_sizes)
        moreover have "kmem_ok k2" using t(7) na np(7) by (intro kmem_okI [OF t(2,6)]) auto
        moreover have "n \<le> s2" using t(3) sz(4) by linarith
        ultimately show ?thesis using t(4,5) by blast
      qed
    next
      case None2: None
      then have "k' = k" "r = KNull"
        using a None ka unfolding kmem_alloc_def Let_def sz(1) by (auto simp: kpage_alloc_def Let_def split: option.splits)
      then show ?thesis using ok by simp
    qed
  qed
qed

lemma kmem_free_ok:
  assumes ok: "kmem_ok k" and p: "(p, sz) \<in> live k"
  shows "\<exists>k'. kmem_free p k = Some k' \<and> kmem_ok k' \<and> live k' = live k - {(p, sz)}"
proof -
  have c: "kmem_core {} k" and na: "\<forall>pg \<in> set (kmem_pages k). 0 < nallocs (kpages k pg)" using ok by (simp_all add: kmem_ok_def)
  obtain b where b: "p = b + 16" "sz = blk_size k b - 16" "in_page k b" "blk_magic k b = ALLOC_MAGIC"
    using p by (auto simp: live_def kmem_sizes)
  define k1 where "k1 = upd_page (PAGE_TOP b) (nallocs_update (\<lambda>n. (n + (2 ^ 16 - 1)) mod 2 ^ 16))
    (free_link b (upd_block b (bk_magic_update (\<lambda>_. FREE_MAGIC)) k))"
  note f = core_mark_free [OF c b(3,4), folded k1_def]
  have bm: "(p + 2 ^ 32 - BLKHDR_SIZE) mod 2 ^ 32 = b"
    using in_pageD(6,9) [OF c b(3)] b(1) by (simp add: kmem_sizes)
  define k2 where "k2 = (if nallocs (kpages k1 (PAGE_TOP b)) \<le> 0 then release_page (PAGE_TOP b) k1 else k1)"
  have e: "kmem_free p k = Some k2"
    unfolding kmem_free_def Let_def bm k2_def k1_def using b(4) by simp
  have l1: "live k1 = live k - {(p, sz)}"
    unfolding live_def f(2-4) b(1,2) kmem_sizes by auto
  have pg: "PAGE_TOP b \<in> set (kmem_pages k1)" using in_pageD(3) [OF c b(3)] f(5) by simp
  have "kmem_ok k2 \<and> live k2 = live k1"
  proof (cases "nallocs (kpages k1 (PAGE_TOP b)) = 0")
    case True
    note r = core_release [OF f(1) pg True]
    have none: "blk_magic k1 x \<noteq> ALLOC_MAGIC" if "in_page k1 x" "PAGE_TOP x = PAGE_TOP b" for x
      using in_pageD(1,2) [OF f(1) that(1)] that(2) True by (auto simp: page_ok_def filter_empty_conv)
    have "in_page (release_page (PAGE_TOP b) k1) x \<and> blk_magic (release_page (PAGE_TOP b) k1) x = ALLOC_MAGIC
      \<longleftrightarrow> in_page k1 x \<and> blk_magic k1 x = ALLOC_MAGIC" for x using r(2,4) [of x] none [of x] by metis
    then have "live (release_page (PAGE_TOP b) k1) = live k1" by (rule live_cong) (rule r(3))
    moreover have "\<forall>q \<in> set (kmem_pages (release_page (PAGE_TOP b) k1)). 0 < nallocs (kpages (release_page (PAGE_TOP b) k1) q)"
      unfolding r(5) using r(6) f(5,6) na by simp
    ultimately show ?thesis using r(1) True by (simp add: k2_def kmem_ok_def)
  next
    case False
    have "\<forall>q \<in> set (kmem_pages k1). 0 < nallocs (kpages k1 q)" unfolding f(5) using f(6) na False by (metis gr0I)
    then show ?thesis using False f(1) by (simp add: k2_def kmem_ok_def)
  qed
  then show ?thesis using e l1 by simp
qed

section \<open>What an allocator promises its clients\<close>

text \<open>
  A client's run: blocks it asked for and not released yet, with the sizes it asked for. A release
  that panics has no successor.
\<close>

inductive alloc_reach :: "(nat \<Rightarrow> 's \<Rightarrow> kmem_res \<times> 's) \<Rightarrow> (nat \<Rightarrow> 's \<Rightarrow> 's option) \<Rightarrow> (nat \<Rightarrow> bool) \<Rightarrow>
    's \<Rightarrow> (nat \<times> nat) list \<Rightarrow> 's \<Rightarrow> bool" for alloc release req s0 where
  start: "alloc_reach alloc release req s0 [] s0"
| got: "alloc_reach alloc release req s0 h s \<Longrightarrow> req n \<Longrightarrow> alloc n s = (KPtr p, s') \<Longrightarrow> alloc_reach alloc release req s0 ((p, n) # h) s'"
| full: "alloc_reach alloc release req s0 h s \<Longrightarrow> req n \<Longrightarrow> alloc n s = (KNull, s') \<Longrightarrow> alloc_reach alloc release req s0 h s'"
| freed: "alloc_reach alloc release req s0 h s \<Longrightarrow> (p, n) \<in> set h \<Longrightarrow> release p s = Some s' \<Longrightarrow>
    alloc_reach alloc release req s0 (remove1 (p, n) h) s'"

definition covers :: "(nat \<times> nat) list \<Rightarrow> (nat \<times> nat) set \<Rightarrow> bool" where
  "covers h H = (distinct (map fst h) \<and> fst ` set h = fst ` H \<and> (\<forall>(p, n) \<in> set h. \<exists>sz \<ge> n. (p, sz) \<in> H))"

definition blocks_apart :: "(nat \<times> nat) list \<Rightarrow> bool" where
  "blocks_apart h = sorted_wrt (\<lambda>(p, n) (q, m). p + n \<le> q \<or> q + m \<le> p) h"

lemma coversD: "covers h H \<Longrightarrow> x \<in> set h \<Longrightarrow> \<exists>sz \<ge> snd x. (fst x, sz) \<in> H"
  by (auto simp: covers_def split_beta)

lemma distinct_fst_sorted: "distinct (map fst h) \<Longrightarrow> sorted_wrt (\<lambda>x y. fst x \<noteq> fst y) h"
  by (induction h) force+

lemma covers_insert:
  assumes "covers h H" "p \<notin> fst ` set h" "n \<le> sz"
  shows "covers ((p, n) # h) (insert (p, sz) H)"
proof -
  have "\<exists>t \<ge> m. (q, t) \<in> insert (p, sz) H" if "(q, m) \<in> set ((p, n) # h)" for q m
    using that assms(1,3) by (cases "(q, m) = (p, n)") (auto simp: covers_def)
  then have "\<forall>(q, m) \<in> set ((p, n) # h). \<exists>t \<ge> m. (q, t) \<in> insert (p, sz) H" by blast
  moreover have "distinct (map fst ((p, n) # h))" "fst ` set ((p, n) # h) = fst ` insert (p, sz) H"
    using assms(1,2) by (simp_all add: covers_def)
  ultimately show ?thesis unfolding covers_def by blast
qed

lemma covers_remove:
  assumes c: "covers h H" and p: "(p, n) \<in> set h" and u: "\<forall>m. (p, m) \<in> H \<longrightarrow> m = sz"
  shows "covers (remove1 (p, n) h) (H - {(p, sz)})"
proof -
  have m: "set (remove1 (p, n) h) = {x \<in> set h. fst x \<noteq> p}" and d: "distinct (map fst (remove1 (p, n) h))"
    using remove1_fst [of h p n] c p by (auto simp: covers_def)
  have "fst ` (H - {(p, sz)}) = fst ` H - {p}" using u by force
  moreover have "fst ` set (remove1 (p, n) h) = fst ` set h - {p}" unfolding m by auto
  moreover have "\<exists>t \<ge> m. (q, t) \<in> H - {(p, sz)}" if "(q, m) \<in> set (remove1 (p, n) h)" for q m
    using that c unfolding m covers_def by auto
  ultimately show ?thesis using c d by (simp add: covers_def split_beta)
qed

locale allocator =
  fixes ok :: "'s \<Rightarrow> bool" and held :: "'s \<Rightarrow> (nat \<times> nat) set" and alloc :: "nat \<Rightarrow> 's \<Rightarrow> kmem_res \<times> 's"
    and release :: "nat \<Rightarrow> 's \<Rightarrow> 's option" and req :: "nat \<Rightarrow> bool"
  assumes alloc_law: "ok s \<Longrightarrow> req n \<Longrightarrow> alloc n s = (r, s') \<Longrightarrow> ok s' \<and> (r = KNull \<and> held s' = held s \<or>
      (\<exists>p sz. r = KPtr p \<and> n \<le> sz \<and> (\<forall>t. (p, t) \<notin> held s) \<and> held s' = insert (p, sz) (held s)))"
    and release_law: "ok s \<Longrightarrow> (p, sz) \<in> held s \<Longrightarrow> \<exists>s'. release p s = Some s' \<and> ok s' \<and> held s' = held s - {(p, sz)}"
    and apart_law: "ok s \<Longrightarrow> (p, m) \<in> held s \<Longrightarrow> (q, n) \<in> held s \<Longrightarrow> (p, m) \<noteq> (q, n) \<Longrightarrow> p + m \<le> q \<or> q + n \<le> p"
    and size_law: "ok s \<Longrightarrow> (p, m) \<in> held s \<Longrightarrow> 0 < m"
begin

lemma held_unique: "ok s \<Longrightarrow> (p, m) \<in> held s \<Longrightarrow> (p, n) \<in> held s \<Longrightarrow> m = n"
  using apart_law [of s p m p n] size_law [of s p] by fastforce

lemma reach_covers:
  assumes "alloc_reach alloc release req s0 h s" and s0: "ok s0" "held s0 = {}"
  shows "ok s \<and> covers h (held s)"
  using assms(1)
proof induction
  case start
  then show ?case using s0 by (simp add: covers_def)
next
  case (got h s n p s')
  then obtain sz where "ok s'" "n \<le> sz" "\<forall>t. (p, t) \<notin> held s" "held s' = insert (p, sz) (held s)"
    using alloc_law [of s n "KPtr p" s'] by auto
  moreover have "p \<notin> fst ` set h" using got.IH \<open>\<forall>t. (p, t) \<notin> held s\<close> by (force simp: covers_def)
  ultimately show ?case using got.IH covers_insert by simp
next
  case (full h s n s')
  then show ?case using alloc_law [of s n KNull s'] by auto
next
  case (freed h s p n s')
  have ok: "ok s" and c: "covers h (held s)" using freed.IH by simp_all
  then obtain sz where sz: "(p, sz) \<in> held s" using freed.hyps(2) by (fastforce simp: covers_def)
  have s': "ok s'" "held s' = held s - {(p, sz)}" using release_law [OF ok sz] freed.hyps(3) by auto
  have "\<forall>m. (p, m) \<in> held s \<longrightarrow> m = sz" using held_unique [OF ok _ sz] by auto
  then show ?case using covers_remove [OF c freed.hyps(2), of sz] s' by simp
qed

lemma covers_apart:
  assumes ok: "ok s" and c: "covers h (held s)"
  shows "blocks_apart h"
  unfolding blocks_apart_def
proof (rule sorted_wrt_mono_rel [of h "\<lambda>x y. fst x \<noteq> fst y"])
  fix x y assume xy: "x \<in> set h" "y \<in> set h" "fst x \<noteq> fst y"
  obtain sz1 sz2 where "snd x \<le> sz1" "(fst x, sz1) \<in> held s" "snd y \<le> sz2" "(fst y, sz2) \<in> held s"
    using coversD [OF c xy(1)] coversD [OF c xy(2)] by blast
  then show "(case x of (p, n) \<Rightarrow> \<lambda>(q, m). p + n \<le> q \<or> q + m \<le> p) y"
    using apart_law [OF ok, of "fst x" sz1 "fst y" sz2] xy(3) by (auto simp: split_beta)
next
  show "sorted_wrt (\<lambda>x y. fst x \<noteq> fst y) h"
    using c by (intro distinct_fst_sorted) (simp add: covers_def)
qed

end

interpretation km: allocator kmem_ok live kmem_alloc kmem_free "\<lambda>n. 0 < n \<and> n \<le> 4048"
proof unfold_locales
  fix s n r s' assume "kmem_ok s" "0 < n \<and> n \<le> 4048" "kmem_alloc n s = (r, s')"
  then show "kmem_ok s' \<and> (r = KNull \<and> live s' = live s \<or>
      (\<exists>p sz. r = KPtr p \<and> n \<le> sz \<and> (\<forall>t. (p, t) \<notin> live s) \<and> live s' = insert (p, sz) (live s)))"
    using kmem_alloc_ok [of s n r s'] by simp
next
  fix s p sz assume "kmem_ok s" "(p, sz) \<in> live s"
  then show "\<exists>s'. kmem_free p s = Some s' \<and> kmem_ok s' \<and> live s' = live s - {(p, sz)}" by (rule kmem_free_ok)
next
  fix s p m q n assume "kmem_ok s" "(p, m) \<in> live s" "(q, n) \<in> live s" "(p, m) \<noteq> (q, n)"
  then show "p + m \<le> q \<or> q + n \<le> p" using live_disjoint [of "{}" s p m q n] by (simp add: kmem_ok_def)
next
  fix s p m assume "kmem_ok s" "(p, m) \<in> live s"
  then show "0 < m" using live_range [of "{}" s p m] by (simp add: kmem_ok_def)
qed

section \<open>Properties\<close>

lemma kmem_init_ok: "pool_wf (kpool k) \<Longrightarrow> kmem_ok (kmem_init k) \<and> live (kmem_init k) = {}"
  by (simp add: kmem_ok_def kmem_core_def kmem_init_def live_def in_page_def)

lemma no_live_no_pages:
  assumes "kmem_ok k" "live k = {}"
  shows "kmem_pages k = []"
proof (rule ccontr)
  assume "kmem_pages k \<noteq> []"
  then obtain pg where pg: "pg \<in> set (kmem_pages k)" by (cases "kmem_pages k") auto
  then have p: "page_ok k pg" and "0 < nallocs (kpages k pg)" using assms(1) by (auto simp: kmem_ok_def kmem_core_def)
  then obtain b where b: "b \<in> set (blks k pg)" "blk_magic k b = ALLOC_MAGIC"
    by (auto simp: page_ok_def filter_empty_conv)
  then have "in_page k b" using page_okD(4) [OF p b(1)] pg by (simp add: in_page_def)
  then show False using b(2) assms(2) by (auto simp: live_def)
qed

text \<open>The first allocation of a kernel that starts with the pool of the example.\<close>

definition demo_kmem :: kmem where
  "demo_kmem = kmem_init \<lparr>blocks = (\<lambda>_. \<lparr>bk_magic = 0, bk_size = 0\<rparr>),
     kpages = (\<lambda>_. \<lparr>pg_magic = 0, nallocs = 0, pg_blks = []\<rparr>), free_blocks = (\<lambda>_. []), kmem_pages = [], kpool = example_pool\<rparr>"

lemma block_search_empty: "block_search (\<lambda>_. []) n i = None"
  by (induction n arbitrary: i) simp_all

lemma demo_kmem_alloc: "fst (kmem_alloc 100 demo_kmem) = KPtr 0x8000201c"
proof -
  have a: "kpage_alloc 4096 example_pool = (Some 0x2000, example_pool\<lparr>pages_free := [(0x80004000, 0x3000)]\<rparr>)"
    by (simp add: kpage_alloc_def example_pool_def PAGE_ALIGN_def PAGE_SIZE_def virt_to_phys_def PAGE_OFFSET_def)
  show ?thesis
    by (simp add: kmem_alloc_def Let_def ALLOC_ALIGN_def kmem_sizes demo_kmem_def kmem_init_def block_find_def
        block_search_empty a take_block_def new_page_def phys_to_virt_def PAGE_OFFSET_def)
qed



text \<open>
  C20: On a well-formed allocator \<^verbatim>\<open>kmem_alloc\<close> never panics: it returns no memory and leaves the
  blocks in use as they were, or a new block of at least the requested size that no block in use
  overlaps. Freeing the block at once gives the blocks in use of before.
\<close>

theorem kmem_alloc_free_roundtrip:
  assumes "kmem_ok k" "0 < n" "n \<le> 4048"
  shows "case kmem_alloc n k of
      (KPtr p, k') \<Rightarrow> kmem_ok k' \<and> (\<exists>sz \<ge> n. live k' = insert (p, sz) (live k)) \<and> (\<forall>t. (p, t) \<notin> live k) \<and>
        (\<exists>k''. kmem_free p k' = Some k'' \<and> kmem_ok k'' \<and> live k'' = live k)
    | (KNull, k') \<Rightarrow> kmem_ok k' \<and> live k' = live k
    | (KPanic, _) \<Rightarrow> False"
proof -
  obtain r k' where e: "kmem_alloc n k = (r, k')" by (cases "kmem_alloc n k")
  note a = kmem_alloc_ok [OF assms e]
  show ?thesis
  proof (cases "r = KNull")
    case True
    then show ?thesis using a e by simp
  next
    case False
    then obtain p sz where p: "r = KPtr p" "n \<le> sz" "\<forall>t. (p, t) \<notin> live k" "live k' = insert (p, sz) (live k)" "kmem_ok k'"
      using a by blast
    then obtain k'' where "kmem_free p k' = Some k''" "kmem_ok k''" "live k'' = live k"
      using kmem_free_ok [of k' p sz] by auto
    then show ?thesis using p e by auto
  qed
qed

theorem kmem_alloc_free_roundtrip_witness:
  "\<exists>k' k''. kmem_alloc 100 demo_kmem = (KPtr 0x8000201c, k') \<and> kmem_free 0x8000201c k' = Some k'' \<and> live k'' = live demo_kmem"
proof -
  have "kmem_ok demo_kmem" using kmem_init_ok example_pool_wf by (simp add: demo_kmem_def)
  from kmem_alloc_free_roundtrip [OF this, of 100] show ?thesis
    using demo_kmem_alloc by (cases "kmem_alloc 100 demo_kmem") auto
qed

end
