(* ===== verification/Kernel_State.thy ===== *)
theory Kernel_State
  imports Vm
begin

text \<open>
  The data of the kernel core, one record per C structure and one record \<open>kstate\<close> for
  the kernel's global variables. Kernel objects live in stores indexed by their
  address, as C pointers index memory; \<^verbatim>\<open>NULL\<close> is \<open>None\<close>. A queue or list head is the
  list of the elements linked on it (justified by \<open>Queue\<close>), so the linkage members of
  the structures have no field here: \<open>link\<close> of a thread is membership in one of
  \<open>runq\<close>, \<open>wakeq\<close> or a \<open>sleepq\<close>.
\<close>

section \<open>Constants\<close>

definition TH_RUN :: u32 where "TH_RUN = 0x00"
definition TH_SLEEP :: u32 where "TH_SLEEP = 0x01"
definition TH_SUSPEND :: u32 where "TH_SUSPEND = 0x02"
definition TH_EXIT :: u32 where "TH_EXIT = 0x04"

definition SLP_SUCCESS :: int where "SLP_SUCCESS = 0"
definition SLP_BREAK :: int where "SLP_BREAK = 1"
definition SLP_TIMEOUT :: int where "SLP_TIMEOUT = 2"
definition SLP_INVAL :: int where "SLP_INVAL = 3"
definition SLP_INTR :: int where "SLP_INTR = 4"

lemmas slp_defs = SLP_SUCCESS_def SLP_BREAK_def SLP_TIMEOUT_def SLP_INVAL_def SLP_INTR_def

definition PRIO_TIMER :: nat where "PRIO_TIMER = 15"
definition PRIO_IST :: nat where "PRIO_IST = 16"
definition PRIO_DPC :: nat where "PRIO_DPC = 33"
definition PRIO_DFLT :: nat where "PRIO_DFLT = 200"
definition PRIO_IDLE :: nat where "PRIO_IDLE = 255"
definition MIN_PRIO :: nat where "MIN_PRIO = 255"
definition NPRIO :: nat where "NPRIO = 256"

lemmas prio_defs = PRIO_TIMER_def PRIO_IST_def PRIO_DPC_def PRIO_DFLT_def PRIO_IDLE_def
  MIN_PRIO_def NPRIO_def

definition SCHED_FIFO :: int where "SCHED_FIFO = 0"
definition SCHED_RR :: int where "SCHED_RR = 1"
definition SCHED_OTHER :: int where "SCHED_OTHER = 2"

definition HZ :: nat where "HZ = 1000"
definition TIME_SLICE :: nat where "TIME_SLICE = 50"
definition QUANTUM :: int where "QUANTUM = int (TIME_SLICE * HZ div 1000)"

definition OBJECT_MAGIC :: nat where "OBJECT_MAGIC = 0x4f626a3f"
definition TASK_MAGIC :: nat where "TASK_MAGIC = 0x54736b3f"
definition THREAD_MAGIC :: nat where "THREAD_MAGIC = 0x5468723f"
definition DEVICE_MAGIC :: nat where "DEVICE_MAGIC = 0x4465763f"
definition MUTEX_MAGIC :: nat where "MUTEX_MAGIC = 0x4d75783f"
definition COND_MAGIC :: nat where "COND_MAGIC = 0x436f6e3f"
definition SEM_MAGIC :: nat where "SEM_MAGIC = 0x53656d3f"

lemmas magic_defs = OBJECT_MAGIC_def TASK_MAGIC_def THREAD_MAGIC_def DEVICE_MAGIC_def
  MUTEX_MAGIC_def COND_MAGIC_def SEM_MAGIC_def

definition CAP_SETPCAP :: u32 where "CAP_SETPCAP = 0x00000001"
definition CAP_TASK :: u32 where "CAP_TASK = 0x00000002"
definition CAP_MEMORY :: u32 where "CAP_MEMORY = 0x00000004"
definition CAP_KILL :: u32 where "CAP_KILL = 0x00000008"
definition CAP_SEMAPHORE :: u32 where "CAP_SEMAPHORE = 0x00000010"
definition CAP_NICE :: u32 where "CAP_NICE = 0x00000020"
definition CAP_IPC :: u32 where "CAP_IPC = 0x00000040"
definition CAP_DEVIO :: u32 where "CAP_DEVIO = 0x00000080"

definition MAXTASKNAME :: nat where "MAXTASKNAME = 12"
definition MAXTHNAME :: nat where "MAXTHNAME = 12"
definition MAXDEVNAME :: nat where "MAXDEVNAME = 12"
definition MAXOBJNAME :: nat where "MAXOBJNAME = 16"
definition MAXEVTNAME :: nat where "MAXEVTNAME = 12"
definition NEXC :: nat where "NEXC = 32"
definition NIRQS :: nat where "NIRQS = 16"
definition NIPLS :: nat where "NIPLS = 12"
definition DEV_OPEN_MAX :: nat where "DEV_OPEN_MAX = 16"
definition KSTACK_SIZE :: nat where "KSTACK_SIZE = 768"

section \<open>Processor contexts\<close>

text \<open>
  The user mode registers live in the trap frame at the top of the thread's kernel stack;
  \<open>uframe\<close> is the contents of that frame and \<open>k_arg\<close> the argument slot a kernel thread
  starts with. The registers that \<^verbatim>\<open>cpu_switch\<close> saves for the compiler belong to the
  suspended C computation and are not part of the state.
\<close>

record cpu_regs =
  u_ebx :: u32
  u_ecx :: u32
  u_edx :: u32
  u_esi :: u32
  u_edi :: u32
  u_ebp :: u32
  u_eax :: u32
  u_ds :: u32
  u_es :: u32
  u_trap_no :: u32
  u_err_code :: u32
  u_eip :: u32
  u_cs :: u32
  u_eflags :: u32
  u_esp :: u32
  u_ss :: u32

text \<open>Where a thread starts in kernel mode.\<close>

datatype kentry = SyscallRet | DpcThread | TimerThread | IrqThread | DriverThread nat

record cpu_context =
  k_eip :: kentry
  k_esp :: nat
  k_arg :: nat
  uregs :: nat
  saved_regs :: nat
  esp0 :: nat
  uframe :: cpu_regs

section \<open>Kernel objects\<close>

text \<open>
  The events of the kernel. A \<^verbatim>\<open>struct event\<close> is either one of the static events or
  is embedded in a semaphore, mutex, condition variable, interrupt descriptor or
  periodic timer, and is then named by the address of that object.
\<close>

datatype event =
    DpcEvent | TimerEvent | DelayEvent | IpcEvent | ExceptionEvent
  | SemEvent nat | MutexEvent nat | CondEvent nat | IstEvent nat | PeriodicEvent nat

text \<open>Where a \<^verbatim>\<open>struct timer\<close> lives, and the callout functions armed on one.\<close>

datatype timer_ref = ThreadTimeout tid | Periodic nat | TaskAlarm task_t | DriverTimer nat

datatype callout = SleepExpire tid | AlarmExpire task_t | DriverCallout nat nat

record timer =
  tm_active :: bool
  tm_expire :: u32
  tm_interval :: u32
  tm_func :: "callout option"

record thread =
  th_magic :: nat
  th_name :: "nat list"
  th_task :: "task_t option"
  state :: u32
  policy :: int
  prio :: nat
  baseprio :: nat
  timeleft :: int
  th_time :: u32
  resched :: bool
  locks :: int
  suscnt :: int
  slpevt :: "event option"
  slpret :: int
  periodic :: "nat option"
  excbits :: u32
  msgaddr :: nat
  msgsize :: nat
  sender :: "tid option"
  receiver :: "tid option"
  sendobj :: "nat option"
  recvobj :: "nat option"
  th_mutexes :: "nat list"
  wait_mutex :: "nat option"
  kstack :: nat
  ctx :: cpu_context

record dev_file =
  f_dev :: "nat option"
  f_priv :: nat
  f_flags :: nat

record task =
  tk_magic :: nat
  tk_name :: "nat list"
  tk_objects :: "nat list"
  tk_threads :: "tid list"
  tk_map :: nat
  tk_suscnt :: int
  capability :: u32
  handler :: "nat option"
  parent :: "task_t option"
  files :: "nat \<Rightarrow> dev_file"

record sem =
  sm_magic :: nat
  sm_task :: task_t
  sm_value :: u32

record mutex =
  mx_magic :: nat
  mx_task :: task_t
  mx_owner :: "tid option"
  mx_prio :: nat
  mx_locks :: int

record cond =
  cv_magic :: nat
  cv_task :: task_t
  cv_wait :: int
  cv_signal :: int

record kobject =
  ob_magic :: nat
  ob_name :: "nat list"
  ob_owner :: task_t
  sendq :: "tid list"
  recvq :: "tid list"

record device =
  dv_magic :: nat
  dv_refcnt :: int
  dv_flags :: nat
  dv_io :: nat
  dv_info :: nat
  dv_name :: "nat list"

record irq =
  iq_vector :: nat
  iq_isr :: nat
  iq_ist :: "nat option"
  iq_istreq :: int
  iq_thread :: "tid option"

text \<open>
  The interrupt controller as \<^verbatim>\<open>sys/arch/i386/pc/interrupt.c\<close> keeps it: the level of each vector,
  the mask of each level, the level in force, the two mask registers and the trigger modes.
\<close>

record pic =
  ipl_table :: "nat \<Rightarrow> nat"
  mask_table :: "nat \<Rightarrow> u32"
  irq_level :: nat
  pic_mask_m :: u32
  pic_mask_s :: u32
  elcr :: "nat \<Rightarrow> u32"

record dpc =
  dpc_pending :: bool
  dpc_func :: nat
  dpc_arg :: nat

section \<open>The kernel state\<close>

text \<open>
  \<open>vm\<close> is the memory system: physical memory, page tables with the register \<^verbatim>\<open>cr3\<close>, address
  spaces, and the heap blocks that \<^verbatim>\<open>kmem_alloc\<close> will hand out (the allocator itself is modelled
  in \<open>Kmem\<close>; the scheduler lock it takes inside is left out). \<open>task_list\<close> are the tasks
  linked after \<^verbatim>\<open>kern_task\<close>.
\<close>

record kstate =
  threads :: "tid \<Rightarrow> thread"
  cur_thread :: tid
  idle_thread :: tid
  runq :: "nat \<Rightarrow> tid list"
  wakeq :: "tid list"
  sleepq :: "event \<Rightarrow> tid list"
  top_prio :: nat
  dpcq :: "nat list"
  dpcs :: "nat \<Rightarrow> dpc"
  lbolt :: u32
  timers :: "timer_ref \<Rightarrow> timer"
  timer_list :: "timer_ref list"
  expire_list :: "timer_ref list"
  tick_hook :: "nat option"
  interrupts :: bool
  nr_irq_locks :: int
  saved_irq_state :: bool
  tss_esp0 :: nat
  vm :: vmstate
  zombie :: "tid option"
  tasks :: "task_t \<Rightarrow> task"
  kern_task :: task_t
  task_list :: "task_t list"
  sems :: "nat \<Rightarrow> sem"
  mutexes :: "nat \<Rightarrow> mutex"
  conds :: "nat \<Rightarrow> cond"
  objects :: "nat \<Rightarrow> kobject"
  obj_table :: "nat \<Rightarrow> nat list"
  devices :: "nat \<Rightarrow> device"
  device_list :: "nat list"
  irqs :: "nat \<Rightarrow> irq"
  irq_table :: "nat \<Rightarrow> nat option"
  pic :: pic

abbreviation cur :: "kstate \<Rightarrow> thread" where
  "cur s \<equiv> threads s (cur_thread s)"

definition upd_thread :: "tid \<Rightarrow> (thread \<Rightarrow> thread) \<Rightarrow> kstate \<Rightarrow> kstate" where
  "upd_thread th f s = s\<lparr>threads := (threads s)(th := f (threads s th))\<rparr>"

abbreviation upd_cur :: "(thread \<Rightarrow> thread) \<Rightarrow> kstate \<Rightarrow> kstate" where
  "upd_cur f s \<equiv> upd_thread (cur_thread s) f s"

definition upd_timer :: "timer_ref \<Rightarrow> (timer \<Rightarrow> timer) \<Rightarrow> kstate \<Rightarrow> kstate" where
  "upd_timer r f s = s\<lparr>timers := (timers s)(r := f (timers s r))\<rparr>"

definition upd_mutex :: "nat \<Rightarrow> (mutex \<Rightarrow> mutex) \<Rightarrow> kstate \<Rightarrow> kstate" where
  "upd_mutex m f s = s\<lparr>mutexes := (mutexes s)(m := f (mutexes s m))\<rparr>"

definition upd_sem :: "nat \<Rightarrow> (sem \<Rightarrow> sem) \<Rightarrow> kstate \<Rightarrow> kstate" where
  "upd_sem m f s = s\<lparr>sems := (sems s)(m := f (sems s m))\<rparr>"

definition upd_cond :: "nat \<Rightarrow> (cond \<Rightarrow> cond) \<Rightarrow> kstate \<Rightarrow> kstate" where
  "upd_cond m f s = s\<lparr>conds := (conds s)(m := f (conds s m))\<rparr>"

definition upd_object :: "nat \<Rightarrow> (kobject \<Rightarrow> kobject) \<Rightarrow> kstate \<Rightarrow> kstate" where
  "upd_object m f s = s\<lparr>objects := (objects s)(m := f (objects s m))\<rparr>"

definition upd_task :: "task_t \<Rightarrow> (task \<Rightarrow> task) \<Rightarrow> kstate \<Rightarrow> kstate" where
  "upd_task m f s = s\<lparr>tasks := (tasks s)(m := f (tasks s m))\<rparr>"

definition upd_irq :: "nat \<Rightarrow> (irq \<Rightarrow> irq) \<Rightarrow> kstate \<Rightarrow> kstate" where
  "upd_irq m f s = s\<lparr>irqs := (irqs s)(m := f (irqs s m))\<rparr>"

definition upd_device :: "nat \<Rightarrow> (device \<Rightarrow> device) \<Rightarrow> kstate \<Rightarrow> kstate" where
  "upd_device m f s = s\<lparr>devices := (devices s)(m := f (devices s m))\<rparr>"

definition thread_valid :: "kstate \<Rightarrow> tid \<Rightarrow> bool" where
  "thread_valid s th = (kern_area th \<and> th_magic (threads s th) = THREAD_MAGIC)"

definition cur_task :: "kstate \<Rightarrow> task_t option" where
  "cur_task s = th_task (cur s)"

text \<open>Zeroed storage: what \<^verbatim>\<open>memset(p, 0, ...)\<close> and the kernel's bss segment hold.\<close>

definition zero_regs :: cpu_regs where
  "zero_regs = \<lparr>u_ebx = 0, u_ecx = 0, u_edx = 0, u_esi = 0, u_edi = 0, u_ebp = 0, u_eax = 0, u_ds = 0,
     u_es = 0, u_trap_no = 0, u_err_code = 0, u_eip = 0, u_cs = 0, u_eflags = 0, u_esp = 0, u_ss = 0\<rparr>"

definition zero_context :: cpu_context where
  "zero_context = \<lparr>k_eip = SyscallRet, k_esp = 0, k_arg = 0, uregs = 0, saved_regs = 0, esp0 = 0,
     uframe = zero_regs\<rparr>"

definition zero_thread :: thread where
  "zero_thread = \<lparr>th_magic = 0, th_name = replicate MAXTHNAME 0, th_task = None, state = 0, policy = 0, prio = 0,
     baseprio = 0, timeleft = 0, th_time = 0, resched = False, locks = 0, suscnt = 0, slpevt = None,
     slpret = 0, periodic = None, excbits = 0, msgaddr = 0, msgsize = 0, sender = None,
     receiver = None, sendobj = None, recvobj = None, th_mutexes = [], wait_mutex = None, kstack = 0,
     ctx = zero_context\<rparr>"

definition zero_timer :: timer where
  "zero_timer = \<lparr>tm_active = False, tm_expire = 0, tm_interval = 0, tm_func = None\<rparr>"

definition zero_task :: task where
  "zero_task = \<lparr>tk_magic = 0, tk_name = replicate MAXTASKNAME 0, tk_objects = [], tk_threads = [], tk_map = 0,
     tk_suscnt = 0, capability = 0, handler = None, parent = None,
     files = \<lambda>_. \<lparr>f_dev = None, f_priv = 0, f_flags = 0\<rparr>\<rparr>"

definition zero_state :: "tid \<Rightarrow> task_t \<Rightarrow> vmstate \<Rightarrow> kstate" where
  "zero_state idle kt v =
     \<lparr>threads = \<lambda>_. zero_thread, cur_thread = idle, idle_thread = idle, runq = \<lambda>_. [], wakeq = [],
      sleepq = \<lambda>_. [], top_prio = 0, dpcq = [], dpcs = \<lambda>_. \<lparr>dpc_pending = False, dpc_func = 0, dpc_arg = 0\<rparr>,
      lbolt = 0, timers = \<lambda>_. zero_timer, timer_list = [], expire_list = [], tick_hook = None,
      interrupts = False, nr_irq_locks = 0, saved_irq_state = False, tss_esp0 = 0, vm = v, zombie = None,
      tasks = \<lambda>_. zero_task, kern_task = kt, task_list = [],
      sems = \<lambda>_. \<lparr>sm_magic = 0, sm_task = 0, sm_value = 0\<rparr>,
      mutexes = \<lambda>_. \<lparr>mx_magic = 0, mx_task = 0, mx_owner = None, mx_prio = 0, mx_locks = 0\<rparr>,
      conds = \<lambda>_. \<lparr>cv_magic = 0, cv_task = 0, cv_wait = 0, cv_signal = 0\<rparr>,
      objects = \<lambda>_. \<lparr>ob_magic = 0, ob_name = replicate MAXOBJNAME 0, ob_owner = 0, sendq = [], recvq = []\<rparr>,
      obj_table = \<lambda>_. [],
      devices = \<lambda>_. \<lparr>dv_magic = 0, dv_refcnt = 0, dv_flags = 0, dv_io = 0, dv_info = 0,
        dv_name = replicate MAXDEVNAME 0\<rparr>,
      device_list = [],
      irqs = \<lambda>_. \<lparr>iq_vector = 0, iq_isr = 0, iq_ist = None, iq_istreq = 0, iq_thread = None\<rparr>,
      irq_table = \<lambda>_. None,
      pic = \<lparr>ipl_table = \<lambda>_. 0, mask_table = \<lambda>_. 0, irq_level = 0, pic_mask_m = 0, pic_mask_s = 0, elcr = \<lambda>_. 0\<rparr>\<rparr>"

section \<open>Kernel memory\<close>

definition kmem_alloc_block :: "kstate \<Rightarrow> nat option \<times> kstate" where
  "kmem_alloc_block s = (case vm_kmem_alloc (vm s) of (r, v) \<Rightarrow> (r, s\<lparr>vm := v\<rparr>))"

definition kmem_free_block :: "nat \<Rightarrow> kstate \<Rightarrow> kstate" where
  "kmem_free_block a s = s\<lparr>vm := vm_kmem_free a (vm s)\<rparr>"

section \<open>Thread state flags\<close>

lemmas th_state_defs = TH_RUN_def TH_SLEEP_def TH_SUSPEND_def TH_EXIT_def

lemma bit_TH:
  "bit TH_RUN n = False" "bit TH_SLEEP n = (n = 0)" "bit TH_SUSPEND n = (n = 1)" "bit TH_EXIT n = (n = 2)"
  using bit_exp_iff [of 1 n, where ?'a = u32] bit_exp_iff [of 2 n, where ?'a = u32]
  by (auto simp: th_state_defs bit_1_iff possible_bit_def)

lemma TH_distinct [flag_simps]:
  "TH_SLEEP \<noteq> 0" "TH_SUSPEND \<noteq> 0" "TH_EXIT \<noteq> TH_RUN" "TH_SLEEP \<noteq> TH_RUN" "TH_SUSPEND \<noteq> TH_RUN" "TH_EXIT AND TH_SLEEP = 0"
  "TH_RUN AND TH_SLEEP = 0" "TH_RUN AND TH_SUSPEND = 0" "TH_RUN OR TH_SUSPEND \<noteq> TH_RUN"
  "(TH_RUN OR TH_SUSPEND) AND TH_SLEEP = 0"
  by (simp_all add: th_state_defs)

lemma set_flag_not_run [flag_simps]:
  "st OR TH_SLEEP \<noteq> TH_RUN" "st OR TH_SUSPEND \<noteq> TH_RUN" "(st OR TH_SLEEP) AND TH_SLEEP \<noteq> 0"
proof -
  have "bit (st OR TH_SLEEP) 0" "bit (st OR TH_SUSPEND) 1"
    by (simp_all add: bit_or_iff bit_TH)
  then show "st OR TH_SLEEP \<noteq> TH_RUN" "st OR TH_SUSPEND \<noteq> TH_RUN"
    using bit_TH(1) by metis+
  have "(st OR TH_SLEEP) AND TH_SLEEP = TH_SLEEP"
    by (rule bit_word_eqI) (auto simp: bit_and_iff bit_or_iff)
  then show "(st OR TH_SLEEP) AND TH_SLEEP \<noteq> 0" by (simp add: TH_SLEEP_def)
qed

lemma flag_frame [flag_simps]:
  "(st OR TH_SUSPEND) AND TH_SLEEP = st AND TH_SLEEP"
  "(st AND NOT TH_SUSPEND) AND TH_SLEEP = st AND TH_SLEEP"
  "(st AND NOT TH_SLEEP) AND TH_SLEEP = 0"
  "(st AND NOT TH_SLEEP) AND TH_SUSPEND = st AND TH_SUSPEND"
  "(st OR TH_SLEEP) AND TH_SUSPEND = st AND TH_SUSPEND"
  by (rule bit_word_eqI; auto simp: bit_and_iff bit_or_iff bit_not_iff bit_TH)+

lemma run_not_flagged [flag_simps]: "st AND TH_SLEEP \<noteq> 0 \<Longrightarrow> st \<noteq> TH_RUN"
  by (auto simp: TH_RUN_def)

end
