(* ===== verification/Sched.thy ===== *)
theory Sched
  imports Kernel_State
begin

text \<open>
  The scheduler, \<^verbatim>\<open>sys/kern/sched.c\<close>, with the parts of \<^verbatim>\<open>sys/kern/irq.c\<close> (the interrupt
  lock) and \<^verbatim>\<open>sys/kern/timer.c\<close> (the list of active timers) that it calls.

  A context switch ends the function that made it: what C does after
  \<^verbatim>\<open>context_switch\<close> returns happens when the thread is dispatched again. So \<open>sched_tsleep\<close>
  is the part of \<^verbatim>\<open>sched_tsleep\<close> up to the switch, and \<open>sched_tsleep_ret\<close> is the part
  after it. In \<open>sched_unlock\<close> the only work left after the switch is to drop the lock
  count of the thread that called it, which no other thread reads; it is done at once.
  Interrupt handlers are steps of their own, taken between these operations. The CPU
  interrupt flag that \<^verbatim>\<open>sched_tsleep\<close> and \<^verbatim>\<open>sched_unlock\<close> save and restore around the
  switch is part of the saved context and not of this state.
\<close>

section \<open>The interrupt lock\<close>

definition irq_lock :: "kstate \<Rightarrow> kstate" where
  "irq_lock s =
     (let saved = interrupts s; n = nr_irq_locks s + 1
      in s\<lparr>interrupts := False, nr_irq_locks := n,
           saved_irq_state := (if n = 1 then saved else saved_irq_state s)\<rparr>)"

definition irq_unlock :: "kstate \<Rightarrow> kstate" where
  "irq_unlock s =
     (let n = nr_irq_locks s - 1
      in if n = 0 then s\<lparr>nr_irq_locks := n, interrupts := saved_irq_state s\<rparr>
         else s\<lparr>nr_irq_locks := n\<rparr>)"

section \<open>The timer list\<close>

definition time_after :: "u32 \<Rightarrow> u32 \<Rightarrow> bool" where
  "time_after a b = (sint (b - a) < 0)"

definition time_before :: "u32 \<Rightarrow> u32 \<Rightarrow> bool" where
  "time_before a b = time_after b a"

definition msec_to_tick :: "u32 \<Rightarrow> u32" where
  "msec_to_tick ms =
     (if 0x20000 \<le> ms then (ms div 1000) * word_of_nat HZ else (ms * word_of_nat HZ) div 1000)"

definition tick_to_msec :: "u32 \<Rightarrow> u32" where
  "tick_to_msec tick = (tick * 1000) div word_of_nat HZ"

text \<open>Before the first timer that expires later.\<close>

fun timer_place :: "(timer_ref \<Rightarrow> u32) \<Rightarrow> u32 \<Rightarrow> timer_ref \<Rightarrow> timer_ref list \<Rightarrow> timer_ref list" where
  "timer_place ex e tmr [] = [tmr]"
| "timer_place ex e tmr (t # ts) =
     (if time_before e (ex t) then tmr # t # ts else t # timer_place ex e tmr ts)"

definition timer_add :: "timer_ref \<Rightarrow> u32 \<Rightarrow> kstate \<Rightarrow> kstate" where
  "timer_add tmr ticks s0 =
     (let e = lbolt s0 + ticks;
          s = upd_timer tmr (tm_expire_update (\<lambda>_. e)) s0
      in s\<lparr>timer_list := timer_place (\<lambda>t. tm_expire (timers s t)) e tmr (timer_list s)\<rparr>)"

text \<open>\<^verbatim>\<open>list_remove(&tmr->link)\<close>: the timer is linked on one of the two lists.\<close>

definition timer_unlink :: "timer_ref \<Rightarrow> kstate \<Rightarrow> kstate" where
  "timer_unlink tmr s =
     s\<lparr>timer_list := remove1 tmr (timer_list s), expire_list := remove1 tmr (expire_list s)\<rparr>"

definition timer_callout :: "timer_ref \<Rightarrow> u32 \<Rightarrow> callout \<Rightarrow> kstate \<Rightarrow> kstate" where
  "timer_callout tmr msec func s0 =
     (let ticks0 = msec_to_tick msec;
          ticks = (if ticks0 = 0 then 1 else ticks0);
          s1 = irq_lock s0;
          s2 = (if tm_active (timers s1 tmr) then timer_unlink tmr s1 else s1);
          s3 = upd_timer tmr (\<lambda>t. t\<lparr>tm_func := Some func, tm_active := True, tm_interval := 0\<rparr>) s2
      in irq_unlock (timer_add tmr ticks s3))"

definition timer_stop :: "timer_ref \<Rightarrow> kstate \<Rightarrow> kstate" where
  "timer_stop tmr s0 =
     (let s1 = irq_lock s0;
          s2 = (if tm_active (timers s1 tmr)
                then upd_timer tmr (tm_active_update (\<lambda>_. False)) (timer_unlink tmr s1) else s1)
      in irq_unlock s2)"

section \<open>The run queue\<close>

fun runq_search :: "(nat \<Rightarrow> tid list) \<Rightarrow> nat \<Rightarrow> nat \<Rightarrow> nat" where
  "runq_search q 0 p = p"
| "runq_search q (Suc n) p = (if q p \<noteq> [] then p else runq_search q n (Suc p))"

definition runq_top :: "kstate \<Rightarrow> nat" where
  "runq_top s = runq_search (runq s) MIN_PRIO 0"

definition runq_enqueue :: "tid \<Rightarrow> kstate \<Rightarrow> kstate" where
  "runq_enqueue th s =
     (let p = prio (threads s th);
          s1 = s\<lparr>runq := (runq s)(p := runq s p @ [th])\<rparr>
      in if p < top_prio s1
         then upd_cur (resched_update (\<lambda>_. True)) (s1\<lparr>top_prio := p\<rparr>) else s1)"

definition runq_insert :: "tid \<Rightarrow> kstate \<Rightarrow> kstate" where
  "runq_insert th s =
     (let p = prio (threads s th);
          s1 = s\<lparr>runq := (runq s)(p := th # runq s p)\<rparr>
      in if p < top_prio s1 then s1\<lparr>top_prio := p\<rparr> else s1)"

text \<open>\<open>None\<close>: \<^verbatim>\<open>dequeue\<close> returned \<^verbatim>\<open>NULL\<close>, and C would go on with a bad pointer.\<close>

definition runq_dequeue :: "kstate \<Rightarrow> tid option \<times> kstate" where
  "runq_dequeue s =
     (case runq s (top_prio s) of
        [] \<Rightarrow> (None, s)
      | th # q \<Rightarrow>
          let s1 = s\<lparr>runq := (runq s)(top_prio s := q)\<rparr>
          in (Some th, if q = [] then s1\<lparr>top_prio := runq_top s1\<rparr> else s1))"

text \<open>\<^verbatim>\<open>queue_remove(&th->link)\<close>: off whichever scheduling queue holds the thread.\<close>

definition link_remove :: "tid \<Rightarrow> kstate \<Rightarrow> kstate" where
  "link_remove th s =
     s\<lparr>runq := (\<lambda>p. remove1 th (runq s p)), wakeq := remove1 th (wakeq s),
       sleepq := (\<lambda>e. remove1 th (sleepq s e))\<rparr>"

definition runq_remove :: "tid \<Rightarrow> kstate \<Rightarrow> kstate" where
  "runq_remove th s = (let s1 = link_remove th s in s1\<lparr>top_prio := runq_top s1\<rparr>)"

section \<open>Switching and sleeping\<close>

definition wake_one :: "tid \<Rightarrow> kstate \<Rightarrow> kstate" where
  "wake_one th s =
     (let s1 = upd_thread th (\<lambda>t. t\<lparr>slpevt := None, state := state t AND NOT TH_SLEEP\<rparr>) s
      in if th \<noteq> cur_thread s1 \<and> state (threads s1 th) = TH_RUN then runq_enqueue th s1 else s1)"

fun wakeq_flush_from :: "tid list \<Rightarrow> kstate \<Rightarrow> kstate" where
  "wakeq_flush_from [] s = s"
| "wakeq_flush_from (th # q) s = wakeq_flush_from q (wake_one th (s\<lparr>wakeq := q\<rparr>))"

definition wakeq_flush :: "kstate \<Rightarrow> kstate" where
  "wakeq_flush s = wakeq_flush_from (wakeq s) s"

text \<open>The switch proper: the address space and the kernel stack of the next thread.\<close>

definition vm_switch_task :: "task_t option \<Rightarrow> kstate \<Rightarrow> kstate" where
  "vm_switch_task t s =
     (case t of None \<Rightarrow> s | Some tk \<Rightarrow> s\<lparr>vm := vm_switch (tk_map (tasks s tk)) (vm s)\<rparr>)"

definition tss_set :: "nat \<Rightarrow> kstate \<Rightarrow> kstate" where
  "tss_set sp s = s\<lparr>tss_esp0 := sp\<rparr>"

definition context_switch :: "tid \<Rightarrow> kstate \<Rightarrow> kstate" where
  "context_switch nxt s = tss_set (esp0 (ctx (threads s nxt))) s"

definition switch_to :: "tid \<Rightarrow> tid \<Rightarrow> kstate \<Rightarrow> kstate" where
  "switch_to prev nxt s =
     (let s1 = s\<lparr>cur_thread := nxt\<rparr>;
          s2 = (if th_task (threads s1 prev) \<noteq> th_task (threads s1 nxt)
                then vm_switch_task (th_task (threads s1 nxt)) s1 else s1)
      in context_switch nxt s2)"

definition sched_switch :: "kstate \<Rightarrow> kstate" where
  "sched_switch s =
     (let prev = cur_thread s;
          s1 = (if state (threads s prev) = TH_RUN
                then if top_prio s < prio (threads s prev) then runq_insert prev s
                     else runq_enqueue prev s
                else s);
          s2 = upd_thread prev (resched_update (\<lambda>_. False)) s1
      in case runq_dequeue s2 of
           (None, s3) \<Rightarrow> s3
         | (Some nxt, s3) \<Rightarrow> if nxt = prev then s3 else switch_to prev nxt s3)"

definition sched_lock :: "kstate \<Rightarrow> kstate" where
  "sched_lock s = upd_cur (locks_update (\<lambda>n. n + 1)) s"

text \<open>
  The loop of \<^verbatim>\<open>sched_unlock\<close>. The thread that is switched to goes on from its own
  switch with its own rescheduling flag, so the loop condition is read again from the
  new current thread. One round is always enough (\<open>resched_loop_once\<close> below).
\<close>

fun resched_loop :: "nat \<Rightarrow> kstate \<Rightarrow> kstate" where
  "resched_loop 0 s = s"
| "resched_loop (Suc n) s =
     (if resched (cur s) then resched_loop n (wakeq_flush (sched_switch s)) else s)"

definition sched_unlock :: "kstate \<Rightarrow> kstate" where
  "sched_unlock s =
     (let caller = cur_thread s;
          s1 = (if locks (cur s) = 1 then resched_loop 2 (wakeq_flush s) else s)
      in upd_thread caller (locks_update (\<lambda>n. n - 1)) s1)"

definition sched_tsleep :: "event \<Rightarrow> u32 \<Rightarrow> kstate \<Rightarrow> kstate" where
  "sched_tsleep evt msec s0 =
     (let s1 = sched_lock s0;
          th = cur_thread s1;
          s2 = upd_cur (\<lambda>t. t\<lparr>slpevt := Some evt, state := state t OR TH_SLEEP\<rparr>) s1;
          s3 = s2\<lparr>sleepq := (sleepq s2)(evt := sleepq s2 evt @ [th])\<rparr>;
          s4 = (if msec \<noteq> 0 then timer_callout (ThreadTimeout th) msec (SleepExpire th) s3 else s3)
      in sched_switch (wakeq_flush s4))"

definition sched_tsleep_ret :: "kstate \<Rightarrow> int \<times> kstate" where
  "sched_tsleep_ret s = (let s1 = sched_unlock s in (slpret (threads s1 (cur_thread s)), s1))"

text \<open>\<^verbatim>\<open>sched_wakeup\<close>'s loop: one sleeper moves to the wake queue.\<close>

definition wake_move :: "tid \<Rightarrow> kstate \<Rightarrow> kstate" where
  "wake_move th s =
     (let s1 = upd_thread th (slpret_update (\<lambda>_. 0)) s;
          s2 = s1\<lparr>wakeq := wakeq s1 @ [th]\<rparr>
      in timer_stop (ThreadTimeout th) s2)"

fun wakeup_from :: "event \<Rightarrow> tid list \<Rightarrow> kstate \<Rightarrow> kstate" where
  "wakeup_from evt [] s = s"
| "wakeup_from evt (th # q) s =
     wakeup_from evt q (wake_move th (s\<lparr>sleepq := (sleepq s)(evt := q)\<rparr>))"

definition sched_wakeup :: "event \<Rightarrow> kstate \<Rightarrow> kstate" where
  "sched_wakeup evt s0 =
     (let s1 = irq_lock (sched_lock s0)
      in sched_unlock (irq_unlock (wakeup_from evt (sleepq s1 evt) s1)))"

fun top_waiter :: "(tid \<Rightarrow> nat) \<Rightarrow> tid \<Rightarrow> tid list \<Rightarrow> tid" where
  "top_waiter pr best [] = best"
| "top_waiter pr best (th # q) = top_waiter pr (if pr th < pr best then th else best) q"

definition sched_wakeone :: "event \<Rightarrow> kstate \<Rightarrow> tid option \<times> kstate" where
  "sched_wakeone evt s0 =
     (let s1 = irq_lock (sched_lock s0);
          (woken, s2) =
            (case sleepq s1 evt of
               [] \<Rightarrow> (None, s1)
             | th # q \<Rightarrow>
                 let best = top_waiter (\<lambda>t. prio (threads s1 t)) th (th # q)
                 in (Some best, wake_move best (link_remove best s1)))
      in (woken, sched_unlock (irq_unlock s2)))"

definition sched_unsleep :: "tid \<Rightarrow> int \<Rightarrow> kstate \<Rightarrow> kstate" where
  "sched_unsleep th result s0 =
     (let s1 = sched_lock s0;
          s2 = (if state (threads s1 th) AND TH_SLEEP \<noteq> 0
                then let a = link_remove th (irq_lock s1);
                         b = upd_thread th (slpret_update (\<lambda>_. result)) a;
                         c = b\<lparr>wakeq := wakeq b @ [th]\<rparr>
                     in irq_unlock (timer_stop (ThreadTimeout th) c)
                else s1)
      in sched_unlock s2)"

definition sched_yield :: "kstate \<Rightarrow> kstate" where
  "sched_yield s0 =
     (let s1 = sched_lock s0;
          s2 = (if runq s1 (prio (cur s1)) \<noteq> [] then upd_cur (resched_update (\<lambda>_. True)) s1 else s1)
      in sched_unlock s2)"

definition sched_suspend :: "tid \<Rightarrow> kstate \<Rightarrow> kstate" where
  "sched_suspend th s =
     (let s1 = (if state (threads s th) = TH_RUN
                then if th = cur_thread s then upd_cur (resched_update (\<lambda>_. True)) s
                     else runq_remove th s
                else s)
      in upd_thread th (state_update (\<lambda>st. st OR TH_SUSPEND)) s1)"

definition sched_resume :: "tid \<Rightarrow> kstate \<Rightarrow> kstate" where
  "sched_resume th s =
     (if state (threads s th) AND TH_SUSPEND \<noteq> 0
      then let s1 = upd_thread th (state_update (\<lambda>st. st AND NOT TH_SUSPEND)) s
           in if state (threads s1 th) = TH_RUN then runq_enqueue th s1 else s1
      else s)"

definition sched_tick :: "kstate \<Rightarrow> kstate" where
  "sched_tick s0 =
     (let s1 = upd_cur (th_time_update (\<lambda>n. n + 1)) s0
      in if policy (cur s1) = SCHED_RR
         then let s2 = upd_cur (timeleft_update (\<lambda>n. n - 1)) s1
              in if timeleft (cur s2) \<le> 0
                 then upd_cur (\<lambda>t. t\<lparr>timeleft := timeleft t + QUANTUM, resched := True\<rparr>) s2
                 else s2
         else s1)"

definition sched_start :: "tid \<Rightarrow> kstate \<Rightarrow> kstate" where
  "sched_start th s =
     upd_thread th (\<lambda>t. t\<lparr>state := TH_RUN OR TH_SUSPEND, policy := SCHED_RR, prio := PRIO_DFLT,
       baseprio := PRIO_DFLT, timeleft := QUANTUM\<rparr>) s"

definition sched_stop :: "tid \<Rightarrow> kstate \<Rightarrow> kstate" where
  "sched_stop th s =
     (let s1 = (if th = cur_thread s
                then upd_cur (\<lambda>t. t\<lparr>locks := 1, resched := True\<rparr>) s
                else if state (threads s th) = TH_RUN then runq_remove th s
                else if state (threads s th) AND TH_SLEEP \<noteq> 0 then link_remove th s
                else s);
          s2 = timer_stop (ThreadTimeout th) s1
      in upd_thread th (state_update (\<lambda>_. TH_EXIT)) s2)"

definition sched_getprio :: "tid \<Rightarrow> kstate \<Rightarrow> nat" where
  "sched_getprio th s = prio (threads s th)"

definition sched_setprio :: "tid \<Rightarrow> nat \<Rightarrow> nat \<Rightarrow> kstate \<Rightarrow> kstate" where
  "sched_setprio th bprio p s0 =
     (let s = upd_thread th (baseprio_update (\<lambda>_. bprio)) s0
      in if th = cur_thread s
         then let s1 = upd_thread th (prio_update (\<lambda>_. p)) s;
                  s2 = s1\<lparr>top_prio := runq_top s1\<rparr>
              in if p \<noteq> top_prio s2 then upd_cur (resched_update (\<lambda>_. True)) s2 else s2
         else if state (threads s th) = TH_RUN
         then runq_enqueue th (upd_thread th (prio_update (\<lambda>_. p)) (runq_remove th s))
         else upd_thread th (prio_update (\<lambda>_. p)) s)"

definition sched_getpolicy :: "tid \<Rightarrow> kstate \<Rightarrow> int" where
  "sched_getpolicy th s = policy (threads s th)"

definition sched_setpolicy :: "tid \<Rightarrow> int \<Rightarrow> kstate \<Rightarrow> int \<times> kstate" where
  "sched_setpolicy th pol s =
     (if pol = SCHED_RR \<or> pol = SCHED_FIFO
      then (0, upd_thread th (\<lambda>t. t\<lparr>timeleft := QUANTUM, policy := pol\<rparr>) s)
      else (-1, s))"

text \<open>Deferred procedure calls.\<close>

definition upd_dpc :: "nat \<Rightarrow> (dpc \<Rightarrow> dpc) \<Rightarrow> kstate \<Rightarrow> kstate" where
  "upd_dpc d f s = s\<lparr>dpcs := (dpcs s)(d := f (dpcs s d))\<rparr>"

definition sched_dpc :: "nat \<Rightarrow> nat \<Rightarrow> nat \<Rightarrow> kstate \<Rightarrow> kstate" where
  "sched_dpc d func arg s0 =
     (let s1 = irq_lock s0;
          s2 = upd_dpc d (\<lambda>x. x\<lparr>dpc_func := func, dpc_arg := arg\<rparr>) s1;
          s3 = (if \<not> dpc_pending (dpcs s2 d) then s2\<lparr>dpcq := dpcq s2 @ [d]\<rparr> else s2);
          s4 = upd_dpc d (dpc_pending_update (\<lambda>_. True)) s3
      in irq_unlock (sched_wakeup DpcEvent s4))"

text \<open>One round of the DPC thread's inner loop: the request and the callback it makes.\<close>

definition dpc_thread_next :: "kstate \<Rightarrow> (nat \<times> nat) option \<times> kstate" where
  "dpc_thread_next s =
     (case dpcq s of
        [] \<Rightarrow> (None, s)
      | d # q \<Rightarrow> (Some (dpc_func (dpcs s d), dpc_arg (dpcs s d)),
                 upd_dpc d (dpc_pending_update (\<lambda>_. False)) (s\<lparr>dpcq := q\<rparr>)))"

end
