(* ===== verification/Sched_Inv.thy ===== *)
theory Sched_Inv
  imports Sched
begin

text \<open>
  The invariant of the scheduler and its preservation by every operation of
  \<open>Sched\<close>. \<open>sched_core\<close> says that the queues hold exactly the threads their states say
  they hold; \<open>sched_wf\<close> adds that a current thread that must give up the processor is
  marked for rescheduling.
\<close>

section \<open>The invariant\<close>

definition asleep :: "kstate \<Rightarrow> tid \<Rightarrow> bool" where
  "asleep s th = (state (threads s th) AND TH_SLEEP \<noteq> 0)"

definition ready :: "kstate \<Rightarrow> tid \<Rightarrow> bool" where
  "ready s th = (thread_valid s th \<and> state (threads s th) = TH_RUN \<and> th \<noteq> cur_thread s)"

definition runq_ok :: "kstate \<Rightarrow> bool" where
  "runq_ok s = (\<forall>p. distinct (runq s p) \<and>
     (\<forall>th \<in> set (runq s p). ready s th \<and> prio (threads s th) = p))"

definition wait_ok :: "kstate \<Rightarrow> bool" where
  "wait_ok s = (distinct (wakeq s) \<and> (\<forall>e. distinct (sleepq s e)) \<and>
     (\<forall>th \<in> set (wakeq s). thread_valid s th \<and> asleep s th \<and> (\<forall>e. th \<notin> set (sleepq s e))) \<and>
     (\<forall>e. \<forall>th \<in> set (sleepq s e). thread_valid s th \<and> asleep s th \<and> slpevt (threads s th) = Some e))"

text \<open>The threads of \<open>X\<close> are in transit between queues.\<close>

definition linked_ok :: "tid set \<Rightarrow> kstate \<Rightarrow> bool" where
  "linked_ok X s = (\<forall>th. th \<notin> X \<longrightarrow>
     (ready s th \<longrightarrow> th \<in> set (runq s (prio (threads s th)))) \<and>
     (thread_valid s th \<and> asleep s th \<longrightarrow> th \<in> set (wakeq s) \<or> (\<exists>e. th \<in> set (sleepq s e))))"

definition attr_ok :: "kstate \<Rightarrow> bool" where
  "attr_ok s = ((\<forall>th. thread_valid s th \<longrightarrow> prio (threads s th) < NPRIO) \<and>
     (\<forall>th. thread_valid s th \<and> th \<noteq> cur_thread s \<longrightarrow> \<not> resched (threads s th)) \<and>
     thread_valid s (idle_thread s) \<and> state (threads s (idle_thread s)) = TH_RUN \<and>
     (cur_thread s \<noteq> 0 \<and> state (cur s) = TH_RUN \<longrightarrow> thread_valid s (cur_thread s)))"

definition top_ok :: "kstate \<Rightarrow> bool" where
  "top_ok s = (top_prio s = runq_top s)"

definition sched_core :: "tid set \<Rightarrow> kstate \<Rightarrow> bool" where
  "sched_core X s = (runq_ok s \<and> wait_ok s \<and> linked_ok X s \<and> attr_ok s \<and> top_ok s)"

definition preempt_ok :: "kstate \<Rightarrow> bool" where
  "preempt_ok s = (state (cur s) \<noteq> TH_RUN \<or> top_prio s < prio (cur s) \<longrightarrow> resched (cur s))"

definition sched_wf :: "kstate \<Rightarrow> bool" where
  "sched_wf s = (sched_core {} s \<and> preempt_ok s \<and> cur_thread s \<noteq> 0)"

definition unlinked_thread :: "kstate \<Rightarrow> tid \<Rightarrow> bool" where
  "unlinked_thread s th = ((\<forall>p. th \<notin> set (runq s p)) \<and> th \<notin> set (wakeq s) \<and> (\<forall>e. th \<notin> set (sleepq s e)))"

lemmas sched_inv_defs = sched_core_def runq_ok_def wait_ok_def linked_ok_def attr_ok_def top_ok_def

section \<open>What operations leave alone\<close>

lemma irq_proj [kproj]:
  "threads (irq_lock s) = threads s" "cur_thread (irq_lock s) = cur_thread s"
  "runq (irq_lock s) = runq s" "wakeq (irq_lock s) = wakeq s" "sleepq (irq_lock s) = sleepq s"
  "top_prio (irq_lock s) = top_prio s" "idle_thread (irq_lock s) = idle_thread s"
  "timers (irq_lock s) = timers s" "timer_list (irq_lock s) = timer_list s"
  "threads (irq_unlock s) = threads s" "cur_thread (irq_unlock s) = cur_thread s"
  "runq (irq_unlock s) = runq s" "wakeq (irq_unlock s) = wakeq s" "sleepq (irq_unlock s) = sleepq s"
  "top_prio (irq_unlock s) = top_prio s" "idle_thread (irq_unlock s) = idle_thread s"
  "timers (irq_unlock s) = timers s" "timer_list (irq_unlock s) = timer_list s"
  by (simp_all add: irq_lock_def irq_unlock_def Let_def)

lemma timer_proj [kproj]:
  "threads (timer_stop r s) = threads s" "cur_thread (timer_stop r s) = cur_thread s"
  "runq (timer_stop r s) = runq s" "wakeq (timer_stop r s) = wakeq s" "sleepq (timer_stop r s) = sleepq s"
  "top_prio (timer_stop r s) = top_prio s" "idle_thread (timer_stop r s) = idle_thread s"
  "threads (timer_callout r m f s) = threads s" "cur_thread (timer_callout r m f s) = cur_thread s"
  "runq (timer_callout r m f s) = runq s" "wakeq (timer_callout r m f s) = wakeq s"
  "sleepq (timer_callout r m f s) = sleepq s" "top_prio (timer_callout r m f s) = top_prio s"
  "idle_thread (timer_callout r m f s) = idle_thread s"
  by (simp_all add: timer_stop_def timer_callout_def timer_add_def timer_unlink_def upd_timer_def
      irq_lock_def irq_unlock_def Let_def)

lemma upd_thread_proj [simp]:
  "threads (upd_thread th f s) = (threads s)(th := f (threads s th))"
  "cur_thread (upd_thread th f s) = cur_thread s" "idle_thread (upd_thread th f s) = idle_thread s"
  "runq (upd_thread th f s) = runq s" "wakeq (upd_thread th f s) = wakeq s"
  "sleepq (upd_thread th f s) = sleepq s" "top_prio (upd_thread th f s) = top_prio s"
  by (simp_all add: upd_thread_def)

text \<open>Two states that agree on the scheduler's own fields.\<close>

definition sched_same :: "kstate \<Rightarrow> kstate \<Rightarrow> bool" where
  "sched_same s s' = (cur_thread s' = cur_thread s \<and> idle_thread s' = idle_thread s \<and>
     runq s' = runq s \<and> wakeq s' = wakeq s \<and> sleepq s' = sleepq s \<and> top_prio s' = top_prio s \<and>
     (\<forall>th. th_magic (threads s' th) = th_magic (threads s th) \<and>
       state (threads s' th) = state (threads s th) \<and> prio (threads s' th) = prio (threads s th) \<and>
       resched (threads s' th) = resched (threads s th) \<and> slpevt (threads s' th) = slpevt (threads s th)))"

lemma sched_same_proj:
  assumes "sched_same s s'"
  shows "asleep s' = asleep s" and "ready s' = ready s" and "thread_valid s' = thread_valid s"
  using assms by (auto simp: sched_same_def asleep_def ready_def thread_valid_def fun_eq_iff)

lemma sched_same_core: "sched_same s s' \<Longrightarrow> sched_core X s' = sched_core X s"
  by (simp add: sched_inv_defs sched_same_proj runq_top_def) (simp add: sched_same_def)

lemma sched_same_preempt: "sched_same s s' \<Longrightarrow> preempt_ok s' = preempt_ok s"
  by (simp add: preempt_ok_def sched_same_def)

lemma sched_same_wf: "sched_same s s' \<Longrightarrow> sched_wf s' = sched_wf s"
  by (simp add: sched_wf_def sched_same_core sched_same_preempt) (simp add: sched_same_def)

lemma sched_same_simps [simp]:
  "sched_same s (irq_lock s)" "sched_same s (irq_unlock s)" "sched_same s (timer_stop r s)"
  "sched_same s (timer_callout r m f s)" "sched_same s (sched_lock s)"
  "sched_same s (upd_thread th (locks_update g) s)" "sched_same s (upd_thread th (slpret_update h) s)"
  by (simp_all add: sched_same_def kproj sched_lock_def)

lemma sched_core_frame [simp]:
  "sched_core X (irq_lock s) = sched_core X s" "sched_core X (irq_unlock s) = sched_core X s"
  "sched_core X (timer_stop r s) = sched_core X s"
  "sched_core X (timer_callout r m f s) = sched_core X s" "sched_core X (sched_lock s) = sched_core X s"
  "sched_core X (upd_thread th (locks_update g) s) = sched_core X s"
  "sched_core X (upd_thread th (slpret_update h) s) = sched_core X s"
  by (rule sched_same_core, simp)+

lemma sched_wf_frame [simp]:
  "sched_wf (irq_lock s) = sched_wf s" "sched_wf (irq_unlock s) = sched_wf s"
  "sched_wf (timer_stop r s) = sched_wf s" "sched_wf (timer_callout r m f s) = sched_wf s"
  "sched_wf (sched_lock s) = sched_wf s"
  "sched_wf (upd_thread th (locks_update g) s) = sched_wf s"
  "sched_wf (upd_thread th (slpret_update h) s) = sched_wf s"
  by (rule sched_same_wf, simp)+

section \<open>The highest occupied priority\<close>

lemma runq_search_spec:
  "\<exists>k \<le> n. runq_search q n p = p + k \<and> (\<forall>i < k. q (p + i) = []) \<and> (k < n \<longrightarrow> q (p + k) \<noteq> [])"
proof (induction n arbitrary: p)
  case (Suc n)
  show ?case
  proof (cases "q p = []")
    case True
    from Suc.IH [of "Suc p"] obtain k where k: "k \<le> n" "runq_search q n (Suc p) = Suc p + k"
      "\<forall>i < k. q (Suc p + i) = []" "k < n \<longrightarrow> q (Suc p + k) \<noteq> []" by blast
    have "\<forall>i < Suc k. q (p + i) = []"
      using k(3) True by (metis add.right_neutral add_Suc add_Suc_right less_Suc_eq_0_disj)
    with k True show ?thesis by (intro exI [of _ "Suc k"]) auto
  next
    case False
    then show ?thesis by (intro exI [of _ 0]) auto
  qed
qed auto

lemma runq_top_iff:
  "runq_top s = t \<longleftrightarrow> t \<le> MIN_PRIO \<and> (\<forall>p < t. runq s p = []) \<and> (t < MIN_PRIO \<longrightarrow> runq s t \<noteq> [])"
proof -
  obtain k where k: "k \<le> MIN_PRIO" "runq_top s = k" "\<forall>i < k. runq s i = []" "k < MIN_PRIO \<longrightarrow> runq s k \<noteq> []"
    using runq_search_spec [of MIN_PRIO "runq s" 0] by (auto simp: runq_top_def)
  show ?thesis
  proof
    assume "runq_top s = t"
    then show "t \<le> MIN_PRIO \<and> (\<forall>p < t. runq s p = []) \<and> (t < MIN_PRIO \<longrightarrow> runq s t \<noteq> [])"
      using k by auto
  next
    assume t: "t \<le> MIN_PRIO \<and> (\<forall>p < t. runq s p = []) \<and> (t < MIN_PRIO \<longrightarrow> runq s t \<noteq> [])"
    have "\<not> k < t" using t k by auto
    moreover have "\<not> t < k" using t k by auto
    ultimately show "runq_top s = t" using k by simp
  qed
qed

lemma top_ok_iff:
  "top_ok s \<longleftrightarrow> top_prio s \<le> MIN_PRIO \<and> (\<forall>p < top_prio s. runq s p = []) \<and>
     (top_prio s < MIN_PRIO \<longrightarrow> runq s (top_prio s) \<noteq> [])"
  unfolding top_ok_def using runq_top_iff [of s "top_prio s"] by auto


section \<open>The run queue\<close>

lemma cur_resched_core:
  assumes "c = cur_thread s"
  shows "sched_core X (upd_thread c (resched_update f) s) = sched_core X s"
proof -
  let ?s = "upd_thread c (resched_update f) s"
  have "asleep ?s = asleep s" "ready ?s = ready s" "thread_valid ?s = thread_valid s"
    by (auto simp: asleep_def ready_def thread_valid_def fun_eq_iff)
  moreover have "prio (threads ?s th) = prio (threads s th)" for th by simp
  moreover have "slpevt (threads ?s th) = slpevt (threads s th)" for th by simp
  moreover have "state (threads ?s th) = state (threads s th)" for th by simp
  moreover have "th \<noteq> cur_thread s \<Longrightarrow> resched (threads ?s th) = resched (threads s th)" for th
    using assms by simp
  ultimately show ?thesis
    unfolding sched_inv_defs runq_top_def by (simp del: upd_thread_proj(1))
qed

text \<open>A state with another run queue.\<close>

lemma rq_frame [simp]:
  "asleep (s\<lparr>runq := q\<rparr>) = asleep s" "ready (s\<lparr>runq := q\<rparr>) = ready s"
  "thread_valid (s\<lparr>runq := q\<rparr>) = thread_valid s"
  "asleep (s\<lparr>top_prio := t\<rparr>) = asleep s" "ready (s\<lparr>top_prio := t\<rparr>) = ready s"
  "thread_valid (s\<lparr>top_prio := t\<rparr>) = thread_valid s"
  "asleep (s\<lparr>wakeq := w\<rparr>) = asleep s" "ready (s\<lparr>wakeq := w\<rparr>) = ready s"
  "thread_valid (s\<lparr>wakeq := w\<rparr>) = thread_valid s"
  "asleep (s\<lparr>sleepq := sq\<rparr>) = asleep s" "ready (s\<lparr>sleepq := sq\<rparr>) = ready s"
  "thread_valid (s\<lparr>sleepq := sq\<rparr>) = thread_valid s"
  by (auto simp: asleep_def ready_def thread_valid_def fun_eq_iff)

lemma core_runqI:
  assumes "sched_core {th} s" and "ready s th" and "p = prio (threads s th)"
    and "distinct q'" and "set q' = insert th (set (runq s p))"
    and "t \<le> p" and "t = min p (top_prio s)"
  shows "sched_core {} (s\<lparr>runq := (runq s)(p := q'), top_prio := t\<rparr>)"
proof -
  let ?s = "s\<lparr>runq := (runq s)(p := q'), top_prio := t\<rparr>"
  have c: "runq_ok s" "wait_ok s" "linked_ok {th} s" "attr_ok s" "top_ok s"
    using assms(1) by (auto simp: sched_core_def)
  have "runq_ok ?s" using c(1) assms by (auto simp: runq_ok_def)
  moreover have "wait_ok ?s" using c(2) by (simp add: wait_ok_def)
  moreover have "linked_ok {} ?s"
  proof -
    have "\<not> asleep s th" using assms(2) by (auto simp: ready_def asleep_def flag_simps)
    then show ?thesis using c(3) assms by (auto simp: linked_ok_def)
  qed
  moreover have "attr_ok ?s" using c(4) by (simp add: attr_ok_def)
  moreover have "top_ok ?s"
  proof -
    have "p \<le> MIN_PRIO" using c(4) assms by (auto simp: attr_ok_def ready_def prio_defs)
    moreover have "q' \<noteq> []" using assms(5) by auto
    ultimately show ?thesis
      using c(5) assms(6,7) by (auto simp: top_ok_iff min_def)
  qed
  ultimately show ?thesis by (simp add: sched_core_def)
qed

lemma runq_enqueue_alt:
  "runq_enqueue th s =
     (let p = prio (threads s th);
          s1 = s\<lparr>runq := (runq s)(p := runq s p @ [th]), top_prio := min p (top_prio s)\<rparr>
      in if p < top_prio s then upd_cur (resched_update (\<lambda>_. True)) s1 else s1)"
  by (auto simp: runq_enqueue_def Let_def min_def upd_thread_def)

lemma runq_insert_alt:
  "runq_insert th s =
     (let p = prio (threads s th)
      in s\<lparr>runq := (runq s)(p := th # runq s p), top_prio := min p (top_prio s)\<rparr>)"
  by (auto simp: runq_insert_def Let_def min_def)

lemma runq_enqueue_core:
  assumes "sched_core {th} s" "ready s th" "unlinked_thread s th"
  shows "sched_core {} (runq_enqueue th s)"
proof -
  have "distinct (runq s (prio (threads s th)) @ [th])"
    using assms by (auto simp: sched_core_def runq_ok_def unlinked_thread_def)
  then have "sched_core {} (s\<lparr>runq := (runq s)(prio (threads s th) := runq s (prio (threads s th)) @ [th]),
      top_prio := min (prio (threads s th)) (top_prio s)\<rparr>)"
    using assms by (intro core_runqI) auto
  then show ?thesis
    by (cases "prio (threads s th) < top_prio s")
      (simp_all add: cur_resched_core runq_enqueue_alt Let_def min_def)
qed

lemma runq_insert_core:
  assumes "sched_core {th} s" "ready s th" "unlinked_thread s th"
  shows "sched_core {} (runq_insert th s)"
proof -
  have "distinct (th # runq s (prio (threads s th)))"
    using assms by (auto simp: sched_core_def runq_ok_def unlinked_thread_def)
  then show ?thesis
    unfolding runq_insert_alt Let_def using assms by (intro core_runqI) auto
qed

lemma runq_enqueue_preempt: "preempt_ok s \<Longrightarrow> preempt_ok (runq_enqueue th s)"
  by (auto simp: preempt_ok_def runq_enqueue_alt Let_def)

lemma runq_enqueue_proj [simp]:
  "cur_thread (runq_enqueue th s) = cur_thread s" "idle_thread (runq_enqueue th s) = idle_thread s"
  "wakeq (runq_enqueue th s) = wakeq s" "sleepq (runq_enqueue th s) = sleepq s"
  "state (threads (runq_enqueue th s) x) = state (threads s x)"
  "prio (threads (runq_enqueue th s) x) = prio (threads s x)"
  "slpevt (threads (runq_enqueue th s) x) = slpevt (threads s x)"
  "slpret (threads (runq_enqueue th s) x) = slpret (threads s x)"
  "locks (threads (runq_enqueue th s) x) = locks (threads s x)"
  "policy (threads (runq_enqueue th s) x) = policy (threads s x)"
  "th_magic (threads (runq_enqueue th s) x) = th_magic (threads s x)"
  "thread_valid (runq_enqueue th s) = thread_valid s"
  "asleep (runq_enqueue th s) = asleep s" "ready (runq_enqueue th s) = ready s"
  by (auto simp: runq_enqueue_def Let_def thread_valid_def asleep_def ready_def fun_eq_iff)

text \<open>Taking a thread off its queue.\<close>

lemma link_remove_proj [simp]:
  "threads (link_remove th s) = threads s" "cur_thread (link_remove th s) = cur_thread s"
  "idle_thread (link_remove th s) = idle_thread s" "top_prio (link_remove th s) = top_prio s"
  "asleep (link_remove th s) = asleep s" "ready (link_remove th s) = ready s"
  "thread_valid (link_remove th s) = thread_valid s"
  by (auto simp: link_remove_def asleep_def ready_def thread_valid_def fun_eq_iff)

lemma link_remove_parts:
  assumes "runq_ok s" "wait_ok s" "linked_ok X s" "attr_ok s"
  shows "runq_ok (link_remove th s)" "wait_ok (link_remove th s)"
    "linked_ok (insert th X) (link_remove th s)" "attr_ok (link_remove th s)"
    "unlinked_thread (link_remove th s) th"
proof -
  have d: "distinct (runq s p)" "distinct (wakeq s)" "distinct (sleepq s e)" for p e
    using assms by (auto simp: runq_ok_def wait_ok_def)
  have q: "set (runq (link_remove th s) p) = set (runq s p) - {th}"
    "set (wakeq (link_remove th s)) = set (wakeq s) - {th}"
    "set (sleepq (link_remove th s) e) = set (sleepq s e) - {th}" for p e
    using d by (simp_all add: link_remove_def)
  have d': "distinct (runq (link_remove th s) p)" "distinct (wakeq (link_remove th s))"
    "distinct (sleepq (link_remove th s) e)" for p e
    using d by (simp_all add: link_remove_def)
  show "runq_ok (link_remove th s)" using assms(1) d' q by (auto simp: runq_ok_def)
  show "wait_ok (link_remove th s)" using assms(2) d' q by (auto simp: wait_ok_def)
  show "linked_ok (insert th X) (link_remove th s)" using assms(3) q by (auto simp: linked_ok_def)
  show "attr_ok (link_remove th s)" using assms(4) by (simp add: attr_ok_def)
  show "unlinked_thread (link_remove th s) th" using q by (simp add: unlinked_thread_def)
qed

lemma runq_remove_core:
  assumes "sched_core X s"
  shows "sched_core (insert th X) (runq_remove th s)" and "unlinked_thread (runq_remove th s) th"
proof -
  note l = link_remove_parts [of s X th]
  have c: "runq_ok s" "wait_ok s" "linked_ok X s" "attr_ok s"
    using assms by (auto simp: sched_core_def)
  show "sched_core (insert th X) (runq_remove th s)"
    using l(1-4) [OF c] by (simp add: sched_inv_defs runq_remove_def Let_def runq_top_def)
  show "unlinked_thread (runq_remove th s) th"
    using l(5) [OF c] by (simp add: unlinked_thread_def runq_remove_def Let_def)
qed

lemma link_remove_asleep_core:
  assumes "sched_core X s" and "\<forall>p. th \<notin> set (runq s p)"
  shows "sched_core (insert th X) (link_remove th s)" and "unlinked_thread (link_remove th s) th"
proof -
  note l = link_remove_parts [of s X th]
  have c: "runq_ok s" "wait_ok s" "linked_ok X s" "attr_ok s" "top_ok s"
    using assms by (auto simp: sched_core_def)
  have "runq (link_remove th s) = runq s"
    using assms(2) by (auto simp: link_remove_def fun_eq_iff remove1_idem)
  then have "top_ok (link_remove th s)" using c(5) by (simp add: top_ok_iff)
  then show "sched_core (insert th X) (link_remove th s)"
    using l(1-4) [OF c(1-4)] by (simp add: sched_core_def)
  show "unlinked_thread (link_remove th s) th" using l(5) [OF c(1-4)] .
qed


section \<open>Threads in transit\<close>

text \<open>A thread on no queue may be changed freely.\<close>

lemma unlinked_upd_core:
  assumes "sched_core X s" "unlinked_thread s th" "th \<in> X"
    and "th_magic (f (threads s th)) = th_magic (threads s th)"
    and "thread_valid s th" "prio (f (threads s th)) < NPRIO"
    and "resched (f (threads s th)) = resched (threads s th)"
    and "th = idle_thread s \<longrightarrow> state (f (threads s th)) = TH_RUN"
  shows "sched_core X (upd_thread th f s)" and "unlinked_thread (upd_thread th f s) th"
proof -
  let ?s = "upd_thread th f s"
  have o: "x \<noteq> th \<Longrightarrow> asleep ?s x = asleep s x" "x \<noteq> th \<Longrightarrow> ready ?s x = ready s x"
    "thread_valid ?s x = thread_valid s x" for x
    using assms(4) by (simp_all add: asleep_def ready_def thread_valid_def)
  have u: "\<And>p x. x \<in> set (runq s p) \<Longrightarrow> x \<noteq> th" "\<And>x. x \<in> set (wakeq s) \<Longrightarrow> x \<noteq> th"
    "\<And>e x. x \<in> set (sleepq s e) \<Longrightarrow> x \<noteq> th"
    using assms(2) by (auto simp: unlinked_thread_def)
  have c: "runq_ok s" "wait_ok s" "linked_ok X s" "attr_ok s" "top_ok s"
    using assms(1) by (auto simp: sched_core_def)
  have "runq_ok ?s" using c(1) o u by (simp add: runq_ok_def)
  moreover have "wait_ok ?s" using c(2) o u by (simp add: wait_ok_def)
  moreover have "linked_ok X ?s"
    unfolding linked_ok_def
  proof (intro allI impI)
    fix x assume "x \<notin> X"
    with assms(3) have "x \<noteq> th" by auto
    then show "(ready ?s x \<longrightarrow> x \<in> set (runq ?s (prio (threads ?s x)))) \<and>
      (thread_valid ?s x \<and> asleep ?s x \<longrightarrow> x \<in> set (wakeq ?s) \<or> (\<exists>e. x \<in> set (sleepq ?s e)))"
      using c(3) \<open>x \<notin> X\<close> o by (simp add: linked_ok_def)
  qed
  moreover have "attr_ok ?s" using c(4) assms(5-8) o by (auto simp: attr_ok_def)
  moreover have "top_ok ?s" using c(5) by (simp add: top_ok_iff)
  ultimately show "sched_core X ?s" by (simp add: sched_core_def)
  show "unlinked_thread ?s th" using assms(2) by (simp add: unlinked_thread_def)
qed

lemma core_settle:
  assumes "sched_core {th} s" and "ready s th \<longrightarrow> th \<in> set (runq s (prio (threads s th)))"
    and "thread_valid s th \<and> asleep s th \<longrightarrow> th \<in> set (wakeq s) \<or> (\<exists>e. th \<in> set (sleepq s e))"
  shows "sched_core {} s"
proof -
  have "linked_ok {} s"
    unfolding linked_ok_def
  proof (intro allI impI)
    fix x
    show "(ready s x \<longrightarrow> x \<in> set (runq s (prio (threads s x)))) \<and>
      (thread_valid s x \<and> asleep s x \<longrightarrow> x \<in> set (wakeq s) \<or> (\<exists>e. x \<in> set (sleepq s e)))"
      using assms by (cases "x = th") (simp_all add: sched_core_def linked_ok_def)
  qed
  then show ?thesis using assms(1) by (simp add: sched_core_def)
qed

lemma core_mono: "sched_core X s \<Longrightarrow> X \<subseteq> Y \<Longrightarrow> sched_core Y s"
  unfolding sched_core_def linked_ok_def by blast

lemma idle_not_asleep: "sched_core X s \<Longrightarrow> asleep s th \<Longrightarrow> th \<noteq> idle_thread s"
  by (auto simp: sched_core_def attr_ok_def asleep_def flag_simps)

lemma asleep_not_in_runq: "sched_core X s \<Longrightarrow> asleep s th \<Longrightarrow> th \<notin> set (runq s p)"
  by (auto simp: sched_core_def runq_ok_def ready_def asleep_def flag_simps)

section \<open>Waking\<close>

lemma wake_one_core:
  assumes "sched_core {th} s" "unlinked_thread s th" "thread_valid s th" "asleep s th"
  shows "sched_core {} (wake_one th s)"
proof -
  let ?f = "\<lambda>t. t\<lparr>slpevt := None, state := state t AND NOT TH_SLEEP\<rparr>"
  let ?s = "upd_thread th ?f s"
  have p: "prio (threads s th) < NPRIO" using assms(1,3) by (auto simp: sched_core_def attr_ok_def)
  have c: "sched_core {th} ?s" "unlinked_thread ?s th"
    using unlinked_upd_core [OF assms(1,2), of ?f] assms(3) p idle_not_asleep [OF assms(1,4)] by auto
  have v: "thread_valid ?s th" "\<not> asleep ?s th"
    using assms(3) by (simp_all add: thread_valid_def asleep_def flag_simps)
  show ?thesis
  proof (cases "ready ?s th")
    case True
    then show ?thesis using runq_enqueue_core [OF c(1) True c(2)]
      by (simp add: wake_one_def Let_def ready_def)
  next
    case False
    then show ?thesis using core_settle [OF c(1)] v by (auto simp: wake_one_def Let_def ready_def)
  qed
qed

lemma wake_one_proj [simp]:
  "cur_thread (wake_one th s) = cur_thread s" "idle_thread (wake_one th s) = idle_thread s"
  "wakeq (wake_one th s) = wakeq s" "sleepq (wake_one th s) = sleepq s"
  "prio (threads (wake_one th s) x) = prio (threads s x)"
  "slpret (threads (wake_one th s) x) = slpret (threads s x)"
  "locks (threads (wake_one th s) x) = locks (threads s x)"
  "policy (threads (wake_one th s) x) = policy (threads s x)"
  "thread_valid (wake_one th s) = thread_valid s"
  by (auto simp: wake_one_def Let_def thread_valid_def fun_eq_iff)

lemma wake_one_state:
  "state (threads (wake_one th s) x) = (if x = th then state (threads s x) AND NOT TH_SLEEP else state (threads s x))"
  by (simp add: wake_one_def Let_def)

lemma wake_one_preempt:
  assumes "preempt_ok s" "asleep s th"
  shows "preempt_ok (wake_one th s)"
proof -
  let ?s = "upd_thread th (\<lambda>t. t\<lparr>slpevt := None, state := state t AND NOT TH_SLEEP\<rparr>) s"
  have "preempt_ok ?s"
    using assms by (auto simp: preempt_ok_def asleep_def flag_simps)
  then show ?thesis using runq_enqueue_preempt by (simp add: wake_one_def Let_def)
qed

lemma wakeq_pop:
  assumes "sched_core {} s" "wakeq s = th # q"
  shows "sched_core {th} (s\<lparr>wakeq := q\<rparr>)" "unlinked_thread (s\<lparr>wakeq := q\<rparr>) th"
    "thread_valid s th" "asleep s th"
proof -
  have w: "wait_ok s" using assms by (simp add: sched_core_def)
  show v: "thread_valid s th" "asleep s th" using w assms(2) by (auto simp: wait_ok_def)
  show "unlinked_thread (s\<lparr>wakeq := q\<rparr>) th"
    using w assms asleep_not_in_runq [OF assms(1) v(2)]
    by (auto simp: unlinked_thread_def wait_ok_def)
  have "wait_ok (s\<lparr>wakeq := q\<rparr>)" using w assms(2) by (simp add: wait_ok_def)
  moreover have "linked_ok {th} (s\<lparr>wakeq := q\<rparr>)"
    using assms by (auto simp: sched_core_def linked_ok_def)
  ultimately show "sched_core {th} (s\<lparr>wakeq := q\<rparr>)"
    using assms(1) by (simp add: sched_core_def runq_ok_def attr_ok_def top_ok_iff)
qed

lemma wakeq_flush_from_core:
  "sched_core {} s \<Longrightarrow> wakeq s = q \<Longrightarrow>
     sched_core {} (wakeq_flush_from q s) \<and> wakeq (wakeq_flush_from q s) = []"
proof (induction q arbitrary: s)
  case (Cons th q)
  note p = wakeq_pop [OF Cons.prems]
  have "sched_core {} (wake_one th (s\<lparr>wakeq := q\<rparr>))"
    using wake_one_core [OF p(1,2)] p(3,4) by simp
  from Cons.IH [OF this] show ?case by simp
qed simp

lemma wakeq_flush_core:
  "sched_core {} s \<Longrightarrow> sched_core {} (wakeq_flush s)"
  "sched_core {} s \<Longrightarrow> wakeq (wakeq_flush s) = []"
  using wakeq_flush_from_core by (auto simp: wakeq_flush_def)

lemma wakeq_flush_from_preempt:
  "sched_core {} s \<Longrightarrow> wakeq s = q \<Longrightarrow> preempt_ok s \<Longrightarrow> preempt_ok (wakeq_flush_from q s)"
proof (induction q arbitrary: s)
  case (Cons th q)
  note p = wakeq_pop [OF Cons.prems(1,2)]
  have "sched_core {} (wake_one th (s\<lparr>wakeq := q\<rparr>))"
    using wake_one_core [OF p(1,2)] p(3,4) by simp
  moreover have "preempt_ok (wake_one th (s\<lparr>wakeq := q\<rparr>))"
    using wake_one_preempt [of "s\<lparr>wakeq := q\<rparr>" th] Cons.prems(3) p(4) by (simp add: preempt_ok_def)
  ultimately show ?case using Cons.IH by simp
qed simp

lemma wakeq_flush_from_proj [simp]:
  "cur_thread (wakeq_flush_from q s) = cur_thread s" "idle_thread (wakeq_flush_from q s) = idle_thread s"
  "sleepq (wakeq_flush_from q s) = sleepq s"
  "prio (threads (wakeq_flush_from q s) x) = prio (threads s x)"
  "slpret (threads (wakeq_flush_from q s) x) = slpret (threads s x)"
  "locks (threads (wakeq_flush_from q s) x) = locks (threads s x)"
  "thread_valid (wakeq_flush_from q s) = thread_valid s"
  by (induction q arbitrary: s) simp_all

lemma wakeq_flush_proj [simp]:
  "cur_thread (wakeq_flush s) = cur_thread s" "idle_thread (wakeq_flush s) = idle_thread s"
  "sleepq (wakeq_flush s) = sleepq s"
  "prio (threads (wakeq_flush s) x) = prio (threads s x)"
  "slpret (threads (wakeq_flush s) x) = slpret (threads s x)"
  "locks (threads (wakeq_flush s) x) = locks (threads s x)"
  "thread_valid (wakeq_flush s) = thread_valid s"
  by (simp_all add: wakeq_flush_def)

lemma wakeq_flush_wf: "sched_wf s \<Longrightarrow> sched_wf (wakeq_flush s)"
  using wakeq_flush_core [of s] wakeq_flush_from_preempt [of s "wakeq s"]
  by (simp add: sched_wf_def) (simp add: wakeq_flush_def)

lemma wakeq_flush_nil: "wakeq s = [] \<Longrightarrow> wakeq_flush s = s"
  by (simp add: wakeq_flush_def)


section \<open>Switching\<close>

text \<open>
  \<open>vacate\<close> is the state in which nobody runs: address 0 is no thread. A switch is a
  vacation, the return of the previous thread to its run queue, and a dispatch.
\<close>

definition vacate :: "kstate \<Rightarrow> kstate" where
  "vacate s = (upd_cur (resched_update (\<lambda>_. False)) s)\<lparr>cur_thread := 0\<rparr>"

definition requeue_prev :: "tid \<Rightarrow> kstate \<Rightarrow> kstate" where
  "requeue_prev prev s =
     (let p = prio (threads s prev)
      in if state (threads s prev) = TH_RUN
         then s\<lparr>runq := (runq s)(p := if top_prio s < p then prev # runq s p else runq s p @ [prev]),
                top_prio := min p (top_prio s)\<rparr>
         else s)"

definition dispatch :: "tid \<Rightarrow> kstate \<Rightarrow> kstate" where
  "dispatch prev s =
     (case runq_dequeue s of
        (None, s3) \<Rightarrow> s3\<lparr>cur_thread := prev\<rparr>
      | (Some nxt, s3) \<Rightarrow> if nxt = prev then s3\<lparr>cur_thread := prev\<rparr> else switch_to prev nxt s3)"

lemma switch_to_proj [simp]:
  "cur_thread (switch_to p n s) = n" "threads (switch_to p n s) = threads s" "runq (switch_to p n s) = runq s"
  "wakeq (switch_to p n s) = wakeq s" "sleepq (switch_to p n s) = sleepq s" "top_prio (switch_to p n s) = top_prio s"
  "idle_thread (switch_to p n s) = idle_thread s" "switch_to p n (s\<lparr>cur_thread := c\<rparr>) = switch_to p n s"
  "timers (switch_to p n s) = timers s" "timer_list (switch_to p n s) = timer_list s"
  "expire_list (switch_to p n s) = expire_list s" "interrupts (switch_to p n s) = interrupts s"
  "nr_irq_locks (switch_to p n s) = nr_irq_locks s" "saved_irq_state (switch_to p n s) = saved_irq_state s"
  by (simp_all add: switch_to_def vm_switch_task_def context_switch_def tss_set_def Let_def split: option.split)

lemma runq_dequeue_cur:
  "runq_dequeue (s\<lparr>cur_thread := c\<rparr>) = (fst (runq_dequeue s), snd (runq_dequeue s)\<lparr>cur_thread := c\<rparr>)"
  by (simp add: runq_dequeue_def Let_def runq_top_def split: list.split)

lemma runq_dequeue_proj [simp]:
  "cur_thread (snd (runq_dequeue s)) = cur_thread s" "idle_thread (snd (runq_dequeue s)) = idle_thread s"
  "threads (snd (runq_dequeue s)) = threads s" "wakeq (snd (runq_dequeue s)) = wakeq s"
  "sleepq (snd (runq_dequeue s)) = sleepq s"
  by (simp_all add: runq_dequeue_def Let_def split: list.split)

lemma sched_switch_before_dequeue:
  assumes "prev = cur_thread s"
    and "s1 = (if state (threads s prev) = TH_RUN
                then if top_prio s < prio (threads s prev) then runq_insert prev s
                     else runq_enqueue prev s
                else s)"
  shows "upd_thread prev (resched_update (\<lambda>_. False)) s1 = (requeue_prev prev (vacate s))\<lparr>cur_thread := prev\<rparr>"
proof (cases "state (threads s prev) = TH_RUN")
  case True
  show ?thesis
  proof (cases "top_prio s < prio (threads s prev)")
    case t: True
    then show ?thesis using True assms
      by (simp add: requeue_prev_def vacate_def runq_insert_alt Let_def upd_thread_def fun_eq_iff)
  next
    case f: False
    have "prio (threads s prev) \<le> top_prio s" using f by simp
    then show ?thesis using True assms f
      by (auto simp add: requeue_prev_def vacate_def runq_enqueue_alt Let_def upd_thread_def min_def)
  qed
next
  case False
  then show ?thesis using assms by (simp add: requeue_prev_def vacate_def Let_def upd_thread_def)
qed

lemma sched_switch_alt:
  "sched_switch s = dispatch (cur_thread s) (requeue_prev (cur_thread s) (vacate s))"
proof -
  note b = sched_switch_before_dequeue [OF refl refl, of s]
  show ?thesis
    unfolding sched_switch_def Let_def b runq_dequeue_cur dispatch_def
    by (auto split: prod.split option.split)
qed

lemma vacate_core:
  assumes "sched_core {} s"
  shows "sched_core {cur_thread s} (vacate s)" "\<forall>p. cur_thread s \<notin> set (runq (vacate s) p)"
proof -
  let ?c = "cur_thread s"
  have o: "asleep (vacate s) x = asleep s x" "x \<noteq> ?c \<Longrightarrow> x \<noteq> 0 \<Longrightarrow> ready (vacate s) x = ready s x"
    "thread_valid (vacate s) x = thread_valid s x" "ready s x \<Longrightarrow> ready (vacate s) x" "\<not> thread_valid s 0" for x
    by (auto simp: vacate_def asleep_def ready_def thread_valid_def kern_area_def PAGE_OFFSET_def)
  have q: "runq (vacate s) = runq s" "wakeq (vacate s) = wakeq s" "sleepq (vacate s) = sleepq s"
    "top_prio (vacate s) = top_prio s" "idle_thread (vacate s) = idle_thread s"
    "prio (threads (vacate s) x) = prio (threads s x)" "slpevt (threads (vacate s) x) = slpevt (threads s x)"
    "state (threads (vacate s) x) = state (threads s x)"
    "resched (threads (vacate s) x) = (x \<noteq> ?c \<and> resched (threads s x))" for x
    by (simp_all add: vacate_def)
  have c: "runq_ok s" "wait_ok s" "linked_ok {} s" "attr_ok s" "top_ok s"
    using assms by (auto simp: sched_core_def)
  have r0: "\<not> ready s 0" "\<not> ready (vacate s) 0" using o(5) by (auto simp: ready_def o(3))
  have "runq_ok (vacate s)" using c(1) o(4) by (auto simp: runq_ok_def q)
  moreover have "wait_ok (vacate s)" using c(2) by (simp add: wait_ok_def q o(1,3))
  moreover have "linked_ok {?c} (vacate s)"
    unfolding linked_ok_def
  proof (intro allI impI)
    fix x assume x: "x \<notin> {?c}"
    then have "ready (vacate s) x = ready s x" using o(2) r0 by (cases "x = 0") auto
    then show "(ready (vacate s) x \<longrightarrow> x \<in> set (runq (vacate s) (prio (threads (vacate s) x)))) \<and>
      (thread_valid (vacate s) x \<and> asleep (vacate s) x \<longrightarrow>
       x \<in> set (wakeq (vacate s)) \<or> (\<exists>e. x \<in> set (sleepq (vacate s) e)))"
      using c(3) by (simp add: linked_ok_def q o(1,3))
  qed
  moreover have "attr_ok (vacate s)" using c(4) by (auto simp: attr_ok_def q o(3)) (simp_all add: vacate_def)
  moreover have "top_ok (vacate s)" using c(5) by (simp add: top_ok_iff q)
  ultimately show "sched_core {?c} (vacate s)" by (simp add: sched_core_def)
  show "\<forall>p. ?c \<notin> set (runq (vacate s) p)" using c(1) by (auto simp: runq_ok_def ready_def q)
qed

lemma requeue_prev_core:
  assumes "sched_core {} s" "cur_thread s \<noteq> 0"
  shows "sched_core {} (requeue_prev (cur_thread s) (vacate s))"
proof -
  let ?c = "cur_thread s" and ?v = "vacate s"
  note v = vacate_core [OF assms(1)]
  show ?thesis
  proof (cases "state (threads ?v ?c) = TH_RUN")
    case False
    then have nr: "\<not> ready ?v ?c" by (simp add: ready_def)
    have "thread_valid ?v ?c \<and> asleep ?v ?c \<longrightarrow> ?c \<in> set (wakeq ?v) \<or> (\<exists>e. ?c \<in> set (sleepq ?v e))"
      using assms by (auto simp: sched_core_def linked_ok_def vacate_def asleep_def thread_valid_def)
    with nr have "sched_core {} ?v" by (intro core_settle [OF v(1)]) auto
    with False show ?thesis by (simp add: requeue_prev_def Let_def)
  next
    case True
    let ?p = "prio (threads ?v ?c)"
    let ?q = "if top_prio ?v < ?p then ?c # runq ?v ?p else runq ?v ?p @ [?c]"
    have val: "thread_valid ?v ?c \<and> ?c \<noteq> 0"
      using assms True by (simp add: sched_core_def attr_ok_def vacate_def thread_valid_def)
    have r: "ready ?v ?c"
      using True val by (simp add: ready_def) (simp add: vacate_def)
    have "distinct ?q" using v by (auto simp: sched_core_def runq_ok_def)
    then have "sched_core {} (?v\<lparr>runq := (runq ?v)(?p := ?q), top_prio := min ?p (top_prio ?v)\<rparr>)"
      using v(1) r by (intro core_runqI) auto
    then show ?thesis using True by (simp add: requeue_prev_def Let_def)
  qed
qed


lemma core_runq_nonempty:
  assumes "sched_core {} s" "\<not> thread_valid s (cur_thread s)"
  shows "runq s (top_prio s) \<noteq> []"
proof -
  have a: "thread_valid s (idle_thread s)" "state (threads s (idle_thread s)) = TH_RUN"
    "prio (threads s (idle_thread s)) \<le> MIN_PRIO"
    using assms(1) by (auto simp: sched_core_def attr_ok_def prio_defs)
  have "idle_thread s \<noteq> cur_thread s" using a(1) assms(2) by auto
  then have i: "idle_thread s \<in> set (runq s (prio (threads s (idle_thread s))))"
    using assms(1) a(1,2) by (simp add: sched_core_def linked_ok_def ready_def)
  have t: "top_ok s" using assms(1) by (simp add: sched_core_def)
  show ?thesis
  proof (cases "top_prio s < MIN_PRIO")
    case True
    then show ?thesis using t by (simp add: top_ok_iff)
  next
    case False
    then have m: "top_prio s = MIN_PRIO" using t by (simp add: top_ok_iff)
    then have "prio (threads s (idle_thread s)) = MIN_PRIO"
      using t i a(3) by (metis top_ok_iff le_neq_implies_less empty_iff list.set(1))
    then show ?thesis using i m by auto
  qed
qed

lemma core_top_best:
  assumes "sched_core X s" "th \<in> set (runq s p)"
  shows "top_prio s \<le> p"
  using assms by (metis sched_core_def top_ok_iff not_le empty_iff list.set(1))

lemma dispatch_spec:
  assumes c: "sched_core {} s" and n: "cur_thread s = 0"
  obtains nxt q where "runq s (top_prio s) = nxt # q" "ready s nxt"
    "cur_thread (dispatch prev s) = nxt" "sched_core {} (dispatch prev s)"
    "preempt_ok (dispatch prev s)" "threads (dispatch prev s) = threads s"
    "wakeq (dispatch prev s) = wakeq s" "sleepq (dispatch prev s) = sleepq s"
proof -
  have nv: "\<not> thread_valid s (cur_thread s)" using n by (simp add: thread_valid_def kern_area_def PAGE_OFFSET_def)
  obtain nxt q where q: "runq s (top_prio s) = nxt # q"
    using core_runq_nonempty [OF c nv] by (cases "runq s (top_prio s)") auto
  have ok: "runq_ok s" "wait_ok s" "linked_ok {} s" "attr_ok s" "top_ok s"
    using c by (auto simp: sched_core_def)
  have r: "ready s nxt" "prio (threads s nxt) = top_prio s" "nxt \<notin> set q" "distinct q"
    using ok(1) q by (auto simp: runq_ok_def dest: spec [of _ "top_prio s"])
  let ?s = "dispatch prev s"
  define Q where "Q = (runq s)(top_prio s := q)"
  have e: "cur_thread ?s = nxt" "threads ?s = threads s" "wakeq ?s = wakeq s" "sleepq ?s = sleepq s"
    "idle_thread ?s = idle_thread s" "runq ?s = Q"
    by (simp_all add: dispatch_def runq_dequeue_def q Let_def Q_def)
  have "top_prio ?s = (if q = [] then runq_search Q MIN_PRIO 0 else top_prio s)"
    by (simp add: dispatch_def runq_dequeue_def q Let_def Q_def runq_top_def)
  then have top: "top_ok ?s"
    using ok(5) q by (cases "q = []") (simp add: top_ok_def runq_top_def e, auto simp: top_ok_iff e Q_def)
  have "p \<noteq> top_prio s \<Longrightarrow> nxt \<notin> set (runq s p)" for p
    using ok(1) r(2) by (auto simp: runq_ok_def)
  then have qs: "set (Q p) = set (runq s p) - {nxt}" "distinct (Q p)" for p
    using ok(1) q r by (auto simp: Q_def runq_ok_def)
  have fr: "asleep ?s x = asleep s x" "thread_valid ?s x = thread_valid s x"
    "ready ?s x = (ready s x \<and> x \<noteq> nxt)" for x
    using nv n by (auto simp: asleep_def thread_valid_def ready_def e kern_area_def PAGE_OFFSET_def)
  have "runq_ok ?s" using ok(1) qs by (auto simp: runq_ok_def fr e)
  moreover have "wait_ok ?s" using ok(2) by (simp add: wait_ok_def fr e)
  moreover have "linked_ok {} ?s" using ok(3) by (simp add: linked_ok_def fr e qs)
  moreover have "attr_ok ?s" using ok(4) r(1) nv by (auto simp: attr_ok_def fr e ready_def)
  ultimately have core: "sched_core {} ?s" using top by (simp add: sched_core_def)
  have "top_prio s \<le> top_prio ?s"
    using ok(5) top by (metis top_ok_iff e(6) Q_def fun_upd_other linorder_not_less order_less_irrefl less_le_trans)
  then have "preempt_ok ?s" using r(1,2) by (auto simp: preempt_ok_def e ready_def)
  then show thesis using that q r(1) e core by blast
qed


lemma sched_switch_threads:
  "threads (sched_switch s) = (threads s)(cur_thread s := (cur s)\<lparr>resched := False\<rparr>)"
  "wakeq (sched_switch s) = wakeq s" "sleepq (sched_switch s) = sleepq s"
  "idle_thread (sched_switch s) = idle_thread s"
  by (simp_all add: sched_switch_alt dispatch_def requeue_prev_def vacate_def runq_dequeue_def Let_def
      split: list.split)

lemma sched_switch_spec:
  assumes "sched_core {} s" "cur_thread s \<noteq> 0"
  shows "sched_wf (sched_switch s)" "\<not> resched (cur (sched_switch s))"
    "state (cur (sched_switch s)) = TH_RUN" "thread_valid (sched_switch s) (cur_thread (sched_switch s))"
proof -
  let ?s = "requeue_prev (cur_thread s) (vacate s)"
  have c: "sched_core {} ?s" using requeue_prev_core assms by blast
  have n: "cur_thread ?s = 0" by (simp add: requeue_prev_def vacate_def Let_def)
  obtain nxt q where d: "ready ?s nxt" "cur_thread (dispatch (cur_thread s) ?s) = nxt"
    "sched_core {} (dispatch (cur_thread s) ?s)" "preempt_ok (dispatch (cur_thread s) ?s)"
    "threads (dispatch (cur_thread s) ?s) = threads ?s"
    using dispatch_spec [OF c n] by metis
  have nxt: "thread_valid ?s nxt" "state (threads ?s nxt) = TH_RUN" "nxt \<noteq> 0"
    using d(1) n by (auto simp: ready_def)
  show "sched_wf (sched_switch s)" using d nxt by (simp add: sched_wf_def sched_switch_alt)
  show "\<not> resched (cur (sched_switch s))"
    using c nxt n d(2,5) by (simp add: sched_switch_alt sched_core_def attr_ok_def)
  show "state (cur (sched_switch s)) = TH_RUN" using nxt d(2,5) by (simp add: sched_switch_alt)
  show "thread_valid (sched_switch s) (cur_thread (sched_switch s))"
    using nxt d(2,5) by (simp add: sched_switch_alt thread_valid_def)
qed

lemma wf_best:
  assumes "sched_wf s" "\<not> resched (cur s)" "ready s th"
  shows "prio (cur s) \<le> prio (threads s th)"
proof -
  have "th \<in> set (runq s (prio (threads s th)))"
    using assms by (auto simp: sched_wf_def sched_core_def linked_ok_def)
  then have "top_prio s \<le> prio (threads s th)"
    using core_top_best assms(1) by (auto simp: sched_wf_def)
  then show ?thesis using assms(1,2) by (auto simp: sched_wf_def preempt_ok_def)
qed

lemma resched_loop_once:
  assumes "sched_core {} s" "cur_thread s \<noteq> 0" "wakeq s = []"
  shows "resched_loop (Suc n) s = (if resched (cur s) then sched_switch s else s)"
proof -
  have "wakeq (sched_switch s) = []" using assms(3) by (simp add: sched_switch_threads)
  moreover have "\<not> resched (cur (sched_switch s))" using sched_switch_spec assms by blast
  ultimately show ?thesis by (cases n) (simp_all add: wakeq_flush_nil)
qed

lemma sched_unlock_last:
  assumes "sched_core {} s" "cur_thread s \<noteq> 0" "locks (cur s) = 1"
  shows "sched_unlock s =
    upd_thread (cur_thread s) (locks_update (\<lambda>n. n - 1))
      (if resched (cur (wakeq_flush s)) then sched_switch (wakeq_flush s) else wakeq_flush s)"
  using assms resched_loop_once [OF wakeq_flush_core(1) [OF assms(1)], of 1] wakeq_flush_core(2)
  by (simp add: sched_unlock_def Let_def numeral_2_eq_2)

lemma sched_unlock_nested: "locks (cur s) \<noteq> 1 \<Longrightarrow> sched_unlock s = upd_cur (locks_update (\<lambda>n. n - 1)) s"
  by (simp add: sched_unlock_def Let_def)

lemma sched_unlock_wf: "sched_wf s \<Longrightarrow> sched_wf (sched_unlock s)"
proof (cases "locks (cur s) = 1")
  case True
  assume s: "sched_wf s"
  then have c: "sched_core {} s" "cur_thread s \<noteq> 0" by (auto simp: sched_wf_def)
  have f: "sched_wf (wakeq_flush s)" using wakeq_flush_wf s .
  then have "sched_wf (sched_switch (wakeq_flush s))"
    using sched_switch_spec(1) by (auto simp: sched_wf_def)
  then show ?thesis using f sched_unlock_last [OF c True] by simp
qed (simp add: sched_unlock_nested)

section \<open>Queueing a thread in transit\<close>

lemma sleepq_push_core:
  assumes "sched_core {th} s" "unlinked_thread s th" "thread_valid s th" "asleep s th"
    and "slpevt (threads s th) = Some e"
  shows "sched_core {} (s\<lparr>sleepq := (sleepq s)(e := sleepq s e @ [th])\<rparr>)"
proof -
  let ?s = "s\<lparr>sleepq := (sleepq s)(e := sleepq s e @ [th])\<rparr>"
  have ok: "runq_ok s" "wait_ok s" "linked_ok {th} s" "attr_ok s" "top_ok s"
    using assms(1) by (auto simp: sched_core_def)
  have "wait_ok ?s" using ok(2) assms by (auto simp: wait_ok_def unlinked_thread_def)
  moreover have "linked_ok {th} ?s" using ok(3) by (auto simp: linked_ok_def)
  ultimately have "sched_core {th} ?s"
    using ok by (simp add: sched_core_def runq_ok_def attr_ok_def top_ok_iff)
  then show ?thesis
    using assms(4) by - (rule core_settle, auto simp: ready_def asleep_def flag_simps)
qed

lemma wakeq_push_core:
  assumes "sched_core {th} s" "unlinked_thread s th" "thread_valid s th" "asleep s th"
  shows "sched_core {} (s\<lparr>wakeq := wakeq s @ [th]\<rparr>)"
proof -
  let ?s = "s\<lparr>wakeq := wakeq s @ [th]\<rparr>"
  have ok: "runq_ok s" "wait_ok s" "linked_ok {th} s" "attr_ok s" "top_ok s"
    using assms(1) by (auto simp: sched_core_def)
  have "wait_ok ?s" using ok(2) assms by (auto simp: wait_ok_def unlinked_thread_def)
  moreover have "linked_ok {th} ?s" using ok(3) by (auto simp: linked_ok_def)
  ultimately have "sched_core {th} ?s"
    using ok by (simp add: sched_core_def runq_ok_def attr_ok_def top_ok_iff)
  then show ?thesis
    using assms(4) by - (rule core_settle, auto simp: ready_def asleep_def flag_simps)
qed

lemma sleepq_pop:
  assumes "sched_core {} s" "sleepq s e = th # q"
  shows "sched_core {th} (s\<lparr>sleepq := (sleepq s)(e := q)\<rparr>)"
    "unlinked_thread (s\<lparr>sleepq := (sleepq s)(e := q)\<rparr>) th" "thread_valid s th" "asleep s th"
proof -
  let ?s = "s\<lparr>sleepq := (sleepq s)(e := q)\<rparr>"
  have w: "wait_ok s" using assms by (simp add: sched_core_def)
  then have h: "thread_valid s th" "asleep s th" "slpevt (threads s th) = Some e"
    "distinct (th # q)" using assms(2) by (metis list.set_intros(1) wait_ok_def)+
  show "thread_valid s th" "asleep s th" by (fact h)+
  have o: "x \<noteq> e \<Longrightarrow> th \<notin> set (sleepq s x)" for x
    using w h(3) by (auto simp: wait_ok_def)
  have "th \<notin> set (wakeq s)" using w assms(2) by (metis list.set_intros(1) wait_ok_def)
  then show "unlinked_thread ?s th"
    using asleep_not_in_runq [OF assms(1) h(2)] o h(4) by (auto simp: unlinked_thread_def)
  have sub: "set (sleepq ?s x) \<subseteq> set (sleepq s x)" "distinct (sleepq ?s x)" for x
    using assms(2) w h(4) by (auto simp: wait_ok_def)
  have "wait_ok ?s"
    using w sub unfolding wait_ok_def rq_frame by (simp del: fun_upd_apply) blast
  moreover have "linked_ok {th} ?s"
  proof -
    have "x \<in> set (sleepq s a) \<Longrightarrow> x \<noteq> th \<Longrightarrow> x \<in> set (sleepq ?s a)" for x a
      using assms(2) by auto
    then show ?thesis
      using assms(1) unfolding sched_core_def linked_ok_def rq_frame by (simp del: fun_upd_apply) blast
  qed
  ultimately show "sched_core {th} ?s"
    using assms(1) by (simp add: sched_core_def runq_ok_def attr_ok_def top_ok_iff)
qed

lemma not_queued:
  assumes "sched_core X s" "\<not> ready s th" "\<not> asleep s th"
  shows "unlinked_thread s th"
  using assms by (auto simp: sched_core_def runq_ok_def wait_ok_def unlinked_thread_def)

lemma core_prio: "sched_core X s \<Longrightarrow> thread_valid s th \<Longrightarrow> prio (threads s th) < NPRIO"
  by (simp add: sched_core_def attr_ok_def)

section \<open>Sleeping and waking preserve the invariant\<close>

lemma sleep_enqueue_core:
  assumes "sched_core {} s" "thread_valid s (cur_thread s)" "\<not> asleep s (cur_thread s)"
    and "cur_thread s \<noteq> idle_thread s"
  shows "sched_core {} ((upd_cur (\<lambda>t. t\<lparr>slpevt := Some e, state := state t OR TH_SLEEP\<rparr>) s)
    \<lparr>sleepq := (sleepq s)(e := sleepq s e @ [cur_thread s])\<rparr>)"
proof -
  let ?f = "\<lambda>t. t\<lparr>slpevt := Some e, state := state t OR TH_SLEEP\<rparr>" and ?c = "cur_thread s"
  have u: "unlinked_thread s ?c"
    using not_queued assms(1,3) by (simp add: ready_def)
  have c: "sched_core {?c} s" using assms(1) core_mono by blast
  have "sched_core {?c} (upd_thread ?c ?f s)" "unlinked_thread (upd_thread ?c ?f s) ?c"
    using unlinked_upd_core [OF c u, of ?f] assms core_prio [OF c assms(2)] by auto
  moreover have "thread_valid (upd_thread ?c ?f s) ?c" "asleep (upd_thread ?c ?f s) ?c"
    "slpevt (threads (upd_thread ?c ?f s) ?c) = Some e"
    using assms(2) by (simp_all add: thread_valid_def asleep_def flag_simps)
  ultimately show ?thesis using sleepq_push_core by fastforce
qed

lemma sched_tsleep_switches:
  assumes "sched_wf s" "thread_valid s (cur_thread s)" "\<not> asleep s (cur_thread s)"
    and "cur_thread s \<noteq> idle_thread s"
  obtains w where "sched_tsleep e ms s = sched_switch (wakeq_flush w)" "sched_core {} w"
    "cur_thread w = cur_thread s" "sleepq w = (sleepq s)(e := sleepq s e @ [cur_thread s])"
proof -
  let ?c = "cur_thread s"
  let ?l = "sched_lock s"
  let ?s = "(upd_cur (\<lambda>t. t\<lparr>slpevt := Some e, state := state t OR TH_SLEEP\<rparr>) ?l)
    \<lparr>sleepq := (sleepq ?l)(e := sleepq ?l e @ [cur_thread ?l])\<rparr>"
  have l: "cur_thread ?l = ?c" "sleepq ?l = sleepq s" "idle_thread ?l = idle_thread s"
    by (simp_all add: sched_lock_def)
  have c: "sched_core {} ?s"
    using assms l by (intro sleep_enqueue_core)
      (simp_all add: sched_wf_def sched_lock_def thread_valid_def asleep_def)
  show thesis
  proof (rule that)
    show "sched_tsleep e ms s = sched_switch (wakeq_flush
        (if ms \<noteq> 0 then timer_callout (ThreadTimeout ?c) ms (SleepExpire ?c) ?s else ?s))"
      by (simp add: sched_tsleep_def Let_def l)
  qed (use c l in \<open>simp_all add: kproj\<close>)
qed

lemma sched_tsleep_wf:
  assumes "sched_wf s" "thread_valid s (cur_thread s)" "\<not> asleep s (cur_thread s)"
    and "cur_thread s \<noteq> idle_thread s"
  shows "sched_wf (sched_tsleep e ms s)" "state (cur (sched_tsleep e ms s)) = TH_RUN"
    "thread_valid (sched_tsleep e ms s) (cur_thread (sched_tsleep e ms s))"
    "\<not> resched (cur (sched_tsleep e ms s))"
proof -
  obtain w where w: "sched_tsleep e ms s = sched_switch (wakeq_flush w)" "sched_core {} w"
    "cur_thread w = cur_thread s" using sched_tsleep_switches [OF assms] by metis
  have "sched_core {} (wakeq_flush w)" "cur_thread (wakeq_flush w) \<noteq> 0"
    using w wakeq_flush_core assms(1) by (auto simp: sched_wf_def)
  then show "sched_wf (sched_tsleep e ms s)" "state (cur (sched_tsleep e ms s)) = TH_RUN"
    "thread_valid (sched_tsleep e ms s) (cur_thread (sched_tsleep e ms s))"
    "\<not> resched (cur (sched_tsleep e ms s))"
    using sched_switch_spec w(1) by auto
qed

lemma wake_move_core:
  assumes "sched_core {th} s" "unlinked_thread s th" "thread_valid s th" "asleep s th"
  shows "sched_core {} (wake_move th s)"
proof -
  let ?s = "upd_thread th (slpret_update (\<lambda>_. 0)) s"
  have "sched_core {} (?s\<lparr>wakeq := wakeq ?s @ [th]\<rparr>)"
    using assms by (intro wakeq_push_core) (simp_all add: unlinked_thread_def thread_valid_def asleep_def)
  then show ?thesis by (simp add: wake_move_def Let_def)
qed

lemma wake_move_proj [simp]:
  "cur_thread (wake_move th s) = cur_thread s" "idle_thread (wake_move th s) = idle_thread s"
  "runq (wake_move th s) = runq s" "wakeq (wake_move th s) = wakeq s @ [th]"
  "sleepq (wake_move th s) = sleepq s" "top_prio (wake_move th s) = top_prio s"
  "threads (wake_move th s) = (threads s)(th := (threads s th)\<lparr>slpret := 0\<rparr>)"
  by (simp_all add: wake_move_def Let_def kproj)

lemma wake_move_preempt [simp]: "preempt_ok (wake_move th s) = preempt_ok s"
  by (simp add: preempt_ok_def)

lemma wakeup_from_wf:
  "sched_wf s \<Longrightarrow> sleepq s e = q \<Longrightarrow> sched_wf (wakeup_from e q s) \<and> sleepq (wakeup_from e q s) e = []"
proof (induction q arbitrary: s)
  case (Cons th q)
  let ?s = "s\<lparr>sleepq := (sleepq s)(e := q)\<rparr>"
  have c: "sched_core {} s" using Cons.prems by (simp add: sched_wf_def)
  note p = sleepq_pop [OF c Cons.prems(2)]
  have "sched_core {} (wake_move th ?s)" using wake_move_core [OF p(1,2)] p(3,4) by simp
  then have "sched_wf (wake_move th ?s)" using Cons.prems(1) by (auto simp: sched_wf_def preempt_ok_def)
  from Cons.IH [OF this] show ?case by simp
qed simp

lemma sched_wakeup_wf: "sched_wf s \<Longrightarrow> sched_wf (sched_wakeup e s)"
  using wakeup_from_wf [of "irq_lock (sched_lock s)" e]
  by (simp add: sched_wakeup_def Let_def sched_unlock_wf)


lemma unlink_asleep_wf:
  assumes "sched_core {} s" "thread_valid s th" "asleep s th"
  shows "sched_core {th} (link_remove th s)" "unlinked_thread (link_remove th s) th"
    "runq (link_remove th s) = runq s"
  using link_remove_asleep_core [OF assms(1)] asleep_not_in_runq [OF assms(1,3)]
  by (auto simp: link_remove_def fun_eq_iff remove1_idem)

lemma top_waiter_mem: "top_waiter pr b q \<in> insert b (set q)"
  by (induction q arbitrary: b) auto

lemma sleepq_asleep:
  "sched_core X s \<Longrightarrow> th \<in> set (sleepq s e) \<Longrightarrow> thread_valid s th \<and> asleep s th"
  by (auto simp: sched_core_def wait_ok_def)

lemma wake_removed_wf:
  assumes "sched_wf s" "thread_valid s th" "asleep s th"
  shows "sched_wf (wake_move th (link_remove th s))"
proof -
  have c: "sched_core {} s" using assms by (simp add: sched_wf_def)
  have "sched_core {} (wake_move th (link_remove th s))"
    using unlink_asleep_wf [OF c assms(2,3)] assms by (intro wake_move_core) simp_all
  then show ?thesis using assms(1) by (simp add: sched_wf_def) (simp add: preempt_ok_def)
qed

lemma sched_wakeone_wf: "sched_wf s \<Longrightarrow> sched_wf (snd (sched_wakeone e s))"
proof -
  assume wf: "sched_wf s"
  let ?s = "irq_lock (sched_lock s)"
  have w: "sched_wf ?s" using wf by simp
  show ?thesis
  proof (cases "sleepq ?s e")
    case Nil
    then show ?thesis using w by (simp add: sched_wakeone_def Let_def sched_unlock_wf)
  next
    case (Cons th q)
    let ?b = "top_waiter (\<lambda>t. prio (threads ?s t)) th (th # q)"
    have "?b \<in> set (sleepq ?s e)" using top_waiter_mem [of _ th "th # q"] Cons by auto
    then have "thread_valid ?s ?b" "asleep ?s ?b" using sleepq_asleep w by (auto simp: sched_wf_def)
    then have "sched_wf (wake_move ?b (link_remove ?b ?s))" using wake_removed_wf w by blast
    then show ?thesis using Cons by (simp add: sched_wakeone_def Let_def sched_unlock_wf)
  qed
qed

lemma sched_lock_proj [simp]:
  "state (threads (sched_lock s) x) = state (threads s x)"
  "prio (threads (sched_lock s) x) = prio (threads s x)"
  "slpevt (threads (sched_lock s) x) = slpevt (threads s x)"
  "slpret (threads (sched_lock s) x) = slpret (threads s x)"
  "resched (threads (sched_lock s) x) = resched (threads s x)"
  "th_magic (threads (sched_lock s) x) = th_magic (threads s x)"
  "cur_thread (sched_lock s) = cur_thread s" "idle_thread (sched_lock s) = idle_thread s"
  "runq (sched_lock s) = runq s" "wakeq (sched_lock s) = wakeq s" "sleepq (sched_lock s) = sleepq s"
  "top_prio (sched_lock s) = top_prio s" "thread_valid (sched_lock s) = thread_valid s"
  "asleep (sched_lock s) = asleep s" "ready (sched_lock s) = ready s"
  by (auto simp: sched_lock_def thread_valid_def asleep_def ready_def fun_eq_iff)

lemma sched_unsleep_wf:
  assumes "sched_wf s" "thread_valid s th"
  shows "sched_wf (sched_unsleep th r s)"
proof (cases "asleep s th")
  case True
  let ?s = "irq_lock (sched_lock s)"
  let ?b = "upd_thread th (slpret_update (\<lambda>_. r)) (link_remove th ?s)"
  have o: "thread_valid ?s th" "asleep ?s th"
    using True assms(2) by (auto simp: thread_valid_def asleep_def sched_lock_def kproj)
  have c: "sched_core {} ?s" using assms by (simp add: sched_wf_def)
  have "sched_core {} (?b\<lparr>wakeq := wakeq ?b @ [th]\<rparr>)"
    using unlink_asleep_wf [OF c o] o
    by (intro wakeq_push_core) (simp_all add: unlinked_thread_def thread_valid_def asleep_def)
  moreover have "preempt_ok (?b\<lparr>wakeq := wakeq ?b @ [th]\<rparr>)" "cur_thread ?b \<noteq> 0"
    using assms(1) by (auto simp: sched_wf_def preempt_ok_def sched_lock_def kproj)
  ultimately have "sched_wf (?b\<lparr>wakeq := wakeq ?b @ [th]\<rparr>)" by (simp add: sched_wf_def)
  then have "sched_wf (irq_unlock (timer_stop (ThreadTimeout th) (?b\<lparr>wakeq := wakeq ?b @ [th]\<rparr>)))" by simp
  then show ?thesis using True
    by (simp add: sched_unsleep_def Let_def asleep_def sched_unlock_wf)
next
  case False
  then show ?thesis using assms(1)
    by (simp add: sched_unsleep_def Let_def asleep_def sched_unlock_wf)
qed

lemma cur_resched_wf:
  assumes "sched_wf s" "c = cur_thread s"
  shows "sched_wf (upd_thread c (resched_update (\<lambda>_. True)) s)"
  using assms by (simp add: sched_wf_def cur_resched_core) (simp add: preempt_ok_def)

lemma sched_yield_wf: "sched_wf s \<Longrightarrow> sched_wf (sched_yield s)"
  by (simp add: sched_yield_def Let_def sched_unlock_wf cur_resched_wf)

section \<open>The other operations\<close>

text \<open>A change of one thread that its queues do not see.\<close>

lemma view_core:
  assumes "sched_core X s"
    and "th_magic (f (threads s th)) = th_magic (threads s th)"
    and "asleep (upd_thread th f s) th = asleep s th" "ready (upd_thread th f s) th = ready s th"
    and "prio (f (threads s th)) = prio (threads s th)" "slpevt (f (threads s th)) = slpevt (threads s th)"
    and "th = cur_thread s \<or> resched (f (threads s th)) = resched (threads s th)"
    and "thread_valid s th" "th \<noteq> idle_thread s"
  shows "sched_core X (upd_thread th f s)"
proof -
  let ?s = "upd_thread th f s"
  have o: "asleep ?s x = asleep s x" "ready ?s x = ready s x" "thread_valid ?s x = thread_valid s x"
    "prio (threads ?s x) = prio (threads s x)" "slpevt (threads ?s x) = slpevt (threads s x)"
    "x \<noteq> cur_thread s \<Longrightarrow> resched (threads ?s x) = resched (threads s x)" for x
    using assms(2-7) by (cases "x = th"; auto simp: asleep_def ready_def thread_valid_def)+
  have ok: "runq_ok s" "wait_ok s" "linked_ok X s" "attr_ok s" "top_ok s"
    using assms(1) by (auto simp: sched_core_def)
  have q: "runq ?s = runq s" "wakeq ?s = wakeq s" "sleepq ?s = sleepq s" "top_prio ?s = top_prio s"
    "cur_thread ?s = cur_thread s" "idle_thread ?s = idle_thread s" by simp_all
  have "runq_ok ?s" using ok(1) by (simp add: runq_ok_def q o del: upd_thread_proj)
  moreover have "wait_ok ?s" using ok(2) by (simp add: wait_ok_def q o del: upd_thread_proj)
  moreover have "linked_ok X ?s" using ok(3) by (simp add: linked_ok_def q o del: upd_thread_proj)
  moreover have "attr_ok ?s"
    using ok(4) assms(8,9) o(6) unfolding attr_ok_def q o(3,4) by (auto simp del: upd_thread_proj) (auto split: if_splits)
  moreover have "top_ok ?s" using ok(5) by (simp add: top_ok_iff)
  ultimately show ?thesis by (simp add: sched_core_def)
qed


lemma runq_remove_proj [simp]:
  "threads (runq_remove th s) = threads s" "cur_thread (runq_remove th s) = cur_thread s"
  "idle_thread (runq_remove th s) = idle_thread s" "thread_valid (runq_remove th s) = thread_valid s"
  "asleep (runq_remove th s) = asleep s" "ready (runq_remove th s) = ready s"
  by (simp_all add: runq_remove_def Let_def)

lemma runq_remove_top:
  assumes "sched_core X s"
  shows "top_prio s \<le> top_prio (runq_remove th s)"
proof -
  let ?s = "runq_remove th s"
  have t: "top_ok ?s" "top_ok s" using runq_remove_core [OF assms] assms by (auto simp: sched_core_def)
  show ?thesis
  proof (cases "top_prio ?s < MIN_PRIO")
    case True
    then have "runq ?s (top_prio ?s) \<noteq> []" using t by (simp add: top_ok_iff)
    then have "runq s (top_prio ?s) \<noteq> []"
      by (cases "runq s (top_prio ?s)") (simp_all add: runq_remove_def Let_def link_remove_def)
    then show ?thesis using t(2) by (metis top_ok_iff not_le)
  next
    case False
    then show ?thesis using t by (simp add: top_ok_iff)
  qed
qed

lemma preempt_mono:
  assumes "preempt_ok s" "cur s' = cur s" "top_prio s \<le> top_prio s'"
  shows "preempt_ok s'"
  using assms by (auto simp: preempt_ok_def)

text \<open>Moving an unqueued thread into a state in which it stays unqueued.\<close>

lemma park_core:
  assumes "sched_core X s" "X \<subseteq> {th}" "unlinked_thread s th" "thread_valid s th" "th \<noteq> idle_thread s"
    and "th_magic (f (threads s th)) = th_magic (threads s th)"
    and "prio (f (threads s th)) = prio (threads s th)" "resched (f (threads s th)) = resched (threads s th)"
    and "state (f (threads s th)) \<noteq> TH_RUN" "state (f (threads s th)) AND TH_SLEEP = 0"
  shows "sched_core {} (upd_thread th f s)"
proof -
  have c: "sched_core {th} s" using assms(1,2) core_mono by blast
  have "sched_core {th} (upd_thread th f s)"
    using unlinked_upd_core(1) [OF c assms(3), of f] assms core_prio [OF c assms(4)] by auto
  then show ?thesis
    using assms(9,10) by - (rule core_settle, auto simp: ready_def asleep_def)
qed

lemma sched_suspend_wf:
  assumes "sched_wf s" "thread_valid s th" "th \<noteq> idle_thread s"
  shows "sched_wf (sched_suspend th s)"
proof -
  let ?f = "state_update (\<lambda>st. st OR TH_SUSPEND)"
  have c: "sched_core {} s" "preempt_ok s" "cur_thread s \<noteq> 0" using assms(1) by (auto simp: sched_wf_def)
  consider (cur) "state (threads s th) = TH_RUN" "th = cur_thread s"
    | (run) "state (threads s th) = TH_RUN" "th \<noteq> cur_thread s"
    | (other) "state (threads s th) \<noteq> TH_RUN" by blast
  then show ?thesis
  proof cases
    case cur
    let ?s = "upd_cur (resched_update (\<lambda>_. True)) s"
    have "unlinked_thread s th" using not_queued [OF c(1)] cur by (simp add: ready_def asleep_def flag_simps)
    then have "sched_core {} (upd_thread th ?f ?s)"
      using c(1) assms cur
      by - (rule park_core [of "{}"],
        simp_all add: cur_resched_core unlinked_thread_def thread_valid_def flag_simps)
    then show ?thesis using cur c(3) by (simp add: sched_suspend_def sched_wf_def preempt_ok_def Let_def)
  next
    case run
    have "sched_core {} (upd_thread th ?f (runq_remove th s))"
      using runq_remove_core [OF c(1), of th] assms run
      by - (rule park_core [of "{th}"], simp_all add: flag_simps)
    moreover have "preempt_ok (upd_thread th ?f (runq_remove th s))"
      using c(2) run runq_remove_top [OF c(1), of th] by - (rule preempt_mono [of s], auto)
    ultimately show ?thesis using run c(3) by (simp add: sched_suspend_def sched_wf_def Let_def)
  next
    case other
    have "sched_core {} (upd_thread th ?f s)"
      using c(1) assms other by (intro view_core) (auto simp: asleep_def ready_def flag_simps)
    moreover have "preempt_ok (upd_thread th ?f s)"
      using c(2) other by (auto simp: preempt_ok_def)
    ultimately show ?thesis using other c(3) by (simp add: sched_suspend_def sched_wf_def Let_def)
  qed
qed

lemma sched_resume_wf:
  assumes "sched_wf s" "thread_valid s th" "th \<noteq> cur_thread s"
  shows "sched_wf (sched_resume th s)"
proof (cases "state (threads s th) AND TH_SUSPEND = 0")
  case True
  then show ?thesis using assms by (simp add: sched_resume_def)
next
  case False
  let ?s = "upd_thread th (state_update (\<lambda>st. st AND NOT TH_SUSPEND)) s"
  have c: "sched_core {} s" "preempt_ok s" "cur_thread s \<noteq> 0" using assms(1) by (auto simp: sched_wf_def)
  have nr: "state (threads s th) \<noteq> TH_RUN" using False by (auto simp: TH_RUN_def)
  then have ni: "th \<noteq> idle_thread s" using c(1) by (auto simp: sched_core_def attr_ok_def)
  have p: "preempt_ok ?s" using c(2) assms(3) by (simp add: preempt_ok_def)
  show ?thesis
  proof (cases "state (threads ?s th) = TH_RUN")
    case True
    then have "\<not> asleep ?s th" by (simp add: asleep_def flag_simps)
    then have "\<not> asleep s th" by (simp add: asleep_def flag_simps)
    then have u: "unlinked_thread s th" using not_queued [OF c(1)] nr by (simp add: ready_def)
    have c': "sched_core {th} s" using c(1) core_mono by blast
    have "sched_core {th} ?s" "unlinked_thread ?s th"
      using unlinked_upd_core [OF c' u] assms ni core_prio [OF c' assms(2)] by auto
    moreover have "ready ?s th" using True assms by (simp add: ready_def thread_valid_def)
    ultimately have "sched_core {} (runq_enqueue th ?s)" using runq_enqueue_core by blast
    then show ?thesis using True False c(3) p runq_enqueue_preempt
      by (simp add: sched_resume_def sched_wf_def Let_def)
  next
    case nrun: False
    then have "sched_core {} ?s"
      using c(1) assms(2) ni nr by (intro view_core) (auto simp: asleep_def ready_def flag_simps)
    then show ?thesis using nrun False c(3) p by (simp add: sched_resume_def sched_wf_def Let_def)
  qed
qed


lemma sched_stop_wf:
  assumes "sched_wf s" "thread_valid s th" "th \<noteq> idle_thread s" "th = cur_thread s \<longrightarrow> \<not> asleep s th"
  shows "sched_wf (sched_stop th s)"
proof -
  let ?f = "state_update (\<lambda>_. TH_EXIT)" and ?t = "timer_stop (ThreadTimeout th)"
  have c: "sched_core {} s" "preempt_ok s" "cur_thread s \<noteq> 0" using assms(1) by (auto simp: sched_wf_def)
  consider (cur) "th = cur_thread s" | (run) "th \<noteq> cur_thread s" "state (threads s th) = TH_RUN"
    | (slp) "th \<noteq> cur_thread s" "state (threads s th) \<noteq> TH_RUN" "asleep s th"
    | (sus) "th \<noteq> cur_thread s" "state (threads s th) \<noteq> TH_RUN" "\<not> asleep s th" by blast
  then show ?thesis
  proof cases
    case cur
    let ?s = "?t (upd_thread th (\<lambda>t. t\<lparr>locks := 1, resched := True\<rparr>) s)"
    let ?r = "upd_thread th (resched_update (\<lambda>_. True)) s"
    have "?s = ?t (upd_thread th (locks_update (\<lambda>_. 1)) ?r)"
      by (cases "threads s th") (simp add: upd_thread_def)
    then have "sched_core {} ?s" using c(1) cur by (simp add: cur_resched_core)
    moreover have "unlinked_thread ?s th"
      using not_queued [OF c(1), of th] assms(4) cur by (simp add: unlinked_thread_def ready_def kproj)
    ultimately have "sched_core {} (upd_thread th ?f ?s)"
      using assms cur by - (rule park_core [of "{}"], simp_all add: thread_valid_def kproj flag_simps)
    then show ?thesis using cur c(3) by (simp add: sched_stop_def sched_wf_def preempt_ok_def Let_def kproj)
  next
    case run
    have "sched_core {} (upd_thread th ?f (?t (runq_remove th s)))"
      using runq_remove_core [OF c(1), of th] assms
      by - (rule park_core [of "{th}"], simp_all add: thread_valid_def unlinked_thread_def kproj flag_simps)
    moreover have "preempt_ok (upd_thread th ?f (?t (runq_remove th s)))"
      using c(2) run runq_remove_top [OF c(1), of th] by - (rule preempt_mono [of s], auto simp: kproj)
    ultimately show ?thesis using run c(3) by (simp add: sched_stop_def sched_wf_def Let_def kproj)
  next
    case slp
    have "sched_core {} (upd_thread th ?f (?t (link_remove th s)))"
      using unlink_asleep_wf [OF c(1) assms(2) slp(3)] assms
      by - (rule park_core [of "{th}"], simp_all add: thread_valid_def unlinked_thread_def kproj flag_simps)
    moreover have "preempt_ok (upd_thread th ?f (?t (link_remove th s)))"
      using c(2) slp by - (rule preempt_mono [of s], auto simp: kproj)
    ultimately show ?thesis using slp c(3)
      by (simp add: sched_stop_def sched_wf_def Let_def asleep_def kproj)
  next
    case sus
    have "sched_core {} (upd_thread th ?f (?t s))"
      using not_queued [OF c(1), of th] c(1) sus assms
      by - (rule park_core [of "{}"], simp_all add: thread_valid_def unlinked_thread_def ready_def kproj flag_simps)
    moreover have "preempt_ok (upd_thread th ?f (?t s))"
      using c(2) sus by - (rule preempt_mono [of s], auto simp: kproj)
    ultimately show ?thesis using sus c(3)
      by (simp add: sched_stop_def sched_wf_def Let_def asleep_def kproj)
  qed
qed

lemma prio_upd_core:
  assumes "sched_core X s" "\<not> ready s th" "p < NPRIO"
  shows "sched_core X (upd_thread th (prio_update (\<lambda>_. p)) s)"
proof -
  let ?s = "upd_thread th (prio_update (\<lambda>_. p)) s"
  have o: "asleep ?s = asleep s" "ready ?s = ready s" "thread_valid ?s = thread_valid s"
    by (auto simp: asleep_def ready_def thread_valid_def fun_eq_iff)
  have ok: "runq_ok s" "wait_ok s" "linked_ok X s" "attr_ok s" "top_ok s"
    using assms(1) by (auto simp: sched_core_def)
  have "x \<in> set (runq s q) \<Longrightarrow> x \<noteq> th" for x q using ok(1) assms(2) by (auto simp: runq_ok_def)
  then have "runq_ok ?s" using ok(1) by (simp add: runq_ok_def o)
  moreover have "wait_ok ?s" using ok(2) by (auto simp: wait_ok_def o)
  moreover have "linked_ok X ?s" using ok(3) assms(2) by (auto simp: linked_ok_def o)
  moreover have "attr_ok ?s" using ok(4) assms(3) by (auto simp: attr_ok_def o)
  moreover have "top_ok ?s" using ok(5) by (simp add: top_ok_iff)
  ultimately show ?thesis by (simp add: sched_core_def)
qed

lemma baseprio_same [simp]: "sched_wf (upd_thread th (baseprio_update f) s) = sched_wf s"
  by (rule sched_same_wf) (simp add: sched_same_def)

lemma sched_setprio_wf:
  assumes "sched_wf s0" "thread_valid s0 th" "p < NPRIO"
  shows "sched_wf (sched_setprio th b p s0)"
proof -
  define s where "s = upd_thread th (baseprio_update (\<lambda>_. b)) s0"
  have w: "sched_wf s" "thread_valid s th" using assms by (simp_all add: s_def thread_valid_def)
  have c: "sched_core {} s" "preempt_ok s" "cur_thread s \<noteq> 0" using w(1) by (auto simp: sched_wf_def)
  let ?s = "upd_thread th (prio_update (\<lambda>_. p)) s"
  consider (cur) "th = cur_thread s" | (run) "th \<noteq> cur_thread s" "state (threads s th) = TH_RUN"
    | (other) "th \<noteq> cur_thread s" "state (threads s th) \<noteq> TH_RUN" by blast
  then have "sched_wf (if th = cur_thread s
         then let s1 = upd_thread th (prio_update (\<lambda>_. p)) s; s2 = s1\<lparr>top_prio := runq_top s1\<rparr>
              in if p \<noteq> top_prio s2 then upd_cur (resched_update (\<lambda>_. True)) s2 else s2
         else if state (threads s th) = TH_RUN
         then runq_enqueue th (upd_thread th (prio_update (\<lambda>_. p)) (runq_remove th s))
         else upd_thread th (prio_update (\<lambda>_. p)) s)"
  proof cases
    case cur
    have k: "sched_core {} ?s" using prio_upd_core [OF c(1) _ assms(3)] cur by (simp add: ready_def)
    then have "?s\<lparr>top_prio := runq_top ?s\<rparr> = ?s" by (simp add: sched_core_def top_ok_def)
    then show ?thesis using k c(2,3) cur
      by (auto simp: sched_wf_def preempt_ok_def Let_def cur_resched_core)
  next
    case run
    let ?r = "upd_thread th (prio_update (\<lambda>_. p)) (runq_remove th s)"
    have "sched_core {th} ?r" "unlinked_thread ?r th"
      using unlinked_upd_core [OF runq_remove_core [OF c(1)], of th "prio_update (\<lambda>_. p)"] w(2) assms(3) run by auto
    moreover have "ready ?r th" using run w(2) by (simp add: ready_def thread_valid_def)
    ultimately have "sched_core {} (runq_enqueue th ?r)" using runq_enqueue_core by blast
    moreover have "preempt_ok ?r"
      using c(2) run runq_remove_top [OF c(1), of th] by - (rule preempt_mono [of s], auto)
    ultimately show ?thesis using run c(3) runq_enqueue_preempt by (simp add: sched_wf_def)
  next
    case other
    then show ?thesis using prio_upd_core [OF c(1) _ assms(3), of th] c
      by (simp add: sched_wf_def ready_def preempt_ok_def)
  qed
  then show ?thesis by (simp only: sched_setprio_def s_def Let_def)
qed

lemma sched_tick_wf: "sched_wf s \<Longrightarrow> sched_wf (sched_tick s)"
proof -
  assume wf: "sched_wf s"
  have 1: "sched_wf (upd_thread c (th_time_update f) s) = sched_wf s"
    "sched_wf (upd_thread c (timeleft_update g) s) = sched_wf s" for c f g s
    by (rule sched_same_wf, simp add: sched_same_def)+
  have 2: "upd_thread c (\<lambda>t. t\<lparr>timeleft := timeleft t + q, resched := True\<rparr>) s =
      upd_thread c (timeleft_update (\<lambda>n. n + q)) (upd_thread c (resched_update (\<lambda>_. True)) s)" for c q s
    by (cases "threads s c") (simp add: upd_thread_def)
  show ?thesis using wf by (simp add: sched_tick_def Let_def 1 2 cur_resched_wf)
qed

lemma sched_setpolicy_wf: "sched_wf (snd (sched_setpolicy th pol s)) = sched_wf s"
proof -
  have "sched_wf (upd_thread th (\<lambda>t. t\<lparr>timeleft := QUANTUM, policy := pol\<rparr>) s) = sched_wf s"
    by (rule sched_same_wf) (simp add: sched_same_def)
  then show ?thesis by (simp add: sched_setpolicy_def)
qed

lemmas sched_wf_preserved = sched_unlock_wf sched_tsleep_wf(1) sched_wakeup_wf sched_wakeone_wf
  sched_unsleep_wf sched_yield_wf sched_suspend_wf sched_resume_wf sched_stop_wf sched_setprio_wf
  sched_tick_wf

end
