(* ===== verification/Sched_Frame.thy ===== *)
theory Sched_Frame
  imports Sched_Inv
begin

text \<open>
  What the scheduler does not touch. \<open>th_own\<close> forgets the members of a thread that
  sleeping, waking and switching write; \<open>k_rest\<close> forgets the scheduler's variables, the
  timers and the interrupt lock. Every operation keeps what is left.
\<close>

definition th_own :: "thread \<Rightarrow> thread" where
  "th_own t = t\<lparr>state := 0, resched := False, locks := 0, slpevt := None, slpret := 0\<rparr>"

definition k_rest :: "kstate \<Rightarrow> kstate" where
  "k_rest s = s\<lparr>threads := \<lambda>x. th_own (threads s x), cur_thread := 0, runq := \<lambda>_. [], wakeq := [],
     sleepq := \<lambda>_. [], top_prio := 0, timers := \<lambda>_. \<lparr>tm_active = False, tm_expire = 0, tm_interval = 0, tm_func = None\<rparr>,
     timer_list := [], expire_list := [], interrupts := False, nr_irq_locks := 0, saved_irq_state := False,
     tss_esp0 := 0, vm := (vm s)\<lparr>mmu_st := (mmu_st (vm s))\<lparr>cr3 := 0\<rparr>\<rparr>\<rparr>"

lemma k_rest_threads: "k_rest s' = k_rest s \<Longrightarrow> th_own (threads s' x) = th_own (threads s x)"
  unfolding k_rest_def by (drule arg_cong [of _ _ threads]) (simp add: fun_eq_iff)

lemma th_own_eqD:
  assumes "th_own t' = th_own t"
  shows "th_magic t' = th_magic t" "th_task t' = th_task t" "th_name t' = th_name t"
    "policy t' = policy t" "prio t' = prio t" "baseprio t' = baseprio t" "timeleft t' = timeleft t"
    "suscnt t' = suscnt t" "periodic t' = periodic t" "excbits t' = excbits t" "msgaddr t' = msgaddr t"
    "msgsize t' = msgsize t" "sender t' = sender t" "receiver t' = receiver t" "sendobj t' = sendobj t"
    "recvobj t' = recvobj t" "th_mutexes t' = th_mutexes t" "wait_mutex t' = wait_mutex t" "kstack t' = kstack t"
    "th_time t' = th_time t" "ctx t' = ctx t"
  using arg_cong [OF assms, of th_magic] arg_cong [OF assms, of th_task] arg_cong [OF assms, of
    th_name] arg_cong [OF assms, of policy] arg_cong [OF assms, of prio] arg_cong [OF assms, of
    baseprio] arg_cong [OF assms, of timeleft] arg_cong [OF assms, of suscnt] arg_cong [OF assms,
    of periodic] arg_cong [OF assms, of excbits] arg_cong [OF assms, of msgaddr] arg_cong [OF
    assms, of msgsize] arg_cong [OF assms, of sender] arg_cong [OF assms, of receiver] arg_cong [OF
    assms, of sendobj] arg_cong [OF assms, of recvobj] arg_cong [OF assms, of th_mutexes] arg_cong
    [OF assms, of wait_mutex] arg_cong [OF assms, of kstack] arg_cong [OF assms, of th_time]
    arg_cong [OF assms, of ctx]
  by (simp_all add: th_own_def)

lemma k_restD:
  assumes "k_rest s' = k_rest s"
  shows "idle_thread s' = idle_thread s" "dpcq s' = dpcq s" "dpcs s' = dpcs s" "lbolt s' = lbolt s"
    "tick_hook s' = tick_hook s" "zombie s' = zombie s" "tasks s' = tasks s" "kern_task s' = kern_task s"
    "task_list s' = task_list s" "sems s' = sems s" "mutexes s' = mutexes s" "conds s' = conds s"
    "objects s' = objects s" "obj_table s' = obj_table s" "devices s' = devices s"
    "device_list s' = device_list s" "irqs s' = irqs s" "irq_table s' = irq_table s" "pic s' = pic s"
    "rgns (vm s') = rgns (vm s)" "maps (vm s') = maps (vm s)" "vpool (vm s') = vpool (vm s)"
    "pmem (vm s') = pmem (vm s)" "kern_map (vm s') = kern_map (vm s)"
    "mmu_pool (mmu_st (vm s')) = mmu_pool (mmu_st (vm s))" "ptmem (mmu_st (vm s')) = ptmem (mmu_st (vm s))"
  using arg_cong [OF assms, of idle_thread] arg_cong [OF assms, of dpcq] arg_cong [OF assms, of dpcs]
    arg_cong [OF assms, of lbolt] arg_cong [OF assms, of tick_hook] arg_cong [OF assms, of zombie]
    arg_cong [OF assms, of tasks] arg_cong [OF assms, of kern_task] arg_cong [OF assms, of task_list]
    arg_cong [OF assms, of sems] arg_cong [OF assms, of mutexes] arg_cong [OF assms, of conds]
    arg_cong [OF assms, of objects] arg_cong [OF assms, of obj_table] arg_cong [OF assms, of devices]
    arg_cong [OF assms, of device_list] arg_cong [OF assms, of irqs] arg_cong [OF assms, of irq_table]
    arg_cong [OF assms, of pic] arg_cong [OF assms, of "\<lambda>s. rgns (vm s)"]
    arg_cong [OF assms, of "\<lambda>s. maps (vm s)"] arg_cong [OF assms, of "\<lambda>s. vpool (vm s)"]
    arg_cong [OF assms, of "\<lambda>s. pmem (vm s)"] arg_cong [OF assms, of "\<lambda>s. kern_map (vm s)"]
    arg_cong [OF assms, of "\<lambda>s. mmu_pool (mmu_st (vm s))"]
    arg_cong [OF assms, of "\<lambda>s. ptmem (mmu_st (vm s))"]
  by (simp_all add: k_rest_def)

lemma th_own_upd [simp]:
  "th_own (resched_update f t) = th_own t" "th_own (locks_update g t) = th_own t"
  "th_own (slpret_update h t) = th_own t" "th_own (slpevt_update k t) = th_own t"
  "th_own (state_update l t) = th_own t"
  by (simp_all add: th_own_def)

lemma upd_thread_rest:
  assumes "th_own (f (threads s th)) = th_own (threads s th)"
  shows "k_rest (upd_thread th f s) = k_rest s"
proof -
  have "(\<lambda>x. th_own (((threads s)(th := f (threads s th))) x)) = (\<lambda>x. th_own (threads s x))"
    using assms by auto
  then show ?thesis by (simp add: k_rest_def upd_thread_def del: fun_upd_apply)
qed

lemma k_rest_upd [simp]:
  "k_rest (s\<lparr>runq := q\<rparr>) = k_rest s" "k_rest (s\<lparr>wakeq := w\<rparr>) = k_rest s"
  "k_rest (s\<lparr>sleepq := sq\<rparr>) = k_rest s" "k_rest (s\<lparr>top_prio := t\<rparr>) = k_rest s"
  "k_rest (s\<lparr>cur_thread := c\<rparr>) = k_rest s"
  "k_rest (irq_lock s) = k_rest s" "k_rest (irq_unlock s) = k_rest s"
  "k_rest (timer_stop r s) = k_rest s" "k_rest (timer_callout r m f s) = k_rest s"
  by (simp_all add: k_rest_def irq_lock_def irq_unlock_def timer_stop_def timer_callout_def timer_add_def
      timer_unlink_def upd_timer_def Let_def)

lemma switch_to_rest [simp]: "k_rest (switch_to p n s) = k_rest s"
  by (simp add: k_rest_def switch_to_def vm_switch_task_def context_switch_def tss_set_def vm_switch_def
      mmu_switch_def Let_def split: option.split)

lemma queue_ops_rest [simp]:
  "k_rest (runq_enqueue th s) = k_rest s" "k_rest (runq_insert th s) = k_rest s"
  "k_rest (snd (runq_dequeue s)) = k_rest s" "k_rest (link_remove th s) = k_rest s"
  "k_rest (runq_remove th s) = k_rest s" "k_rest (wake_one th s) = k_rest s"
  "k_rest (sched_lock s) = k_rest s" "k_rest (wake_move th s) = k_rest s"
  by (simp_all add: runq_enqueue_def runq_insert_def runq_dequeue_def link_remove_def runq_remove_def
      wake_one_def sched_lock_def wake_move_def Let_def upd_thread_rest split: list.split)

lemma wakeq_flush_rest [simp]: "k_rest (wakeq_flush s) = k_rest s"
proof -
  have "k_rest (wakeq_flush_from q s) = k_rest s" for q by (induction q arbitrary: s) simp_all
  then show ?thesis by (simp add: wakeq_flush_def)
qed

lemma sched_switch_rest [simp]: "k_rest (sched_switch s) = k_rest s"
  by (simp add: sched_switch_alt dispatch_def requeue_prev_def vacate_def runq_dequeue_def Let_def
      upd_thread_rest split: list.split)

lemma resched_loop_rest [simp]: "k_rest (resched_loop n s) = k_rest s"
  by (induction n arbitrary: s) simp_all

lemma sched_unlock_rest [simp]: "k_rest (sched_unlock s) = k_rest s"
  by (simp add: sched_unlock_def Let_def upd_thread_rest)

lemma wakeup_from_rest [simp]: "k_rest (wakeup_from e q s) = k_rest s"
  by (induction q arbitrary: s) simp_all

lemma sched_ops_rest [simp]:
  "k_rest (sched_tsleep e ms s) = k_rest s" "k_rest (snd (sched_tsleep_ret s)) = k_rest s"
  "k_rest (sched_wakeup e s) = k_rest s" "k_rest (snd (sched_wakeone e s)) = k_rest s"
  "k_rest (sched_unsleep th r s) = k_rest s" "k_rest (sched_yield s) = k_rest s"
  "k_rest (sched_suspend th s) = k_rest s" "k_rest (sched_resume th s) = k_rest s"
  "k_rest (sched_stop th s) = k_rest s"
  by (simp_all add: sched_tsleep_def sched_tsleep_ret_def sched_wakeup_def sched_wakeone_def sched_unsleep_def
      sched_yield_def sched_suspend_def sched_resume_def sched_stop_def Let_def upd_thread_rest split: list.split)

lemmas k_rest_state = k_restD [OF queue_ops_rest(7)]
  k_restD [OF wakeq_flush_rest] k_restD [OF sched_unlock_rest]
  k_restD [OF sched_ops_rest(1)] k_restD [OF sched_ops_rest(2)] k_restD [OF sched_ops_rest(3)]
  k_restD [OF sched_ops_rest(4)] k_restD [OF sched_ops_rest(5)] k_restD [OF sched_ops_rest(6)]
  k_restD [OF sched_ops_rest(7)] k_restD [OF sched_ops_rest(8)] k_restD [OF sched_ops_rest(9)]

lemmas k_rest_thread = th_own_eqD [OF k_rest_threads [OF queue_ops_rest(7)]]
  th_own_eqD [OF k_rest_threads [OF wakeq_flush_rest]]
  th_own_eqD [OF k_rest_threads [OF sched_unlock_rest]]
  th_own_eqD [OF k_rest_threads [OF sched_ops_rest(1)]] th_own_eqD [OF k_rest_threads [OF sched_ops_rest(2)]]
  th_own_eqD [OF k_rest_threads [OF sched_ops_rest(3)]] th_own_eqD [OF k_rest_threads [OF sched_ops_rest(4)]]
  th_own_eqD [OF k_rest_threads [OF sched_ops_rest(5)]] th_own_eqD [OF k_rest_threads [OF sched_ops_rest(6)]]
  th_own_eqD [OF k_rest_threads [OF sched_ops_rest(7)]] th_own_eqD [OF k_rest_threads [OF sched_ops_rest(8)]]
  th_own_eqD [OF k_rest_threads [OF sched_ops_rest(9)]]

declare k_rest_state [kproj] k_rest_thread [kproj]

lemma thread_valid_rest:
  assumes "k_rest s' = k_rest s"
  shows "thread_valid s' = thread_valid s"
  by (simp add: thread_valid_def fun_eq_iff th_own_eqD(1) [OF k_rest_threads [OF assms]])

lemmas thread_valid_sched [kproj] = thread_valid_rest [OF wakeq_flush_rest]
  thread_valid_rest [OF sched_unlock_rest] thread_valid_rest [OF sched_ops_rest(1)]
  thread_valid_rest [OF sched_ops_rest(2)] thread_valid_rest [OF sched_ops_rest(3)]
  thread_valid_rest [OF sched_ops_rest(4)] thread_valid_rest [OF sched_ops_rest(5)]
  thread_valid_rest [OF sched_ops_rest(6)] thread_valid_rest [OF sched_ops_rest(7)]
  thread_valid_rest [OF sched_ops_rest(8)] thread_valid_rest [OF sched_ops_rest(9)]

end
