(* ===== verification/Example_State.thy ===== *)
theory Example_State
  imports Sched_Inv
begin

text \<open>
  A small kernel state that satisfies the scheduler's invariant. The theorems with
  hypotheses are applied to it, or to variants of it, to show that the hypotheses can hold.
\<close>

text \<open>
  Idle at \<open>0x80001000\<close>, the current thread \<open>0x80002000\<close> with the default priority, and two
  threads of priority 100 asleep on the semaphore at \<open>0x80006000\<close>. All but idle belong to the user task
  \<open>0x80000200\<close>, whose address space has one writable page at \<open>0x1000\<close>; the word at the start of that
  page is the semaphore's identifier.
\<close>

definition demo_mmu :: mmu where
  "demo_mmu = \<lparr>mmu_pool = \<lparr>pages_free = [(0x80300000, 0x10000)], total_size = 0x10000, bootdisk_size = 0\<rparr>,
     ptmem = (\<lambda>_ _. 0)(0x80003000 := (\<lambda>_. 0)(0 := 0x4007), 0x80004000 := (\<lambda>_. 0)(1 := 0x200007)), cr3 = 0x3000\<rparr>"

definition demo_vm :: vmstate where
  "demo_vm = \<lparr>mmu_st = demo_mmu,
     rgns = \<lambda>_. \<lparr>r_addr = 0, r_size = 0, r_flags = 0, r_phys = 0, sh_prev = 0, sh_next = 0\<rparr>,
     maps = (\<lambda>_. \<lparr>rlist = [], refcnt = 1, pgd = 0x80003000\<rparr>),
     vpool = [0x80007000, 0x80008000, 0x80009000, 0x8000a000],
     pmem = (\<lambda>_. 0)(0x200001 := 0x60, 0x200003 := 0x80, 0x200005 := 0x50, 0x200007 := 0x80,
       0x200010 := 0x61, 0x200011 := 0x62), kern_map = 0x80000400\<rparr>"

definition demo_thread :: "nat \<Rightarrow> u32 \<Rightarrow> event option \<Rightarrow> thread" where
  "demo_thread p st e = zero_thread\<lparr>th_magic := THREAD_MAGIC, state := st, prio := p, baseprio := p,
     policy := SCHED_RR, timeleft := QUANTUM, slpevt := e, th_task := Some 0x80000200\<rparr>"

definition demo_task :: task where
  "demo_task = zero_task\<lparr>tk_magic := TASK_MAGIC, tk_threads := [0x80002000, 0x80003000, 0x80004000],
     tk_map := 0x80000300\<rparr>"

definition demo_state :: kstate where
  "demo_state = (zero_state 0x80001000 0x80000100 demo_vm)\<lparr>
     threads := (\<lambda>_. zero_thread)(0x80001000 := (demo_thread 255 TH_RUN None)\<lparr>th_task := Some 0x80000100\<rparr>,
       0x80002000 := demo_thread 200 TH_RUN None, 0x80003000 := demo_thread 100 TH_SLEEP (Some (SemEvent 0x80006000)),
       0x80004000 := demo_thread 100 TH_SLEEP (Some (SemEvent 0x80006000))),
     cur_thread := 0x80002000, top_prio := 255,
     runq := (\<lambda>_. [])(255 := [0x80001000]),
     sleepq := (\<lambda>_. [])(SemEvent 0x80006000 := [0x80003000, 0x80004000]),
     tasks := (\<lambda>_. zero_task)(0x80000100 := zero_task\<lparr>tk_magic := TASK_MAGIC, tk_map := 0x80000400,
         capability := 0xffffffff, tk_threads := [0x80001000]\<rparr>, 0x80000200 := demo_task),
     task_list := [0x80000200],
     sems := (\<lambda>_. \<lparr>sm_magic = 0, sm_task = 0, sm_value = 0\<rparr>)
       (0x80006000 := \<lparr>sm_magic = SEM_MAGIC, sm_task = 0x80000200, sm_value = 0\<rparr>)\<rparr>"

lemma demo_proj:
  "cur_thread demo_state = 0x80002000" "idle_thread demo_state = 0x80001000" "wakeq demo_state = []"
  "runq demo_state = (\<lambda>_. [])(255 := [0x80001000])" "top_prio demo_state = 255" "vm demo_state = demo_vm"
  "sleepq demo_state = (\<lambda>_. [])(SemEvent 0x80006000 := [0x80003000, 0x80004000])" "lbolt demo_state = 0"
  "kern_task demo_state = 0x80000100" "task_list demo_state = [0x80000200]" "timer_list demo_state = []"
  "expire_list demo_state = []" "timers demo_state = (\<lambda>_. zero_timer)" "nr_irq_locks demo_state = 0"
  "tasks demo_state 0x80000200 = demo_task" "cur demo_state = demo_thread 200 TH_RUN None"
  "threads demo_state 0x80003000 = demo_thread 100 TH_SLEEP (Some (SemEvent 0x80006000))"
  "threads demo_state 0x80004000 = demo_thread 100 TH_SLEEP (Some (SemEvent 0x80006000))"
  "threads demo_state 0x80002000 = demo_thread 200 TH_RUN None"
  "sems demo_state 0x80006000 = \<lparr>sm_magic = SEM_MAGIC, sm_task = 0x80000200, sm_value = 0\<rparr>"
  "obj_table demo_state = (\<lambda>_. [])" "device_list demo_state = []" "zombie demo_state = None"
  by (simp_all add: demo_state_def zero_state_def)

lemma demo_valid:
  "thread_valid demo_state x = (x \<in> {0x80001000, 0x80002000, 0x80003000, 0x80004000})"
  by (auto simp: demo_state_def thread_valid_def demo_thread_def zero_thread_def kern_area_def PAGE_OFFSET_def
      magic_defs)

lemma demo_wf: "sched_wf demo_state"
proof -
  have r: "ready demo_state x = (x = 0x80001000)" for x
    by (auto simp: ready_def demo_valid) (auto simp: demo_state_def demo_thread_def flag_simps)
  have a: "asleep demo_state x = (x \<in> {0x80003000, 0x80004000})" for x
    by (auto simp: asleep_def demo_state_def demo_thread_def zero_thread_def flag_simps)
  have "runq_ok demo_state" unfolding runq_ok_def r by (simp add: demo_state_def demo_thread_def)
  moreover have "wait_ok demo_state"
    unfolding wait_ok_def a demo_valid by (simp add: demo_state_def demo_thread_def zero_state_def)
  moreover have "linked_ok {} demo_state"
    unfolding linked_ok_def a demo_valid r by (simp add: demo_state_def demo_thread_def)
  moreover have "attr_ok demo_state"
    unfolding attr_ok_def demo_valid
    by (auto simp: demo_state_def demo_thread_def zero_thread_def zero_state_def prio_defs)
  moreover have "top_ok demo_state"
    by (simp add: top_ok_iff) (simp add: demo_state_def prio_defs)
  moreover have "preempt_ok demo_state"
    by (simp add: preempt_ok_def demo_state_def demo_thread_def)
  ultimately show ?thesis by (simp add: sched_wf_def sched_core_def) (simp add: demo_state_def)
qed

end
