(* ===== verification/Umem.thy ===== *)
theory Umem
  imports Sched_Frame Example_State
begin

text \<open>
  Access to the user memory of the current address space, \<^verbatim>\<open>umem_copyin\<close>, \<^verbatim>\<open>umem_copyout\<close> and
  \<^verbatim>\<open>umem_strnlen\<close> of \<^verbatim>\<open>sys/arch/i386/i386/locore.S\<close>. The three routines run one string instruction
  through the page tables in \<^verbatim>\<open>cr3\<close>; a page fault in it makes them return \<^verbatim>\<open>EFAULT\<close> with the
  bytes before the fault already moved. \<^verbatim>\<open>cpu_init\<close> sets \<^verbatim>\<open>CR0_WP\<close>, so the kernel too faults when
  it writes to a read-only page.
\<close>

section \<open>Bytes\<close>

definition le32 :: "nat \<Rightarrow> nat list" where
  "le32 n = [n mod 256, n div 256 mod 256, n div 65536 mod 256, n div 16777216 mod 256]"

definition of_le32 :: "nat list \<Rightarrow> nat" where
  "of_le32 bs = bs ! 0 + 256 * bs ! 1 + 65536 * bs ! 2 + 16777216 * bs ! 3"

lemma length_le32 [simp]: "length (le32 n) = 4"
  by (simp add: le32_def)

lemma of_le32_le32 [simp]: "of_le32 (le32 n) = n mod 2 ^ 32"
proof -
  have a: "n mod 2 ^ 32 = n mod 16777216 + 16777216 * (n div 16777216 mod 256)"
    using mod_mult2_eq [of n 16777216 256] by simp
  have b: "n mod 16777216 = n mod 65536 + 65536 * (n div 65536 mod 256)"
    using mod_mult2_eq [of n 65536 256] by simp
  have c: "n mod 65536 = n mod 256 + 256 * (n div 256 mod 256)"
    using mod_mult2_eq [of n 256 256] by simp
  show ?thesis unfolding a b c by (simp add: le32_def of_le32_def)
qed

section \<open>The page tables in force\<close>

definition cur_pgd :: "kstate \<Rightarrow> nat" where
  "cur_pgd s = phys_to_virt (cr3 (mmu_st (vm s)))"

definition u_read :: "kstate \<Rightarrow> vaddr \<Rightarrow> nat option" where
  "u_read s a =
     (let p = pte_of (cur_pgd s) a (mmu_st (vm s))
      in if p AND PTE_PRESENT \<noteq> 0 then Some (unat (p AND PTE_ADDRESS) + a mod PAGE_SIZE) else None)"

definition u_write :: "kstate \<Rightarrow> vaddr \<Rightarrow> nat option" where
  "u_write s a =
     (if pte_of (cur_pgd s) a (mmu_st (vm s)) AND PTE_WRITE \<noteq> 0 then u_read s a else None)"

definition poke :: "nat \<Rightarrow> nat \<Rightarrow> kstate \<Rightarrow> kstate" where
  "poke p b s = s\<lparr>vm := (vm s)\<lparr>pmem := (pmem (vm s))(p := b)\<rparr>\<rparr>"

section \<open>Copying\<close>

text \<open>The bytes read before the first fault.\<close>

fun uread :: "kstate \<Rightarrow> vaddr \<Rightarrow> nat \<Rightarrow> nat list" where
  "uread s a 0 = []"
| "uread s a (Suc n) =
     (case u_read s a of None \<Rightarrow> [] | Some p \<Rightarrow> pmem (vm s) p # uread s (a + 1) n)"

definition umem_copyin :: "vaddr \<Rightarrow> nat \<Rightarrow> kstate \<Rightarrow> errno \<times> nat list" where
  "umem_copyin a n s =
     (if UMEM_MAX \<le> a + n then (EFAULT, [])
      else let bs = uread s a n in (if length bs = n then 0 else EFAULT, bs))"

fun uwrite :: "nat list \<Rightarrow> vaddr \<Rightarrow> kstate \<Rightarrow> bool \<times> kstate" where
  "uwrite [] a s = (True, s)"
| "uwrite (b # bs) a s =
     (case u_write s a of None \<Rightarrow> (False, s) | Some p \<Rightarrow> uwrite bs (a + 1) (poke p b s))"

definition umem_copyout :: "nat list \<Rightarrow> vaddr \<Rightarrow> kstate \<Rightarrow> errno \<times> kstate" where
  "umem_copyout bs a s =
     (if UMEM_MAX \<le> a + length bs then (EFAULT, s)
      else case uwrite bs a s of (ok, s') \<Rightarrow> (if ok then 0 else EFAULT, s'))"

text \<open>
  The same instruction between user memory and physical memory the kernel reaches through
  its own window. Each byte is read when it is moved, so overlapping buffers behave as
  \<^verbatim>\<open>rep movsb\<close> does.
\<close>

fun ucopyout_from :: "nat \<Rightarrow> nat \<Rightarrow> vaddr \<Rightarrow> kstate \<Rightarrow> bool \<times> kstate" where
  "ucopyout_from 0 src a s = (True, s)"
| "ucopyout_from (Suc n) src a s =
     (case u_write s a of
        None \<Rightarrow> (False, s)
      | Some p \<Rightarrow> ucopyout_from n (src + 1) (a + 1) (poke p (pmem (vm s) src) s))"

definition umem_copyout_from :: "nat \<Rightarrow> vaddr \<Rightarrow> nat \<Rightarrow> kstate \<Rightarrow> errno \<times> kstate" where
  "umem_copyout_from src a n s =
     (if UMEM_MAX \<le> a + n then (EFAULT, s)
      else case ucopyout_from n src a s of (ok, s') \<Rightarrow> (if ok then 0 else EFAULT, s'))"

fun ucopyin_to :: "nat \<Rightarrow> vaddr \<Rightarrow> nat \<Rightarrow> kstate \<Rightarrow> bool \<times> kstate" where
  "ucopyin_to 0 a dst s = (True, s)"
| "ucopyin_to (Suc n) a dst s =
     (case u_read s a of
        None \<Rightarrow> (False, s)
      | Some p \<Rightarrow> ucopyin_to n (a + 1) (dst + 1) (poke dst (pmem (vm s) p) s))"

definition umem_copyin_to :: "vaddr \<Rightarrow> nat \<Rightarrow> nat \<Rightarrow> kstate \<Rightarrow> errno \<times> kstate" where
  "umem_copyin_to a dst n s =
     (if UMEM_MAX \<le> a + n then (EFAULT, s)
      else case ucopyin_to n a dst s of (ok, s') \<Rightarrow> (if ok then 0 else EFAULT, s'))"

text \<open>
  \<^verbatim>\<open>repne scasb\<close> leaves in \<^verbatim>\<open>ecx\<close> the bytes not scanned. The length is computed as
  \<^verbatim>\<open>maxlen - ecx - 1\<close> whether or not a terminator was found.
\<close>

fun uscan :: "kstate \<Rightarrow> vaddr \<Rightarrow> nat \<Rightarrow> nat option" where
  "uscan s a 0 = Some 0"
| "uscan s a (Suc n) =
     (case u_read s a of
        None \<Rightarrow> None
      | Some p \<Rightarrow> if pmem (vm s) p = 0 then Some n else uscan s (a + 1) n)"

definition umem_strnlen :: "vaddr \<Rightarrow> nat \<Rightarrow> kstate \<Rightarrow> nat option" where
  "umem_strnlen a maxlen s =
     (if UMEM_MAX \<le> a then None
      else case uscan s a maxlen of
             None \<Rightarrow> None
           | Some ecx \<Rightarrow> Some ((maxlen + 2 ^ 32 - ecx - 1) mod 2 ^ 32))"

text \<open>Words, the way the system calls pass identifiers and counts.\<close>

definition copyin_word :: "vaddr \<Rightarrow> kstate \<Rightarrow> nat option" where
  "copyin_word a s = (case umem_copyin a 4 s of (e, bs) \<Rightarrow> if e = 0 then Some (of_le32 bs) else None)"

definition copyout_word :: "nat \<Rightarrow> vaddr \<Rightarrow> kstate \<Rightarrow> errno \<times> kstate" where
  "copyout_word v a s = umem_copyout (le32 v) a s"

section \<open>Properties\<close>

lemma poke_proj [simp]:
  "mmu_st (vm (poke p b s)) = mmu_st (vm s)" "maps (vm (poke p b s)) = maps (vm s)"
  "rgns (vm (poke p b s)) = rgns (vm s)" "vpool (vm (poke p b s)) = vpool (vm s)"
  "kern_map (vm (poke p b s)) = kern_map (vm s)" "pmem (vm (poke p b s)) = (pmem (vm s))(p := b)"
  "u_read (poke p b s) = u_read s" "u_write (poke p b s) = u_write s"
  by (auto simp: poke_def u_read_def u_write_def cur_pgd_def Let_def fun_eq_iff)

text \<open>What copying to memory leaves alone: all but the contents of physical memory.\<close>

definition mem_only :: "kstate \<Rightarrow> kstate \<Rightarrow> bool" where
  "mem_only s s' = (\<exists>m. s' = s\<lparr>vm := (vm s)\<lparr>pmem := m\<rparr>\<rparr>)"

lemma mem_only_refl [simp]: "mem_only s s"
proof -
  have "s = s\<lparr>vm := (vm s)\<lparr>pmem := pmem (vm s)\<rparr>\<rparr>" by simp
  then show ?thesis unfolding mem_only_def by blast
qed

lemma mem_only_trans: "mem_only s t \<Longrightarrow> mem_only t u \<Longrightarrow> mem_only s u"
  by (auto simp: mem_only_def)

lemma mem_only_poke [simp]: "mem_only s (poke p b s)"
  by (auto simp: mem_only_def poke_def)

lemma uwrite_mem: "mem_only s (snd (uwrite bs a s))"
  by (induction bs a s rule: uwrite.induct) (auto split: option.split intro: mem_only_trans mem_only_poke)

lemma ucopyout_from_mem: "mem_only s (snd (ucopyout_from n src a s))"
  by (induction n src a s rule: ucopyout_from.induct) (auto split: option.split intro: mem_only_trans mem_only_poke)

lemma ucopyin_to_mem: "mem_only s (snd (ucopyin_to n a dst s))"
  by (induction n a dst s rule: ucopyin_to.induct) (auto split: option.split intro: mem_only_trans mem_only_poke)

lemma umem_mem [simp]:
  "mem_only s (snd (umem_copyout bs a s))" "mem_only s (snd (copyout_word v a s))"
  "mem_only s (snd (umem_copyout_from src a n s))" "mem_only s (snd (umem_copyin_to a dst n s))"
  using uwrite_mem [of s bs a] uwrite_mem [of s "le32 v" a] ucopyout_from_mem [of s n src a] ucopyin_to_mem [of s n a dst]
  by (auto simp: umem_copyout_def copyout_word_def umem_copyout_from_def umem_copyin_to_def split: prod.split)

lemma mem_onlyD:
  assumes "mem_only s s'"
  shows "threads s' = threads s" "cur_thread s' = cur_thread s" "idle_thread s' = idle_thread s" "runq s' = runq s"
    "wakeq s' = wakeq s" "sleepq s' = sleepq s" "top_prio s' = top_prio s" "tasks s' = tasks s" "sems s' = sems s"
    "mutexes s' = mutexes s" "conds s' = conds s" "objects s' = objects s" "obj_table s' = obj_table s"
    "lbolt s' = lbolt s" "timers s' = timers s" "timer_list s' = timer_list s" "expire_list s' = expire_list s"
    "kern_task s' = kern_task s" "task_list s' = task_list s" "devices s' = devices s" "device_list s' = device_list s"
    "vpool (vm s') = vpool (vm s)" "maps (vm s') = maps (vm s)" "mmu_st (vm s') = mmu_st (vm s)"
    "rgns (vm s') = rgns (vm s)" "kern_map (vm s') = kern_map (vm s)" "zombie s' = zombie s"
    "nr_irq_locks s' = nr_irq_locks s" "interrupts s' = interrupts s" "saved_irq_state s' = saved_irq_state s"
  using assms by (auto simp: mem_only_def)

lemma length_uread: "length (uread s a n) \<le> n"
  by (induction s a n rule: uread.induct) (auto split: option.split)

lemma uread_full:
  "length (uread s a n) = n \<longleftrightarrow> (\<forall>i < n. u_read s (a + i) \<noteq> None)"
proof (induction n arbitrary: a)
  case (Suc n)
  show ?case
  proof (cases "u_read s a")
    case None
    then show ?thesis by (auto intro!: exI [of _ 0])
  next
    case (Some p)
    have "(\<forall>i < Suc n. u_read s (a + i) \<noteq> None) \<longleftrightarrow> (\<forall>i < n. u_read s (a + 1 + i) \<noteq> None)"
      using Some by (simp add: All_less_Suc2 del: Suc_eq_plus1)
    then show ?thesis using Suc.IH [of "a + 1"] Some by simp
  qed
qed simp

lemma uread_nth:
  "i < length (uread s a n) \<Longrightarrow> \<exists>p. u_read s (a + i) = Some p \<and> uread s a n ! i = pmem (vm s) p"
proof (induction n arbitrary: a i)
  case (Suc n)
  show ?case using Suc by (cases i) (fastforce split: option.splits)+
qed simp

text \<open>An unterminated string has the length \<^verbatim>\<open>maxlen - 1\<close>: no result reaches \<^verbatim>\<open>maxlen\<close>.\<close>

lemma uscan_bound: "uscan s a n = Some k \<Longrightarrow> k \<le> n \<and> (0 < n \<longrightarrow> k < n)"
  by (induction s a n rule: uscan.induct) (auto split: option.splits if_splits simp: le_SucI)

lemma uwrite_ok: "fst (uwrite bs a s) \<longleftrightarrow> (\<forall>i < length bs. u_write s (a + i) \<noteq> None)"
proof (induction bs arbitrary: a s)
  case (Cons b bs)
  show ?case
  proof (cases "u_write s a")
    case None
    then show ?thesis by (auto intro!: exI [of _ 0])
  next
    case (Some p)
    then show ?thesis using Cons.IH [of "a + 1" "poke p b s"] by (simp add: All_less_Suc2 del: Suc_eq_plus1)
  qed
qed simp

lemma uwrite_mem_other:
  "\<forall>i < length bs. u_write s (a + i) \<noteq> Some x \<Longrightarrow> pmem (vm (snd (uwrite bs a s))) x = pmem (vm s) x"
proof (induction bs arbitrary: a s)
  case (Cons b bs)
  have t: "\<forall>i < length bs. u_write s (a + 1 + i) \<noteq> Some x" using Cons.prems by (simp add: All_less_Suc2 del: Suc_eq_plus1)
  have h: "u_write s a \<noteq> Some x" using Cons.prems by (simp add: All_less_Suc2)
  show ?case using Cons.IH [of "poke p b s" "a + 1" for p] t h by (auto split: option.split)
qed simp

lemma uwrite_mem_at:
  assumes "\<forall>i < length bs. u_write s (a + i) = Some (p i)" "inj_on p {..<length bs}" "i < length bs"
  shows "pmem (vm (snd (uwrite bs a s))) (p i) = bs ! i"
  using assms
proof (induction bs arbitrary: a s p i)
  case (Cons b bs)
  have h: "u_write s a = Some (p 0)" using Cons.prems(1) by (simp add: All_less_Suc2)
  have t: "\<forall>i < length bs. u_write (poke (p 0) b s) (a + 1 + i) = Some (p (Suc i))"
    using Cons.prems(1) by (simp add: All_less_Suc2 del: Suc_eq_plus1)
  have j: "inj_on (\<lambda>i. p (Suc i)) {..<length bs}" "p 0 \<notin> (\<lambda>i. p (Suc i)) ` {..<length bs}"
    using Cons.prems(2) by (auto simp: inj_on_def)
  show ?case
  proof (cases i)
    case 0
    have "\<forall>k < length bs. p (Suc k) \<noteq> p 0" using j(2) by (metis imageI lessThan_iff)
    then have "\<forall>k < length bs. u_write (poke (p 0) b s) (a + 1 + k) \<noteq> Some (p 0)" using t by auto
    then show ?thesis using 0 h uwrite_mem_other [of bs "poke (p 0) b s" "a + 1" "p 0"] by simp
  next
    case (Suc k)
    then show ?thesis using Cons.IH [OF t j(1), of k] Cons.prems(3) h by simp
  qed
qed simp

lemma uwrite_spec:
  assumes "\<forall>i < length bs. u_write s (a + i) = Some (p i)" "inj_on p {..<length bs}"
  obtains m where "uwrite bs a s = (True, s\<lparr>vm := (vm s)\<lparr>pmem := m\<rparr>\<rparr>)"
    and "\<And>i. i < length bs \<Longrightarrow> m (p i) = bs ! i"
    and "\<And>x. x \<notin> p ` {..<length bs} \<Longrightarrow> m x = pmem (vm s) x"
proof -
  have ok: "fst (uwrite bs a s)" using assms(1) by (simp add: uwrite_ok)
  obtain m where m: "snd (uwrite bs a s) = s\<lparr>vm := (vm s)\<lparr>pmem := m\<rparr>\<rparr>"
    using uwrite_mem [of s bs a] by (auto simp: mem_only_def)
  have pm: "pmem (vm (snd (uwrite bs a s))) = m" unfolding m by simp
  have "m x = pmem (vm s) x" if "x \<notin> p ` {..<length bs}" for x
    using uwrite_mem_other [of bs s a x] assms(1) that unfolding pm by auto
  moreover have "m (p i) = bs ! i" if "i < length bs" for i
    using uwrite_mem_at [OF assms that] unfolding pm .
  moreover have "uwrite bs a s = (True, s\<lparr>vm := (vm s)\<lparr>pmem := m\<rparr>\<rparr>)"
    using ok m by (metis (full_types) prod.collapse)
  ultimately show ?thesis using that by blast
qed

lemma uread_spec:
  "\<forall>i < n. u_read s (a + i) = Some (p i) \<Longrightarrow> uread s a n = map (\<lambda>i. pmem (vm s) (p i)) [0..<n]"
proof (induction n arbitrary: a p)
  case (Suc n)
  have h: "u_read s a = Some (p 0)" using Suc.prems by (simp add: All_less_Suc2)
  have "\<forall>i < n. u_read s (a + 1 + i) = Some ((p \<circ> Suc) i)"
    using Suc.prems by (simp add: All_less_Suc2 del: Suc_eq_plus1)
  then have "uread s (a + 1) n = map (\<lambda>i. pmem (vm s) ((p \<circ> Suc) i)) [0..<n]" by (rule Suc.IH)
  then show ?case using h by (simp add: upt_conv_Cons map_Suc_upt [symmetric] del: upt_Suc)
qed simp

lemma ucopyout_from_spec:
  assumes "\<forall>i < n. u_write s (a + i) = Some (p i)" "inj_on p {..<n}" "\<forall>i < n. \<forall>j < n. p i \<noteq> src + j"
  shows "fst (ucopyout_from n src a s) \<and>
    (\<forall>i < n. pmem (vm (snd (ucopyout_from n src a s))) (p i) = pmem (vm s) (src + i)) \<and>
    (\<forall>x. (\<forall>i < n. x \<noteq> p i) \<longrightarrow> pmem (vm (snd (ucopyout_from n src a s))) x = pmem (vm s) x)"
  using assms
proof (induction n arbitrary: s a src p)
  case (Suc n)
  let ?s = "poke (p 0) (pmem (vm s) src) s"
  have h: "u_write s a = Some (p 0)" using Suc.prems(1) by (simp add: All_less_Suc2)
  have inj: "inj_on (p \<circ> Suc) {..<n}" "\<forall>i < n. p 0 \<noteq> p (Suc i)"
    using Suc.prems(2) by (auto simp: inj_on_def)
  have t: "\<forall>i < n. u_write ?s (a + 1 + i) = Some ((p \<circ> Suc) i)"
    using Suc.prems(1) by (simp add: All_less_Suc2 del: Suc_eq_plus1)
  have d: "\<forall>i < n. \<forall>j < n. (p \<circ> Suc) i \<noteq> src + 1 + j" "\<forall>j < n. p 0 \<noteq> src + Suc j"
    using Suc.prems(3) by (simp_all add: All_less_Suc2)
  have IH: "fst (ucopyout_from n (src + 1) (a + 1) ?s) \<and>
    (\<forall>i < n. pmem (vm (snd (ucopyout_from n (src + 1) (a + 1) ?s))) ((p \<circ> Suc) i) = pmem (vm ?s) (src + 1 + i)) \<and>
    (\<forall>x. (\<forall>i < n. x \<noteq> (p \<circ> Suc) i) \<longrightarrow> pmem (vm (snd (ucopyout_from n (src + 1) (a + 1) ?s))) x = pmem (vm ?s) x)"
    by (rule Suc.IH [OF t inj(1) d(1)])
  show ?case using IH h d(2) inj(2) by (auto simp: All_less_Suc2)
qed simp

lemma ucopyin_to_spec:
  assumes "\<forall>i < n. u_read s (a + i) = Some (p i)" "\<forall>i < n. \<forall>j < n. p i \<noteq> dst + j"
  shows "fst (ucopyin_to n a dst s) \<and>
    (\<forall>i < n. pmem (vm (snd (ucopyin_to n a dst s))) (dst + i) = pmem (vm s) (p i)) \<and>
    (\<forall>x. (\<forall>i < n. x \<noteq> dst + i) \<longrightarrow> pmem (vm (snd (ucopyin_to n a dst s))) x = pmem (vm s) x)"
  using assms
proof (induction n arbitrary: s a dst p)
  case (Suc n)
  let ?s = "poke dst (pmem (vm s) (p 0)) s"
  have h: "u_read s a = Some (p 0)" using Suc.prems(1) by (simp add: All_less_Suc2)
  have t: "\<forall>i < n. u_read ?s (a + 1 + i) = Some ((p \<circ> Suc) i)"
    using Suc.prems(1) by (simp add: All_less_Suc2 del: Suc_eq_plus1)
  have d: "\<forall>i < n. \<forall>j < n. (p \<circ> Suc) i \<noteq> dst + 1 + j" "\<forall>i < n. p (Suc i) \<noteq> dst"
    using Suc.prems(2) by (simp_all add: All_less_Suc2)
  have IH: "fst (ucopyin_to n (a + 1) (dst + 1) ?s) \<and>
    (\<forall>i < n. pmem (vm (snd (ucopyin_to n (a + 1) (dst + 1) ?s))) (dst + 1 + i) = pmem (vm ?s) ((p \<circ> Suc) i)) \<and>
    (\<forall>x. (\<forall>i < n. x \<noteq> dst + 1 + i) \<longrightarrow> pmem (vm (snd (ucopyin_to n (a + 1) (dst + 1) ?s))) x = pmem (vm ?s) x)"
    by (rule Suc.IH [OF t d(1)])
  show ?case using IH h d(2) by (auto simp: All_less_Suc2)
qed simp

text \<open>
  C29: What the kernel stores in user memory is what it reads back. A copy to a writable
  range succeeds, changes no other byte of physical memory and nothing else of the kernel's
  state, and reading the range then returns the bytes, provided the range's bytes lie at
  different physical addresses.
\<close>

theorem umem_copy_roundtrip:
  assumes "a + length bs < UMEM_MAX" and "\<forall>i < length bs. u_write s (a + i) = Some (p i)"
    and "inj_on p {..<length bs}"
  shows "\<exists>s'. umem_copyout bs a s = (0, s') \<and> umem_copyin a (length bs) s' = (0, bs) \<and> mem_only s s' \<and>
    (\<forall>x. x \<notin> p ` {..<length bs} \<longrightarrow> pmem (vm s') x = pmem (vm s) x)"
proof -
  let ?s = "snd (uwrite bs a s)"
  have m: "mem_only s ?s" by (rule uwrite_mem)
  have tr: "u_read ?s = u_read s" using m by (auto simp: mem_only_def u_read_def cur_pgd_def fun_eq_iff)
  have r: "u_read ?s (a + i) = Some (p i)" if "i < length bs" for i
    using assms(2) that tr by (auto simp: u_write_def split: if_splits)
  have ok: "fst (uwrite bs a s)" using assms(2) by (simp add: uwrite_ok)
  have len: "length (uread ?s a (length bs)) = length bs" using r by (simp add: uread_full)
  have "uread ?s a (length bs) = bs"
  proof (rule nth_equalityI [OF len])
    fix i assume i: "i < length (uread ?s a (length bs))"
    then show "uread ?s a (length bs) ! i = bs ! i"
      using uread_nth [OF i] r [of i] uwrite_mem_at [OF assms(2,3), of i] len by auto
  qed
  moreover have "\<forall>x. x \<notin> p ` {..<length bs} \<longrightarrow> pmem (vm ?s) x = pmem (vm s) x"
    using uwrite_mem_other [of bs s a] assms(2) by (metis imageI lessThan_iff option.inject)
  ultimately show ?thesis
    using assms(1) ok m by (auto simp: umem_copyout_def umem_copyin_def split: prod.split)
qed

lemma demo_map [simp]:
  assumes "i < 0x1000"
  shows "u_write demo_state (0x1000 + i) = Some (0x200000 + i)" "u_read demo_state (0x1000 + i) = Some (0x200000 + i)"
proof -
  have d: "(0x1000 + i) div 0x1000 = 1" "(0x1000 + i) div 0x400000 = 0" "(0x1000 + i) mod 0x1000 = i" using assms by auto
  have "pte_of (cur_pgd demo_state) (0x1000 + i) (mmu_st (vm demo_state)) = 0x200007"
    by (simp add: pte_of_def pte_present_def pgd_to_pte_def cur_pgd_def demo_proj demo_vm_def
        demo_mmu_def phys_to_virt_def PAGE_OFFSET_def PAGE_DIR_def PAGE_TABLE_def d PTE_PRESENT_def PTE_ADDRESS_def)
  then show "u_read demo_state (0x1000 + i) = Some (0x200000 + i)" "u_write demo_state (0x1000 + i) = Some (0x200000 + i)"
    by (simp_all add: u_write_def u_read_def PTE_PRESENT_def PTE_ADDRESS_def PTE_WRITE_def PAGE_SIZE_def assms)
qed

theorem umem_copy_roundtrip_witness:
  "\<exists>s'. umem_copyout [1, 2, 3] 0x1010 demo_state = (0, s') \<and> umem_copyin 0x1010 3 s' = (0, [1, 2, 3])"
proof -
  have m: "\<forall>i < length [1, 2, 3 :: nat]. u_write demo_state (0x1010 + i) = Some (0x200010 + i)"
    using demo_map(1) [of "0x10 + i" for i] by (auto simp: add.assoc [symmetric])
  show ?thesis
    using umem_copy_roundtrip [OF _ m] by (auto simp: UMEM_MAX_def inj_on_def numeral_3_eq_3)
qed

lemma uscan_spec:
  "uscan s a n = Some k \<Longrightarrow>
    (\<forall>i < n - k - 1. \<exists>p. u_read s (a + i) = Some p \<and> pmem (vm s) p \<noteq> 0) \<and>
    (n = 0 \<or> k = 0 \<or> (\<exists>p. u_read s (a + (n - k - 1)) = Some p \<and> pmem (vm s) p = 0))"
proof (induction n arbitrary: a)
  case (Suc n)
  then obtain p where p: "u_read s a = Some p" by (auto split: option.splits)
  show ?case
  proof (cases "pmem (vm s) p = 0")
    case True
    then show ?thesis using Suc.prems p by auto
  next
    case False
    then have u: "uscan s (a + 1) n = Some k" using Suc.prems p by simp
    note IH = Suc.IH [OF u]
    show ?thesis
    proof (cases "n = 0")
      case True
      then show ?thesis using u by simp
    next
      case n: False
      then have lt: "k < n" using uscan_bound [OF u] by simp
      then have e: "Suc n - k - 1 = Suc (n - k - 1)" by simp
      show ?thesis unfolding e using IH p False n by (auto simp: less_Suc_eq_0_disj)
    qed
  qed
qed simp

text \<open>
  C30: The string length never reaches the limit: for an unterminated string the routine
  returns one less than the limit, so a caller cannot tell it from a string of that length.
  When it finds a terminator the result is its position.
\<close>

theorem umem_strnlen_spec:
  assumes "umem_strnlen a maxlen s = Some n" and "0 < maxlen" and "maxlen < 2 ^ 32"
  shows "n < maxlen \<and> (\<forall>i < n. \<exists>p. u_read s (a + i) = Some p \<and> pmem (vm s) p \<noteq> 0) \<and>
    ((\<exists>p. u_read s (a + n) = Some p \<and> pmem (vm s) p = 0) \<or> n = maxlen - 1)"
proof -
  obtain k where k: "uscan s a maxlen = Some k" "n = (maxlen + 2 ^ 32 - k - 1) mod 2 ^ 32"
    using assms(1) by (auto simp: umem_strnlen_def split: if_splits option.splits)
  have "k < maxlen" using uscan_bound [OF k(1)] assms(2) by simp
  then have "maxlen + 2 ^ 32 - k - 1 = maxlen - k - 1 + 2 ^ 32" by simp
  then have "n = maxlen - k - 1" using k(2) assms(3) by (simp only: mod_add_self2) simp
  then show ?thesis using uscan_spec [OF k(1)] assms(2) by auto
qed

theorem umem_strnlen_spec_witness:
  "\<exists>n. umem_strnlen 0x1000 12 demo_state = Some n \<and> n < 12"
proof -
  have "u_read demo_state 0x1000 = Some 0x200000" using demo_map(2) [of 0] by simp
  then have "uscan demo_state 0x1000 12 = Some 11"
    using uscan.simps(2) [of demo_state "0x1000" 11] by (simp add: demo_proj demo_vm_def)
  then obtain n where n: "umem_strnlen 0x1000 12 demo_state = Some n"
    by (simp add: umem_strnlen_def UMEM_MAX_def)
  then show ?thesis using umem_strnlen_spec [OF n] by simp
qed

end
