(* ===== verification/Sched_Props.thy ===== *)
theory Sched_Props
  imports Sched_Frame Example_State
begin

text \<open>
  What the scheduler promises: the invariant holds in every state the scheduler can
  reach from boot, the processor always goes to a thread of the best priority, and
  sleeping and waking do what their callers rely on.
\<close>

section \<open>Effects of waking\<close>

lemma runq_enqueue_threads:
  "threads (runq_enqueue th s) x = (threads s x)\<lparr>resched := resched (threads (runq_enqueue th s) x)\<rparr>"
  by (simp add: runq_enqueue_def Let_def)

lemma wakeq_flush_from_state:
  "state (threads (wakeq_flush_from q s) x) =
     (if x \<in> set q then state (threads s x) AND NOT TH_SLEEP else state (threads s x))"
proof (induction q arbitrary: s)
  case (Cons th q)
  have "(a AND NOT TH_SLEEP) AND NOT TH_SLEEP = a AND NOT TH_SLEEP" for a :: u32
    by (rule bit_word_eqI) (auto simp: bit_and_iff)
  then show ?case using Cons by (simp add: wake_one_state)
qed simp

lemma wakeq_flush_from_slpevt:
  "slpevt (threads (wakeq_flush_from q s) x) = (if x \<in> set q then None else slpevt (threads s x))"
  by (induction q arbitrary: s) (simp_all add: wake_one_def Let_def)

lemma wakeup_from_effect:
  "wakeq (wakeup_from e q s) = wakeq s @ q"
  "sleepq (wakeup_from e q s) = (if q = [] then sleepq s else (sleepq s)(e := []))"
  "threads (wakeup_from e q s) x = (if x \<in> set q then (threads s x)\<lparr>slpret := 0\<rparr> else threads s x)"
  "cur_thread (wakeup_from e q s) = cur_thread s"
  by (induction q arbitrary: s) auto

text \<open>The state a final \<^verbatim>\<open>sched_unlock\<close> leaves, for every thread.\<close>

lemma sched_unlock_effect:
  assumes "sched_core {} s" "cur_thread s \<noteq> 0" "locks (cur s) = 1"
  shows "state (threads (sched_unlock s) x) =
      (if x \<in> set (wakeq s) then state (threads s x) AND NOT TH_SLEEP else state (threads s x))"
    "slpevt (threads (sched_unlock s) x) = (if x \<in> set (wakeq s) then None else slpevt (threads s x))"
    "slpret (threads (sched_unlock s) x) = slpret (threads s x)"
    "sleepq (sched_unlock s) = sleepq s" "wakeq (sched_unlock s) = []"
  using sched_unlock_last [OF assms] wakeq_flush_core(2) [OF assms(1)]
  by (auto simp: sched_switch_threads wakeq_flush_def wakeq_flush_from_state wakeq_flush_from_slpevt)

lemma sched_unlock_best_lemma:
  assumes "sched_wf s" "locks (cur s) = 1"
  shows "state (cur (sched_unlock s)) = TH_RUN"
    "thread_valid (sched_unlock s) (cur_thread (sched_unlock s))"
    "ready (sched_unlock s) th \<Longrightarrow> prio (cur (sched_unlock s)) \<le> prio (threads (sched_unlock s) th)"
    "\<not> resched (cur (sched_unlock s))"
proof -
  let ?f = "wakeq_flush s"
  define g where "g = (if resched (cur ?f) then sched_switch ?f else ?f)"
  have c: "sched_core {} s" "cur_thread s \<noteq> 0" using assms(1) by (auto simp: sched_wf_def)
  have f: "sched_wf ?f" using wakeq_flush_wf assms(1) .
  then have fc: "sched_core {} ?f" "cur_thread ?f \<noteq> 0" by (auto simp: sched_wf_def)
  have g: "sched_wf g" "\<not> resched (cur g)" using f sched_switch_spec [OF fc] by (simp_all add: g_def)
  then have g2: "state (cur g) = TH_RUN" "thread_valid g (cur_thread g)"
    by (auto simp: sched_wf_def preempt_ok_def sched_core_def attr_ok_def)
  have e: "sched_unlock s = upd_thread (cur_thread s) (locks_update (\<lambda>n. n - 1)) g"
    using sched_unlock_last [OF c assms(2)] unfolding g_def .
  show "state (cur (sched_unlock s)) = TH_RUN" "\<not> resched (cur (sched_unlock s))"
    "thread_valid (sched_unlock s) (cur_thread (sched_unlock s))"
    using g g2 by (auto simp: e thread_valid_def)
  assume "ready (sched_unlock s) th"
  then have "ready g th" by (auto simp: e ready_def thread_valid_def split: if_splits)
  then have "prio (cur g) \<le> prio (threads g th)" using wf_best [OF g] by blast
  then show "prio (cur (sched_unlock s)) \<le> prio (threads (sched_unlock s) th)" by (auto simp: e)
qed


lemma sched_unlock_keeps [simp]:
  "sleepq (sched_unlock s) = sleepq s" "slpret (threads (sched_unlock s) x) = slpret (threads s x)"
proof -
  have r: "sleepq (resched_loop n s) = sleepq s \<and>
      slpret (threads (resched_loop n s) x) = slpret (threads s x)" for n s
    by (induction n arbitrary: s) (auto simp: sched_switch_threads)
  show "sleepq (sched_unlock s) = sleepq s" "slpret (threads (sched_unlock s) x) = slpret (threads s x)"
    using r by (auto simp: sched_unlock_def Let_def)
qed

lemma timers_keep [simp]:
  "timers (runq_enqueue th s) = timers s" "timer_list (runq_enqueue th s) = timer_list s"
  "timers (wakeq_flush s) = timers s" "timer_list (wakeq_flush s) = timer_list s"
  "timers (sched_switch s) = timers s" "timer_list (sched_switch s) = timer_list s"
proof -
  show 1: "timers (runq_enqueue th s) = timers s" "timer_list (runq_enqueue th s) = timer_list s" for th s
    by (simp_all add: runq_enqueue_def Let_def upd_thread_def)
  have "timers (wakeq_flush_from q s) = timers s \<and> timer_list (wakeq_flush_from q s) = timer_list s" for q
    by (induction q arbitrary: s) (simp_all add: wake_one_def Let_def 1, simp add: upd_thread_def)
  then show "timers (wakeq_flush s) = timers s" "timer_list (wakeq_flush s) = timer_list s"
    by (simp_all add: wakeq_flush_def)
  show "timers (sched_switch s) = timers s" "timer_list (sched_switch s) = timer_list s"
    by (simp_all add: sched_switch_alt dispatch_def requeue_prev_def vacate_def runq_dequeue_def Let_def
        upd_thread_def split: list.split)
qed

text \<open>The selection of \<^verbatim>\<open>sched_wakeone\<close>: the first of the sleepers of the best priority.\<close>

lemma top_waiter_split:
  assumes "q = xs @ b # ys" "\<forall>x \<in> set xs. pr b < pr x" "\<forall>y \<in> set ys. pr b \<le> (pr y :: nat)"
  shows "\<exists>us vs. q @ r = us @ top_waiter pr b r # vs \<and> (\<forall>x \<in> set us. pr (top_waiter pr b r) < pr x) \<and>
    (\<forall>y \<in> set vs. pr (top_waiter pr b r) \<le> pr y)"
  using assms
proof (induction r arbitrary: q b xs ys)
  case Nil
  then show ?case by auto
next
  case (Cons t r)
  show ?case
  proof (cases "pr t < pr b")
    case True
    have "\<exists>us vs. (q @ [t]) @ r = us @ top_waiter pr t r # vs \<and> (\<forall>x \<in> set us. pr (top_waiter pr t r) < pr x) \<and>
        (\<forall>y \<in> set vs. pr (top_waiter pr t r) \<le> pr y)"
      by (rule Cons.IH [of "q @ [t]" q t "[]"]) (use Cons.prems True in auto)
    then show ?thesis using True by simp
  next
    case False
    have "\<exists>us vs. (q @ [t]) @ r = us @ top_waiter pr b r # vs \<and> (\<forall>x \<in> set us. pr (top_waiter pr b r) < pr x) \<and>
        (\<forall>y \<in> set vs. pr (top_waiter pr b r) \<le> pr y)"
      by (rule Cons.IH [of "q @ [t]" xs b "ys @ [t]"]) (use Cons.prems False in auto)
    then show ?thesis using False by simp
  qed
qed

lemma top_waiter_first:
  "\<exists>us vs. th # q = us @ top_waiter pr th (th # q) # vs \<and> (\<forall>x \<in> set us. pr (top_waiter pr th (th # q)) < pr x) \<and>
    (\<forall>y \<in> set vs. pr (top_waiter pr th (th # q)) \<le> (pr y :: nat))"
  using top_waiter_split [of "[th]" "[]" th "[]" pr q] by simp

section \<open>Properties\<close>

text \<open>
  C1: Releasing the last scheduler lock gives the processor to a thread of the best
  priority: afterwards no woken thread is pending, the current thread is valid and
  runnable, no ready thread has a better priority, and the invariant holds.
\<close>

theorem sched_unlock_best:
  assumes "sched_wf s" and "locks (cur s) = 1"
  shows "sched_wf (sched_unlock s) \<and> wakeq (sched_unlock s) = [] \<and>
    thread_valid (sched_unlock s) (cur_thread (sched_unlock s)) \<and>
    state (cur (sched_unlock s)) = TH_RUN \<and>
    (\<forall>th. ready (sched_unlock s) th \<longrightarrow>
       prio (cur (sched_unlock s)) \<le> prio (threads (sched_unlock s) th))"
  using assms sched_unlock_wf [OF assms(1)] sched_unlock_best_lemma [OF assms]
    sched_unlock_effect(5) [of s] by (auto simp: sched_wf_def)

theorem sched_unlock_best_witness:
  "sched_wf (sched_unlock (sched_lock demo_state)) \<and> wakeq (sched_unlock (sched_lock demo_state)) = []"
  using sched_unlock_best [of "sched_lock demo_state"] demo_wf
  by (simp add: sched_lock_def demo_state_def demo_thread_def zero_thread_def)

lemma sched_wakeone_none:
  "sleepq s e = [] \<Longrightarrow> sched_wakeone e s = (None, sched_unlock (irq_unlock (irq_lock (sched_lock s))))"
  by (simp add: sched_wakeone_def Let_def kproj)

lemma sched_wakeone_first:
  assumes "sched_wf s" "sleepq s e \<noteq> []" "sched_wakeone e s = (r, s')"
  shows "\<exists>us th vs. r = Some th \<and> sleepq s e = us @ th # vs \<and>
         (\<forall>x \<in> set us. prio (threads s th) < prio (threads s x)) \<and>
         (\<forall>y \<in> set vs. prio (threads s th) \<le> prio (threads s y)) \<and>
         sleepq s' = (sleepq s)(e := us @ vs) \<and> slpret (threads s' th) = 0"
proof -
  obtain th q where Cons: "sleepq s e = th # q" using assms(2) by (cases "sleepq s e") auto
  define b where "b = top_waiter (\<lambda>t. prio (threads s t)) th (th # q)"
  obtain us vs where sp: "th # q = us @ b # vs" "\<forall>x \<in> set us. prio (threads s b) < prio (threads s x)"
    "\<forall>y \<in> set vs. prio (threads s b) \<le> prio (threads s y)"
    using top_waiter_first [of th q "\<lambda>t. prio (threads s t)"] unfolding b_def by blast
  have b: "b \<in> set (sleepq s e)" using sp(1) Cons by simp
  have w: "wait_ok s" using assms(1) by (simp add: sched_wf_def sched_core_def)
  then have "distinct (us @ b # vs)" using Cons sp(1) by (metis wait_ok_def)
  then have r1: "remove1 b (sleepq s e) = us @ vs" using Cons sp(1) by (simp add: remove1_append)
  have "x \<noteq> e \<Longrightarrow> b \<notin> set (sleepq s x)" for x using w b unfolding wait_ok_def by (metis option.inject)
  then have rq: "(\<lambda>x. remove1 b (sleepq s x)) = (sleepq s)(e := us @ vs)"
    using r1 by (auto simp: fun_eq_iff remove1_idem)
  have "r = Some b" "sleepq s' = (\<lambda>x. remove1 b (sleepq s x))" "slpret (threads s' b) = 0"
    using assms(3) Cons by (auto simp: sched_wakeone_def Let_def kproj link_remove_def b_def)
  then show ?thesis using sp Cons rq by auto
qed

text \<open>
  C25: \<^verbatim>\<open>sched_wakeone\<close> returns \<^verbatim>\<open>NULL\<close> only when nobody sleeps on the event; otherwise it
  wakes the sleeper of the best priority, the longest sleeping one among equals,
  removes only that thread from the sleep queue and makes its sleep return 0.
\<close>

theorem sched_wakeone_selects:
  assumes "sched_wf s" and "sched_wakeone e s = (r, s')"
  shows "sched_wf s' \<and>
    (case r of
       None \<Rightarrow> sleepq s e = [] \<and> sleepq s' = sleepq s
     | Some th \<Rightarrow> \<exists>us vs. sleepq s e = us @ th # vs \<and>
         (\<forall>x \<in> set us. prio (threads s th) < prio (threads s x)) \<and>
         (\<forall>y \<in> set vs. prio (threads s th) \<le> prio (threads s y)) \<and>
         sleepq s' = (sleepq s)(e := us @ vs) \<and> slpret (threads s' th) = 0)"
proof (cases "sleepq s e")
  case Nil
  then show ?thesis using assms(2) sched_wakeone_wf [OF assms(1), of e]
    by (auto simp: sched_wakeone_none kproj)
next
  case (Cons th q)
  then have "sleepq s e \<noteq> []" by simp
  then obtain us t vs where t: "r = Some t" "sleepq s e = us @ t # vs"
    "\<forall>x \<in> set us. prio (threads s t) < prio (threads s x)" "\<forall>y \<in> set vs. prio (threads s t) \<le> prio (threads s y)"
    "sleepq s' = (sleepq s)(e := us @ vs)" "slpret (threads s' t) = 0"
    using sched_wakeone_first [OF assms(1) _ assms(2)] by blast
  have "sched_wf s'" using sched_wakeone_wf [OF assms(1), of e] assms(2) by simp
  then show ?thesis unfolding t(1) option.case using t(2-6) by blast
qed

theorem sched_wakeone_selects_witness:
  "\<exists>r s'. sched_wakeone (SemEvent 0x80006000) demo_state = (r, s') \<and> r = Some 0x80003000 \<and> sched_wf s'"
  using sched_wakeone_selects [OF demo_wf, of "SemEvent 0x80006000"]
  by (cases "sched_wakeone (SemEvent 0x80006000) demo_state")
    (auto simp: sched_wakeone_def Let_def sched_lock_def demo_state_def demo_thread_def kproj)


text \<open>
  Waking an event wakes every sleeper, whatever its suspension: its sleep returns
  0, it no longer sleeps, its other state flags are kept, and if it is runnable it runs
  or is on the run queue of its priority; the event's queue is empty.
\<close>

theorem sched_wakeup_wakes_all:
  assumes "sched_wf s" and "locks (cur s) = 0" and "th \<in> set (sleepq s e)"
  shows "sleepq (sched_wakeup e s) = (sleepq s)(e := []) \<and>
    state (threads (sched_wakeup e s) th) = state (threads s th) AND NOT TH_SLEEP \<and>
    slpret (threads (sched_wakeup e s) th) = 0 \<and> slpevt (threads (sched_wakeup e s) th) = None \<and>
    (state (threads (sched_wakeup e s) th) = TH_RUN \<longrightarrow>
       th = cur_thread (sched_wakeup e s) \<or> th \<in> set (runq (sched_wakeup e s) (prio (threads s th))))"
proof -
  let ?s = "irq_lock (sched_lock s)"
  define w where "w = irq_unlock (wakeup_from e (sleepq s e) ?s)"
  have sw: "sched_wakeup e s = sched_unlock w" by (simp add: sched_wakeup_def Let_def w_def kproj)
  have ws: "sched_wf w" using wakeup_from_wf [of ?s e] assms(1) by (simp add: w_def kproj)
  then have c: "sched_core {} w" "cur_thread w \<noteq> 0" by (auto simp: sched_wf_def)
  have l: "locks (cur w) = 1"
    using assms(2) by (auto simp: w_def kproj wakeup_from_effect sched_lock_def)
  have wq: "th \<in> set (wakeq w)" "sleepq w = (sleepq s)(e := [])" "slpret (threads w th) = 0"
    "state (threads w th) = state (threads s th)" "prio (threads w th) = prio (threads s th)"
    using assms(3) by (auto simp: w_def kproj wakeup_from_effect)
  have v: "thread_valid s th" using sleepq_asleep assms(1,3) by (auto simp: sched_wf_def)
  have "thread_valid (sched_unlock w) th"
    using v by (simp add: kproj w_def thread_valid_def wakeup_from_effect)
  moreover have "sched_wf (sched_unlock w)" using sched_unlock_wf ws .
  ultimately have "state (threads (sched_unlock w) th) = TH_RUN \<longrightarrow>
       th = cur_thread (sched_unlock w) \<or> th \<in> set (runq (sched_unlock w) (prio (threads (sched_unlock w) th)))"
    by (auto simp: sched_wf_def sched_core_def linked_ok_def ready_def)
  then show ?thesis
    using sched_unlock_effect(1-3) [OF c l, of th] sched_unlock_effect(4) [OF c l] wq unfolding sw by (simp add: kproj)
qed

theorem sched_wakeup_wakes_all_witness:
  "state (threads (sched_wakeup (SemEvent 0x80006000) demo_state) 0x80004000) = TH_SLEEP AND NOT TH_SLEEP"
  using sched_wakeup_wakes_all [OF demo_wf, of "0x80004000" "SemEvent 0x80006000"]
  by (simp add: demo_state_def demo_thread_def zero_thread_def)

lemma sched_tsleep_queue:
  assumes "sched_wf s" "thread_valid s (cur_thread s)" "\<not> asleep s (cur_thread s)" "cur_thread s \<noteq> idle_thread s"
  shows "sleepq (sched_tsleep e ms s) = (sleepq s)(e := sleepq s e @ [cur_thread s])"
    "asleep (sched_tsleep e ms s) (cur_thread s)" "cur_thread (sched_tsleep e ms s) \<noteq> cur_thread s"
proof -
  let ?t = "sched_tsleep e ms s"
  note wf = sched_tsleep_wf [OF assms, of e ms]
  obtain w where w: "?t = sched_switch (wakeq_flush w)" "sched_core {} w"
    "sleepq w = (sleepq s)(e := sleepq s e @ [cur_thread s])"
    using sched_tsleep_switches [OF assms] by metis
  show sq: "sleepq ?t = (sleepq s)(e := sleepq s e @ [cur_thread s])"
    unfolding w(1) using w(3) by (simp add: sched_switch_threads)
  then show a: "asleep ?t (cur_thread s)"
    using sleepq_asleep [of "{}" ?t "cur_thread s" e] wf(1) by (simp add: sched_wf_def)
  then show "cur_thread ?t \<noteq> cur_thread s" using wf(2) by (auto simp: asleep_def flag_simps)
qed

text \<open>
  C26: Going to sleep puts the caller at the tail of the event's sleep queue, arms its
  timer when a timeout is given, and hands the processor to another thread, one of the
  best priority among the runnable ones.
\<close>

theorem sched_tsleep_blocks:
  assumes "sched_wf s" and "thread_valid s (cur_thread s)" and "\<not> asleep s (cur_thread s)"
    and "cur_thread s \<noteq> idle_thread s"
  shows "asleep (sched_tsleep e ms s) (cur_thread s) \<and>
    sleepq (sched_tsleep e ms s) = (sleepq s)(e := sleepq s e @ [cur_thread s]) \<and>
    (ms \<noteq> 0 \<longrightarrow> ThreadTimeout (cur_thread s) \<in> set (timer_list (sched_tsleep e ms s))) \<and>
    cur_thread (sched_tsleep e ms s) \<noteq> cur_thread s \<and>
    sched_wf (sched_tsleep e ms s) \<and> state (cur (sched_tsleep e ms s)) = TH_RUN \<and>
    (\<forall>th. ready (sched_tsleep e ms s) th \<longrightarrow>
       prio (cur (sched_tsleep e ms s)) \<le> prio (threads (sched_tsleep e ms s) th))"
proof -
  let ?t = "sched_tsleep e ms s"
  note wf = sched_tsleep_wf [OF assms, of e ms]
  note q = sched_tsleep_queue [OF assms, of e ms]
  have "ms \<noteq> 0 \<Longrightarrow> ThreadTimeout (cur_thread s) \<in> set (timer_list ?t)"
  proof -
    have p: "tmr \<in> set (timer_place ex x tmr ts)" for ex x tmr ts
      by (induction ts) auto
    show "ms \<noteq> 0 \<Longrightarrow> ThreadTimeout (cur_thread s) \<in> set (timer_list ?t)"
      by (simp add: sched_tsleep_def Let_def timer_callout_def timer_add_def p irq_unlock_def)
  qed
  then show ?thesis using wf q wf_best [OF wf(1,4)] by blast
qed

theorem sched_tsleep_blocks_witness:
  "asleep (sched_tsleep (SemEvent 9) 10 demo_state) 0x80002000"
proof -
  have "cur_thread demo_state = 0x80002000" "idle_thread demo_state = 0x80001000"
    "\<not> asleep demo_state 0x80002000"
    by (simp_all add: demo_state_def zero_state_def asleep_def demo_thread_def flag_simps)
  then show ?thesis using sched_tsleep_blocks [OF demo_wf, of "SemEvent 9" 10] demo_valid by auto
qed


text \<open>
  Cancelling a sleep wakes exactly the given thread and makes its sleep return the
  given result: the value that \<^verbatim>\<open>sched_tsleep\<close> hands to its caller when the thread runs again.
\<close>

theorem sched_unsleep_result:
  assumes "sched_wf s" and "locks (cur s) = 0" and "thread_valid s th" and "asleep s th"
  shows "sched_wf (sched_unsleep th r s) \<and> \<not> asleep (sched_unsleep th r s) th \<and>
    slpret (threads (sched_unsleep th r s) th) = r \<and>
    (\<forall>e. sleepq (sched_unsleep th r s) e = remove1 th (sleepq s e)) \<and>
    (cur_thread (sched_unsleep th r s) = th \<longrightarrow> fst (sched_tsleep_ret (sched_unsleep th r s)) = r)"
proof -
  let ?s = "irq_lock (sched_lock s)"
  let ?b = "upd_thread th (slpret_update (\<lambda>_. r)) (link_remove th ?s)"
  define w where "w = irq_unlock (timer_stop (ThreadTimeout th) (?b\<lparr>wakeq := wakeq ?b @ [th]\<rparr>))"
  have u: "sched_unsleep th r s = sched_unlock w"
    using assms(4) by (simp add: sched_unsleep_def Let_def asleep_def w_def)
  have c0: "sched_core {} ?s" using assms(1) by (simp add: sched_wf_def)
  have o: "thread_valid ?s th" "asleep ?s th"
    using assms(3,4) by (auto simp: thread_valid_def asleep_def kproj)
  have "sched_core {} (?b\<lparr>wakeq := wakeq ?b @ [th]\<rparr>)"
    using unlink_asleep_wf [OF c0 o] o
    by (intro wakeq_push_core) (simp_all add: unlinked_thread_def thread_valid_def asleep_def)
  then have c: "sched_core {} w" by (simp add: w_def)
  have cu: "cur_thread w \<noteq> 0" "locks (cur w) = 1"
    using assms(1,2) by (auto simp: w_def kproj sched_wf_def sched_lock_def)
  have "state (threads w th) = state (threads s th)" "th \<in> set (wakeq w)" "slpret (threads w th) = r"
    "sleepq w e = remove1 th (sleepq s e)" for e
    by (simp_all add: w_def kproj link_remove_def)
  then have "\<not> asleep (sched_unlock w) th" "slpret (threads (sched_unlock w) th) = r"
    "sleepq (sched_unlock w) e = remove1 th (sleepq s e)" for e
    using sched_unlock_effect(1) [OF c cu, of th] by (simp_all add: asleep_def flag_simps)
  then show ?thesis
    using sched_unsleep_wf [OF assms(1,3), of r] unfolding u by (simp add: sched_tsleep_ret_def Let_def)
qed

theorem sched_unsleep_result_witness:
  "slpret (threads (sched_unsleep 0x80004000 SLP_TIMEOUT demo_state) 0x80004000) = SLP_TIMEOUT"
proof -
  have "locks (cur demo_state) = 0" "asleep demo_state 0x80004000"
    by (simp_all add: demo_state_def asleep_def demo_thread_def zero_thread_def flag_simps)
  then show ?thesis using sched_unsleep_result [OF demo_wf, of "0x80004000" SLP_TIMEOUT] demo_valid by auto
qed

text \<open>
  Time slicing. A round-robin thread with \<open>k\<close> ticks left is not asked to give up the
  processor by fewer than \<open>k\<close> ticks; the \<open>k\<close>-th tick marks it for rescheduling and gives
  it a fresh quantum. A FIFO thread is never marked.
\<close>

lemma sched_tick_cur:
  "cur_thread (sched_tick s) = cur_thread s" "policy (cur (sched_tick s)) = policy (cur s)"
  by (simp_all add: sched_tick_def Let_def)

lemma sched_tick_step:
  "policy (cur s) = SCHED_RR \<Longrightarrow> 1 < timeleft (cur s) \<Longrightarrow>
     timeleft (cur (sched_tick s)) = timeleft (cur s) - 1 \<and> resched (cur (sched_tick s)) = resched (cur s)"
  "policy (cur s) = SCHED_RR \<Longrightarrow> timeleft (cur s) = 1 \<Longrightarrow>
     timeleft (cur (sched_tick s)) = QUANTUM \<and> resched (cur (sched_tick s))"
  by (simp_all add: sched_tick_def Let_def)

lemma sched_tick_running:
  assumes "policy (cur s) = SCHED_RR" "int n < timeleft (cur s)"
  shows "timeleft (cur ((sched_tick ^^ n) s)) = timeleft (cur s) - int n \<and>
    resched (cur ((sched_tick ^^ n) s)) = resched (cur s) \<and>
    policy (cur ((sched_tick ^^ n) s)) = SCHED_RR \<and> cur_thread ((sched_tick ^^ n) s) = cur_thread s"
  using assms
proof (induction n)
  case (Suc n)
  then have ih: "timeleft (cur ((sched_tick ^^ n) s)) = timeleft (cur s) - int n"
    "resched (cur ((sched_tick ^^ n) s)) = resched (cur s)"
    "policy (cur ((sched_tick ^^ n) s)) = SCHED_RR" "cur_thread ((sched_tick ^^ n) s) = cur_thread s" by auto
  have "timeleft (cur ((sched_tick ^^ n) s)) > 1" using ih(1) Suc.prems by simp
  then show ?case using ih sched_tick_step(1) [OF ih(3)] sched_tick_cur [of "(sched_tick ^^ n) s"] by simp
qed simp

theorem sched_tick_quantum:
  assumes "policy (cur s) = SCHED_RR" and "timeleft (cur s) = int k" and "0 < k"
  shows "(\<forall>n < k. resched (cur ((sched_tick ^^ n) s)) = resched (cur s)) \<and>
    resched (cur ((sched_tick ^^ k) s)) \<and> timeleft (cur ((sched_tick ^^ k) s)) = QUANTUM"
proof -
  obtain m where m: "k = Suc m" using assms(3) by (cases k) auto
  note r = sched_tick_running [OF assms(1), of m]
  have "timeleft (cur ((sched_tick ^^ m) s)) = 1" "policy (cur ((sched_tick ^^ m) s)) = SCHED_RR"
    using r assms(2) m by auto
  then have "resched (cur ((sched_tick ^^ k) s)) \<and> timeleft (cur ((sched_tick ^^ k) s)) = QUANTUM"
    using sched_tick_step(2) by (simp add: m)
  moreover have "\<forall>n < k. resched (cur ((sched_tick ^^ n) s)) = resched (cur s)"
    using sched_tick_running [OF assms(1)] assms(2) of_nat_less_iff by metis
  ultimately show ?thesis by blast
qed

theorem sched_tick_quantum_witness:
  "resched (cur ((sched_tick ^^ 50) demo_state))"
  using sched_tick_quantum [of demo_state 50]
  by (simp add: demo_state_def demo_thread_def QUANTUM_def TIME_SLICE_def HZ_def)

text \<open>
  The comment on preemption says that a thread preempted by a better one stays at the head of its
  queue. The code also marks the current thread when a thread of the \<^emph>\<open>same\<close> priority
  becomes ready and no such thread was queued before, and then sends the current thread
  to the tail, whatever its policy.
\<close>

lemma equal_priority_preempts:
  assumes "\<forall>p \<le> prio (cur s). runq s p = []" "top_prio s = runq_top s" "prio (cur s) < MIN_PRIO"
    and "th \<noteq> cur_thread s" "prio (threads s th) = prio (cur s)" "state (cur s) = TH_RUN"
  shows "resched (cur (runq_enqueue th s)) \<and> cur_thread (sched_switch (runq_enqueue th s)) = th"
proof -
  have "prio (cur s) < top_prio s"
  proof -
    obtain k where "runq_top s = k" by simp
    then have "k \<le> MIN_PRIO \<and> (k < MIN_PRIO \<longrightarrow> runq s k \<noteq> [])" using runq_top_iff by blast
    then show ?thesis using assms(1,2,3) \<open>runq_top s = k\<close> by (metis leI le_neq_implies_less order_le_less_trans)
  qed
  then have e: "runq_enqueue th s =
      upd_cur (resched_update (\<lambda>_. True)) (s\<lparr>runq := (runq s)(prio (cur s) := [th]), top_prio := prio (cur s)\<rparr>)"
    using assms by (simp add: runq_enqueue_def Let_def)
  show ?thesis
    using assms(4-6) unfolding e
    by (simp add: sched_switch_def Let_def runq_enqueue_def runq_dequeue_def upd_thread_def)
qed

end
