(* ===== verification/Access.thy ===== *)
theory Access
  imports Umem Sched_Props
begin

text \<open>
  What the system calls share: the tests of the caller's rights (\<^verbatim>\<open>task_valid\<close>, \<^verbatim>\<open>task_capable\<close> and
  \<^verbatim>\<open>task_access\<close> of \<^verbatim>\<open>sys/kern/task.c\<close>), the results of a call that may block, and the frame
  lemmas for the kernel's stores.
\<close>

section \<open>Rights\<close>

definition cur_task_ptr :: "kstate \<Rightarrow> task_t" where
  "cur_task_ptr s = (case cur_task s of None \<Rightarrow> 0 | Some t \<Rightarrow> t)"

definition task_valid :: "kstate \<Rightarrow> task_t \<Rightarrow> bool" where
  "task_valid s t = (kern_area t \<and> tk_magic (tasks s t) = TASK_MAGIC)"

definition task_capable :: "u32 \<Rightarrow> kstate \<Rightarrow> bool" where
  "task_capable cap s = (capability (tasks s (cur_task_ptr s)) AND cap \<noteq> 0)"

definition task_access :: "task_t \<Rightarrow> kstate \<Rightarrow> bool" where
  "task_access t s =
     (if t = kern_task s then False
      else t = cur_task_ptr s \<or> parent (tasks s t) = cur_task s \<or> task_capable CAP_TASK s)"

section \<open>Results\<close>

text \<open>
  A system call returns an error number, or its thread is asleep inside it, or it has
  dropped the scheduler lock to let other threads run and goes on when it is dispatched, or
  the kernel has followed a null pointer or called \<^verbatim>\<open>panic\<close>, or it loops for ever.
\<close>

datatype sysres = Done errno | Sleeping | Yielded | Panic | Hang

section \<open>Frames\<close>

text \<open>The queue an event starts with (\<^verbatim>\<open>event_init\<close>), and \<^verbatim>\<open>event_waiting\<close>.\<close>

definition event_init :: "event \<Rightarrow> kstate \<Rightarrow> kstate" where
  "event_init e s = s\<lparr>sleepq := (sleepq s)(e := [])\<rparr>"

definition event_waiting :: "event \<Rightarrow> kstate \<Rightarrow> bool" where
  "event_waiting e s = (sleepq s e \<noteq> [])"

lemma event_init_idle: "\<not> event_waiting e s \<Longrightarrow> event_init e s = s"
  by (simp add: event_init_def event_waiting_def fun_upd_idem)

lemma store_proj [simp]:
  "sems (upd_sem p fs s) = (sems s)(p := fs (sems s p))"
  "mutexes (upd_mutex p fm s) = (mutexes s)(p := fm (mutexes s p))"
  "conds (upd_cond p fc s) = (conds s)(p := fc (conds s p))"
  "objects (upd_object p fo s) = (objects s)(p := fo (objects s p))"
  "tasks (upd_task p ft s) = (tasks s)(p := ft (tasks s p))"
  "irqs (upd_irq p fi s) = (irqs s)(p := fi (irqs s p))"
  "devices (upd_device p fd s) = (devices s)(p := fd (devices s p))"
  by (simp_all add: upd_sem_def upd_mutex_def upd_cond_def upd_object_def upd_task_def upd_irq_def upd_device_def)

lemma store_keep [simp]:
  "threads (upd_sem p fse s) = threads s" "cur_thread (upd_sem p fse s) = cur_thread s"
  "idle_thread (upd_sem p fse s) = idle_thread s" "runq (upd_sem p fse s) = runq s"
  "wakeq (upd_sem p fse s) = wakeq s" "sleepq (upd_sem p fse s) = sleepq s" "top_prio (upd_sem p fse s) = top_prio s"
  "lbolt (upd_sem p fse s) = lbolt s" "timers (upd_sem p fse s) = timers s"
  "timer_list (upd_sem p fse s) = timer_list s" "expire_list (upd_sem p fse s) = expire_list s"
  "interrupts (upd_sem p fse s) = interrupts s" "nr_irq_locks (upd_sem p fse s) = nr_irq_locks s"
  "saved_irq_state (upd_sem p fse s) = saved_irq_state s" "vm (upd_sem p fse s) = vm s"
  "zombie (upd_sem p fse s) = zombie s" "tasks (upd_sem p fse s) = tasks s"
  "kern_task (upd_sem p fse s) = kern_task s" "task_list (upd_sem p fse s) = task_list s"
  "mutexes (upd_sem p fse s) = mutexes s" "conds (upd_sem p fse s) = conds s" "objects (upd_sem p fse s) = objects s"
  "obj_table (upd_sem p fse s) = obj_table s" "devices (upd_sem p fse s) = devices s"
  "device_list (upd_sem p fse s) = device_list s" "irqs (upd_sem p fse s) = irqs s"
  "irq_table (upd_sem p fse s) = irq_table s" "pic (upd_sem p fse s) = pic s"
  "threads (upd_mutex p fmu s) = threads s" "cur_thread (upd_mutex p fmu s) = cur_thread s"
  "idle_thread (upd_mutex p fmu s) = idle_thread s" "runq (upd_mutex p fmu s) = runq s"
  "wakeq (upd_mutex p fmu s) = wakeq s" "sleepq (upd_mutex p fmu s) = sleepq s"
  "top_prio (upd_mutex p fmu s) = top_prio s" "lbolt (upd_mutex p fmu s) = lbolt s"
  "timers (upd_mutex p fmu s) = timers s" "timer_list (upd_mutex p fmu s) = timer_list s"
  "expire_list (upd_mutex p fmu s) = expire_list s" "interrupts (upd_mutex p fmu s) = interrupts s"
  "nr_irq_locks (upd_mutex p fmu s) = nr_irq_locks s" "saved_irq_state (upd_mutex p fmu s) = saved_irq_state s"
  "vm (upd_mutex p fmu s) = vm s" "zombie (upd_mutex p fmu s) = zombie s" "tasks (upd_mutex p fmu s) = tasks s"
  "kern_task (upd_mutex p fmu s) = kern_task s" "task_list (upd_mutex p fmu s) = task_list s"
  "sems (upd_mutex p fmu s) = sems s" "conds (upd_mutex p fmu s) = conds s" "objects (upd_mutex p fmu s) = objects s"
  "obj_table (upd_mutex p fmu s) = obj_table s" "devices (upd_mutex p fmu s) = devices s"
  "device_list (upd_mutex p fmu s) = device_list s" "irqs (upd_mutex p fmu s) = irqs s"
  "irq_table (upd_mutex p fmu s) = irq_table s" "pic (upd_mutex p fmu s) = pic s"
  "threads (upd_cond p fco s) = threads s" "cur_thread (upd_cond p fco s) = cur_thread s"
  "idle_thread (upd_cond p fco s) = idle_thread s" "runq (upd_cond p fco s) = runq s"
  "wakeq (upd_cond p fco s) = wakeq s" "sleepq (upd_cond p fco s) = sleepq s"
  "top_prio (upd_cond p fco s) = top_prio s" "lbolt (upd_cond p fco s) = lbolt s"
  "timers (upd_cond p fco s) = timers s" "timer_list (upd_cond p fco s) = timer_list s"
  "expire_list (upd_cond p fco s) = expire_list s" "interrupts (upd_cond p fco s) = interrupts s"
  "nr_irq_locks (upd_cond p fco s) = nr_irq_locks s" "saved_irq_state (upd_cond p fco s) = saved_irq_state s"
  "vm (upd_cond p fco s) = vm s" "zombie (upd_cond p fco s) = zombie s" "tasks (upd_cond p fco s) = tasks s"
  "kern_task (upd_cond p fco s) = kern_task s" "task_list (upd_cond p fco s) = task_list s"
  "sems (upd_cond p fco s) = sems s" "mutexes (upd_cond p fco s) = mutexes s"
  "objects (upd_cond p fco s) = objects s" "obj_table (upd_cond p fco s) = obj_table s"
  "devices (upd_cond p fco s) = devices s" "device_list (upd_cond p fco s) = device_list s"
  "irqs (upd_cond p fco s) = irqs s" "irq_table (upd_cond p fco s) = irq_table s" "pic (upd_cond p fco s) = pic s"
  "threads (upd_object p fob s) = threads s" "cur_thread (upd_object p fob s) = cur_thread s"
  "idle_thread (upd_object p fob s) = idle_thread s" "runq (upd_object p fob s) = runq s"
  "wakeq (upd_object p fob s) = wakeq s" "sleepq (upd_object p fob s) = sleepq s"
  "top_prio (upd_object p fob s) = top_prio s" "lbolt (upd_object p fob s) = lbolt s"
  "timers (upd_object p fob s) = timers s" "timer_list (upd_object p fob s) = timer_list s"
  "expire_list (upd_object p fob s) = expire_list s" "interrupts (upd_object p fob s) = interrupts s"
  "nr_irq_locks (upd_object p fob s) = nr_irq_locks s" "saved_irq_state (upd_object p fob s) = saved_irq_state s"
  "vm (upd_object p fob s) = vm s" "zombie (upd_object p fob s) = zombie s" "tasks (upd_object p fob s) = tasks s"
  "kern_task (upd_object p fob s) = kern_task s" "task_list (upd_object p fob s) = task_list s"
  "sems (upd_object p fob s) = sems s" "mutexes (upd_object p fob s) = mutexes s"
  "conds (upd_object p fob s) = conds s" "obj_table (upd_object p fob s) = obj_table s"
  "devices (upd_object p fob s) = devices s" "device_list (upd_object p fob s) = device_list s"
  "irqs (upd_object p fob s) = irqs s" "irq_table (upd_object p fob s) = irq_table s"
  "pic (upd_object p fob s) = pic s" "threads (upd_task p fta s) = threads s"
  "cur_thread (upd_task p fta s) = cur_thread s" "idle_thread (upd_task p fta s) = idle_thread s"
  "runq (upd_task p fta s) = runq s" "wakeq (upd_task p fta s) = wakeq s" "sleepq (upd_task p fta s) = sleepq s"
  "top_prio (upd_task p fta s) = top_prio s" "lbolt (upd_task p fta s) = lbolt s"
  "timers (upd_task p fta s) = timers s" "timer_list (upd_task p fta s) = timer_list s"
  "expire_list (upd_task p fta s) = expire_list s" "interrupts (upd_task p fta s) = interrupts s"
  "nr_irq_locks (upd_task p fta s) = nr_irq_locks s" "saved_irq_state (upd_task p fta s) = saved_irq_state s"
  "vm (upd_task p fta s) = vm s" "zombie (upd_task p fta s) = zombie s" "kern_task (upd_task p fta s) = kern_task s"
  "task_list (upd_task p fta s) = task_list s" "sems (upd_task p fta s) = sems s"
  "mutexes (upd_task p fta s) = mutexes s" "conds (upd_task p fta s) = conds s"
  "objects (upd_task p fta s) = objects s" "obj_table (upd_task p fta s) = obj_table s"
  "devices (upd_task p fta s) = devices s" "device_list (upd_task p fta s) = device_list s"
  "irqs (upd_task p fta s) = irqs s" "irq_table (upd_task p fta s) = irq_table s" "pic (upd_task p fta s) = pic s"
  "threads (upd_irq p fir s) = threads s" "cur_thread (upd_irq p fir s) = cur_thread s"
  "idle_thread (upd_irq p fir s) = idle_thread s" "runq (upd_irq p fir s) = runq s"
  "wakeq (upd_irq p fir s) = wakeq s" "sleepq (upd_irq p fir s) = sleepq s" "top_prio (upd_irq p fir s) = top_prio s"
  "lbolt (upd_irq p fir s) = lbolt s" "timers (upd_irq p fir s) = timers s"
  "timer_list (upd_irq p fir s) = timer_list s" "expire_list (upd_irq p fir s) = expire_list s"
  "interrupts (upd_irq p fir s) = interrupts s" "nr_irq_locks (upd_irq p fir s) = nr_irq_locks s"
  "saved_irq_state (upd_irq p fir s) = saved_irq_state s" "vm (upd_irq p fir s) = vm s"
  "zombie (upd_irq p fir s) = zombie s" "tasks (upd_irq p fir s) = tasks s"
  "kern_task (upd_irq p fir s) = kern_task s" "task_list (upd_irq p fir s) = task_list s"
  "sems (upd_irq p fir s) = sems s" "mutexes (upd_irq p fir s) = mutexes s" "conds (upd_irq p fir s) = conds s"
  "objects (upd_irq p fir s) = objects s" "obj_table (upd_irq p fir s) = obj_table s"
  "devices (upd_irq p fir s) = devices s" "device_list (upd_irq p fir s) = device_list s"
  "irq_table (upd_irq p fir s) = irq_table s" "pic (upd_irq p fir s) = pic s"
  "threads (upd_device p fde s) = threads s" "cur_thread (upd_device p fde s) = cur_thread s"
  "idle_thread (upd_device p fde s) = idle_thread s" "runq (upd_device p fde s) = runq s"
  "wakeq (upd_device p fde s) = wakeq s" "sleepq (upd_device p fde s) = sleepq s"
  "top_prio (upd_device p fde s) = top_prio s" "lbolt (upd_device p fde s) = lbolt s"
  "timers (upd_device p fde s) = timers s" "timer_list (upd_device p fde s) = timer_list s"
  "expire_list (upd_device p fde s) = expire_list s" "interrupts (upd_device p fde s) = interrupts s"
  "nr_irq_locks (upd_device p fde s) = nr_irq_locks s" "saved_irq_state (upd_device p fde s) = saved_irq_state s"
  "vm (upd_device p fde s) = vm s" "zombie (upd_device p fde s) = zombie s" "tasks (upd_device p fde s) = tasks s"
  "kern_task (upd_device p fde s) = kern_task s" "task_list (upd_device p fde s) = task_list s"
  "sems (upd_device p fde s) = sems s" "mutexes (upd_device p fde s) = mutexes s"
  "conds (upd_device p fde s) = conds s" "objects (upd_device p fde s) = objects s"
  "obj_table (upd_device p fde s) = obj_table s" "device_list (upd_device p fde s) = device_list s"
  "irqs (upd_device p fde s) = irqs s" "irq_table (upd_device p fde s) = irq_table s"
  "pic (upd_device p fde s) = pic s"
  by (simp_all add: upd_sem_def upd_mutex_def upd_cond_def upd_object_def upd_task_def upd_irq_def upd_device_def)

lemma update_keep [simp]:
  "lbolt (upd_thread th f s) = lbolt s" "timers (upd_thread th f s) = timers s"
  "timer_list (upd_thread th f s) = timer_list s" "expire_list (upd_thread th f s) = expire_list s"
  "interrupts (upd_thread th f s) = interrupts s" "nr_irq_locks (upd_thread th f s) = nr_irq_locks s"
  "saved_irq_state (upd_thread th f s) = saved_irq_state s" "vm (upd_thread th f s) = vm s"
  "zombie (upd_thread th f s) = zombie s" "tasks (upd_thread th f s) = tasks s"
  "kern_task (upd_thread th f s) = kern_task s" "task_list (upd_thread th f s) = task_list s"
  "sems (upd_thread th f s) = sems s" "mutexes (upd_thread th f s) = mutexes s" "conds (upd_thread th f s) = conds s"
  "objects (upd_thread th f s) = objects s" "obj_table (upd_thread th f s) = obj_table s"
  "devices (upd_thread th f s) = devices s" "device_list (upd_thread th f s) = device_list s"
  "irqs (upd_thread th f s) = irqs s" "irq_table (upd_thread th f s) = irq_table s" "pic (upd_thread th f s) = pic s"
  "threads (event_init e s) = threads s" "cur_thread (event_init e s) = cur_thread s"
  "idle_thread (event_init e s) = idle_thread s" "runq (event_init e s) = runq s" "wakeq (event_init e s) = wakeq s"
  "top_prio (event_init e s) = top_prio s" "lbolt (event_init e s) = lbolt s" "timers (event_init e s) = timers s"
  "timer_list (event_init e s) = timer_list s" "expire_list (event_init e s) = expire_list s"
  "interrupts (event_init e s) = interrupts s" "nr_irq_locks (event_init e s) = nr_irq_locks s"
  "saved_irq_state (event_init e s) = saved_irq_state s" "vm (event_init e s) = vm s"
  "zombie (event_init e s) = zombie s" "tasks (event_init e s) = tasks s" "kern_task (event_init e s) = kern_task s"
  "task_list (event_init e s) = task_list s" "sems (event_init e s) = sems s" "mutexes (event_init e s) = mutexes s"
  "conds (event_init e s) = conds s" "objects (event_init e s) = objects s"
  "obj_table (event_init e s) = obj_table s" "devices (event_init e s) = devices s"
  "device_list (event_init e s) = device_list s" "irqs (event_init e s) = irqs s"
  "irq_table (event_init e s) = irq_table s" "pic (event_init e s) = pic s"
  "threads (kmem_free_block a s) = threads s" "cur_thread (kmem_free_block a s) = cur_thread s"
  "idle_thread (kmem_free_block a s) = idle_thread s" "runq (kmem_free_block a s) = runq s"
  "wakeq (kmem_free_block a s) = wakeq s" "sleepq (kmem_free_block a s) = sleepq s"
  "top_prio (kmem_free_block a s) = top_prio s" "lbolt (kmem_free_block a s) = lbolt s"
  "timers (kmem_free_block a s) = timers s" "timer_list (kmem_free_block a s) = timer_list s"
  "expire_list (kmem_free_block a s) = expire_list s" "interrupts (kmem_free_block a s) = interrupts s"
  "nr_irq_locks (kmem_free_block a s) = nr_irq_locks s" "saved_irq_state (kmem_free_block a s) = saved_irq_state s"
  "zombie (kmem_free_block a s) = zombie s" "tasks (kmem_free_block a s) = tasks s"
  "kern_task (kmem_free_block a s) = kern_task s" "task_list (kmem_free_block a s) = task_list s"
  "sems (kmem_free_block a s) = sems s" "mutexes (kmem_free_block a s) = mutexes s"
  "conds (kmem_free_block a s) = conds s" "objects (kmem_free_block a s) = objects s"
  "obj_table (kmem_free_block a s) = obj_table s" "devices (kmem_free_block a s) = devices s"
  "device_list (kmem_free_block a s) = device_list s" "irqs (kmem_free_block a s) = irqs s"
  "irq_table (kmem_free_block a s) = irq_table s" "pic (kmem_free_block a s) = pic s"
  "threads (snd (kmem_alloc_block s)) = threads s" "cur_thread (snd (kmem_alloc_block s)) = cur_thread s"
  "idle_thread (snd (kmem_alloc_block s)) = idle_thread s" "runq (snd (kmem_alloc_block s)) = runq s"
  "wakeq (snd (kmem_alloc_block s)) = wakeq s" "sleepq (snd (kmem_alloc_block s)) = sleepq s"
  "top_prio (snd (kmem_alloc_block s)) = top_prio s" "lbolt (snd (kmem_alloc_block s)) = lbolt s"
  "timers (snd (kmem_alloc_block s)) = timers s" "timer_list (snd (kmem_alloc_block s)) = timer_list s"
  "expire_list (snd (kmem_alloc_block s)) = expire_list s" "interrupts (snd (kmem_alloc_block s)) = interrupts s"
  "nr_irq_locks (snd (kmem_alloc_block s)) = nr_irq_locks s"
  "saved_irq_state (snd (kmem_alloc_block s)) = saved_irq_state s" "zombie (snd (kmem_alloc_block s)) = zombie s"
  "tasks (snd (kmem_alloc_block s)) = tasks s" "kern_task (snd (kmem_alloc_block s)) = kern_task s"
  "task_list (snd (kmem_alloc_block s)) = task_list s" "sems (snd (kmem_alloc_block s)) = sems s"
  "mutexes (snd (kmem_alloc_block s)) = mutexes s" "conds (snd (kmem_alloc_block s)) = conds s"
  "objects (snd (kmem_alloc_block s)) = objects s" "obj_table (snd (kmem_alloc_block s)) = obj_table s"
  "devices (snd (kmem_alloc_block s)) = devices s" "device_list (snd (kmem_alloc_block s)) = device_list s"
  "irqs (snd (kmem_alloc_block s)) = irqs s" "irq_table (snd (kmem_alloc_block s)) = irq_table s"
  "pic (snd (kmem_alloc_block s)) = pic s"
  by (simp_all add: upd_thread_def event_init_def kmem_free_block_def kmem_alloc_block_def split: prod.split)

lemma sched_same_store [simp]:
  "sched_same s (upd_sem p fs s)" "sched_same s (upd_mutex p fm s)" "sched_same s (upd_cond p fc s)"
  "sched_same s (upd_object p fo s)" "sched_same s (upd_task p ft s)" "sched_same s (upd_irq p fi s)"
  "sched_same s (upd_device p fd s)" "sched_same s (s\<lparr>vm := v\<rparr>)" "sched_same s (kmem_free_block a s)"
  "sched_same s (snd (kmem_alloc_block s))"
  by (simp_all add: sched_same_def upd_sem_def upd_mutex_def upd_cond_def upd_object_def upd_task_def upd_irq_def
      upd_device_def kmem_free_block_def kmem_alloc_block_def split: prod.split)

lemma mem_only_same: "mem_only s s' \<Longrightarrow> sched_same s s'"
  by (auto simp: mem_only_def)

lemma sched_wf_store [simp]:
  "sched_wf (upd_sem p fs s) = sched_wf s" "sched_wf (upd_mutex p fm s) = sched_wf s"
  "sched_wf (upd_cond p fc s) = sched_wf s" "sched_wf (upd_object p fo s) = sched_wf s"
  "sched_wf (upd_task p ft s) = sched_wf s" "sched_wf (upd_irq p fi s) = sched_wf s"
  "sched_wf (upd_device p fd s) = sched_wf s" "sched_wf (s\<lparr>vm := v\<rparr>) = sched_wf s"
  "sched_wf (kmem_free_block a s) = sched_wf s" "sched_wf (snd (kmem_alloc_block s)) = sched_wf s"
  by (rule sched_same_wf, simp)+

lemma sched_wf_umem [simp]:
  "sched_wf (snd (umem_copyout bs a s)) = sched_wf s" "sched_wf (snd (copyout_word v a s)) = sched_wf s"
  "sched_wf (snd (umem_copyout_from src a n s)) = sched_wf s" "sched_wf (snd (umem_copyin_to a dst n s)) = sched_wf s"
  by (rule sched_same_wf, rule mem_only_same, simp)+

text \<open>A change of the address space or of kernel objects leaves user memory accesses alone.\<close>

lemma sched_lock_vm [simp]:
  "vm (sched_lock s) = vm s" "tasks (sched_lock s) = tasks s" "sems (sched_lock s) = sems s"
  "mutexes (sched_lock s) = mutexes s" "conds (sched_lock s) = conds s" "objects (sched_lock s) = objects s"
  "obj_table (sched_lock s) = obj_table s" "kern_task (sched_lock s) = kern_task s"
  "task_list (sched_lock s) = task_list s" "devices (sched_lock s) = devices s" "device_list (sched_lock s) = device_list s"
  "th_task (threads (sched_lock s) x) = th_task (threads s x)" "zombie (sched_lock s) = zombie s"
  "lbolt (sched_lock s) = lbolt s" "timers (sched_lock s) = timers s" "timer_list (sched_lock s) = timer_list s"
  "expire_list (sched_lock s) = expire_list s" "irqs (sched_lock s) = irqs s" "irq_table (sched_lock s) = irq_table s"
  by (simp_all add: sched_lock_def upd_thread_def)

lemma u_read_vm: "vm s' = vm s \<Longrightarrow> u_read s' = u_read s" "vm s' = vm s \<Longrightarrow> u_write s' = u_write s"
  by (auto simp: u_read_def u_write_def cur_pgd_def fun_eq_iff)

lemma uread_vm:
  assumes "vm s' = vm s"
  shows "uread s' a n = uread s a n"
  by (induction n arbitrary: a) (simp_all add: u_read_vm [OF assms] assms split: option.split)

lemma copyin_vm:
  assumes "vm s' = vm s"
  shows "umem_copyin a n s' = umem_copyin a n s" "copyin_word a s' = copyin_word a s"
  by (simp_all add: umem_copyin_def copyin_word_def uread_vm [OF assms])

lemma sched_lock_umem [simp]:
  "copyin_word a (sched_lock s) = copyin_word a s" "umem_copyin a n (sched_lock s) = umem_copyin a n s"
  by (rule copyin_vm, simp)+

lemma sched_lock_task [simp]:
  "cur_task (sched_lock s) = cur_task s" "cur_task_ptr (sched_lock s) = cur_task_ptr s"
  "task_valid (sched_lock s) = task_valid s" "task_capable c (sched_lock s) = task_capable c s"
  "task_access t (sched_lock s) = task_access t s"
  by (simp_all add: cur_task_def cur_task_ptr_def task_valid_def task_capable_def task_access_def fun_eq_iff)

lemma sched_lock_waiting [simp]: "event_waiting e (sched_lock s) = event_waiting e s"
  by (simp add: event_waiting_def)

text \<open>With the scheduler already locked, a wake-up leaves the processor and every lock count alone.\<close>

lemma sched_lock_cur [simp]: "cur_thread (sched_lock s) = cur_thread s"
  "locks (threads (sched_lock s) x) = (if x = cur_thread s then locks (threads s x) + 1 else locks (threads s x))"
  by (simp_all add: sched_lock_def)

lemma wakeup_from_nested:
  "state (threads (wakeup_from e q s) x) = state (threads s x)" "locks (threads (wakeup_from e q s) x) = locks (threads s x)"
  by (simp_all add: wakeup_from_effect)

lemma wake_move_nested:
  "cur_thread (wake_move th s) = cur_thread s" "locks (threads (wake_move th s) x) = locks (threads s x)"
  "state (threads (wake_move th s) x) = state (threads s x)"
  "cur_thread (link_remove th s) = cur_thread s" "threads (link_remove th s) = threads s"
  by (simp_all add: wake_move_def link_remove_def Let_def kproj)

lemma sched_wakeone_nested:
  assumes "1 \<le> locks (cur s)"
  shows "cur_thread (snd (sched_wakeone e s)) = cur_thread s"
    "locks (threads (snd (sched_wakeone e s)) x) = locks (threads s x)"
    "state (threads (snd (sched_wakeone e s)) x) = state (threads s x)"
proof -
  let ?w = "\<lambda>b. irq_unlock (wake_move b (link_remove b (irq_lock (sched_lock s))))"
  have "locks (cur (?w b)) \<noteq> 1" for b using assms by (auto simp: wake_move_nested kproj)
  note n = sched_unlock_nested [OF this]
  show "cur_thread (snd (sched_wakeone e s)) = cur_thread s"
    "locks (threads (snd (sched_wakeone e s)) x) = locks (threads s x)"
    "state (threads (snd (sched_wakeone e s)) x) = state (threads s x)"
    using assms by (simp_all add: sched_wakeone_def Let_def n sched_unlock_nested wake_move_nested kproj split: list.split)
qed

lemma sched_wakeup_nested:
  assumes "1 \<le> locks (cur s)"
  shows "cur_thread (sched_wakeup e s) = cur_thread s" "locks (threads (sched_wakeup e s) x) = locks (threads s x)"
    "state (threads (sched_wakeup e s) x) = state (threads s x)"
  using assms by (simp_all add: sched_wakeup_def Let_def sched_unlock_nested wakeup_from_effect kproj)

lemma sched_unsleep_nested:
  assumes "1 \<le> locks (cur s)"
  shows "cur_thread (sched_unsleep th r s) = cur_thread s" "locks (threads (sched_unsleep th r s) x) = locks (threads s x)"
    "state (threads (sched_unsleep th r s) x) = state (threads s x)"
proof -
  let ?a = "upd_thread th (slpret_update (\<lambda>_. r)) (link_remove th (irq_lock (sched_lock s)))"
  let ?c = "irq_unlock (timer_stop (ThreadTimeout th) (?a\<lparr>wakeq := wakeq (link_remove th (irq_lock (sched_lock s))) @ [th]\<rparr>))"
  have "locks (cur ?c) \<noteq> 1" using assms by (auto simp: wake_move_nested kproj)
  note n = sched_unlock_nested [OF this]
  show "cur_thread (sched_unsleep th r s) = cur_thread s" "locks (threads (sched_unsleep th r s) x) = locks (threads s x)"
    "state (threads (sched_unsleep th r s) x) = state (threads s x)"
    using assms by (simp_all add: sched_unsleep_def Let_def n) (simp_all add: sched_unlock_nested wake_move_nested kproj)
qed

lemma sched_unsleep_queue:
  assumes "1 \<le> locks (cur s)" "asleep s th"
  shows "sleepq (sched_unsleep th r s) e = remove1 th (sleepq s e)"
    "slpret (threads (sched_unsleep th r s) x) = (if x = th then r else slpret (threads s x))"
    "wakeq (sched_unsleep th r s) = remove1 th (wakeq s) @ [th]"
proof -
  let ?a = "upd_thread th (slpret_update (\<lambda>_. r)) (link_remove th (irq_lock (sched_lock s)))"
  let ?c = "irq_unlock (timer_stop (ThreadTimeout th) (?a\<lparr>wakeq := wakeq (link_remove th (irq_lock (sched_lock s))) @ [th]\<rparr>))"
  have "locks (cur ?c) \<noteq> 1" using assms by (auto simp: wake_move_nested kproj)
  note n = sched_unlock_nested [OF this]
  show "sleepq (sched_unsleep th r s) e = remove1 th (sleepq s e)"
    "slpret (threads (sched_unsleep th r s) x) = (if x = th then r else slpret (threads s x))"
    "wakeq (sched_unsleep th r s) = remove1 th (wakeq s) @ [th]"
    using assms by (simp_all add: sched_unsleep_def Let_def n asleep_def) (simp_all add: link_remove_def kproj)
qed

lemma sched_unsleep_awake: "\<not> asleep s th \<Longrightarrow> sched_unsleep th r s = sched_unlock (sched_lock s)"
  by (simp add: sched_unsleep_def asleep_def Let_def)

lemma sched_tsleep_slpret: "slpret (threads (sched_tsleep e ms s) x) = slpret (threads s x)"
  by (simp add: sched_tsleep_def Let_def sched_switch_threads kproj)

section \<open>Examples\<close>

lemma demo_uread:
  assumes "vm s = vm demo_state" "k + n \<le> 0x1000"
  shows "uread s (0x1000 + k) n = map (\<lambda>i. pmem demo_vm (0x200000 + k + i)) [0..<n]"
proof (rule nth_equalityI)
  have r: "u_read s (0x1000 + k + i) = Some (0x200000 + k + i)" if "i < n" for i
    using u_read_vm(1) [OF assms(1)] demo_map(2) [of "k + i"] that assms(2) by (simp add: add.assoc)
  show l: "length (uread s (0x1000 + k) n) = length (map (\<lambda>i. pmem demo_vm (0x200000 + k + i)) [0..<n])"
    using r by (simp add: uread_full)
  show "uread s (0x1000 + k) n ! i = map (\<lambda>i. pmem demo_vm (0x200000 + k + i)) [0..<n] ! i"
    if "i < length (uread s (0x1000 + k) n)" for i
    using uread_nth [OF that] r [of i] that l assms(1) by (auto simp: demo_proj)
qed

lemma demo_copyin:
  assumes "vm s = vm demo_state"
  shows "copyin_word 0x1000 s = Some 0x80006000" "copyin_word 0x1004 s = Some 0x80005000"
proof -
  have "[0..<4] = [0, 1, 2, 3 :: nat]" by (simp add: upt_rec)
  then have "uread s 0x1000 4 = [0, 0x60, 0, 0x80]" "uread s 0x1004 4 = [0, 0x50, 0, 0x80]"
    using demo_uread [OF assms, of 0 4] demo_uread [OF assms, of 4 4] by (simp_all add: demo_vm_def)
  then show "copyin_word 0x1000 s = Some 0x80006000" "copyin_word 0x1004 s = Some 0x80005000"
    by (simp_all add: copyin_word_def umem_copyin_def UMEM_MAX_def of_le32_def)
qed

lemma demo_alloc:
  "kmem_alloc_block demo_state = (Some 0x80007000, demo_state\<lparr>vm := demo_vm\<lparr>vpool := tl (vpool demo_vm)\<rparr>\<rparr>)"
  by (simp add: kmem_alloc_block_def demo_proj vm_kmem_alloc_def) (simp add: demo_vm_def)

lemma demo_copyout:
  assumes "mmu_st (vm s) = mmu_st demo_vm" "0x1000 \<le> a" "a + length bs \<le> 0x2000"
  shows "fst (umem_copyout bs a s) = 0"
proof -
  have "u_write s x = u_write demo_state x" for x
    using assms(1) by (simp add: u_write_def u_read_def cur_pgd_def demo_proj)
  moreover have "u_write demo_state (a + i) \<noteq> None" if "i < length bs" for i
    using demo_map(1) [of "a + i - 0x1000"] assms(2,3) that by simp
  ultimately have "fst (uwrite bs a s)" by (simp add: uwrite_ok)
  then show ?thesis using assms(3) by (simp add: umem_copyout_def UMEM_MAX_def case_prod_beta)
qed

section \<open>Short critical sections\<close>

text \<open>
  No switch is due when the scheduler lock is dropped: no thread is about to be woken, and the
  current thread is not marked for rescheduling, or it holds the lock. A section that takes the
  lock and wakes nobody then ends in the thread it began in.
\<close>

definition quiet :: "kstate \<Rightarrow> bool" where
  "quiet s = (0 \<le> locks (cur s) \<and> wakeq s = [] \<and> (locks (cur s) = 0 \<longrightarrow> \<not> resched (cur s)))"

lemma sched_unlock_quiet:
  assumes "wakeq s = []" "locks (cur s) = 1 \<Longrightarrow> \<not> resched (cur s)"
  shows "sched_unlock s = upd_cur (locks_update (\<lambda>n. n - 1)) s"
proof (cases "locks (cur s) = 1")
  case True
  have "wakeq_flush s = s" using assms(1) by (simp add: wakeq_flush_def)
  then show ?thesis using True assms(2) by (simp add: sched_unlock_def Let_def numeral_2_eq_2)
qed (rule sched_unlock_nested)

lemma quiet_section:
  assumes "quiet s" "cur_thread s' = cur_thread s" "wakeq s' = []" "locks (cur s') = locks (cur s) + 1"
    "resched (cur s') = resched (cur s)"
  shows "sched_unlock s' = upd_cur (locks_update (\<lambda>n. n - 1)) s'" "quiet (sched_unlock s')"
proof -
  show u: "sched_unlock s' = upd_cur (locks_update (\<lambda>n. n - 1)) s'"
    by (rule sched_unlock_quiet) (use assms in \<open>auto simp: quiet_def\<close>)
  show "quiet (sched_unlock s')" unfolding u using assms by (simp add: quiet_def upd_thread_def)
qed

end
