(* ===== verification/Semaphore.thy ===== *)
theory Semaphore
  imports Access
begin

text \<open>
  Counting semaphores, \<^verbatim>\<open>sys/sync/sem.c\<close>. \<open>sem_wait\<close> is the call up to its sleep;
  \<open>sem_wait_resume\<close> is what follows when the sleeping thread runs again, up to the point
  where it lets other threads run, and \<open>sem_wait_retry\<close> is the next round of its loop.
\<close>

section \<open>Operations\<close>

definition MAXSEMVAL :: u32 where "MAXSEMVAL = 0x7fffffff"

definition sem_valid :: "kstate \<Rightarrow> nat \<Rightarrow> bool" where
  "sem_valid s p = (kern_area p \<and> sm_magic (sems s p) = SEM_MAGIC)"

definition sem_foreign :: "nat \<Rightarrow> kstate \<Rightarrow> bool" where
  "sem_foreign p s = (sm_task (sems s p) \<noteq> cur_task_ptr s \<and> \<not> task_capable CAP_SEMAPHORE s)"

definition sem_init :: "vaddr \<Rightarrow> u32 \<Rightarrow> kstate \<Rightarrow> errno \<times> kstate" where
  "sem_init sem value s =
     (if MAXSEMVAL < value then (EINVAL, s)
      else case copyin_word sem s of
        None \<Rightarrow> (EFAULT, s)
      | Some p \<Rightarrow>
          let s1 = sched_lock s;
              (err, s2) =
                (if p \<noteq> 0 \<and> sem_valid s1 p
                 then if sem_foreign p s1 then (EPERM, s1)
                      else if event_waiting (SemEvent p) s1 then (EBUSY, s1)
                      else (0, upd_sem p (sm_value_update (\<lambda>_. value)) s1)
                 else case kmem_alloc_block s1 of
                        (None, s2) \<Rightarrow> (ENOSPC, s2)
                      | (Some a, s2) \<Rightarrow>
                          let s3 = event_init (SemEvent a) s2;
                              s4 = upd_sem a (\<lambda>_. \<lparr>sm_magic = SEM_MAGIC, sm_task = cur_task_ptr s3, sm_value = value\<rparr>) s3
                          in case copyout_word a sem s4 of
                               (e, s5) \<Rightarrow> if e \<noteq> 0 then (EFAULT, kmem_free_block a s5) else (0, s5))
          in (err, sched_unlock s2))"

definition sem_copyin :: "vaddr \<Rightarrow> kstate \<Rightarrow> errno + nat" where
  "sem_copyin usem s =
     (case copyin_word usem s of
        None \<Rightarrow> Inl EFAULT
      | Some p \<Rightarrow>
          if \<not> sem_valid s p then Inl EINVAL
          else if sem_foreign p s then Inl EPERM
          else Inr p)"

definition sem_destroy :: "vaddr \<Rightarrow> kstate \<Rightarrow> errno \<times> kstate" where
  "sem_destroy sem s =
     (let s1 = sched_lock s
      in case sem_copyin sem s1 of
           Inl err \<Rightarrow> (err, sched_unlock s1)
         | Inr p \<Rightarrow>
             if event_waiting (SemEvent p) s1 then (EBUSY, sched_unlock s1)
             else (0, sched_unlock (kmem_free_block p (upd_sem p (sm_magic_update (\<lambda>_. 0)) s1))))"

definition sem_wait_check :: "nat \<Rightarrow> u32 \<Rightarrow> kstate \<Rightarrow> sysres \<times> kstate" where
  "sem_wait_check p timeout s =
     (if sm_value (sems s p) = 0 then (Sleeping, sched_tsleep (SemEvent p) timeout s)
      else (Done 0, sched_unlock (upd_sem p (sm_value_update (\<lambda>v. v - 1)) s)))"

definition sem_wait :: "vaddr \<Rightarrow> u32 \<Rightarrow> kstate \<Rightarrow> sysres \<times> kstate" where
  "sem_wait sem timeout s =
     (let s1 = sched_lock s
      in case sem_copyin sem s1 of
           Inl err \<Rightarrow> (Done err, sched_unlock s1)
         | Inr p \<Rightarrow> sem_wait_check p timeout s1)"

definition sem_wait_resume :: "kstate \<Rightarrow> sysres \<times> kstate" where
  "sem_wait_resume s =
     (case sched_tsleep_ret s of
        (rc, s1) \<Rightarrow>
          if rc = SLP_TIMEOUT then (Done ETIMEDOUT, sched_unlock s1)
          else if rc = SLP_INTR then (Done EINTR, sched_unlock s1)
          else (Yielded, sched_unlock s1))"

definition sem_wait_retry :: "nat \<Rightarrow> u32 \<Rightarrow> kstate \<Rightarrow> sysres \<times> kstate" where
  "sem_wait_retry p timeout s = sem_wait_check p timeout (sched_lock s)"

definition sem_trywait :: "vaddr \<Rightarrow> kstate \<Rightarrow> errno \<times> kstate" where
  "sem_trywait sem s =
     (let s1 = sched_lock s
      in case sem_copyin sem s1 of
           Inl err \<Rightarrow> (err, sched_unlock s1)
         | Inr p \<Rightarrow>
             if 0 < sm_value (sems s1 p)
             then (0, sched_unlock (upd_sem p (sm_value_update (\<lambda>v. v - 1)) s1))
             else (EAGAIN, sched_unlock s1))"

definition sem_post :: "vaddr \<Rightarrow> kstate \<Rightarrow> errno \<times> kstate" where
  "sem_post sem s =
     (let s1 = sched_lock s
      in case sem_copyin sem s1 of
           Inl err \<Rightarrow> (err, sched_unlock s1)
         | Inr p \<Rightarrow>
             if MAXSEMVAL \<le> sm_value (sems s1 p) then (ERANGE, sched_unlock s1)
             else let s2 = upd_sem p (sm_value_update (\<lambda>v. v + 1)) s1;
                      s3 = (if 0 < sm_value (sems s2 p) then snd (sched_wakeone (SemEvent p) s2) else s2)
                  in (0, sched_unlock s3))"

definition sem_getvalue :: "vaddr \<Rightarrow> vaddr \<Rightarrow> kstate \<Rightarrow> errno \<times> kstate" where
  "sem_getvalue sem value s =
     (let s1 = sched_lock s
      in case sem_copyin sem s1 of
           Inl err \<Rightarrow> (err, sched_unlock s1)
         | Inr p \<Rightarrow>
             (case copyout_word (unat (sm_value (sems s1 p))) value s1 of
                (e, s2) \<Rightarrow> (if e \<noteq> 0 then EFAULT else 0, sched_unlock s2)))"

section \<open>Lemmas\<close>

lemma sem_valid_lock [simp]: "sem_valid (sched_lock s) p = sem_valid s p" "sem_foreign p (sched_lock s) = sem_foreign p s"
  by (simp_all add: sem_valid_def sem_foreign_def)

lemma sem_copyin_lock [simp]: "sem_copyin u (sched_lock s) = sem_copyin u s"
  by (simp add: sem_copyin_def split: option.split)

lemma sem_copyin_Inr:
  "sem_copyin u s = Inr p \<longleftrightarrow> copyin_word u s = Some p \<and> sem_valid s p \<and> \<not> sem_foreign p s"
  by (auto simp: sem_copyin_def split: option.splits)

lemma MAXSEMVAL_succ: "v < MAXSEMVAL \<Longrightarrow> 0 < v + 1 \<and> v + 1 \<le> MAXSEMVAL \<and> unat (v + 1) = unat v + 1"
proof -
  assume "v < MAXSEMVAL"
  then have "unat v < 0x7fffffff" by (simp add: word_less_nat_alt MAXSEMVAL_def)
  then have "unat (v + 1) = unat v + 1" by (simp add: unat_word_ariths)
  then show ?thesis using \<open>unat v < 0x7fffffff\<close> by (simp add: word_less_nat_alt word_le_nat_alt MAXSEMVAL_def)
qed

text \<open>The abstract semaphore: a number of units, at most \<^const>\<open>MAXSEMVAL\<close>.\<close>

definition units :: "nat \<Rightarrow> kstate \<Rightarrow> nat" where
  "units p s = unat (sm_value (sems s p))"

lemma sems_sched [simp]:
  "sems (sched_unlock s) = sems s" "sems (sched_tsleep e ms s) = sems s" "sems (snd (sched_tsleep_ret s)) = sems s"
  "sems (snd (sched_wakeone e s)) = sems s"
  by (simp_all add: kproj)

lemma units_sched [simp]:
  "units p (sched_unlock s) = units p s" "units p (sched_lock s) = units p s"
  "units p (sched_tsleep e ms s) = units p s"
  by (simp_all add: units_def)

lemma sem_wait_check_units:
  "sem_wait_check p t s = (r, s') \<Longrightarrow>
   (r = Done 0 \<and> 0 < units p s \<and> units p s' = units p s - 1) \<or> (r = Sleeping \<and> units p s = 0 \<and> units p s' = 0)"
  by (auto simp: sem_wait_check_def units_def unat_gt_0 unat_minus_one split: if_splits)

lemma sem_wait_check_other:
  "sem_wait_check p t s = (r, s') \<Longrightarrow> q \<noteq> p \<or> r \<noteq> Done 0 \<Longrightarrow> sems s' q = sems s q"
  by (auto simp: sem_wait_check_def split: if_splits)

lemma sem_post_cases:
  assumes "sem_post u s = (err, s')"
  obtains (copyin) e where "sem_copyin u s = Inl e" "err = e" "s' = sched_unlock (sched_lock s)"
  | (full) p where "sem_copyin u s = Inr p" "MAXSEMVAL \<le> sm_value (sems s p)" "err = ERANGE"
      "s' = sched_unlock (sched_lock s)"
  | (post) p where "sem_copyin u s = Inr p" "sm_value (sems s p) < MAXSEMVAL" "err = 0"
      "s' = sched_unlock (snd (sched_wakeone (SemEvent p) (upd_sem p (sm_value_update (\<lambda>v. v + 1)) (sched_lock s))))"
proof (cases "sem_copyin u s")
  case (Inl e)
  then show thesis using assms copyin by (simp add: sem_post_def Let_def)
next
  case (Inr p)
  show thesis
  proof (cases "MAXSEMVAL \<le> sm_value (sems s p)")
    case True
    then show thesis using assms full Inr by (simp add: sem_post_def Let_def)
  next
    case False
    then have "0 < sm_value (sems s p) + 1" using MAXSEMVAL_succ [of "sm_value (sems s p)"] by (simp add: not_le)
    then show thesis using assms post [OF Inr] False Inr by (simp add: sem_post_def Let_def not_le)
  qed
qed

lemma sem_wait_cases:
  assumes "sem_wait u t s = (r, s')"
  obtains (copyin) e where "sem_copyin u s = Inl e" "r = Done e" "s' = sched_unlock (sched_lock s)"
  | (check) p where "sem_copyin u s = Inr p" "sem_wait_check p t (sched_lock s) = (r, s')"
  using assms by (cases "sem_copyin u s") (auto simp: sem_wait_def Let_def)

lemma sem_trywait_cases:
  assumes "sem_trywait u s = (e, s')"
  obtains (fail) "e \<noteq> 0 \<or> sem_copyin u s = Inl e" "sems s' = sems s"
  | (take) p where "sem_copyin u s = Inr p" "0 < sm_value (sems s p)" "e = 0"
      "sems s' = (sems s)(p := sm_value_update (\<lambda>v. v - 1) (sems s p))"
  using assms by (cases "sem_copyin u s") (auto simp: sem_trywait_def Let_def EAGAIN_def split: if_splits)

section \<open>Conservation\<close>

text \<open>
  The life of one semaphore between its initialisation and its destruction: calls of any
  thread, interleaved with everything else in the kernel.
\<close>

datatype sem_label = Post | Acquire | Other

inductive sem_step :: "nat \<Rightarrow> sem_label \<Rightarrow> kstate \<Rightarrow> kstate \<Rightarrow> bool" for p where
  post: "sem_copyin u s = Inr p \<Longrightarrow> sem_post u s = (0, s') \<Longrightarrow> sem_step p Post s s'"
| post_other: "sem_copyin u s \<noteq> Inr p \<or> e \<noteq> 0 \<Longrightarrow> sem_post u s = (e, s') \<Longrightarrow> sem_step p Other s s'"
| wait: "sem_copyin u s = Inr p \<Longrightarrow> sem_wait u t s = (Done 0, s') \<Longrightarrow> sem_step p Acquire s s'"
| wait_other: "sem_copyin u s \<noteq> Inr p \<or> r \<noteq> Done 0 \<Longrightarrow> sem_wait u t s = (r, s') \<Longrightarrow> sem_step p Other s s'"
| resume: "sem_wait_resume s = (r, s') \<Longrightarrow> sem_step p Other s s'"
| retry: "sem_wait_retry p t s = (Done 0, s') \<Longrightarrow> sem_step p Acquire s s'"
| retry_other: "q \<noteq> p \<or> r \<noteq> Done 0 \<Longrightarrow> sem_wait_retry q t s = (r, s') \<Longrightarrow> sem_step p Other s s'"
| trywait: "sem_copyin u s = Inr p \<Longrightarrow> sem_trywait u s = (0, s') \<Longrightarrow> sem_step p Acquire s s'"
| trywait_other: "sem_copyin u s \<noteq> Inr p \<or> e \<noteq> 0 \<Longrightarrow> sem_trywait u s = (e, s') \<Longrightarrow> sem_step p Other s s'"
| getvalue: "sem_getvalue u a s = (e, s') \<Longrightarrow> sem_step p Other s s'"
| env: "sems s' p = sems s p \<Longrightarrow> sem_step p Other s s'"

inductive sem_run :: "nat \<Rightarrow> kstate \<Rightarrow> sem_label list \<Rightarrow> kstate \<Rightarrow> bool" for p where
  start: "sem_run p s [] s"
| step: "sem_run p s ls s' \<Longrightarrow> sem_step p l s' s'' \<Longrightarrow> sem_run p s (ls @ [l]) s''"

lemma sem_getvalue_sems: "sem_getvalue u a s = (e, s') \<Longrightarrow> sems s' = sems s"
proof -
  have "sems (snd (copyout_word v a w)) = sems w" for v w by (rule mem_onlyD) simp
  then show "sem_getvalue u a s = (e, s') \<Longrightarrow> sems s' = sems s"
    by (auto simp: sem_getvalue_def Let_def split: sum.splits prod.splits) (metis snd_conv sched_lock_vm(3))
qed

lemma sem_step_units:
  assumes "sem_step p l s s'"
  shows "case l of
      Post \<Rightarrow> units p s < unat MAXSEMVAL \<and> units p s' = units p s + 1
    | Acquire \<Rightarrow> 0 < units p s \<and> units p s' = units p s - 1
    | Other \<Rightarrow> units p s' = units p s"
  using assms
proof cases
  case (post u)
  from post(3) show ?thesis
    by (cases rule: sem_post_cases)
      (use post MAXSEMVAL_succ [of "sm_value (sems s p)"] in \<open>auto simp: units_def word_less_nat_alt ERANGE_def\<close>)
next
  case (post_other u e)
  from post_other(3) show ?thesis
    by (cases rule: sem_post_cases) (use post_other in \<open>auto simp: units_def\<close>)
next
  case (wait u t)
  from wait(3) show ?thesis
    by (cases rule: sem_wait_cases) (use wait in \<open>auto dest: sem_wait_check_units\<close>)
next
  case (wait_other u r t)
  from wait_other(3) show ?thesis
    by (cases rule: sem_wait_cases) (use wait_other in \<open>auto simp: units_def dest: sem_wait_check_other [of _ _ _ _ _ p]\<close>)
next
  case (resume r)
  then show ?thesis using sems_sched(3) [of s]
    by (cases "sched_tsleep_ret s") (auto simp: sem_wait_resume_def units_def split: if_splits)
next
  case (retry t)
  then show ?thesis by (auto simp: sem_wait_retry_def dest: sem_wait_check_units)
next
  case (retry_other q r t)
  then show ?thesis
    by (auto simp: sem_wait_retry_def units_def dest: sem_wait_check_other [of _ _ _ _ _ p])
next
  case (trywait u)
  from trywait(3) show ?thesis
    by (cases rule: sem_trywait_cases) (use trywait in \<open>auto simp: units_def unat_gt_0 unat_minus_one\<close>)
next
  case (trywait_other u e)
  from trywait_other(3) show ?thesis
    by (cases rule: sem_trywait_cases) (use trywait_other in \<open>auto simp: units_def\<close>)
next
  case (getvalue u a e)
  then show ?thesis using sem_getvalue_sems by (simp add: units_def)
next
  case env
  then show ?thesis by (simp add: units_def)
qed

text \<open>
  C16: A semaphore neither loses nor invents units. In every interleaving of posts and waits
  by any threads, with any other kernel activity in between, the units left plus those
  acquired are the units at the start plus those posted, and the value stays within its
  bound.
\<close>

theorem sem_conservation:
  assumes "sem_run p s ls s'" and "units p s \<le> unat MAXSEMVAL"
  shows "units p s' + count_list ls Acquire = units p s + count_list ls Post \<and> units p s' \<le> unat MAXSEMVAL"
  using assms
proof induction
  case (step s ls s' l s'')
  then show ?case using sem_step_units [OF step.hyps(2)] by (cases l) auto
qed simp

lemma demo_sem_copyin: "sem_copyin 0x1000 demo_state = Inr 0x80006000"
  by (simp add: sem_copyin_Inr demo_copyin sem_valid_def sem_foreign_def demo_proj kern_area_def PAGE_OFFSET_def
      cur_task_ptr_def cur_task_def demo_thread_def)

theorem sem_conservation_witness:
  "\<exists>s'. sem_run 0x80006000 demo_state [Post] s' \<and> units 0x80006000 s' = 1"
proof -
  obtain err s' where r: "sem_post 0x1000 demo_state = (err, s')" by fastforce
  have z: "units 0x80006000 demo_state = 0" by (simp add: units_def demo_proj)
  have "err = 0"
    using r by (cases rule: sem_post_cases) (use demo_sem_copyin in \<open>auto simp: demo_proj MAXSEMVAL_def\<close>)
  then have "sem_run 0x80006000 demo_state ([] @ [Post]) s'"
    using r demo_sem_copyin by (intro sem_run.step [OF sem_run.start] sem_step.post) auto
  then show ?thesis using sem_conservation [of "0x80006000" demo_state "[Post]" s'] z by auto
qed

text \<open>
  C31: Posting. The call fails, without an effect on any semaphore, exactly when the identifier
  cannot be read, does not name a semaphore the caller may use, or the value is at its limit.
  Otherwise the value grows by one and, if threads wait, the first of the best priority among
  them is taken off the queue and its sleep returns 0. The scheduler's invariant is kept.
\<close>

theorem sem_post_spec:
  assumes "sched_wf s" and "sem_post u s = (err, s')"
  shows "sched_wf s' \<and>
    (case sem_copyin u s of
       Inl e \<Rightarrow> err = e \<and> sems s' = sems s \<and> sleepq s' = sleepq s
     | Inr p \<Rightarrow>
         if MAXSEMVAL \<le> sm_value (sems s p) then err = ERANGE \<and> sems s' = sems s \<and> sleepq s' = sleepq s
         else err = 0 \<and> sems s' = (sems s)(p := (sems s p)\<lparr>sm_value := sm_value (sems s p) + 1\<rparr>) \<and>
           (sleepq s (SemEvent p) = [] \<longrightarrow> sleepq s' = sleepq s) \<and>
           (sleepq s (SemEvent p) \<noteq> [] \<longrightarrow>
              (\<exists>us th vs. sleepq s (SemEvent p) = us @ th # vs \<and>
                 (\<forall>x \<in> set us. prio (threads s th) < prio (threads s x)) \<and>
                 (\<forall>y \<in> set vs. prio (threads s th) \<le> prio (threads s y)) \<and>
                 sleepq s' = (sleepq s)(SemEvent p := us @ vs) \<and> slpret (threads s' th) = 0)))"
  using assms(2)
proof (cases rule: sem_post_cases)
  case (post p)
  let ?t = "upd_sem p (sm_value_update (\<lambda>v. v + 1)) (sched_lock s)"
  have t: "sched_wf ?t" "sleepq ?t = sleepq s" "prio (threads ?t x) = prio (threads s x)" for x
    using assms(1) by simp_all
  obtain r w where w: "sched_wakeone (SemEvent p) ?t = (r, w)" by fastforce
  have wf: "sched_wf w" using sched_wakeone_wf [OF t(1), of "SemEvent p"] w by simp
  have sm: "sems w = sems ?t" using sems_sched(4) [of "SemEvent p" ?t] w by simp
  have s': "s' = sched_unlock w" using post(4) w by simp
  have "sleepq s (SemEvent p) \<noteq> [] \<longrightarrow>
      (\<exists>us th vs. sleepq s (SemEvent p) = us @ th # vs \<and>
         (\<forall>x \<in> set us. prio (threads s th) < prio (threads s x)) \<and>
         (\<forall>y \<in> set vs. prio (threads s th) \<le> prio (threads s y)) \<and>
         sleepq s' = (sleepq s)(SemEvent p := us @ vs) \<and> slpret (threads s' th) = 0)"
    using sched_wakeone_first [OF t(1) _ w] unfolding t s' sched_unlock_keeps by blast
  moreover have "sleepq s (SemEvent p) = [] \<Longrightarrow> sleepq s' = sleepq s"
    using w sched_wakeone_none [of ?t "SemEvent p"] unfolding t s' by (auto simp: kproj)
  moreover have "\<not> MAXSEMVAL \<le> sm_value (sems s p)" using post(2) by simp
  moreover have "sems s' = (sems s)(p := (sems s p)\<lparr>sm_value := sm_value (sems s p) + 1\<rparr>)"
    using sm s' by (simp add: fun_eq_iff)
  ultimately show ?thesis using post(1,3) sched_unlock_wf [OF wf] s' by simp
qed (use assms(1) sched_unlock_wf in auto)

theorem sem_post_spec_witness:
  "\<exists>s'. sem_post 0x1000 demo_state = (0, s') \<and> sleepq s' (SemEvent 0x80006000) = [0x80004000]"
proof -
  obtain err s' where r: "sem_post 0x1000 demo_state = (err, s')" by fastforce
  have v: "\<not> MAXSEMVAL \<le> sm_value (sems demo_state 0x80006000)" "sleepq demo_state (SemEvent 0x80006000) \<noteq> []"
    by (simp_all add: demo_proj MAXSEMVAL_def)
  obtain us th vs where q: "err = 0" "sleepq demo_state (SemEvent 0x80006000) = us @ th # vs"
    "\<forall>x \<in> set us. prio (threads demo_state th) < prio (threads demo_state x)"
    "sleepq s' = (sleepq demo_state)(SemEvent 0x80006000 := us @ vs)"
    using sem_post_spec [OF demo_wf r] v unfolding demo_sem_copyin sum.case by (simp add: if_not_P) blast
  have "us @ vs = [0x80004000]"
    using q(2,3) by (auto simp: demo_proj demo_thread_def Cons_eq_append_conv)
  then show ?thesis using r q(1,4) by simp
qed

end
