(* ===== verification/Mutex.thy ===== *)
theory Mutex
  imports Access
begin

text \<open>
  Mutexes with priority inheritance, \<^verbatim>\<open>sys/sync/mutex.c\<close>. \<open>mutex_lock\<close> is the call up to its
  sleep and \<open>mutex_lock_resume\<close> what follows when the sleeping thread runs again.
\<close>

section \<open>Operations\<close>

definition MUTEX_INITIALIZER :: nat where "MUTEX_INITIALIZER = 0x4d496e69"
definition MAXINHERIT :: nat where "MAXINHERIT = 10"

definition mutex_valid :: "kstate \<Rightarrow> nat \<Rightarrow> bool" where
  "mutex_valid s m = (kern_area m \<and> mx_magic (mutexes s m) = MUTEX_MAGIC)"

text \<open>\<^verbatim>\<open>mutex_init\<close> leaves the member \<^verbatim>\<open>locks\<close> as the allocator returned it.\<close>

definition mutex_init :: "vaddr \<Rightarrow> kstate \<Rightarrow> errno \<times> kstate" where
  "mutex_init mtx s =
     (case kmem_alloc_block s of
        (None, s1) \<Rightarrow> (ENOMEM, s1)
      | (Some m, s1) \<Rightarrow>
          let s2 = event_init (MutexEvent m) s1;
              s3 = upd_mutex m (\<lambda>x. x\<lparr>mx_task := cur_task_ptr s2, mx_owner := None, mx_prio := MIN_PRIO,
                                      mx_magic := MUTEX_MAGIC\<rparr>) s2
          in case copyout_word m mtx s3 of
               (e, s4) \<Rightarrow> if e \<noteq> 0 then (EFAULT, kmem_free_block m s4) else (0, s4))"

definition mutex_destroy :: "vaddr \<Rightarrow> kstate \<Rightarrow> errno \<times> kstate" where
  "mutex_destroy mtx s =
     (let s1 = sched_lock s
      in case copyin_word mtx s1 of
           None \<Rightarrow> (EFAULT, sched_unlock s1)
         | Some m \<Rightarrow>
             if \<not> mutex_valid s1 m then (EINVAL, sched_unlock s1)
             else if mx_owner (mutexes s1 m) \<noteq> None \<or> event_waiting (MutexEvent m) s1
             then (EBUSY, sched_unlock s1)
             else (0, sched_unlock (kmem_free_block m (upd_mutex m (mx_magic_update (\<lambda>_. 0)) s1))))"

definition mutex_copyin :: "vaddr \<Rightarrow> kstate \<Rightarrow> (errno + nat) \<times> kstate" where
  "mutex_copyin umtx s =
     (case copyin_word umtx s of
        None \<Rightarrow> (Inl EFAULT, s)
      | Some m \<Rightarrow>
          if m = MUTEX_INITIALIZER
          then (case mutex_init umtx s of
                  (err, s1) \<Rightarrow>
                    if err \<noteq> 0 then (Inl err, s1)
                    else (Inr (case copyin_word umtx s1 of None \<Rightarrow> m | Some m' \<Rightarrow> m'), s1))
          else if \<not> mutex_valid s m then (Inl EINVAL, s)
          else (Inr m, s))"

text \<open>
  One pass through the loop of \<^verbatim>\<open>prio_inherit\<close> per unit of the first argument. \<open>None\<close>: the mutex has
  no owner and the loop reads through a null pointer.
\<close>

fun prio_inherit_loop :: "nat \<Rightarrow> tid \<Rightarrow> nat \<Rightarrow> kstate \<Rightarrow> errno option \<times> kstate" where
  "prio_inherit_loop 0 waiter m s = (Some 0, s)"
| "prio_inherit_loop (Suc n) waiter m s =
     (case mx_owner (mutexes s m) of
        None \<Rightarrow> (None, s)
      | Some owner \<Rightarrow>
          if owner = waiter then (Some EDEADLK, s)
          else let p = prio (threads s waiter);
                   s1 = (if p < prio (threads s owner)
                         then upd_mutex m (mx_prio_update (\<lambda>_. p))
                                (sched_setprio owner (baseprio (threads s owner)) p s)
                         else s)
               in case wait_mutex (threads s1 owner) of
                    None \<Rightarrow> (Some 0, s1)
                  | Some m' \<Rightarrow> prio_inherit_loop n waiter m' s1)"

text \<open>The counter ends the loop after pass \<open>MAXINHERIT + 1\<close>.\<close>

definition prio_inherit :: "tid \<Rightarrow> kstate \<Rightarrow> errno option \<times> kstate" where
  "prio_inherit waiter s =
     (case wait_mutex (threads s waiter) of
        None \<Rightarrow> (None, s)
      | Some m \<Rightarrow> prio_inherit_loop (Suc MAXINHERIT) waiter m s)"

definition prio_uninherit :: "tid \<Rightarrow> kstate \<Rightarrow> kstate" where
  "prio_uninherit th s =
     (let t = threads s th
      in if prio t = baseprio t then s
         else sched_setprio th (baseprio t)
                (foldl (\<lambda>top m. if mx_prio (mutexes s m) < top then mx_prio (mutexes s m) else top)
                   (baseprio t) (th_mutexes t)) s)"

definition mutex_take :: "nat \<Rightarrow> kstate \<Rightarrow> kstate" where
  "mutex_take m s =
     upd_cur (th_mutexes_update (\<lambda>ms. m # ms))
       (upd_mutex m (\<lambda>x. x\<lparr>mx_locks := 1, mx_owner := Some (cur_thread s)\<rparr>) s)"

definition mutex_lock :: "vaddr \<Rightarrow> kstate \<Rightarrow> sysres \<times> kstate" where
  "mutex_lock mtx s =
     (case mutex_copyin mtx (sched_lock s) of
        (Inl err, s1) \<Rightarrow> (Done err, sched_unlock s1)
      | (Inr m, s1) \<Rightarrow>
          if mx_owner (mutexes s1 m) = Some (cur_thread s1)
          then (Done 0, sched_unlock (upd_mutex m (mx_locks_update (\<lambda>n. n + 1)) s1))
          else if mx_owner (mutexes s1 m) = None
          then (Done 0, sched_unlock (mutex_take m (upd_mutex m (mx_prio_update (\<lambda>_. prio (cur s1))) s1)))
          else let s2 = upd_cur (wait_mutex_update (\<lambda>_. Some m)) s1
               in case prio_inherit (cur_thread s2) s2 of
                    (None, s3) \<Rightarrow> (Panic, s3)
                  | (Some err, s3) \<Rightarrow>
                      if err \<noteq> 0 then (Done err, sched_unlock (upd_cur (wait_mutex_update (\<lambda>_. None)) s3))
                      else (Sleeping, sched_tsleep (MutexEvent m) 0 s3))"

definition mutex_lock_resume :: "nat \<Rightarrow> kstate \<Rightarrow> sysres \<times> kstate" where
  "mutex_lock_resume m s =
     (case sched_tsleep_ret s of
        (rc, s1) \<Rightarrow>
          let s2 = upd_cur (wait_mutex_update (\<lambda>_. None)) s1
          in if rc = SLP_INTR then (Done EINTR, sched_unlock s2)
             else (Done 0, sched_unlock (mutex_take m s2)))"

definition mutex_trylock :: "vaddr \<Rightarrow> kstate \<Rightarrow> errno \<times> kstate" where
  "mutex_trylock mtx s =
     (case mutex_copyin mtx (sched_lock s) of
        (Inl err, s1) \<Rightarrow> (err, sched_unlock s1)
      | (Inr m, s1) \<Rightarrow>
          if mx_owner (mutexes s1 m) = Some (cur_thread s1)
          then (0, sched_unlock (upd_mutex m (mx_locks_update (\<lambda>n. n + 1)) s1))
          else if mx_owner (mutexes s1 m) \<noteq> None then (EBUSY, sched_unlock s1)
          else (0, sched_unlock (mutex_take m s1)))"

text \<open>The mutex goes to the waiter of the best priority, or to nobody.\<close>

definition mutex_handover :: "nat \<Rightarrow> kstate \<Rightarrow> kstate" where
  "mutex_handover m s =
     (case sched_wakeone (MutexEvent m) s of
        (None, s1) \<Rightarrow> upd_mutex m (\<lambda>x. x\<lparr>mx_owner := None, mx_prio := MIN_PRIO\<rparr>) s1
      | (Some th, s1) \<Rightarrow>
          let s2 = upd_thread th (wait_mutex_update (\<lambda>_. None)) s1
          in upd_mutex m (\<lambda>x. x\<lparr>mx_owner := Some th, mx_prio := prio (threads s2 th)\<rparr>) s2)"

definition mutex_unlock_count :: "vaddr \<Rightarrow> kstate \<Rightarrow> int \<times> kstate" where
  "mutex_unlock_count mtx s =
     (case mutex_copyin mtx (sched_lock s) of
        (Inl err, s1) \<Rightarrow> (err, sched_unlock s1)
      | (Inr m, s1) \<Rightarrow>
          if mx_owner (mutexes s1 m) \<noteq> Some (cur_thread s1) \<or> mx_locks (mutexes s1 m) \<le> 0
          then (EPERM, sched_unlock s1)
          else let s2 = upd_mutex m (mx_locks_update (\<lambda>n. n - 1)) s1;
                   err = - mx_locks (mutexes s2 m)
               in if err = 0
                  then let s3 = upd_cur (th_mutexes_update (remove1 m)) s2;
                           s4 = prio_uninherit (cur_thread s3) s3
                       in (err, sched_unlock (mutex_handover m s4))
                  else (err, sched_unlock s2))"

definition mutex_unlock :: "vaddr \<Rightarrow> kstate \<Rightarrow> errno \<times> kstate" where
  "mutex_unlock mtx s = (case mutex_unlock_count mtx s of (rc, s1) \<Rightarrow> (if rc < 0 then 0 else rc, s1))"

fun mutex_cleanup_from :: "tid \<Rightarrow> nat list \<Rightarrow> kstate \<Rightarrow> kstate" where
  "mutex_cleanup_from th [] s = s"
| "mutex_cleanup_from th (m # ms) s =
     (let s1 = upd_mutex m (mx_locks_update (\<lambda>_. 0)) s;
          s2 = upd_thread th (th_mutexes_update (\<lambda>_. ms)) s1
      in mutex_cleanup_from th ms (mutex_handover m s2))"

definition mutex_cleanup :: "tid \<Rightarrow> kstate \<Rightarrow> kstate" where
  "mutex_cleanup th s = mutex_cleanup_from th (th_mutexes (threads s th)) s"

text \<open>Called before the priority of \<open>th\<close> is changed; the loop reads the old priority.\<close>

definition mutex_setprio :: "tid \<Rightarrow> nat \<Rightarrow> kstate \<Rightarrow> errno option \<times> kstate" where
  "mutex_setprio th p s =
     (if wait_mutex (threads s th) \<noteq> None \<and> p < prio (threads s th) then prio_inherit th s else (Some 0, s))"

section \<open>Changing a priority\<close>

lemma sched_setprio_threads:
  "prio (threads (sched_setprio th b p s) x) = (if x = th then p else prio (threads s x))"
  "baseprio (threads (sched_setprio th b p s) x) = (if x = th then b else baseprio (threads s x))"
  "wait_mutex (threads (sched_setprio th b p s) x) = wait_mutex (threads s x)"
  "th_mutexes (threads (sched_setprio th b p s) x) = th_mutexes (threads s x)"
  "th_magic (threads (sched_setprio th b p s) x) = th_magic (threads s x)"
  "th_task (threads (sched_setprio th b p s) x) = th_task (threads s x)"
  "locks (threads (sched_setprio th b p s) x) = locks (threads s x)"
  "state (threads (sched_setprio th b p s) x) = state (threads s x)"
  "slpevt (threads (sched_setprio th b p s) x) = slpevt (threads s x)"
  by (simp_all add: sched_setprio_def Let_def runq_enqueue_def runq_remove_def link_remove_def)

lemma sched_setprio_keep [simp]:
  "mutexes (sched_setprio th b p s) = mutexes s" "cur_thread (sched_setprio th b p s) = cur_thread s"
  "idle_thread (sched_setprio th b p s) = idle_thread s" "tasks (sched_setprio th b p s) = tasks s"
  "vm (sched_setprio th b p s) = vm s" "conds (sched_setprio th b p s) = conds s"
  "kern_task (sched_setprio th b p s) = kern_task s" "sems (sched_setprio th b p s) = sems s"
  by (simp_all add: sched_setprio_def Let_def runq_enqueue_def runq_remove_def link_remove_def upd_thread_def)

lemma sched_setprio_valid [simp]: "thread_valid (sched_setprio th b p s) = thread_valid s"
  by (simp add: thread_valid_def sched_setprio_threads fun_eq_iff)

section \<open>Priority inheritance\<close>

text \<open>The threads that hold up whoever waits for \<open>m\<close>: its owner, the owner of what that one waits for, and so on.\<close>

primrec owner_chain :: "kstate \<Rightarrow> nat \<Rightarrow> nat \<Rightarrow> tid option" where
  "owner_chain s m 0 = mx_owner (mutexes s m)"
| "owner_chain s m (Suc k) =
     (case owner_chain s m k of
        None \<Rightarrow> None
      | Some t \<Rightarrow> (case wait_mutex (threads s t) of None \<Rightarrow> None | Some m' \<Rightarrow> mx_owner (mutexes s m')))"

lemma owner_chain_step:
  "mx_owner (mutexes s m) = Some t \<Longrightarrow> wait_mutex (threads s t) = Some m' \<Longrightarrow>
   owner_chain s m (Suc k) = owner_chain s m' k"
  by (induction k) auto

lemma owner_chain_end:
  "mx_owner (mutexes s m) = Some t \<Longrightarrow> wait_mutex (threads s t) = None \<Longrightarrow> owner_chain s m (Suc k) = None"
  by (induction k) auto

lemma owner_chain_none: "mx_owner (mutexes s m) = None \<Longrightarrow> owner_chain s m k = None"
  by (induction k) auto

lemma owner_chain_cong:
  assumes "\<And>x. wait_mutex (threads s' x) = wait_mutex (threads s x)"
    "\<And>x. mx_owner (mutexes s' x) = mx_owner (mutexes s x)"
  shows "owner_chain s' m k = owner_chain s m k"
  using assms by (induction k) (auto split: option.split)

text \<open>What the loop may change: priorities, lowered in number to the waiter's and no further.\<close>

definition boosted :: "tid \<Rightarrow> kstate \<Rightarrow> kstate \<Rightarrow> bool" where
  "boosted w s s' = (sched_wf s' \<and> thread_valid s' = thread_valid s \<and>
     (\<forall>x. wait_mutex (threads s' x) = wait_mutex (threads s x) \<and>
          mx_owner (mutexes s' x) = mx_owner (mutexes s x) \<and>
          baseprio (threads s' x) = baseprio (threads s x) \<and>
          (prio (threads s' x) = prio (threads s x) \<or>
           prio (threads s' x) = prio (threads s w) \<and> prio (threads s w) < prio (threads s x))))"

lemma boosted_refl [simp]: "boosted w s s = sched_wf s"
  by (auto simp: boosted_def)

lemma boosted_waiter: "boosted w s s' \<Longrightarrow> prio (threads s' w) = prio (threads s w)"
  unfolding boosted_def by (metis order_less_irrefl)

lemma boosted_le: "boosted w s s' \<Longrightarrow> prio (threads s' x) \<le> prio (threads s x)"
  unfolding boosted_def by (metis le_refl less_imp_le)

lemma boosted_trans:
  assumes "boosted w s t" "boosted w t u"
  shows "boosted w s u"
proof -
  have w: "prio (threads t w) = prio (threads s w)" using assms(1) by (rule boosted_waiter)
  have "prio (threads u x) = prio (threads s x) \<or>
      prio (threads u x) = prio (threads s w) \<and> prio (threads s w) < prio (threads s x)" for x
    using assms w unfolding boosted_def by metis
  then show ?thesis using assms unfolding boosted_def by metis
qed

lemma boost_owner:
  assumes "sched_wf s" "thread_valid s w" "thread_valid s owner" "prio (threads s w) < prio (threads s owner)"
  shows "boosted w s (upd_mutex m (mx_prio_update (\<lambda>_. prio (threads s w)))
           (sched_setprio owner (baseprio (threads s owner)) (prio (threads s w)) s))"
proof -
  have "prio (threads s w) < NPRIO" using assms core_prio by (auto simp: sched_wf_def)
  then have "sched_wf (sched_setprio owner (baseprio (threads s owner)) (prio (threads s w)) s)"
    using assms(1,3) by (intro sched_setprio_wf)
  then show ?thesis using assms(4) by (simp add: boosted_def sched_setprio_threads thread_valid_def fun_eq_iff)
qed

lemma prio_inherit_loop_spec:
  assumes "sched_wf s" "thread_valid s w" "\<forall>x t. mx_owner (mutexes s x) = Some t \<longrightarrow> thread_valid s t"
    and "prio_inherit_loop n w m s = (r, s')"
  shows "boosted w s s' \<and>
    (r = Some EDEADLK \<longleftrightarrow> (\<exists>k < n. owner_chain s m k = Some w)) \<and> (r = Some EDEADLK \<or> r = Some 0 \<or> r = None) \<and>
    (r \<noteq> Some EDEADLK \<longrightarrow> (\<forall>k < n. \<forall>t. owner_chain s m k = Some t \<longrightarrow> prio (threads s' t) \<le> prio (threads s w)))"
  using assms
proof (induction n arbitrary: m s)
  case 0
  then show ?case by (auto simp: EDEADLK_def)
next
  case (Suc n)
  show ?case
  proof (cases "mx_owner (mutexes s m)")
    case None
    then show ?thesis using Suc.prems owner_chain_none [OF None] by (simp add: EDEADLK_def)
  next
    case (Some owner)
    show ?thesis
    proof (cases "owner = w")
      case True
      then show ?thesis using Suc.prems Some by (auto intro!: exI [of _ 0])
    next
      case False
      let ?p = "prio (threads s w)"
      define s1 where "s1 = (if ?p < prio (threads s owner)
        then upd_mutex m (mx_prio_update (\<lambda>_. ?p)) (sched_setprio owner (baseprio (threads s owner)) ?p s) else s)"
      have b: "boosted w s s1"
        using boost_owner [OF Suc.prems(1,2), of owner m] Suc.prems(1,3) Some by (auto simp: s1_def)
      have po: "prio (threads s1 owner) \<le> ?p" by (simp add: s1_def sched_setprio_threads)
      have wm: "wait_mutex (threads s1 owner) = wait_mutex (threads s owner)" using b by (simp add: boosted_def)
      have ch: "owner_chain s1 = owner_chain s" using b by (auto simp: boosted_def fun_eq_iff intro!: owner_chain_cong)
      show ?thesis
      proof (cases "wait_mutex (threads s owner)")
        case N: None
        then have "r = Some 0" "s' = s1" using Suc.prems(4) Some False wm by (auto simp: s1_def Let_def)
        moreover have "k < Suc n \<Longrightarrow> owner_chain s m k = Some t \<Longrightarrow> t = owner" for k t
          using Some N owner_chain_end by (cases k) auto
        ultimately show ?thesis using b po False by (auto simp: EDEADLK_def)
      next
        case S: (Some m')
        have l: "prio_inherit_loop n w m' s1 = (r, s')" using Suc.prems(4) Some False wm S by (simp add: s1_def Let_def)
        have st: "owner_chain s m (Suc k) = owner_chain s m' k" for k by (rule owner_chain_step [OF Some S])
        have IH: "boosted w s1 s' \<and>
            (r = Some EDEADLK \<longleftrightarrow> (\<exists>k < n. owner_chain s1 m' k = Some w)) \<and> (r = Some EDEADLK \<or> r = Some 0 \<or> r = None) \<and>
            (r \<noteq> Some EDEADLK \<longrightarrow> (\<forall>k < n. \<forall>t. owner_chain s1 m' k = Some t \<longrightarrow> prio (threads s' t) \<le> prio (threads s1 w)))"
          by (rule Suc.IH [OF _ _ _ l]) (use b Suc.prems(2,3) in \<open>auto simp: boosted_def\<close>)
        have po': "prio (threads s' owner) \<le> ?p" using IH po boosted_le [of w s1 s' owner] by simp
        have w1: "prio (threads s1 w) = ?p" using b by (rule boosted_waiter)
        have dl: "(\<exists>k < Suc n. owner_chain s m k = Some w) \<longleftrightarrow> (\<exists>k < n. owner_chain s m' k = Some w)"
          unfolding Ex_less_Suc2 st using Some False by simp
        show ?thesis
          unfolding dl All_less_Suc2 st using IH boosted_trans [OF b] po' Some unfolding ch w1 by auto
      qed
    qed
  qed
qed

text \<open>
  C32: Priority inheritance. When a thread starts to wait for a mutex, every thread of the chain
  that holds it up (the owner of the mutex, the owner of the mutex that one waits for, and so
  on, up to the limit of the loop) gets a priority at least as good as the waiter's. The call
  reports a deadlock exactly when the chain comes back to the waiter. No base priority, owner
  or waiting relation changes, no priority gets worse, none gets better than the waiter's, and
  the scheduler's invariant is kept.
\<close>

theorem prio_inherit_spec:
  assumes "sched_wf s" and "thread_valid s w" and "\<forall>x t. mx_owner (mutexes s x) = Some t \<longrightarrow> thread_valid s t"
    and "wait_mutex (threads s w) = Some m" and "prio_inherit w s = (r, s')"
  shows "sched_wf s' \<and>
    (r = Some EDEADLK \<longleftrightarrow> (\<exists>k \<le> MAXINHERIT. owner_chain s m k = Some w)) \<and>
    (r = Some 0 \<longrightarrow> (\<forall>k \<le> MAXINHERIT. \<forall>t. owner_chain s m k = Some t \<longrightarrow> prio (threads s' t) \<le> prio (threads s' w))) \<and>
    (\<forall>x. wait_mutex (threads s' x) = wait_mutex (threads s x) \<and> baseprio (threads s' x) = baseprio (threads s x) \<and>
       mx_owner (mutexes s' x) = mx_owner (mutexes s x) \<and> prio (threads s' x) \<le> prio (threads s x) \<and>
       (prio (threads s' x) \<noteq> prio (threads s x) \<longrightarrow> prio (threads s' x) = prio (threads s w)))"
proof -
  have l: "prio_inherit_loop (Suc MAXINHERIT) w m s = (r, s')"
    using assms(4,5) unfolding prio_inherit_def by simp
  note q = prio_inherit_loop_spec [OF assms(1-3) l]
  have b: "boosted w s s'" using q by blast
  show ?thesis
    using q b boosted_waiter [OF b] boosted_le [OF b] unfolding less_Suc_eq_le
    by (simp add: EDEADLK_def) (auto simp: boosted_def)
qed

definition demo_mutex :: kstate where
  "demo_mutex = upd_mutex 0x80005000 (\<lambda>x. x\<lparr>mx_magic := MUTEX_MAGIC, mx_owner := Some 0x80002000, mx_locks := 1\<rparr>)
     (upd_thread 0x80003000 (wait_mutex_update (\<lambda>_. Some 0x80005000)) demo_state)"

lemma demo_mutex_proj:
  "sched_wf demo_mutex" "thread_valid demo_mutex = thread_valid demo_state"
  "mutexes demo_mutex x = (if x = 0x80005000 then (mutexes demo_state 0x80005000)\<lparr>mx_magic := MUTEX_MAGIC,
     mx_owner := Some 0x80002000, mx_locks := 1\<rparr> else mutexes demo_state x)"
  "wait_mutex (threads demo_mutex x) = (if x = 0x80003000 then Some 0x80005000 else None)"
  "prio (threads demo_mutex x) = prio (threads demo_state x)"
proof -
  have "sched_same demo_state demo_mutex" by (simp add: sched_same_def demo_mutex_def)
  then show "sched_wf demo_mutex" "thread_valid demo_mutex = thread_valid demo_state"
    using sched_same_wf sched_same_proj(3) demo_wf by blast+
  show "mutexes demo_mutex x = (if x = 0x80005000 then (mutexes demo_state 0x80005000)\<lparr>mx_magic := MUTEX_MAGIC,
     mx_owner := Some 0x80002000, mx_locks := 1\<rparr> else mutexes demo_state x)"
    "prio (threads demo_mutex x) = prio (threads demo_state x)"
    by (simp_all add: demo_mutex_def upd_thread_def)
  show "wait_mutex (threads demo_mutex x) = (if x = 0x80003000 then Some 0x80005000 else None)"
    by (simp add: demo_mutex_def demo_state_def demo_thread_def zero_thread_def)
qed

lemma demo_no_owner: "mx_owner (mutexes demo_state x) = None"
  by (simp add: demo_state_def zero_state_def)

theorem prio_inherit_spec_witness:
  "\<exists>s'. prio_inherit 0x80003000 demo_mutex = (Some 0, s') \<and> prio (threads s' 0x80002000) \<le> prio (threads s' 0x80003000)"
proof -
  obtain r s' where r: "prio_inherit 0x80003000 demo_mutex = (r, s')" by fastforce
  have v: "thread_valid demo_mutex 0x80003000"
    "\<forall>x t. mx_owner (mutexes demo_mutex x) = Some t \<longrightarrow> thread_valid demo_mutex t"
    by (auto simp: demo_mutex_proj demo_valid demo_no_owner)
  have w: "wait_mutex (threads demo_mutex 0x80003000) = Some 0x80005000" by (simp add: demo_mutex_proj)
  have c: "owner_chain demo_mutex 0x80005000 0 = Some 0x80002000"
    by (simp add: demo_mutex_proj)
  have "r = Some 0" using r w
    by (auto simp: prio_inherit_def demo_mutex_proj sched_setprio_threads Let_def demo_proj demo_thread_def split: option.splits)
  then show ?thesis
    using prio_inherit_spec [OF demo_mutex_proj(1) v w r] r c by (metis le0)
qed

section \<open>Locking\<close>

lemma mutex_copyin_valid:
  "copyin_word u s = Some m \<Longrightarrow> m \<noteq> MUTEX_INITIALIZER \<Longrightarrow> mutex_valid s m \<Longrightarrow> mutex_copyin u (sched_lock s) = (Inr m, sched_lock s)"
  by (simp add: mutex_copyin_def mutex_valid_def)

lemma prio_inherit_loop_frame:
  assumes "prio_inherit_loop n w m s = (r, s')"
  shows "cur_thread s' = cur_thread s \<and>
    (\<forall>x. wait_mutex (threads s' x) = wait_mutex (threads s x) \<and> th_mutexes (threads s' x) = th_mutexes (threads s x) \<and>
       mx_owner (mutexes s' x) = mx_owner (mutexes s x) \<and> mx_locks (mutexes s' x) = mx_locks (mutexes s x))"
  using assms
proof (induction n arbitrary: m s)
  case (Suc n)
  show ?case
  proof (cases "mx_owner (mutexes s m)")
    case (Some owner)
    define s1 where "s1 = (if prio (threads s w) < prio (threads s owner)
      then upd_mutex m (mx_prio_update (\<lambda>_. prio (threads s w)))
             (sched_setprio owner (baseprio (threads s owner)) (prio (threads s w)) s) else s)"
    have e: "cur_thread s1 = cur_thread s" "wait_mutex (threads s1 x) = wait_mutex (threads s x)"
      "th_mutexes (threads s1 x) = th_mutexes (threads s x)" "mx_owner (mutexes s1 x) = mx_owner (mutexes s x)"
      "mx_locks (mutexes s1 x) = mx_locks (mutexes s x)" for x
      by (simp_all add: s1_def sched_setprio_threads)
    have st: "prio_inherit_loop (Suc n) w m s = (if owner = w then (Some EDEADLK, s)
        else case wait_mutex (threads s1 owner) of None \<Rightarrow> (Some 0, s1) | Some m' \<Rightarrow> prio_inherit_loop n w m' s1)"
      unfolding prio_inherit_loop.simps Some option.case Let_def s1_def [symmetric] by (rule refl)
    show ?thesis
      using Suc.prems Suc.IH [of _ s1] e unfolding st by (auto split: if_splits option.splits)
  qed (use Suc in auto)
qed auto

lemma prio_inherit_frame:
  assumes "prio_inherit w s = (r, s')"
  shows "cur_thread s' = cur_thread s"
    "wait_mutex (threads s' x) = wait_mutex (threads s x)" "th_mutexes (threads s' x) = th_mutexes (threads s x)"
    "mx_owner (mutexes s' x) = mx_owner (mutexes s x)" "mx_locks (mutexes s' x) = mx_locks (mutexes s x)"
  using assms prio_inherit_loop_frame [of "Suc MAXINHERIT" w _ s r s']
  by (auto simp: prio_inherit_def split: option.splits simp del: prio_inherit_loop.simps)


definition demo_free_mutex :: kstate where
  "demo_free_mutex = upd_mutex 0x80006000 (mx_magic_update (\<lambda>_. MUTEX_MAGIC)) demo_state"


section \<open>Unlocking\<close>

lemma foldl_min_le: "foldl (\<lambda>top m. if f m < top then f m else top) (b :: nat) ms \<le> b"
proof (induction ms arbitrary: b)
  case (Cons m ms)
  show ?case using Cons [of "if f m < b then f m else b"] by (auto split: if_splits)
qed simp

lemma sched_setprio_cur:
  "cur_thread s = th \<Longrightarrow> sleepq (sched_setprio th b p s) = sleepq s"
  by (simp add: sched_setprio_def Let_def)

lemma prio_uninherit_cur:
  assumes "sched_wf s" "thread_valid s th" "cur_thread s = th" "baseprio (threads s th) < NPRIO"
  shows "sched_wf (prio_uninherit th s)" "sleepq (prio_uninherit th s) = sleepq s"
    "cur_thread (prio_uninherit th s) = cur_thread s" "mutexes (prio_uninherit th s) = mutexes s"
    "x \<noteq> th \<Longrightarrow> prio (threads (prio_uninherit th s) x) = prio (threads s x)"
    "th_mutexes (threads (prio_uninherit th s) x) = th_mutexes (threads s x)"
    "th_mutexes (threads s th) = [] \<Longrightarrow> prio (threads (prio_uninherit th s) th) = baseprio (threads s th)"
proof -
  let ?p = "foldl (\<lambda>top m. if mx_prio (mutexes s m) < top then mx_prio (mutexes s m) else top)
                   (baseprio (threads s th)) (th_mutexes (threads s th))"
  have "?p < NPRIO" using assms(4) foldl_min_le [of "\<lambda>m. mx_prio (mutexes s m)"] by (rule le_less_trans [rotated])
  then have "sched_wf (sched_setprio th (baseprio (threads s th)) ?p s)" using sched_setprio_wf [OF assms(1,2)] by blast
  then show "sched_wf (prio_uninherit th s)" using assms(1) by (simp add: prio_uninherit_def Let_def)
qed (simp_all add: prio_uninherit_def Let_def sched_setprio_threads sched_setprio_cur assms(3))

lemma mutex_unlock_last:
  assumes "copyin_word u s = Some m" "m \<noteq> MUTEX_INITIALIZER" "mutex_valid s m"
    and "mx_owner (mutexes s m) = Some (cur_thread s)" "mx_locks (mutexes s m) = 1"
  shows "mutex_unlock u s = (0, sched_unlock (mutex_handover m (prio_uninherit (cur_thread s)
     (upd_cur (th_mutexes_update (remove1 m)) (upd_mutex m (mx_locks_update (\<lambda>n. n - 1)) (sched_lock s))))))"
  using assms by (simp add: mutex_unlock_def mutex_unlock_count_def mutex_copyin_valid Let_def)

lemma sched_same_mutexes [simp]: "sched_same s (upd_thread th (th_mutexes_update f) s)"
  "sched_same s (upd_thread th (wait_mutex_update g) s)"
  by (simp_all add: sched_same_def)

lemma sched_wf_mutexes [simp]: "sched_wf (upd_thread th (th_mutexes_update f) s) = sched_wf s"
  "sched_wf (upd_thread th (wait_mutex_update g) s) = sched_wf s"
  by (rule sched_same_wf, simp)+

lemma mutex_handover_spec:
  assumes "sched_wf s"
  shows "sched_wf (mutex_handover m s)"
    "sleepq s (MutexEvent m) = [] \<Longrightarrow> mx_owner (mutexes (mutex_handover m s) m) = None"
    "sleepq s (MutexEvent m) \<noteq> [] \<Longrightarrow> \<exists>us th vs. sleepq s (MutexEvent m) = us @ th # vs \<and>
       (\<forall>x \<in> set us. prio (threads s th) < prio (threads s x)) \<and>
       (\<forall>y \<in> set vs. prio (threads s th) \<le> prio (threads s y)) \<and>
       mx_owner (mutexes (mutex_handover m s) m) = Some th \<and> wait_mutex (threads (mutex_handover m s) th) = None \<and>
       slpret (threads (mutex_handover m s) th) = 0 \<and> sleepq (mutex_handover m s) = (sleepq s)(MutexEvent m := us @ vs)"
    "th_mutexes (threads (mutex_handover m s) x) = th_mutexes (threads s x)"
    "prio (threads (mutex_handover m s) x) = prio (threads s x)"
proof -
  obtain r w where w: "sched_wakeone (MutexEvent m) s = (r, w)" by fastforce
  have wf: "sched_wf w" using sched_wakeone_wf [OF assms, of "MutexEvent m"] w by simp
  have k: "k_rest w = k_rest s" using sched_ops_rest(4) [of "MutexEvent m" s] w by simp
  note t = th_own_eqD [OF k_rest_threads [OF k]]
  show "sched_wf (mutex_handover m s)" using w wf by (auto simp: mutex_handover_def Let_def split: option.splits)
  show "th_mutexes (threads (mutex_handover m s) x) = th_mutexes (threads s x)"
    "prio (threads (mutex_handover m s) x) = prio (threads s x)"
    using w t by (auto simp: mutex_handover_def Let_def split: option.splits)
  show "mx_owner (mutexes (mutex_handover m s) m) = None" if "sleepq s (MutexEvent m) = []"
    using w sched_wakeone_none [OF that] by (auto simp: mutex_handover_def)
  assume ne: "sleepq s (MutexEvent m) \<noteq> []"
  obtain us th vs where q: "r = Some th" "sleepq s (MutexEvent m) = us @ th # vs"
    "\<forall>x \<in> set us. prio (threads s th) < prio (threads s x)" "\<forall>y \<in> set vs. prio (threads s th) \<le> prio (threads s y)"
    "sleepq w = (sleepq s)(MutexEvent m := us @ vs)" "slpret (threads w th) = 0"
    using sched_wakeone_first [OF assms ne w] by blast
  have "mx_owner (mutexes (mutex_handover m s) m) = Some th" "wait_mutex (threads (mutex_handover m s) th) = None"
    "slpret (threads (mutex_handover m s) th) = 0" "sleepq (mutex_handover m s) = sleepq w"
    using w q(1,6) by (simp_all add: mutex_handover_def Let_def)
  then show "\<exists>us th vs. sleepq s (MutexEvent m) = us @ th # vs \<and>
       (\<forall>x \<in> set us. prio (threads s th) < prio (threads s x)) \<and>
       (\<forall>y \<in> set vs. prio (threads s th) \<le> prio (threads s y)) \<and>
       mx_owner (mutexes (mutex_handover m s) m) = Some th \<and> wait_mutex (threads (mutex_handover m s) th) = None \<and>
       slpret (threads (mutex_handover m s) th) = 0 \<and> sleepq (mutex_handover m s) = (sleepq s)(MutexEvent m := us @ vs)"
    using q(2-5) by metis
qed


definition demo_held_mutex :: kstate where
  "demo_held_mutex = upd_thread 0x80002000 (th_mutexes_update (\<lambda>_. [0x80006000]))
     (upd_mutex 0x80006000 (\<lambda>_. \<lparr>mx_magic = MUTEX_MAGIC, mx_task = 0x80000200, mx_owner = Some 0x80002000,
        mx_prio = 200, mx_locks = 1\<rparr>) demo_state)"


section \<open>Two consequences of the order of the updates\<close>

text \<open>
  \<open>mutex_setprio\<close> is called with the new priority of a waiting thread, but the loop reads the
  priority the thread still has: an owner that is already at the old priority is not raised to the new one.
\<close>

lemma mutex_setprio_uses_old_priority:
  assumes "wait_mutex (threads s th) = Some m" "mx_owner (mutexes s m) = Some t" "t \<noteq> th"
    and "wait_mutex (threads s t) = None" "prio (threads s t) \<le> prio (threads s th)"
  shows "mutex_setprio th p s = (Some 0, s)"
  using assms prio_inherit_loop.simps(2) [of 10 th m s]
  by (simp add: mutex_setprio_def prio_inherit_def MAXINHERIT_def Let_def)

text \<open>
  A thread whose wait was interrupted keeps its \<open>mutex_waiting\<close> until it runs again. When the mutex
  has been freed in the meantime, the next thread that waits for something it owns makes the loop read
  through a null owner (the outcome \<open>None\<close>).
\<close>

lemma prio_inherit_null_owner:
  assumes "wait_mutex (threads s w) = Some m" "mx_owner (mutexes s m) = Some t" "t \<noteq> w"
    and "wait_mutex (threads s t) = Some m'" "mx_owner (mutexes s m') = None"
  shows "fst (prio_inherit w s) = None"
  using assms prio_inherit_loop.simps(2) [of 10 w m s] prio_inherit_loop.simps(2) [of 9 w m']
  by (cases "m' = m") (simp_all add: prio_inherit_def MAXINHERIT_def Let_def sched_setprio_threads)

end
