(* ===== verification/Cond.thy ===== *)
theory Cond
  imports Mutex
begin

text \<open>
  Condition variables, \<^verbatim>\<open>sys/sync/cond.c\<close>. A wait is three steps, cut where the caller sleeps:
  the call itself (\<open>cond_wait\<close>), what runs when the sleep ends (\<open>cond_wait_resume\<close>) and, when the
  mutex is then held by someone else, what runs when it has been handed over (\<open>cond_wait_relock\<close>).
\<close>

section \<open>The operations\<close>

definition COND_INITIALIZER :: nat where "COND_INITIALIZER = 0x43496e69"

definition cond_valid :: "kstate \<Rightarrow> nat \<Rightarrow> bool" where
  "cond_valid s c = (kern_area c \<and> cv_magic (conds s c) = COND_MAGIC)"

definition cond_init :: "vaddr \<Rightarrow> kstate \<Rightarrow> errno \<times> kstate" where
  "cond_init cnd s =
     (case kmem_alloc_block s of
        (None, s1) \<Rightarrow> (ENOMEM, s1)
      | (Some c, s1) \<Rightarrow>
          let s2 = event_init (CondEvent c) s1;
              s3 = upd_cond c (\<lambda>_. \<lparr>cv_magic = COND_MAGIC, cv_task = cur_task_ptr s2, cv_wait = 0, cv_signal = 0\<rparr>) s2
          in case copyout_word c cnd s3 of
               (e, s4) \<Rightarrow> if e \<noteq> 0 then (EFAULT, kmem_free_block c s4) else (0, s4))"

definition cond_copyin :: "vaddr \<Rightarrow> kstate \<Rightarrow> errno + nat" where
  "cond_copyin ucond s =
     (case copyin_word ucond s of
        None \<Rightarrow> Inl EFAULT
      | Some c \<Rightarrow> if \<not> cond_valid s c then Inl EINVAL else Inr c)"

definition cond_destroy :: "vaddr \<Rightarrow> kstate \<Rightarrow> errno \<times> kstate" where
  "cond_destroy cnd s =
     (let s1 = sched_lock s
      in case cond_copyin cnd s1 of
           Inl err \<Rightarrow> (err, sched_unlock s1)
         | Inr c \<Rightarrow>
             if event_waiting (CondEvent c) s1 then (EBUSY, sched_unlock s1)
             else (0, sched_unlock (kmem_free_block c (upd_cond c (cv_magic_update (\<lambda>_. 0)) s1))))"

text \<open>The first part of \<^verbatim>\<open>cond_wait\<close>: a statically initialised variable is created at its first use.\<close>

definition cond_wait_copyin :: "vaddr \<Rightarrow> nat \<Rightarrow> kstate \<Rightarrow> (errno + nat) \<times> kstate" where
  "cond_wait_copyin cnd c s =
     (if c = COND_INITIALIZER
      then (case cond_init cnd s of
              (err, s1) \<Rightarrow>
                if err \<noteq> 0 then (Inl err, s1)
                else (Inr (case copyin_word cnd s1 of None \<Rightarrow> c | Some c' \<Rightarrow> c'), s1))
      else if \<not> cond_valid s c then (Inl EINVAL, s)
      else (Inr c, s))"

text \<open>
  A mutex that was locked more than once is locked again by its owner, which cannot block, and
  the call fails.
\<close>

definition cond_wait :: "vaddr \<Rightarrow> vaddr \<Rightarrow> u32 \<Rightarrow> kstate \<Rightarrow> sysres \<times> kstate" where
  "cond_wait cnd mtx timeout s =
     (case copyin_word cnd s of
        None \<Rightarrow> (Done EFAULT, s)
      | Some c0 \<Rightarrow>
          (case cond_wait_copyin cnd c0 (sched_lock s) of
             (Inl err, s1) \<Rightarrow> (Done err, sched_unlock s1)
           | (Inr c, s1) \<Rightarrow>
               (case mutex_unlock_count mtx (upd_cond c (cv_wait_update (\<lambda>n. n + 1)) s1) of
                  (err, s2) \<Rightarrow>
                    if err < 0 then (Done EDEADLK, sched_unlock (snd (mutex_lock mtx s2)))
                    else if err \<noteq> 0 then (Done err, sched_unlock s2)
                    else (Sleeping, sched_tsleep (CondEvent c) timeout s2))))"

text \<open>What follows the relocking of the mutex; \<open>rc\<close> and \<open>err\<close> are the locals of the source.\<close>

definition cond_wait_end :: "nat \<Rightarrow> int \<Rightarrow> errno \<Rightarrow> kstate \<Rightarrow> sysres \<times> kstate" where
  "cond_wait_end c rc err s =
     (let s1 = upd_cond c (cv_wait_update (\<lambda>n. n - 1)) s
      in if err = 0
         then if cv_signal (conds s1 c) \<noteq> 0
              then (Done 0, sched_unlock (upd_cond c (cv_signal_update (\<lambda>n. n - 1)) s1))
              else (Done (if rc = SLP_TIMEOUT then ETIMEDOUT else if rc = SLP_INTR then EINTR else EINVAL), sched_unlock s1)
         else (Done err, sched_unlock s1))"

definition cond_wait_resume :: "nat \<Rightarrow> vaddr \<Rightarrow> kstate \<Rightarrow> sysres \<times> kstate" where
  "cond_wait_resume c mtx s =
     (case sched_tsleep_ret s of
        (rc, s1) \<Rightarrow>
          (case mutex_lock mtx s1 of
             (Done err, s2) \<Rightarrow> cond_wait_end c rc err s2
           | (r, s2) \<Rightarrow> (r, s2)))"

definition cond_wait_relock :: "nat \<Rightarrow> int \<Rightarrow> nat \<Rightarrow> kstate \<Rightarrow> sysres \<times> kstate" where
  "cond_wait_relock c rc m s =
     (case mutex_lock_resume m s of
        (Done err, s1) \<Rightarrow> cond_wait_end c rc err s1
      | (r, s1) \<Rightarrow> (r, s1))"

definition cond_signal :: "vaddr \<Rightarrow> kstate \<Rightarrow> errno \<times> kstate" where
  "cond_signal cnd s =
     (let s1 = sched_lock s
      in case cond_copyin cnd s1 of
           Inl err \<Rightarrow> (err, sched_unlock s1)
         | Inr c \<Rightarrow>
             if cv_signal (conds s1 c) < cv_wait (conds s1 c)
             then (0, sched_unlock (snd (sched_wakeone (CondEvent c) (upd_cond c (cv_signal_update (\<lambda>n. n + 1)) s1))))
             else (0, sched_unlock s1))"

definition cond_broadcast :: "vaddr \<Rightarrow> kstate \<Rightarrow> errno \<times> kstate" where
  "cond_broadcast cnd s =
     (let s1 = sched_lock s
      in case cond_copyin cnd s1 of
           Inl err \<Rightarrow> (err, sched_unlock s1)
         | Inr c \<Rightarrow>
             if cv_signal (conds s1 c) < cv_wait (conds s1 c)
             then (0, sched_unlock (sched_wakeup (CondEvent c) (upd_cond c (\<lambda>v. v\<lparr>cv_signal := cv_wait v\<rparr>) s1)))
             else (0, sched_unlock s1))"

section \<open>Frames\<close>

lemma cond_copyin_lock [simp]: "cond_copyin u (sched_lock s) = cond_copyin u s" "cond_valid (sched_lock s) c = cond_valid s c"
  by (simp_all add: cond_copyin_def cond_valid_def split: option.split)

lemma conds_umem [simp]: "conds (snd (copyout_word v a s)) = conds s"
  by (rule mem_onlyD) simp

lemma conds_sched [simp]:
  "conds (sched_unlock s) = conds s" "conds (sched_tsleep e ms s) = conds s" "conds (snd (sched_tsleep_ret s)) = conds s"
  "conds (snd (sched_wakeone e s)) = conds s" "conds (sched_wakeup e s) = conds s"
  by (simp_all add: kproj)

lemma conds_prio_inherit [simp]: "conds (snd (prio_inherit w s)) = conds s" "conds (prio_uninherit th s) = conds s"
proof -
  have "conds (snd (prio_inherit_loop n w m s)) = conds s" for n m
    by (induction n arbitrary: m s) (simp_all add: Let_def split: option.split)
  then show "conds (snd (prio_inherit w s)) = conds s" by (simp add: prio_inherit_def del: prio_inherit_loop.simps split: option.split)
  show "conds (prio_uninherit th s) = conds s" by (simp add: prio_uninherit_def Let_def)
qed

lemma conds_mutex [simp]:
  "conds (snd (mutex_copyin u s)) = conds s" "conds (snd (mutex_lock u s)) = conds s"
  "conds (snd (mutex_unlock_count u s)) = conds s" "conds (snd (mutex_lock_resume m s)) = conds s"
proof -
  have i: "conds (snd (mutex_init u s)) = conds s" for s
    by (simp add: mutex_init_def case_prod_beta Let_def split: option.split)
  then show c: "conds (snd (mutex_copyin u s)) = conds s" for s
    by (simp add: mutex_copyin_def case_prod_beta split: option.split)
  show "conds (snd (mutex_lock u s)) = conds s"
    using c [of "sched_lock s"] by (simp add: mutex_lock_def case_prod_beta mutex_take_def Let_def split: sum.split option.split)
  have "conds (mutex_handover m s) = conds s" for m s
    by (simp add: mutex_handover_def case_prod_beta Let_def split: option.split)
  then show "conds (snd (mutex_unlock_count u s)) = conds s"
    using c [of "sched_lock s"] by (simp add: mutex_unlock_count_def case_prod_beta Let_def split: sum.split)
  show "conds (snd (mutex_lock_resume m s)) = conds s"
    by (simp add: mutex_lock_resume_def case_prod_beta mutex_take_def Let_def)
qed

section \<open>The counters\<close>

text \<open>What each call does to the counters of the variable \<open>c\<close>.\<close>

lemma cond_wait_conds:
  assumes "copyin_word u s = Some d" "d \<noteq> COND_INITIALIZER" "cond_wait u m t s = (r, s')"
  shows "conds s' c = (if d = c \<and> cond_valid s c then (conds s c)\<lparr>cv_wait := cv_wait (conds s c) + 1\<rparr> else conds s c)"
    "r = Sleeping \<Longrightarrow> cond_valid s d"
  using assms conds_mutex(3) [of m "upd_cond d (cv_wait_update (\<lambda>n. n + 1)) (sched_lock s)"]
  by (auto simp: cond_wait_def cond_wait_copyin_def case_prod_beta split: if_splits)

lemma cond_wait_end_conds:
  "conds (snd (cond_wait_end c rc 0 s)) c =
     (conds s c)\<lparr>cv_wait := cv_wait (conds s c) - 1,
        cv_signal := (if cv_signal (conds s c) = 0 then 0 else cv_signal (conds s c) - 1)\<rparr>"
  by (simp add: cond_wait_end_def Let_def)

lemma cond_signal_conds:
  "conds (snd (cond_signal u s)) c =
     (if cond_copyin u s = Inr c \<and> cv_signal (conds s c) < cv_wait (conds s c)
      then (conds s c)\<lparr>cv_signal := cv_signal (conds s c) + 1\<rparr> else conds s c)"
  "conds (snd (cond_broadcast u s)) c =
     (if cond_copyin u s = Inr c \<and> cv_signal (conds s c) < cv_wait (conds s c)
      then (conds s c)\<lparr>cv_signal := cv_wait (conds s c)\<rparr> else conds s c)"
  by (auto simp: cond_signal_def cond_broadcast_def Let_def split: sum.split)

text \<open>
  The life of one condition variable: \<open>n\<close> calls of \<^verbatim>\<open>cond_wait\<close> are under way, every other activity
  of the kernel that leaves the variable alone may come in between, and every waiter that wakes gets
  its mutex back.
\<close>

inductive cond_run :: "nat \<Rightarrow> nat \<Rightarrow> kstate \<Rightarrow> bool" for c where
  init: "fst (kmem_alloc_block s) = Some c \<Longrightarrow> cond_init u s = (0, s') \<Longrightarrow> cond_run c 0 s'"
| wait: "cond_run c n s \<Longrightarrow> copyin_word u s = Some d \<Longrightarrow> d \<noteq> COND_INITIALIZER \<Longrightarrow> cond_wait u m t s = (r, s') \<Longrightarrow>
    cond_run c (if d = c \<and> r = Sleeping then Suc n else n) s'"
| resume: "cond_run c (Suc n) s \<Longrightarrow> fst (mutex_lock m (snd (sched_tsleep_ret s))) = Done 0 \<Longrightarrow>
    cond_wait_resume c m s = (r, s') \<Longrightarrow> cond_run c n s'"
| resume_blocked: "cond_run c n s \<Longrightarrow> fst (mutex_lock m (snd (sched_tsleep_ret s))) = Sleeping \<Longrightarrow>
    cond_wait_resume d m s = (r, s') \<Longrightarrow> cond_run c n s'"
| relock: "cond_run c (Suc n) s \<Longrightarrow> fst (mutex_lock_resume m s) = Done 0 \<Longrightarrow>
    cond_wait_relock c rc m s = (r, s') \<Longrightarrow> cond_run c n s'"
| signal: "cond_run c n s \<Longrightarrow> cond_signal u s = (e, s') \<Longrightarrow> cond_run c n s'"
| broadcast: "cond_run c n s \<Longrightarrow> cond_broadcast u s = (e, s') \<Longrightarrow> cond_run c n s'"
| other: "cond_run c n s \<Longrightarrow> conds s' c = conds s c \<Longrightarrow> cond_run c n s'"

definition cond_counts :: "nat \<Rightarrow> cond \<Rightarrow> bool" where
  "cond_counts n v = (0 \<le> cv_signal v \<and> cv_signal v \<le> cv_wait v \<and> int n \<le> cv_wait v)"

lemma cond_counts_end:
  "cond_counts (Suc n) (conds s c) \<Longrightarrow> cond_counts n (conds (snd (cond_wait_end c rc 0 s)) c)"
  by (simp add: cond_wait_end_conds) (auto simp: cond_counts_def)



text \<open>
  The condition on the mutex is needed: a woken waiter whose relocking fails leaves the signal it was
  woken by, and the assertion fails at the next wait.
\<close>

lemma cond_wait_relock_failure:
  "err \<noteq> 0 \<Longrightarrow> cv_signal (conds s c) = cv_wait (conds s c) \<Longrightarrow>
   cv_wait (conds (snd (cond_wait_end c rc err s)) c) < cv_signal (conds (snd (cond_wait_end c rc err s)) c)"
  by (simp add: cond_wait_end_def Let_def)

text \<open>A wait that fails because of its mutex stays counted as a waiter.\<close>

lemma cond_wait_error_counted:
  assumes "copyin_word u s = Some c" "c \<noteq> COND_INITIALIZER" "cond_valid s c" "cond_wait u m t s = (Done e, s')"
  shows "cv_wait (conds s' c) = cv_wait (conds s c) + 1"
  using cond_wait_conds(1) [OF assms(1,2,4), of c] assms(3) by simp

section \<open>Releasing the mutex and sleeping are one step\<close>

lemma mutex_unlock_count_last:
  assumes "copyin_word u s = Some m" "m \<noteq> MUTEX_INITIALIZER" "mutex_valid s m"
    and "mx_owner (mutexes s m) = Some (cur_thread s)" "mx_locks (mutexes s m) = 1"
  shows "mutex_unlock_count u s = (0, sched_unlock (mutex_handover m (prio_uninherit (cur_thread s)
     (upd_cur (th_mutexes_update (remove1 m)) (upd_mutex m (mx_locks_update (\<lambda>n. n - 1)) (sched_lock s))))))"
  using assms by (simp add: mutex_unlock_count_def mutex_copyin_valid Let_def)

lemma mutex_handover_nested:
  assumes "1 \<le> locks (cur s)"
  shows "cur_thread (mutex_handover m s) = cur_thread s" "locks (threads (mutex_handover m s) x) = locks (threads s x)"
    "state (threads (mutex_handover m s) x) = state (threads s x)"
    "thread_valid (mutex_handover m s) = thread_valid s" "idle_thread (mutex_handover m s) = idle_thread s"
proof -
  obtain r w where w: "sched_wakeone (MutexEvent m) s = (r, w)" by fastforce
  have k: "k_rest w = k_rest s" using sched_ops_rest(4) [of "MutexEvent m" s] w by simp
  note n = sched_wakeone_nested [OF assms, of "MutexEvent m"]
  show "cur_thread (mutex_handover m s) = cur_thread s" "locks (threads (mutex_handover m s) x) = locks (threads s x)"
    "state (threads (mutex_handover m s) x) = state (threads s x)" "idle_thread (mutex_handover m s) = idle_thread s"
    using w n k_restD [OF k] by (auto simp: mutex_handover_def Let_def split: option.splits)
  have "thread_valid w = thread_valid s" by (rule thread_valid_rest [OF k])
  then show "thread_valid (mutex_handover m s) = thread_valid s"
    using w by (auto simp: mutex_handover_def Let_def thread_valid_def fun_eq_iff split: option.splits)
qed

lemma mutex_handover_to:
  assumes "sched_wf s"
  shows "e \<noteq> MutexEvent m \<Longrightarrow> sleepq (mutex_handover m s) e = sleepq s e"
    "mx_owner (mutexes (mutex_handover m s) m) = Some th \<Longrightarrow> th \<in> set (sleepq s (MutexEvent m))"
proof (atomize (full), cases "sleepq s (MutexEvent m) = []")
  case True
  then have "sleepq (mutex_handover m s) = sleepq s"
    using sched_wakeone_none [OF True] by (simp add: mutex_handover_def kproj)
  then show "(e \<noteq> MutexEvent m \<longrightarrow> sleepq (mutex_handover m s) e = sleepq s e) \<and>
    (mx_owner (mutexes (mutex_handover m s) m) = Some th \<longrightarrow> th \<in> set (sleepq s (MutexEvent m)))"
    using mutex_handover_spec(2) [OF assms True] by simp
next
  case False
  obtain us t vs where "sleepq s (MutexEvent m) = us @ t # vs" "mx_owner (mutexes (mutex_handover m s) m) = Some t"
    "sleepq (mutex_handover m s) = (sleepq s)(MutexEvent m := us @ vs)"
    using mutex_handover_spec(3) [OF assms False] by blast
  then show "(e \<noteq> MutexEvent m \<longrightarrow> sleepq (mutex_handover m s) e = sleepq s e) \<and>
    (mx_owner (mutexes (mutex_handover m s) m) = Some th \<longrightarrow> th \<in> set (sleepq s (MutexEvent m)))"
    by simp
qed

lemma prio_uninherit_nested:
  "locks (threads (prio_uninherit th s) x) = locks (threads s x)" "state (threads (prio_uninherit th s) x) = state (threads s x)"
  "thread_valid (prio_uninherit th s) = thread_valid s" "idle_thread (prio_uninherit th s) = idle_thread s"
  by (simp_all add: prio_uninherit_def Let_def sched_setprio_threads)


definition demo_cond :: kstate where
  "demo_cond = upd_thread 0x80002000 (th_mutexes_update (\<lambda>_. [0x80005000]))
     (upd_mutex 0x80005000 (\<lambda>_. \<lparr>mx_magic = MUTEX_MAGIC, mx_task = 0x80000200, mx_owner = Some 0x80002000,
        mx_prio = 200, mx_locks = 1\<rparr>)
       (upd_cond 0x80006000 (\<lambda>_. \<lparr>cv_magic = COND_MAGIC, cv_task = 0x80000200, cv_wait = 0, cv_signal = 0\<rparr>) demo_state))"


end
