(* ===== verification/Context.thy ===== *)
theory Context
  imports Access
begin

text \<open>
  Processor contexts, \<^verbatim>\<open>sys/arch/i386/i386/context.c\<close>. The trap frame of a thread lies at the top of
  its kernel stack; \<open>uframe\<close> is its contents. \<^verbatim>\<open>context_save\<close> and \<^verbatim>\<open>context_restore\<close> move the frame
  to and from the user stack with plain C assignments: the addresses are not checked, and a page
  fault there is a fault of the kernel, which panics. The bytes go through the page tables in
  force, as every access of the processor does.
\<close>

section \<open>The operations\<close>

definition USER_CS :: u32 where "USER_CS = 0x20"
definition USER_DS :: u32 where "USER_DS = 0x28"
definition KERNEL_CS :: u32 where "KERNEL_CS = 0x10"
definition EFL_IF :: u32 where "EFL_IF = 0x200"
definition EFL_IOPL_KERN :: u32 where "EFL_IOPL_KERN = 0"

definition REGS_SIZE :: nat where "REGS_SIZE = 64"

definition sub32 :: "nat \<Rightarrow> nat \<Rightarrow> nat" where
  "sub32 a b = (a + (2 ^ 32 - b mod 2 ^ 32)) mod 2 ^ 32"

datatype ctx_req =
    CTX_KSTACK nat | CTX_KENTRY kentry | CTX_KARG nat | CTX_USTACK nat | CTX_UENTRY nat | CTX_UARG nat

definition upd_ctx :: "tid \<Rightarrow> (cpu_context \<Rightarrow> cpu_context) \<Rightarrow> kstate \<Rightarrow> kstate" where
  "upd_ctx th f s = upd_thread th (ctx_update f) s"

definition kstack_frame :: "cpu_regs \<Rightarrow> cpu_regs" where
  "kstack_frame u = u\<lparr>u_eax := 0, u_eflags := EFL_IF OR EFL_IOPL_KERN\<rparr>"

definition uentry_frame :: "nat \<Rightarrow> cpu_regs \<Rightarrow> cpu_regs" where
  "uentry_frame val u =
     u\<lparr>u_eip := word_of_nat val, u_cs := USER_CS OR 3, u_ds := USER_DS OR 3, u_es := USER_DS OR 3,
       u_eflags := EFL_IF OR EFL_IOPL_KERN, u_eax := 0x12345678, u_ebx := 0x12345678, u_ecx := 0x12345678,
       u_edx := 0x12345678, u_edi := 0x12345678, u_esi := 0x12345678, u_ebp := 0x12345678\<rparr>"

fun context_set :: "tid \<Rightarrow> ctx_req \<Rightarrow> kstate \<Rightarrow> kstate" where
  "context_set th (CTX_KSTACK val) s =
     upd_ctx th (\<lambda>c. let u = sub32 val REGS_SIZE
        in c\<lparr>uregs := u, esp0 := val, k_eip := SyscallRet, k_esp := sub32 u 4, uframe := kstack_frame (uframe c)\<rparr>) s"
| "context_set th (CTX_KENTRY e) s = upd_ctx th (k_eip_update (\<lambda>_. e)) s"
| "context_set th (CTX_KARG val) s = upd_ctx th (k_arg_update (\<lambda>_. val)) s"
| "context_set th (CTX_USTACK val) s =
     upd_ctx th (uframe_update (\<lambda>u. u\<lparr>u_esp := word_of_nat val, u_ss := USER_DS OR 3\<rparr>)) s"
| "context_set th (CTX_UENTRY val) s = upd_ctx th (uframe_update (uentry_frame val)) s"
| "context_set th (CTX_UARG val) s =
     snd (umem_copyout (le32 val) ((unat (u_esp (uframe (ctx (threads s th)))) + 4) mod 2 ^ 32) s)"

text \<open>The frame as the sixteen words of \<^verbatim>\<open>struct cpu_regs\<close> in memory.\<close>

definition regs_words :: "cpu_regs \<Rightarrow> u32 list" where
  "regs_words u = [u_ebx u, u_ecx u, u_edx u, u_esi u, u_edi u, u_ebp u, u_eax u, u_ds u, u_es u, u_trap_no u,
     u_err_code u, u_eip u, u_cs u, u_eflags u, u_esp u, u_ss u]"

definition regs_bytes :: "cpu_regs \<Rightarrow> nat list" where
  "regs_bytes u = concat (map (\<lambda>w. le32 (unat w)) (regs_words u))"

definition word_at :: "nat list \<Rightarrow> nat \<Rightarrow> u32" where
  "word_at bs i = word_of_nat (of_le32 (take 4 (drop (4 * i) bs)))"

definition bytes_regs :: "nat list \<Rightarrow> cpu_regs" where
  "bytes_regs bs = \<lparr>u_ebx = word_at bs 0, u_ecx = word_at bs 1, u_edx = word_at bs 2, u_esi = word_at bs 3,
     u_edi = word_at bs 4, u_ebp = word_at bs 5, u_eax = word_at bs 6, u_ds = word_at bs 7, u_es = word_at bs 8,
     u_trap_no = word_at bs 9, u_err_code = word_at bs 10, u_eip = word_at bs 11, u_cs = word_at bs 12,
     u_eflags = word_at bs 13, u_esp = word_at bs 14, u_ss = word_at bs 15\<rparr>"

text \<open>
  \<open>None\<close>: the store or the load faults in the kernel. The new stack pointer is
  \<^verbatim>\<open>sav - (sizeof(uint32_t) * 2)\<close> in units of \<^verbatim>\<open>struct cpu_regs\<close>, 512 bytes below the saved frame.
\<close>

definition context_save :: "tid \<Rightarrow> kstate \<Rightarrow> kstate option" where
  "context_save th s =
     (let u = uframe (ctx (threads s th));
          sav = sub32 (unat (u_esp u)) REGS_SIZE
      in case uwrite (regs_bytes u) sav s of
           (False, s1) \<Rightarrow> None
         | (True, s1) \<Rightarrow>
             Some (upd_ctx th (\<lambda>c. c\<lparr>saved_regs := sav,
               uframe := (uframe c)\<lparr>u_esp := word_of_nat (sub32 sav (8 * REGS_SIZE))\<rparr>\<rparr>) s1))"

definition restore_frame :: "cpu_regs \<Rightarrow> cpu_regs" where
  "restore_frame u =
     u\<lparr>u_cs := USER_CS OR 3, u_ss := USER_DS OR 3, u_ds := USER_DS OR 3, u_es := USER_DS OR 3,
       u_eflags := u_eflags u OR EFL_IF\<rparr>"

definition context_restore :: "tid \<Rightarrow> kstate \<Rightarrow> kstate option" where
  "context_restore th s =
     (let bs = uread s (saved_regs (ctx (threads s th))) REGS_SIZE
      in if length bs < REGS_SIZE then None
         else Some (upd_ctx th (uframe_update (\<lambda>_. restore_frame (bytes_regs bs))) s))"

section \<open>The frame in memory\<close>

lemma length_words_bytes: "length (concat (map (\<lambda>w. le32 (unat (w :: u32))) ws)) = 4 * length ws"
  by (induction ws) simp_all

lemma length_regs_bytes [simp]: "length (regs_bytes u) = REGS_SIZE"
  by (simp add: regs_bytes_def length_words_bytes regs_words_def REGS_SIZE_def)

lemma word_at_words:
  "i < length ws \<Longrightarrow> word_at (concat (map (\<lambda>w. le32 (unat w)) ws)) i = ws ! i"
proof (induction ws arbitrary: i)
  case (Cons w ws)
  have "unat w < 2 ^ 32" using unsigned_less [of w, where 'a = nat] by simp
  then have "unat w mod 2 ^ 32 = unat w" by (rule mod_less)
  then show ?case using Cons by (cases i) (simp_all add: word_at_def)
qed simp

lemma bytes_regs_bytes [simp]: "bytes_regs (regs_bytes u) = u"
proof -
  have "word_at (regs_bytes u) i = regs_words u ! i" if "i < 16" for i
    unfolding regs_bytes_def by (rule word_at_words) (use that in \<open>simp add: regs_words_def\<close>)
  then have "bytes_regs (regs_bytes u) = \<lparr>u_ebx = regs_words u ! 0, u_ecx = regs_words u ! 1, u_edx = regs_words u ! 2,
      u_esi = regs_words u ! 3, u_edi = regs_words u ! 4, u_ebp = regs_words u ! 5, u_eax = regs_words u ! 6,
      u_ds = regs_words u ! 7, u_es = regs_words u ! 8, u_trap_no = regs_words u ! 9, u_err_code = regs_words u ! 10,
      u_eip = regs_words u ! 11, u_cs = regs_words u ! 12, u_eflags = regs_words u ! 13, u_esp = regs_words u ! 14,
      u_ss = regs_words u ! 15\<rparr>"
    by (simp add: bytes_regs_def)
  also have "\<dots> = u" by (simp add: regs_words_def)
  finally show ?thesis .
qed

text \<open>A frame of user mode is what the processor can have pushed there: the user segments, interrupts enabled.\<close>

definition user_frame :: "cpu_regs \<Rightarrow> bool" where
  "user_frame u = (u_cs u = USER_CS OR 3 \<and> u_ss u = USER_DS OR 3 \<and> u_ds u = USER_DS OR 3 \<and> u_es u = USER_DS OR 3 \<and>
     u_eflags u AND EFL_IF = EFL_IF)"

lemma restore_user_frame: "user_frame u \<Longrightarrow> restore_frame u = u"
proof -
  assume u: "user_frame u"
  have "x OR y = x" if "x AND y = y" for x y :: u32
    by (rule bit_word_eqI) (use that in \<open>metis bit_and_iff bit_or_iff\<close>)
  then show ?thesis using u by (cases u) (simp add: user_frame_def restore_frame_def)
qed

end
