(* ===== verification/Exception.thy ===== *)
theory Exception
  imports Context
begin

text \<open>
  Exceptions (signals) between tasks, \<^verbatim>\<open>sys/kern/exception.c\<close>: installing a handler, raising and waiting.
  Delivery to the handler, which may terminate the task, is in \<open>Deliver\<close>.
\<close>

section \<open>The operations\<close>

definition SIGALRM :: int where "SIGALRM = 14"

definition setup_thread :: "tid \<Rightarrow> kstate \<Rightarrow> kstate" where
  "setup_thread th s0 =
     (let s1 = irq_unlock (upd_thread th (excbits_update (\<lambda>_. 0)) (irq_lock s0))
      in if slpevt (threads s1 th) = Some ExceptionEvent then sched_unsleep th SLP_BREAK s1 else s1)"

definition exception_setup :: "nat \<Rightarrow> kstate \<Rightarrow> sysres \<times> kstate" where
  "exception_setup h s0 =
     (let self = cur_task_ptr s0
      in if h \<noteq> 0 \<and> \<not> user_area h then (Done EFAULT, s0)
         else let s1 = sched_lock s0;
                  s2 = (if handler (tasks s1 self) \<noteq> None \<and> h = 0
                        then fold setup_thread (tk_threads (tasks s1 self)) s1 else s1);
                  s3 = upd_task self (handler_update (\<lambda>_. if h = 0 then None else Some h)) s2
              in (Done 0, sched_unlock s3))"

text \<open>The thread that takes the exception: the first that waits for one, else the first of the task.\<close>

definition exc_target :: "task_t \<Rightarrow> kstate \<Rightarrow> tid option" where
  "exc_target t s =
     (let ths = tk_threads (tasks s t)
      in case filter (\<lambda>th. slpevt (threads s th) = Some ExceptionEvent) ths of
           th # _ \<Rightarrow> Some th
         | [] \<Rightarrow> (case ths of [] \<Rightarrow> None | th # _ \<Rightarrow> Some th))"

text \<open>\<open>Panic\<close>: the task has no thread and the list head is taken for one.\<close>

definition exception_post :: "task_t \<Rightarrow> int \<Rightarrow> kstate \<Rightarrow> sysres \<times> kstate" where
  "exception_post t exc s0 =
     (if exc < 0 \<or> int NEXC \<le> exc then (Done EINVAL, s0)
      else case exc_target t s0 of
             None \<Rightarrow> (Panic, s0)
           | Some th \<Rightarrow>
               let s1 = irq_unlock (upd_thread th (excbits_update (\<lambda>b. set_bit (nat exc) b)) (irq_lock s0))
               in (Done 0, sched_unsleep th SLP_INTR s1))"

definition exception_raise :: "task_t \<Rightarrow> int \<Rightarrow> kstate \<Rightarrow> sysres \<times> kstate" where
  "exception_raise t exc s0 =
     (let s1 = sched_lock s0;
          (err, s2) =
            (if \<not> task_valid s1 t then (Done ESRCH, s1)
             else if Some t \<noteq> cur_task s1 \<and> \<not> task_capable CAP_KILL s1 then (Done EPERM, s1)
             else if t = kern_task s1 \<or> handler (tasks s1 t) = None \<or> tk_threads (tasks s1 t) = [] then (Done EPERM, s1)
             else exception_post t exc s1)
      in (err, sched_unlock s2))"

text \<open>The first pending exception, \<^verbatim>\<open>NEXC\<close> when there is none.\<close>

fun exc_scan :: "u32 \<Rightarrow> nat \<Rightarrow> nat \<Rightarrow> nat" where
  "exc_scan b 0 i = i"
| "exc_scan b (Suc n) i = (if bit b i then i else exc_scan b n (Suc i))"

definition exc_first :: "u32 \<Rightarrow> nat" where
  "exc_first b = exc_scan b NEXC 0"

definition exception_wait :: "vaddr \<Rightarrow> kstate \<Rightarrow> sysres \<times> kstate" where
  "exception_wait exc s0 =
     (if handler (tasks s0 (cur_task_ptr s0)) = None then (Done EINVAL, s0)
      else if \<not> user_area exc then (Done EFAULT, s0)
      else (Sleeping, sched_tsleep ExceptionEvent 0 (sched_lock s0)))"

text \<open>After the sleep: the exception found, and the scheduler unlocked.\<close>

definition exception_wait_resume :: "kstate \<Rightarrow> sysres \<times> nat \<times> kstate" where
  "exception_wait_resume s0 =
     (case sched_tsleep_ret s0 of
        (rc, s1) \<Rightarrow>
          if rc = SLP_BREAK then (Done EINVAL, 0, sched_unlock s1)
          else let i = exc_first (excbits (cur s1))
               in (Yielded, i, sched_unlock (irq_unlock (irq_lock s1))))"

definition exception_wait_ret :: "nat \<Rightarrow> vaddr \<Rightarrow> kstate \<Rightarrow> sysres \<times> kstate" where
  "exception_wait_ret i exc s =
     (case umem_copyout (le32 i) exc s of (e, s') \<Rightarrow> (Done (if e \<noteq> 0 then EFAULT else EINTR), s'))"

definition exception_mark :: "nat \<Rightarrow> kstate \<Rightarrow> kstate" where
  "exception_mark exc s = irq_unlock (upd_cur (excbits_update (set_bit exc)) (irq_lock s))"

definition exception_return :: "kstate \<Rightarrow> sysres \<times> kstate" where
  "exception_return s =
     (case context_restore (cur_thread s) s of None \<Rightarrow> (Panic, s) | Some s' \<Rightarrow> (Done 0, s'))"

definition exception_init :: "kstate \<Rightarrow> kstate" where
  "exception_init s = event_init ExceptionEvent s"

lemma exc_scan_range: "i \<le> exc_scan b n i \<and> exc_scan b n i \<le> i + n"
  by (induction b n i rule: exc_scan.induct) auto

lemma exc_first_less: "exc_first b < 2 ^ 32"
  using exc_scan_range [of 0 b NEXC] by (simp add: exc_first_def NEXC_def)

end
