(* ===== verification/Timer.thy ===== *)
theory Timer
  imports Exception
begin

text \<open>
  Timers, \<^verbatim>\<open>sys/kern/timer.c\<close>: sleeping, alarms, periodic timers, the clock tick and the timer thread.
  The list of active timers with \<^verbatim>\<open>timer_add\<close>, \<^verbatim>\<open>timer_callout\<close> and \<^verbatim>\<open>timer_stop\<close> is part of \<open>Sched\<close>,
  which uses it. A callout armed by a driver and the tick hook are functions outside the kernel:
  they are the arguments \<open>drv\<close> and \<open>hook\<close>.
\<close>

section \<open>The operations\<close>

definition time_remain :: "u32 \<Rightarrow> kstate \<Rightarrow> u32" where
  "time_remain expire s = (if time_before (lbolt s) expire then expire - lbolt s else 0)"

definition sleep_expire :: "tid \<Rightarrow> kstate \<Rightarrow> kstate" where
  "sleep_expire th s = sched_unsleep th SLP_TIMEOUT s"

text \<open>\<^verbatim>\<open>timer_delay\<close> up to its sleep and after it; the result is the time left in milliseconds.\<close>

definition timer_delay :: "u32 \<Rightarrow> kstate \<Rightarrow> kstate" where
  "timer_delay msec s = sched_tsleep DelayEvent msec s"

definition timer_delay_resume :: "kstate \<Rightarrow> u32 \<times> kstate" where
  "timer_delay_resume s =
     (let th = cur_thread s
      in case sched_tsleep_ret s of
           (rc, s1) \<Rightarrow>
             (if rc \<noteq> SLP_TIMEOUT then tick_to_msec (time_remain (tm_expire (timers s1 (ThreadTimeout th))) s1) else 0,
              s1))"

definition timer_sleep :: "u32 \<Rightarrow> kstate \<Rightarrow> sysres \<times> kstate" where
  "timer_sleep msec s = (Sleeping, timer_delay msec s)"

definition timer_sleep_ret :: "u32 \<Rightarrow> vaddr \<Rightarrow> kstate \<Rightarrow> sysres \<times> kstate" where
  "timer_sleep_ret left remain s =
     (let (err, s1) = (if remain \<noteq> 0 then umem_copyout (le32 (unat left)) remain s else (0, s))
      in (Done (if err = 0 \<and> 0 < left then EINTR else err), s1))"

definition alarm_expire :: "task_t \<Rightarrow> kstate \<Rightarrow> sysres \<times> kstate" where
  "alarm_expire t s = exception_post t SIGALRM s"

definition timer_alarm :: "u32 \<Rightarrow> vaddr \<Rightarrow> kstate \<Rightarrow> sysres \<times> kstate" where
  "timer_alarm msec remain s0 =
     (let self = cur_task_ptr s0;
          s1 = irq_lock s0;
          tmr = timers s1 (TaskAlarm self);
          left = (if tm_active tmr then tick_to_msec (time_remain (tm_expire tmr) s1) else 0);
          s2 = (if msec = 0 then timer_stop (TaskAlarm self) s1
                else timer_callout (TaskAlarm self) msec (AlarmExpire self) s1);
          s3 = irq_unlock s2;
          (err, s4) = (if remain \<noteq> 0 then umem_copyout (le32 (unat left)) remain s3 else (0, s3))
      in (Done err, s4))"

text \<open>
  A periodic timer is allocated when it is first used. The call links it with \<^verbatim>\<open>timer_add\<close> whether
  or not it is already on the timer list, and only the first call sets \<^verbatim>\<open>active\<close>.
\<close>

definition periodic_program :: "nat \<Rightarrow> u32 \<Rightarrow> u32 \<Rightarrow> kstate \<Rightarrow> kstate" where
  "periodic_program p start period s =
     (let iv = msec_to_tick period;
          s1 = upd_timer (Periodic p) (tm_interval_update (\<lambda>_. if iv = 0 then 1 else iv)) (irq_lock s)
      in irq_unlock (timer_add (Periodic p) (msec_to_tick start) s1))"

definition timer_periodic :: "tid \<Rightarrow> u32 \<Rightarrow> u32 \<Rightarrow> kstate \<Rightarrow> sysres \<times> kstate" where
  "timer_periodic th start period s0 =
     (if start \<noteq> 0 \<and> period = 0 then (Done EINVAL, s0)
      else let s1 = sched_lock s0
           in if \<not> thread_valid s1 th then (Done ESRCH, sched_unlock s1)
              else if th_task (threads s1 th) \<noteq> cur_task s1 then (Done EPERM, sched_unlock s1)
              else if start = 0 then
                (case periodic (threads s1 th) of
                   Some p \<Rightarrow> if tm_active (timers s1 (Periodic p))
                              then (Done 0, sched_unlock (timer_stop (Periodic p) s1)) else (Done EINVAL, sched_unlock s1)
                 | None \<Rightarrow> (Done EINVAL, sched_unlock s1))
              else
                (case periodic (threads s1 th) of
                   Some p \<Rightarrow> (Done 0, sched_unlock (periodic_program p start period s1))
                 | None \<Rightarrow>
                     (case kmem_alloc_block s1 of
                        (None, s2) \<Rightarrow> (Done ENOMEM, sched_unlock s2)
                      | (Some p, s2) \<Rightarrow>
                          let s3 = event_init (PeriodicEvent p) s2;
                              s4 = upd_timer (Periodic p) (tm_active_update (\<lambda>_. True)) s3;
                              s5 = upd_thread th (periodic_update (\<lambda>_. Some p)) s4
                          in (Done 0, sched_unlock (periodic_program p start period s5)))))"

definition timer_waitperiod :: "kstate \<Rightarrow> sysres \<times> kstate" where
  "timer_waitperiod s =
     (case periodic (cur s) of
        None \<Rightarrow> (Done EINVAL, s)
      | Some p \<Rightarrow>
          if time_before (lbolt s) (tm_expire (timers s (Periodic p)))
          then (Sleeping, sched_tsleep (PeriodicEvent p) 0 s) else (Done 0, s))"

definition timer_waitperiod_resume :: "kstate \<Rightarrow> sysres \<times> kstate" where
  "timer_waitperiod_resume s =
     (case sched_tsleep_ret s of (rc, s1) \<Rightarrow> (Done (if rc \<noteq> SLP_SUCCESS then EINTR else 0), s1))"

definition timer_cleanup :: "tid \<Rightarrow> kstate \<Rightarrow> kstate" where
  "timer_cleanup th s =
     (case periodic (threads s th) of
        None \<Rightarrow> s
      | Some p \<Rightarrow> kmem_free_block p (timer_stop (Periodic p) s))"

definition timer_hook :: "nat \<Rightarrow> kstate \<Rightarrow> int \<times> kstate" where
  "timer_hook func s =
     (if tick_hook s \<noteq> None then (-1, s)
      else (0, irq_unlock ((irq_lock s)\<lparr>tick_hook := Some func\<rparr>)))"

text \<open>The timer thread: one round of its inner loop. \<open>None\<close>: a null or bad pointer is followed.\<close>

fun run_callout :: "(nat \<Rightarrow> nat \<Rightarrow> kstate \<Rightarrow> kstate) \<Rightarrow> callout \<Rightarrow> kstate \<Rightarrow> kstate option" where
  "run_callout drv (SleepExpire th) s = Some (sleep_expire th s)"
| "run_callout drv (AlarmExpire t) s = (case alarm_expire t s of (Panic, _) \<Rightarrow> None | (_, s') \<Rightarrow> Some s')"
| "run_callout drv (DriverCallout f a) s = Some (drv f a s)"

definition timer_thread_sleep :: "kstate \<Rightarrow> kstate" where
  "timer_thread_sleep s = sched_tsleep TimerEvent 0 s"

definition timer_thread_next :: "(nat \<Rightarrow> nat \<Rightarrow> kstate \<Rightarrow> kstate) \<Rightarrow> kstate \<Rightarrow> kstate option" where
  "timer_thread_next drv s =
     (case expire_list s of
        [] \<Rightarrow> Some s
      | tmr # q \<Rightarrow>
          let s1 = upd_timer tmr (tm_active_update (\<lambda>_. False)) (s\<lparr>expire_list := q\<rparr>);
              s2 = (sched_lock s1)\<lparr>interrupts := True\<rparr>
          in (case tm_func (timers s2 tmr) of
                None \<Rightarrow> None
              | Some f \<Rightarrow> map_option sched_unlock (run_callout drv f s2)))"

text \<open>
  The tick. The loop of \<^verbatim>\<open>timer_tick\<close> takes as many rounds as there are timers on the list at most
  (\<open>tick_loop_done\<close> below); the flag is \<^verbatim>\<open>wakeup\<close>.
\<close>

definition tick_periodic :: "timer_ref \<Rightarrow> kstate \<Rightarrow> kstate" where
  "tick_periodic tmr s =
     (let t = timers s tmr;
          ticks = time_remain (tm_expire t + tm_interval t) s;
          s1 = timer_add tmr (if ticks = 0 then 1 else ticks) s
      in case tmr of Periodic p \<Rightarrow> sched_wakeup (PeriodicEvent p) s1 | _ \<Rightarrow> s1)"

fun tick_loop :: "nat \<Rightarrow> bool \<Rightarrow> kstate \<Rightarrow> bool \<times> kstate" where
  "tick_loop 0 wakeup s = (wakeup, s)"
| "tick_loop (Suc n) wakeup s =
     (case timer_list s of
        [] \<Rightarrow> (wakeup, s)
      | tmr # q \<Rightarrow>
          if time_before (lbolt s) (tm_expire (timers s tmr)) then (wakeup, s)
          else let s1 = s\<lparr>timer_list := q\<rparr>
               in if tm_interval (timers s1 tmr) \<noteq> 0 then tick_loop n wakeup (tick_periodic tmr s1)
                  else tick_loop n True (s1\<lparr>expire_list := tmr # expire_list s1\<rparr>))"

definition timer_tick :: "(nat \<Rightarrow> bool \<Rightarrow> kstate \<Rightarrow> kstate) \<Rightarrow> kstate \<Rightarrow> kstate" where
  "timer_tick hook s0 =
     (let s1 = s0\<lparr>lbolt := lbolt s0 + 1\<rparr>;
          (wakeup, s2) = tick_loop (length (timer_list s1)) False s1;
          s3 = (if wakeup then sched_wakeup TimerEvent s2 else s2);
          s4 = sched_tick s3
      in case tick_hook s4 of None \<Rightarrow> s4 | Some h \<Rightarrow> hook h (prio (cur s4) = PRIO_IDLE) s4)"

definition timer_count :: "kstate \<Rightarrow> u32" where
  "timer_count s = lbolt s"

definition timer_info :: nat where
  "timer_info = HZ"

section \<open>Time that wraps around\<close>

definition rem :: "kstate \<Rightarrow> timer_ref \<Rightarrow> nat" where
  "rem s t = unat (tm_expire (timers s t) - lbolt s)"

lemma sint_diff:
  fixes x y :: u32
  assumes "unat x < 2 ^ 31" "unat y < 2 ^ 31"
  shows "sint (x - y) = int (unat x) - int (unat y)"
proof -
  have t: "signed_take_bit 31 (int m - int n) = int m - int n" if "m < 2 ^ 31" "n < 2 ^ 31" for m n
    using that by (intro signed_take_bit_int_eq_self) auto
  have s: "sint z = int (unat z)" if "unat z < 2 ^ 31" for z :: u32
  proof -
    have "uint z = int (unat z) - int 0" by simp
    then show ?thesis using t [OF that, of 0] unfolding sint_uint by simp
  qed
  have "sint (x - y) = signed_take_bit 31 (sint x - sint y)" by (simp add: sint_word_ariths)
  also have "\<dots> = signed_take_bit 31 (int (unat x) - int (unat y))" using s assms by metis
  also have "\<dots> = int (unat x) - int (unat y)" by (rule t [OF assms])
  finally show ?thesis .
qed

text \<open>Two times less than half the range ahead of the clock are ordered as the distances are.\<close>

lemma time_before_ahead:
  assumes "unat (a - now) < 2 ^ 31" "unat (b - now) < 2 ^ 31"
  shows "time_before a b \<longleftrightarrow> unat (a - now) < unat (b - now)"
proof -
  have "a - b = (a - now) - (b - now)" by simp
  then have "sint (a - b) = int (unat (a - now)) - int (unat (b - now))" using sint_diff [OF assms] by metis
  then have "time_before a b \<longleftrightarrow> int (unat (a - now)) < int (unat (b - now))"
    unfolding time_before_def time_after_def by linarith
  then show ?thesis by (simp only: of_nat_less_iff)
qed

lemma time_before_now: "unat (b - now) < 2 ^ 31 \<Longrightarrow> time_before now b \<longleftrightarrow> 0 < unat (b - now)"
  using time_before_ahead [of now now b] by simp

lemma rem_tick: "1 \<le> rem s t \<Longrightarrow> rem (s\<lparr>lbolt := lbolt s + 1\<rparr>) t = rem s t - 1"
proof -
  assume a: "1 \<le> rem s t"
  let ?x = "tm_expire (timers s t) - lbolt s"
  have "?x \<noteq> 0" using a by (auto simp: rem_def)
  then have "unat (?x - 1) = unat ?x - 1" by (simp add: unat_minus_one)
  then show ?thesis by (simp add: rem_def algebra_simps)
qed

section \<open>The list of active timers\<close>

lemma timer_place_split:
  "timer_place ex e tmr ts =
     takeWhile (\<lambda>t. \<not> time_before e (ex t)) ts @ tmr # dropWhile (\<lambda>t. \<not> time_before e (ex t)) ts"
  by (induction ts) auto

lemma split_insert_sort:
  assumes "sorted (map f ts)"
  shows "takeWhile (\<lambda>t. f t \<le> f x) ts @ x # dropWhile (\<lambda>t. f t \<le> f x) ts = sort_key f (ts @ [x])"
  using assms
proof (induction ts)
  case (Cons a ts)
  show ?case
  proof (cases "f a \<le> f x")
    case True
    have "insort_key f a (sort_key f (ts @ [x])) = a # sort_key f (ts @ [x])"
      using Cons.prems True by (intro insort_is_Cons) auto
    then show ?thesis using True Cons by simp
  next
    case False
    then have n: "\<forall>t \<in> set ts. \<not> f t \<le> f x" using Cons.prems by auto
    then have "takeWhile (\<lambda>t. f t \<le> f x) ts = []" "dropWhile (\<lambda>t. f t \<le> f x) ts = ts" by (cases ts; simp)+
    then have "sort_key f (ts @ [x]) = x # ts" using Cons by simp
    moreover have "insort_key f a ts = a # ts" using Cons.prems by (intro insort_is_Cons) auto
    ultimately show ?thesis using False by simp
  qed
qed simp

text \<open>Sorted by the time left, and no timer more than half the range of the clock ahead.\<close>

definition tl_ok :: "kstate \<Rightarrow> bool" where
  "tl_ok s = (distinct (timer_list s) \<and> distinct (expire_list s) \<and> set (timer_list s) \<inter> set (expire_list s) = {} \<and>
     sorted (map (rem s) (timer_list s)) \<and>
     (\<forall>t \<in> set (timer_list s). rem s t < 2 ^ 31 \<and> unat (tm_interval (timers s t)) < 2 ^ 31))"

lemma timer_add_proj [simp]:
  "lbolt (timer_add tmr n s) = lbolt s" "expire_list (timer_add tmr n s) = expire_list s"
  "sleepq (timer_add tmr n s) = sleepq s" "threads (timer_add tmr n s) = threads s"
  "cur_thread (timer_add tmr n s) = cur_thread s" "tick_hook (timer_add tmr n s) = tick_hook s"
  "timers (timer_add tmr n s) t = (if t = tmr then (timers s tmr)\<lparr>tm_expire := lbolt s + n\<rparr> else timers s t)"
  by (simp_all add: timer_add_def upd_timer_def Let_def)

lemma rem_timer_add: "rem (timer_add tmr n s) t = (if t = tmr then unat n else rem s t)"
  by (simp add: rem_def)

lemma timer_add_sort:
  assumes ok: "tl_ok s" and t: "tmr \<notin> set (timer_list s)" and n: "unat n < 2 ^ 31"
  shows "timer_list (timer_add tmr n s) = sort_key (rem (timer_add tmr n s)) (timer_list s @ [tmr])"
proof -
  let ?r = "rem (timer_add tmr n s)" and ?ex = "\<lambda>t. tm_expire (timers (upd_timer tmr (tm_expire_update (\<lambda>_. lbolt s + n)) s) t)"
  have b: "time_before (lbolt s + n) (?ex t) \<longleftrightarrow> \<not> ?r t \<le> ?r tmr" if "t \<in> set (timer_list s)" for t
  proof -
    have "t \<noteq> tmr" "unat (tm_expire (timers s t) - lbolt s) < 2 ^ 31" using that t ok by (auto simp: tl_ok_def rem_def)
    then show ?thesis using time_before_ahead [of "lbolt s + n" "lbolt s" "tm_expire (timers s t)"] n
      by (simp add: rem_timer_add upd_timer_def) (simp add: rem_def not_le)
  qed
  have "timer_list (timer_add tmr n s) = takeWhile (\<lambda>t. \<not> time_before (lbolt s + n) (?ex t)) (timer_list s) @
      tmr # dropWhile (\<lambda>t. \<not> time_before (lbolt s + n) (?ex t)) (timer_list s)"
    by (simp add: timer_add_def Let_def timer_place_split) (simp add: upd_timer_def)
  also have "\<dots> = takeWhile (\<lambda>t. ?r t \<le> ?r tmr) (timer_list s) @ tmr # dropWhile (\<lambda>t. ?r t \<le> ?r tmr) (timer_list s)"
    using b by (simp cong: takeWhile_cong dropWhile_cong)
  also have "\<dots> = sort_key ?r (timer_list s @ [tmr])"
  proof (rule split_insert_sort)
    have "map ?r (timer_list s) = map (rem s) (timer_list s)" using t by (auto simp: rem_timer_add)
    then show "sorted (map ?r (timer_list s))" using ok unfolding tl_ok_def by metis
  qed
  finally show ?thesis .
qed

lemma timer_add_ok:
  assumes "tl_ok s" "tmr \<notin> set (timer_list s)" "unat n < 2 ^ 31"
  shows "set (timer_list (timer_add tmr n s)) = insert tmr (set (timer_list s))"
    "tmr \<notin> set (expire_list s) \<Longrightarrow> unat (tm_interval (timers s tmr)) < 2 ^ 31 \<Longrightarrow> tl_ok (timer_add tmr n s)"
  using assms unfolding tl_ok_def timer_add_sort [OF assms] by (auto simp: rem_timer_add)

text \<open>A wake-up cancels the time limits of the threads it wakes and leaves the other timers alone.\<close>

lemma wakeup_from_timers:
  assumes "distinct (timer_list s)" "distinct (expire_list s)"
  shows "\<exists>P. timer_list (wakeup_from e q s) = filter P (timer_list s) \<and> expire_list (wakeup_from e q s) = filter P (expire_list s) \<and>
    (\<forall>t. t \<notin> ThreadTimeout ` set q \<longrightarrow> P t)"
  using assms
proof (induction q arbitrary: s)
  case Nil
  show ?case by (intro exI [of _ "\<lambda>_. True"]) simp
next
  case (Cons th q)
  let ?s1 = "wake_move th (s\<lparr>sleepq := (sleepq s)(e := q)\<rparr>)"
  define R where "R = (\<lambda>t. t = ThreadTimeout th \<longrightarrow> \<not> tm_active (timers s t))"
  have r: "timer_list ?s1 = filter R (timer_list s)" "expire_list ?s1 = filter R (expire_list s)"
    using Cons.prems
    by (auto simp: wake_move_def Let_def timer_stop_def timer_unlink_def kproj R_def upd_timer_def irq_lock_def irq_unlock_def
        distinct_remove1_removeAll removeAll_filter_not_eq upd_thread_def filter_id_conv intro!: filter_cong)
  then have "distinct (timer_list ?s1)" "distinct (expire_list ?s1)" using Cons.prems by simp_all
  from Cons.IH [OF this] obtain P where P: "timer_list (wakeup_from e q ?s1) = filter P (timer_list ?s1)"
    "expire_list (wakeup_from e q ?s1) = filter P (expire_list ?s1)" "\<forall>t. t \<notin> ThreadTimeout ` set q \<longrightarrow> P t" by blast
  then show ?case using r by (intro exI [of _ "\<lambda>t. R t \<and> P t"]) (auto simp: R_def)
qed

lemma timer_stop_fields [simp]:
  "tm_expire (timers (timer_stop r s) t) = tm_expire (timers s t)" "tm_interval (timers (timer_stop r s) t) = tm_interval (timers s t)"
  "tm_func (timers (timer_stop r s) t) = tm_func (timers s t)"
  by (simp_all add: timer_stop_def Let_def upd_timer_def timer_unlink_def irq_lock_def irq_unlock_def)

lemma wakeup_from_fields [simp]:
  "tm_expire (timers (wakeup_from e q s) t) = tm_expire (timers s t)" "tm_interval (timers (wakeup_from e q s) t) = tm_interval (timers s t)"
  by (induction q arbitrary: s) (simp_all add: wake_move_def Let_def upd_thread_def)

lemma sched_wakeup_timers:
  assumes l: "1 \<le> locks (cur s)" and ok: "tl_ok s"
  shows "tl_ok (sched_wakeup e s)" "set (timer_list (sched_wakeup e s)) \<subseteq> set (timer_list s)"
    "t \<notin> ThreadTimeout ` set (sleepq s e) \<Longrightarrow> t \<in> set (timer_list (sched_wakeup e s)) \<longleftrightarrow> t \<in> set (timer_list s)"
    "t \<notin> ThreadTimeout ` set (sleepq s e) \<Longrightarrow> t \<in> set (expire_list (sched_wakeup e s)) \<longleftrightarrow> t \<in> set (expire_list s)"
    "rem (sched_wakeup e s) t = rem s t" "tm_interval (timers (sched_wakeup e s) t) = tm_interval (timers s t)"
    "sleepq (sched_wakeup e s) = (sleepq s)(e := [])" "set (expire_list (sched_wakeup e s)) \<subseteq> set (expire_list s)"
proof -
  let ?s1 = "irq_lock (sched_lock s)"
  have s1: "timer_list ?s1 = timer_list s" "expire_list ?s1 = expire_list s" "sleepq ?s1 = sleepq s" "timers ?s1 = timers s" "lbolt ?s1 = lbolt s"
    by (simp_all add: irq_lock_def sched_lock_def upd_thread_def Let_def)
  let ?w = "irq_unlock (wakeup_from e (sleepq s e) ?s1)"
  have sw: "sched_wakeup e s = upd_cur (locks_update (\<lambda>n. n - 1)) ?w"
    using l by (simp add: sched_wakeup_def Let_def s1 sched_unlock_nested wakeup_from_effect kproj)
  obtain P where P: "timer_list (wakeup_from e (sleepq s e) ?s1) = filter P (timer_list s)"
    "expire_list (wakeup_from e (sleepq s e) ?s1) = filter P (expire_list s)" "\<forall>t. t \<notin> ThreadTimeout ` set (sleepq s e) \<longrightarrow> P t"
    using wakeup_from_timers [of ?s1 e "sleepq s e"] ok by (auto simp: s1 tl_ok_def)
  have tl: "timer_list (sched_wakeup e s) = filter P (timer_list s)" "expire_list (sched_wakeup e s) = filter P (expire_list s)"
    unfolding sw by (simp_all add: upd_thread_def irq_unlock_def Let_def P)
  have lb: "lbolt (sched_wakeup e s) = lbolt s" by (simp add: kproj)
  have tm: "tm_expire (timers (sched_wakeup e s) t) = tm_expire (timers s t)"
    "tm_interval (timers (sched_wakeup e s) t) = tm_interval (timers s t)" for t
    unfolding sw by (simp_all add: s1 upd_thread_def irq_unlock_def Let_def)
  then show "tm_interval (timers (sched_wakeup e s) t) = tm_interval (timers s t)" by simp
  have r: "rem (sched_wakeup e s) t = rem s t" for t by (simp add: rem_def tm lb)
  then show "rem (sched_wakeup e s) t = rem s t" .
  show "set (timer_list (sched_wakeup e s)) \<subseteq> set (timer_list s)" "set (expire_list (sched_wakeup e s)) \<subseteq> set (expire_list s)"
    by (auto simp: tl)
  show "t \<notin> ThreadTimeout ` set (sleepq s e) \<Longrightarrow> t \<in> set (timer_list (sched_wakeup e s)) \<longleftrightarrow> t \<in> set (timer_list s)"
    "t \<notin> ThreadTimeout ` set (sleepq s e) \<Longrightarrow> t \<in> set (expire_list (sched_wakeup e s)) \<longleftrightarrow> t \<in> set (expire_list s)"
    using P(3) by (auto simp: tl)
  have "sorted (map (rem s) (filter P (timer_list s)))" using ok sorted_filter [of "rem s" "timer_list s" P] by (simp add: tl_ok_def)
  moreover have "rem (sched_wakeup e s) = rem s" using r by auto
  ultimately show "tl_ok (sched_wakeup e s)" using ok by (auto simp: tl_ok_def tl tm)
  show "sleepq (sched_wakeup e s) = (sleepq s)(e := [])"
    unfolding sw by (auto simp: wakeup_from_effect kproj)
qed

section \<open>The tick\<close>

text \<open>A one-shot timer that no wake-up of the tick can cancel.\<close>

definition timer_kept :: "timer_ref \<Rightarrow> kstate \<Rightarrow> bool" where
  "timer_kept tmr s = (tm_interval (timers s tmr) = 0 \<and> tmr \<notin> ThreadTimeout ` set (sleepq s TimerEvent) \<and>
     (\<forall>p. tmr \<notin> ThreadTimeout ` set (sleepq s (PeriodicEvent p))))"

definition tick_ok :: "kstate \<Rightarrow> bool" where
  "tick_ok s = (1 \<le> locks (cur s) \<and> tl_ok s)"

text \<open>What a part of the tick keeps, and what it does with the timer \<open>tmr\<close>.\<close>

definition tick_rel :: "timer_ref \<Rightarrow> kstate \<Rightarrow> kstate \<Rightarrow> bool" where
  "tick_rel tmr s s' =
     (lbolt s' = lbolt s \<and> tick_hook s' = tick_hook s \<and> sleepq s' TimerEvent = sleepq s TimerEvent \<and>
      (timer_kept tmr s \<longrightarrow> timer_kept tmr s' \<and> (tmr \<in> set (expire_list s) \<longrightarrow> tmr \<in> set (expire_list s')) \<and>
        (tmr \<in> set (timer_list s) \<longrightarrow>
           tmr \<in> set (timer_list s') \<and> rem s' tmr = rem s tmr \<or> rem s tmr = 0 \<and> tmr \<in> set (expire_list s'))))"

lemma tick_rel_refl: "tick_rel tmr s s"
  by (simp add: tick_rel_def)

lemma tick_rel_trans: "tick_rel tmr s1 s2 \<Longrightarrow> tick_rel tmr s2 s3 \<Longrightarrow> tick_rel tmr s1 s3"
  unfolding tick_rel_def by auto

definition expired :: "kstate \<Rightarrow> nat" where
  "expired s = length (filter (\<lambda>t. rem s t = 0) (timer_list s))"

lemma expired_card: "tl_ok s \<Longrightarrow> expired s = card {t \<in> set (timer_list s). rem s t = 0}"
  using distinct_card [of "filter (\<lambda>t. rem s t = 0) (timer_list s)"] by (simp add: tl_ok_def expired_def)

lemma expired_time: "tl_ok s \<Longrightarrow> t \<in> set (timer_list s) \<Longrightarrow> time_before (lbolt s) (tm_expire (timers s t)) \<longleftrightarrow> 0 < rem s t"
  using time_before_now [of "tm_expire (timers s t)" "lbolt s"] by (simp add: tl_ok_def rem_def)

lemma tick_oneshot:
  assumes ok: "tick_ok s" and l: "timer_list s = t # q" and r: "rem s t = 0"
  defines "s' \<equiv> s\<lparr>timer_list := q, expire_list := t # expire_list s\<rparr>"
  shows "tick_ok s'" "tick_rel tmr s s'" "expired s = Suc (expired s')"
proof -
  have "rem s' = rem s" by (simp add: s'_def rem_def fun_eq_iff)
  then show "tick_ok s'" "expired s = Suc (expired s')" using ok l r
    by (auto simp: tick_ok_def tl_ok_def s'_def expired_def)
  show "tick_rel tmr s s'" using r l by (auto simp: tick_rel_def timer_kept_def s'_def rem_def)
qed

lemma tick_periodic_step:
  assumes ok: "tick_ok s" and l: "timer_list s = t # q" and r: "rem s t = 0" and i: "tm_interval (timers s t) \<noteq> 0"
  defines "s' \<equiv> tick_periodic t (s\<lparr>timer_list := q\<rparr>)"
  shows "tick_ok s'" "tick_rel tmr s s'" "expired s' < expired s" "set (expire_list s') \<subseteq> set (expire_list s)"
proof -
  let ?s1 = "s\<lparr>timer_list := q\<rparr>" and ?n = "tm_interval (timers s t)"
  have t: "t \<in> set (timer_list s)" using l by simp
  have e: "tm_expire (timers s t) = lbolt s" using r by (simp add: rem_def unsigned_eq_0_iff)
  have n: "unat ?n < 2 ^ 31" "0 < unat ?n" using ok t i by (auto simp: tick_ok_def tl_ok_def unat_gt_0)
  have tr: "time_remain (tm_expire (timers s t) + ?n) ?s1 = ?n"
    using n time_before_now [of "lbolt s + ?n" "lbolt s"] by (simp add: time_remain_def e)
  define s2 where "s2 = timer_add t ?n ?s1"
  have r1: "rem ?s1 = rem s" by (simp add: rem_def fun_eq_iff)
  have ok1: "tl_ok ?s1" "t \<notin> set q" "t \<notin> set (expire_list s)" using ok l by (auto simp: tick_ok_def tl_ok_def r1)
  note a = timer_add_ok [of ?s1 t ?n, folded s2_def]
  have ok2: "tl_ok s2" "set (timer_list s2) = insert t (set q)" using a ok1 n by auto
  have r2: "rem s2 x = (if x = t then unat ?n else rem s x)" for x by (simp add: s2_def rem_timer_add r1)
  have p2: "lbolt s2 = lbolt s" "expire_list s2 = expire_list s" "sleepq s2 = sleepq s" "threads s2 = threads s"
    "cur_thread s2 = cur_thread s" "tick_hook s2 = tick_hook s" "\<And>x. tm_interval (timers s2 x) = tm_interval (timers s x)"
    by (simp_all add: s2_def)
  have k2: "timer_kept x s2 \<longleftrightarrow> timer_kept x s" for x by (simp add: timer_kept_def p2)
  have x: "expired s = Suc (card {x \<in> set q. rem s x = 0})"
  proof -
    have "{x \<in> set (timer_list s). rem s x = 0} = insert t {x \<in> set q. rem s x = 0}" using l r by auto
    then show ?thesis using expired_card [of s] ok ok1(2) by (simp add: tick_ok_def)
  qed
  have "{x \<in> set (timer_list s2). rem s2 x = 0} = {x \<in> set q. rem s x = 0}" using ok2(2) n ok1(2) by (auto simp: r2)
  then have x2: "expired s = Suc (expired s2)" using x expired_card [OF ok2(1)] by simp
  have rel2: "tick_rel tmr s s2"
    using i l ok2(2) by (auto simp: tick_rel_def p2 k2 r2) (auto simp: timer_kept_def)
  have "tick_ok s' \<and> tick_rel tmr s s' \<and> expired s' < expired s \<and> set (expire_list s') \<subseteq> set (expire_list s)"
  proof (cases "\<exists>p. t = Periodic p")
    case True
    then obtain p where p: "t = Periodic p" by blast
    then have s': "s' = sched_wakeup (PeriodicEvent p) s2"
      unfolding s'_def tick_periodic_def Let_def using tr i by (simp add: s2_def)
    have l2: "1 \<le> locks (cur s2)" using ok by (simp add: tick_ok_def p2)
    note w = sched_wakeup_timers [where e = "PeriodicEvent p", OF l2 ok2(1)] sched_wakeup_nested [OF l2]
    have "tick_ok s'" using w(1) l2 by (simp add: tick_ok_def s' w)
    moreover have "{x \<in> set (timer_list s'). rem s' x = 0} \<subseteq> {x \<in> set (timer_list s2). rem s2 x = 0}" using w(2,5) by (auto simp: s')
    then have "expired s' \<le> expired s2" using expired_card [OF ok2(1)] expired_card [OF w(1)] unfolding s' by (simp add: card_mono)
    then have "expired s' < expired s" using x2 by simp
    moreover have "tick_rel tmr s2 s'"
      using w(3) [of tmr] w(4) [of tmr] unfolding tick_rel_def s' by (auto simp: timer_kept_def w kproj)
    moreover have "set (expire_list s') \<subseteq> set (expire_list s)" using w(8) by (simp add: s' p2)
    ultimately show ?thesis using rel2 tick_rel_trans by blast
  next
    case False
    then have "s' = s2" unfolding s'_def tick_periodic_def Let_def using tr i by (cases t) (simp_all add: s2_def)
    then show ?thesis using ok2(1) ok rel2 x2 by (simp add: tick_ok_def p2)
  qed
  then show "tick_ok s'" "tick_rel tmr s s'" "expired s' < expired s" "set (expire_list s') \<subseteq> set (expire_list s)" by blast+
qed

lemma tick_loop_step:
  assumes ok: "tick_ok s" and l: "timer_list s = t # q" and r: "rem s t = 0"
  obtains w' s' where "tick_loop (Suc n) w s = tick_loop n w' s'" "tick_ok s'" "\<And>tmr. tick_rel tmr s s'" "expired s' < expired s"
    "w \<longrightarrow> w'" "w' \<or> set (expire_list s') \<subseteq> set (expire_list s)"
proof -
  have b: "\<not> time_before (lbolt s) (tm_expire (timers s t))" using expired_time [of s t] ok l r by (simp add: tick_ok_def)
  show thesis
  proof (cases "tm_interval (timers s t) = 0")
    case True
    show thesis
      by (rule that [of True "s\<lparr>timer_list := q, expire_list := t # expire_list s\<rparr>"])
        (use b l True tick_oneshot [OF ok l r] in simp_all)
  next
    case False
    show thesis
      by (rule that [of w "tick_periodic t (s\<lparr>timer_list := q\<rparr>)"])
        (use b l False tick_periodic_step [OF ok l r False] in simp_all)
  qed
qed

lemma tick_loop_stops:
  assumes "tl_ok s" "expired s = 0"
  shows "tick_loop n w s = (w, s)" "\<forall>t \<in> set (timer_list s). 0 < rem s t"
proof -
  show a: "\<forall>t \<in> set (timer_list s). 0 < rem s t" using assms(2) by (auto simp: expired_def filter_empty_conv)
  show "tick_loop n w s = (w, s)"
    using a expired_time [OF assms(1)] by (cases n; cases "timer_list s") auto
qed

lemma tick_loop_unexpired: "tl_ok s \<Longrightarrow> timer_list s = t # q \<Longrightarrow> 0 < rem s t \<Longrightarrow> expired s = 0"
  by (auto simp: tl_ok_def expired_def filter_empty_conv)

lemma tick_loop_all:
  assumes "tick_ok s" "expired s \<le> n" "tick_loop n w s = (w', s')"
  shows "tick_ok s' \<and> expired s' = 0 \<and> tick_rel tmr s s' \<and> (w \<longrightarrow> w') \<and> (w' \<or> set (expire_list s') \<subseteq> set (expire_list s))"
  using assms
proof (induction n arbitrary: s w)
  case 0
  then show ?case by (simp add: tick_rel_refl)
next
  case (Suc n)
  have ok: "tl_ok s" using Suc.prems(1) by (simp add: tick_ok_def)
  show ?case
  proof (cases "expired s = 0")
    case True
    then show ?thesis using Suc.prems tick_loop_stops(1) [OF ok True] by (auto simp: tick_rel_refl)
  next
    case False
    then obtain t q where l: "timer_list s = t # q" by (cases "timer_list s") (auto simp: expired_def)
    then have r: "rem s t = 0" using tick_loop_unexpired [OF ok l] False by auto
    obtain w2 s2 where s2: "tick_loop (Suc n) w s = tick_loop n w2 s2" "tick_ok s2" "\<And>tmr. tick_rel tmr s s2" "expired s2 < expired s"
      "w \<longrightarrow> w2" "w2 \<or> set (expire_list s2) \<subseteq> set (expire_list s)"
      using tick_loop_step [OF Suc.prems(1) l r, of n w] by metis
    have "tick_ok s' \<and> expired s' = 0 \<and> tick_rel tmr s2 s' \<and> (w2 \<longrightarrow> w') \<and> (w' \<or> set (expire_list s') \<subseteq> set (expire_list s2))"
      using Suc.IH [of s2 w2] s2(1,2,4) Suc.prems(2,3) by simp
    then show ?thesis using s2(3,5,6) tick_rel_trans by blast
  qed
qed

text \<open>The clock moves on: no timer is late, none is lost, and the next expiry is one tick closer.\<close>

lemma tick_start:
  assumes "tick_ok s" "expired s = 0"
  defines "s1 \<equiv> s\<lparr>lbolt := lbolt s + 1\<rparr>"
  shows "tick_ok s1" "\<And>t. t \<in> set (timer_list s) \<Longrightarrow> rem s1 t = rem s t - 1" "expired s1 \<le> length (timer_list s1)"
proof -
  have "tl_ok s" using assms(1) by (simp add: tick_ok_def)
  note p = tick_loop_stops(2) [OF this assms(2)]
  show r: "\<And>t. t \<in> set (timer_list s) \<Longrightarrow> rem s1 t = rem s t - 1" unfolding s1_def using p by (intro rem_tick) force
  have "sorted (map (rem s1) (timer_list s))"
  proof -
    have "map (rem s1) (timer_list s) = map (\<lambda>n. n - 1) (map (rem s) (timer_list s))" using r by simp
    moreover have "sorted (map (\<lambda>n. n - 1) xs)" if "sorted xs" for xs :: "nat list"
      using that by (induction xs) auto
    ultimately show ?thesis using \<open>tl_ok s\<close> unfolding tl_ok_def by metis
  qed
  then show "tick_ok s1" using assms(1) r unfolding tick_ok_def tl_ok_def by (fastforce simp: s1_def)
  show "expired s1 \<le> length (timer_list s1)" by (simp add: expired_def)
qed

lemma tick_loop_fuel:
  assumes "tick_ok s" "expired s \<le> n"
  shows "tick_loop (n + m) w s = tick_loop n w s"
  using assms
proof (induction n arbitrary: s w)
  case 0
  then show ?case using tick_loop_stops(1) [of s] by (simp add: tick_ok_def)
next
  case (Suc n)
  have ok: "tl_ok s" using Suc.prems(1) by (simp add: tick_ok_def)
  show ?case
  proof (cases "expired s = 0")
    case True
    then show ?thesis using tick_loop_stops(1) [OF ok True] by simp
  next
    case False
    then obtain t q where l: "timer_list s = t # q" by (cases "timer_list s") (auto simp: expired_def)
    then have r: "rem s t = 0" using tick_loop_unexpired [OF ok l] False by auto
    have b: "\<not> time_before (lbolt s) (tm_expire (timers s t))" using expired_time [OF ok, of t] l r by simp
    show ?thesis
      using l b Suc.IH [of "s\<lparr>timer_list := q, expire_list := t # expire_list s\<rparr>" True] tick_oneshot [OF Suc.prems(1) l r]
        Suc.IH [of "tick_periodic t (s\<lparr>timer_list := q\<rparr>)" w] tick_periodic_step [OF Suc.prems(1) l r] Suc.prems(2) by (auto simp: Let_def)
  qed
qed

lemma sched_tick_keeps [simp]:
  "lbolt (sched_tick s) = lbolt s" "timers (sched_tick s) = timers s" "timer_list (sched_tick s) = timer_list s"
  "expire_list (sched_tick s) = expire_list s" "sleepq (sched_tick s) = sleepq s" "tick_hook (sched_tick s) = tick_hook s"
  "cur_thread (sched_tick s) = cur_thread s" "locks (threads (sched_tick s) x) = locks (threads s x)"
  by (simp_all add: sched_tick_def Let_def upd_thread_def)

lemma timer_tick_one:
  fixes hook :: "nat \<Rightarrow> bool \<Rightarrow> kstate \<Rightarrow> kstate"
  assumes ok: "tick_ok s" "expired s = 0" "tick_hook s = None"
  defines "s' \<equiv> timer_tick hook s"
  shows "tick_ok s'" "expired s' = 0" "tick_hook s' = None"
    "timer_kept tmr s \<Longrightarrow> tmr \<in> set (timer_list s) \<Longrightarrow> timer_kept tmr s' \<and>
      (if rem s tmr = 1 then tmr \<in> set (expire_list s') \<and> sleepq s' TimerEvent = []
       else tmr \<in> set (timer_list s') \<and> rem s' tmr = rem s tmr - 1)"
proof -
  define s1 where "s1 = s\<lparr>lbolt := lbolt s + 1\<rparr>"
  note st = tick_start [OF ok(1,2), folded s1_def]
  have s1: "timer_list s1 = timer_list s" "expire_list s1 = expire_list s" "tick_hook s1 = None" "timer_kept tmr s1 \<longleftrightarrow> timer_kept tmr s"
    using ok(3) by (simp_all add: s1_def timer_kept_def)
  obtain w s2 where lp: "tick_loop (length (timer_list s1)) False s1 = (w, s2)" by (cases "tick_loop (length (timer_list s1)) False s1")
  note l = tick_loop_all [OF st(1,3) lp, of tmr]
  define s3 where "s3 = (if w then sched_wakeup TimerEvent s2 else s2)"
  have ok2: "1 \<le> locks (cur s2)" "tl_ok s2" using l by (auto simp: tick_ok_def)
  note wk = sched_wakeup_timers [where e = TimerEvent, OF ok2] sched_wakeup_nested [OF ok2(1)]
  have r3: "rem s3 t = rem s2 t" "timer_kept tmr s2 \<Longrightarrow> timer_kept tmr s3" for t
    using wk(5) [of t] wk(6) by (auto simp: s3_def timer_kept_def wk(7))
  have ok3: "tick_ok s3" using wk ok2 by (auto simp: s3_def tick_ok_def)
  have x3: "expired s3 = 0"
  proof -
    have "set (timer_list s3) \<subseteq> set (timer_list s2)" using wk(2) by (auto simp: s3_def)
    then show ?thesis using l r3(1) tick_loop_stops(2) [OF ok2(2)] by (force simp: expired_def filter_empty_conv)
  qed
  have h3: "tick_hook s3 = None" using l s1(3) by (auto simp: s3_def tick_rel_def kproj)
  have s': "s' = sched_tick s3"
    unfolding s'_def timer_tick_def Let_def s1_def [symmetric] lp using h3 by (simp add: s3_def)
  have r': "rem s' = rem s3" by (simp add: s' rem_def fun_eq_iff)
  show "tick_ok s'" "expired s' = 0" "tick_hook s' = None"
    using ok3 x3 h3 by (simp_all add: tick_ok_def tl_ok_def r' expired_def) (simp_all add: s')
  assume k: "timer_kept tmr s" and t: "tmr \<in> set (timer_list s)"
  have k2: "timer_kept tmr s2" and in2: "tmr \<in> set (timer_list s2) \<and> rem s2 tmr = rem s1 tmr \<or> rem s1 tmr = 0 \<and> tmr \<in> set (expire_list s2)"
    using l k t s1 by (auto simp: tick_rel_def)
  have nt: "tmr \<notin> ThreadTimeout ` set (sleepq s2 TimerEvent)" using k2 by (simp add: timer_kept_def)
  have pos: "0 < rem s tmr" using tick_loop_stops(2) [of s] ok(1,2) t by (simp add: tick_ok_def)
  show "timer_kept tmr s' \<and> (if rem s tmr = 1 then tmr \<in> set (expire_list s') \<and> sleepq s' TimerEvent = []
       else tmr \<in> set (timer_list s') \<and> rem s' tmr = rem s tmr - 1)"
  proof (cases "rem s tmr = 1")
    case True
    then have "rem s1 tmr = 0" using st(2) [OF t] by simp
    moreover have "tmr \<notin> set (timer_list s2) \<or> 0 < rem s2 tmr" using l tick_loop_stops(2) [OF ok2(2)] by auto
    ultimately have e: "tmr \<in> set (expire_list s2)" using in2 by auto
    moreover have "tmr \<notin> set (expire_list s)" using ok(1) t by (auto simp: tick_ok_def tl_ok_def)
    ultimately have "w" using l s1(2) by auto
    then show ?thesis using True e k2 r3(2) wk(4) [OF nt] wk(7) by (auto simp: s' s3_def timer_kept_def)
  next
    case False
    then have "tmr \<in> set (timer_list s2)" "rem s2 tmr = rem s tmr - 1" using in2 st(2) [OF t] pos by auto
    then have "tmr \<in> set (timer_list s3)" using wk(3) [OF nt] by (simp add: s3_def)
    then show ?thesis using False r3 k2 \<open>rem s2 tmr = rem s tmr - 1\<close> unfolding r' by (simp add: s' timer_kept_def)
  qed
qed

section \<open>Properties\<close>

text \<open>
  An example across the wrap of the tick counter: a periodic timer due at the next tick and a driver's
  timer due one tick later.
\<close>

definition demo_timers :: kstate where
  "demo_timers = (sched_lock demo_state)\<lparr>lbolt := 0xffffffff, timer_list := [Periodic 5, DriverTimer 1],
     timers := (\<lambda>_. zero_timer)
       (Periodic 5 := \<lparr>tm_active = True, tm_expire = 0, tm_interval = 3, tm_func = None\<rparr>,
        DriverTimer 1 := \<lparr>tm_active = True, tm_expire = 1, tm_interval = 0, tm_func = Some (DriverCallout 7 0)\<rparr>)\<rparr>"

lemma demo_timers_ok:
  "tick_ok demo_timers" "expired demo_timers = 0" "tick_hook demo_timers = None" "timer_kept (DriverTimer 1) demo_timers"
  "rem demo_timers (DriverTimer 1) = 2" "tick_ok (demo_timers\<lparr>lbolt := 0\<rparr>)" "expired (demo_timers\<lparr>lbolt := 0\<rparr>) = 1"
  by (auto simp: demo_timers_def tick_ok_def tl_ok_def rem_def expired_def timer_kept_def demo_state_def zero_state_def
      sched_lock_def upd_thread_def demo_thread_def zero_thread_def zero_timer_def)

text \<open>
  C38: \<^verbatim>\<open>timer_add\<close> keeps the timer list sorted by the time left, whatever the value of the wrapping tick
  counter: it computes what a stable sort of the list with the new timer at its end gives, so
  timers that expire at the same tick keep the order in which they were armed.
\<close>

theorem timer_add_is_stable_sort:
  assumes "tl_ok s" "tmr \<notin> set (timer_list s)" "unat n < 2 ^ 31"
  shows "timer_list (timer_add tmr n s) = sort_key (rem (timer_add tmr n s)) (timer_list s @ [tmr])"
  by (rule timer_add_sort [OF assms])

theorem timer_add_is_stable_sort_witness:
  "timer_list (timer_add (DriverTimer 2) 1 demo_timers) =
     sort_key (rem (timer_add (DriverTimer 2) 1 demo_timers)) [Periodic 5, DriverTimer 1, DriverTimer 2]"
  using timer_add_is_stable_sort [of demo_timers "DriverTimer 2" 1] demo_timers_ok(1)
  by (simp add: tick_ok_def demo_timers_def)

text \<open>
  C39: The loop of \<^verbatim>\<open>timer_tick\<close> over the expired timers ends: it takes no more rounds than timers have
  expired, although periodic timers are put back on the list it reads, and then the first timer on
  the list is not due yet.
\<close>

theorem timer_tick_terminates:
  assumes "tick_ok s" "expired s \<le> n"
  shows "tick_loop (n + m) w s = tick_loop n w s \<and> tick_ok (snd (tick_loop n w s)) \<and>
    (\<forall>t \<in> set (timer_list (snd (tick_loop n w s))).
       time_before (lbolt s) (tm_expire (timers (snd (tick_loop n w s)) t)))"
proof -
  obtain w' s' where e: "tick_loop n w s = (w', s')" by (cases "tick_loop n w s")
  note l = tick_loop_all [OF assms e]
  then have "tl_ok s'" "lbolt s' = lbolt s" "\<forall>t \<in> set (timer_list s'). 0 < rem s' t"
    using tick_loop_stops(2) [of s'] by (auto simp: tick_ok_def tick_rel_def)
  then show ?thesis using tick_loop_fuel [OF assms, of m w] e l expired_time [of s'] by simp
qed

theorem timer_tick_terminates_witness:
  "tick_loop (1 + 2) False (demo_timers\<lparr>lbolt := 0\<rparr>) = tick_loop 1 False (demo_timers\<lparr>lbolt := 0\<rparr>)"
  by (rule timer_tick_terminates [OF demo_timers_ok(6), THEN conjunct1]) (unfold demo_timers_ok(7), rule order_refl)

text \<open>
  C7: A one-shot timer with \<open>k\<close> ticks left goes off at the \<open>k\<close>-th clock interrupt and not before:
  it is then on the list of expired timers and the timer thread has been woken. Other timers, periodic
  ones among them, may expire in between.
\<close>

theorem timer_fires:
  assumes "tick_ok s" "expired s = 0" "tick_hook s = None" "timer_kept tmr s" "tmr \<in> set (timer_list s)"
  shows "tmr \<in> set (expire_list ((timer_tick hook ^^ rem s tmr) s)) \<and> sleepq ((timer_tick hook ^^ rem s tmr) s) TimerEvent = [] \<and>
    (\<forall>j < rem s tmr. tmr \<notin> set (expire_list ((timer_tick hook ^^ j) s)))"
proof -
  let ?s = "\<lambda>j. (timer_tick hook ^^ j) s"
  have inv: "tick_ok (?s j) \<and> expired (?s j) = 0 \<and> tick_hook (?s j) = None \<and> timer_kept tmr (?s j) \<and>
      tmr \<in> set (timer_list (?s j)) \<and> rem (?s j) tmr = rem s tmr - j" if "j < rem s tmr" for j
    using that
  proof (induction j)
    case 0
    then show ?case using assms by simp
  next
    case (Suc j)
    then have i: "tick_ok (?s j)" "expired (?s j) = 0" "tick_hook (?s j) = None" "timer_kept tmr (?s j)" "tmr \<in> set (timer_list (?s j))"
      "rem (?s j) tmr = rem s tmr - j" by simp_all
    show ?case using timer_tick_one(1-3) [where hook = hook, OF i(1-3)] timer_tick_one(4) [where hook = hook, OF i(1-3) i(4,5)] i(6) Suc.prems by auto
  qed
  have pos: "0 < rem s tmr" using tick_loop_stops(2) [of s] assms by (simp add: tick_ok_def)
  define j where "j = rem s tmr - 1"
  have i: "tick_ok (?s j)" "expired (?s j) = 0" "tick_hook (?s j) = None" "timer_kept tmr (?s j)" "tmr \<in> set (timer_list (?s j))"
    "rem (?s j) tmr = 1" using inv [of j] pos by (auto simp: j_def)
  have "rem s tmr = Suc j" using pos by (simp add: j_def)
  then have "tmr \<in> set (expire_list (?s (rem s tmr)))" "sleepq (?s (rem s tmr)) TimerEvent = []"
    using timer_tick_one(4) [where hook = hook, OF i(1-3) i(4,5)] i(6) by simp_all
  moreover have "tmr \<notin> set (expire_list (?s j))" if "j < rem s tmr" for j
    using inv [OF that] by (auto simp: tick_ok_def tl_ok_def)
  ultimately show ?thesis by blast
qed

theorem timer_fires_witness:
  "DriverTimer 1 \<in> set (expire_list ((timer_tick (\<lambda>_ _ s. s) ^^ 2) demo_timers))"
  using timer_fires [OF demo_timers_ok(1-4), of "\<lambda>_ _ s. s"] demo_timers_ok(5) by (simp add: demo_timers_def)

end
