(* ===== verification/Message.thy ===== *)
theory Message
  imports Access
begin

text \<open>
  Messages, \<^verbatim>\<open>sys/ipc/msg.c\<close>. A sender gives the kernel the physical place of its buffer and sleeps;
  a receiver copies the message from there into its own address space, and the reply is copied
  back the same way. The calls are cut where the caller sleeps: \<open>msg_send_resume\<close> and
  \<open>msg_receive_resume\<close> are what runs after the sleep. The \<^verbatim>\<open>ipc_link\<close> of a thread is its membership in a
  send or receive queue; unlinking a thread that is in no queue does nothing here.
\<close>

section \<open>The operations\<close>

definition MSG_HEADER_SIZE :: nat where "MSG_HEADER_SIZE = 12"

definition object_valid :: "kstate \<Rightarrow> nat \<Rightarrow> bool" where
  "object_valid s ob = (kern_area ob \<and> ob_magic (objects s ob) = OBJECT_MAGIC)"

definition msg_dequeue :: "kstate \<Rightarrow> tid list \<Rightarrow> tid" where
  "msg_dequeue s q = top_waiter (\<lambda>t. prio (threads s t)) (hd q) q"

definition ipc_unlink :: "tid \<Rightarrow> kstate \<Rightarrow> kstate" where
  "ipc_unlink th s = s\<lparr>objects := (\<lambda>ob. (objects s ob)\<lparr>sendq := remove1 th (sendq (objects s ob)),
     recvq := remove1 th (recvq (objects s ob))\<rparr>)\<rparr>"

definition kmem_map :: "vaddr \<Rightarrow> nat \<Rightarrow> kstate \<Rightarrow> nat option option" where
  "kmem_map a n s =
     (case vm_translate (tk_map (tasks s (cur_task_ptr s))) a n (vm s) of
        None \<Rightarrow> None
      | Some phys \<Rightarrow> Some (if phys = 0 then None else Some (phys_to_virt phys)))"

text \<open>A store of a word through the kernel's window on physical memory.\<close>

definition kpoke_word :: "nat \<Rightarrow> nat \<Rightarrow> kstate \<Rightarrow> kstate" where
  "kpoke_word p v s =
     poke (p + 3) (le32 v ! 3) (poke (p + 2) (le32 v ! 2) (poke (p + 1) (le32 v ! 1) (poke p (le32 v ! 0) s)))"

definition msg_send :: "nat \<Rightarrow> vaddr \<Rightarrow> nat \<Rightarrow> u32 \<Rightarrow> kstate \<Rightarrow> sysres \<times> kstate" where
  "msg_send ob msg sz timeout s =
     (if \<not> user_area msg then (Done EFAULT, s)
      else if sz < MSG_HEADER_SIZE then (Done EINVAL, s)
      else let s1 = sched_lock s
           in if \<not> object_valid s1 ob then (Done EINVAL, sched_unlock s1)
              else if ob_owner (objects s1 ob) \<noteq> cur_task_ptr s1 \<and> \<not> task_capable CAP_IPC s1
              then (Done EPERM, sched_unlock s1)
              else if recvobj (cur s1) = Some ob then (Done EDEADLK, sched_unlock s1)
              else case kmem_map msg sz s1 of
                     None \<Rightarrow> (Hang, s1)
                   | Some None \<Rightarrow> (Done EFAULT, sched_unlock s1)
                   | Some (Some kmsg) \<Rightarrow>
                       let s2 = kpoke_word (virt_to_phys kmsg) (cur_task_ptr s1) s1;
                           s3 = upd_cur (\<lambda>t. t\<lparr>msgaddr := kmsg, msgsize := sz\<rparr>) s2;
                           s4 = (let q = recvq (objects s3 ob)
                                 in if q \<noteq> []
                                    then let th = msg_dequeue s3 q
                                         in sched_unsleep th 0 (upd_object ob (recvq_update (remove1 th)) s3)
                                    else s3);
                           s5 = upd_cur (sendobj_update (\<lambda>_. Some ob)) s4;
                           s6 = upd_object ob (sendq_update (\<lambda>q. q @ [cur_thread s5])) s5
                       in (Sleeping, sched_tsleep IpcEvent timeout s6))"

definition msg_send_resume :: "kstate \<Rightarrow> sysres \<times> kstate" where
  "msg_send_resume s =
     (case sched_tsleep_ret s of
        (rc, s1) \<Rightarrow>
          let s2 = (if rc = SLP_INTR then ipc_unlink (cur_thread s1) s1 else s1);
              s3 = upd_cur (sendobj_update (\<lambda>_. None)) s2
          in (Done (if rc = SLP_BREAK then EAGAIN else if rc = SLP_INVAL then EINVAL
                    else if rc = SLP_INTR then EINTR else if rc = SLP_TIMEOUT then ETIMEDOUT else 0),
              sched_unlock s3))"

definition msg_receive_take :: "nat \<Rightarrow> vaddr \<Rightarrow> nat \<Rightarrow> kstate \<Rightarrow> sysres \<times> kstate" where
  "msg_receive_take ob msg sz s =
     (let th = msg_dequeue s (sendq (objects s ob));
          s1 = upd_object ob (sendq_update (remove1 th)) s;
          len = min sz (msgsize (threads s1 th));
          (e, s2) = (if 0 < len then umem_copyout_from (virt_to_phys (msgaddr (threads s1 th))) msg len s1 else (0, s1))
      in if e \<noteq> 0
         then (Done EFAULT, sched_unlock (upd_cur (recvobj_update (\<lambda>_. None))
                              (upd_object ob (sendq_update (\<lambda>q. q @ [th])) s2)))
         else (Done 0, sched_unlock (upd_thread th (receiver_update (\<lambda>_. Some (cur_thread s2)))
                              (upd_cur (sender_update (\<lambda>_. Some th)) s2))))"

text \<open>The loop test of \<^verbatim>\<open>msg_receive\<close>, and the code after its sleep.\<close>

definition msg_receive_wait :: "nat \<Rightarrow> vaddr \<Rightarrow> nat \<Rightarrow> u32 \<Rightarrow> kstate \<Rightarrow> sysres \<times> kstate" where
  "msg_receive_wait ob msg sz timeout s =
     (if sendq (objects s ob) = []
      then (Sleeping, sched_tsleep IpcEvent timeout (upd_object ob (recvq_update (\<lambda>q. q @ [cur_thread s])) s))
      else msg_receive_take ob msg sz s)"

definition msg_receive :: "nat \<Rightarrow> vaddr \<Rightarrow> nat \<Rightarrow> u32 \<Rightarrow> kstate \<Rightarrow> sysres \<times> kstate" where
  "msg_receive ob msg sz timeout s =
     (if \<not> user_area msg then (Done EFAULT, s)
      else let s1 = sched_lock s
           in if \<not> object_valid s1 ob then (Done EINVAL, sched_unlock s1)
              else if ob_owner (objects s1 ob) \<noteq> cur_task_ptr s1 then (Done EACCES, sched_unlock s1)
              else if recvobj (cur s1) \<noteq> None then (Done EBUSY, sched_unlock s1)
              else msg_receive_wait ob msg sz timeout (upd_cur (recvobj_update (\<lambda>_. Some ob)) s1))"

definition msg_receive_resume :: "nat \<Rightarrow> vaddr \<Rightarrow> nat \<Rightarrow> u32 \<Rightarrow> kstate \<Rightarrow> sysres \<times> kstate" where
  "msg_receive_resume ob msg sz timeout s =
     (case sched_tsleep_ret s of
        (rc, s1) \<Rightarrow>
          if rc = 0 then msg_receive_wait ob msg sz timeout s1
          else if rc = SLP_INVAL then (Done EINVAL, sched_unlock (upd_cur (recvobj_update (\<lambda>_. None)) s1))
          else if rc = SLP_INTR
          then (Done EINTR, sched_unlock (upd_cur (recvobj_update (\<lambda>_. None)) (ipc_unlink (cur_thread s1) s1)))
          else if rc = SLP_TIMEOUT then (Done ETIMEDOUT, sched_unlock (upd_cur (recvobj_update (\<lambda>_. None)) s1))
          else (Panic, s1))"

definition msg_reply :: "nat \<Rightarrow> vaddr \<Rightarrow> nat \<Rightarrow> kstate \<Rightarrow> errno \<times> kstate" where
  "msg_reply ob msg sz s =
     (if \<not> user_area msg then (EFAULT, s)
      else let s1 = sched_lock s;
               clear = (\<lambda>t. sched_unlock (upd_cur (\<lambda>t. t\<lparr>sender := None, recvobj := None\<rparr>) t))
           in if \<not> object_valid s1 ob \<or> recvobj (cur s1) \<noteq> Some ob then (EINVAL, sched_unlock s1)
              else case sender (cur s1) of
                     None \<Rightarrow> (EINVAL, clear s1)
                   | Some th \<Rightarrow>
                       let len = min sz (msgsize (threads s1 th));
                           (e, s2) = (if 0 < len then umem_copyin_to msg (virt_to_phys (msgaddr (threads s1 th))) len s1
                                      else (0, s1))
                       in if e \<noteq> 0 then (EFAULT, sched_unlock s2)
                          else (0, clear (upd_thread th (receiver_update (\<lambda>_. None)) (sched_unsleep th 0 s2))))"

definition msg_cleanup :: "tid \<Rightarrow> kstate \<Rightarrow> kstate" where
  "msg_cleanup th s =
     (let s1 = sched_lock s;
          s2 = (if sendobj (threads s1 th) \<noteq> None
                then case receiver (threads s1 th) of
                       Some r \<Rightarrow> upd_thread r (sender_update (\<lambda>_. None)) s1
                     | None \<Rightarrow> ipc_unlink th s1
                else s1);
          s3 = (if recvobj (threads s2 th) \<noteq> None
                then case sender (threads s2 th) of
                       Some sn \<Rightarrow> upd_thread sn (receiver_update (\<lambda>_. None)) (sched_unsleep sn SLP_BREAK s2)
                     | None \<Rightarrow> ipc_unlink th s2
                else s2)
      in sched_unlock s3)"

fun msg_cancel_send :: "nat \<Rightarrow> tid list \<Rightarrow> kstate \<Rightarrow> kstate" where
  "msg_cancel_send ob [] s = s"
| "msg_cancel_send ob (th # q) s =
     msg_cancel_send ob q (sched_unsleep th SLP_INVAL (upd_object ob (sendq_update (\<lambda>_. q)) s))"

fun msg_cancel_recv :: "nat \<Rightarrow> tid list \<Rightarrow> kstate \<Rightarrow> kstate" where
  "msg_cancel_recv ob [] s = s"
| "msg_cancel_recv ob (th # q) s =
     msg_cancel_recv ob q (sched_unsleep th SLP_INVAL (upd_object ob (recvq_update (\<lambda>_. q)) s))"

definition msg_cancel :: "nat \<Rightarrow> kstate \<Rightarrow> kstate" where
  "msg_cancel ob s =
     (let s1 = sched_lock s;
          s2 = msg_cancel_send ob (sendq (objects s1 ob)) s1;
          s3 = msg_cancel_recv ob (recvq (objects s2 ob)) s2
      in sched_unlock s3)"

definition msg_init :: "kstate \<Rightarrow> kstate" where
  "msg_init s = event_init IpcEvent s"

section \<open>Lemmas\<close>

lemma sched_lock_ipc [simp]:
  "msgsize (threads (sched_lock s) x) = msgsize (threads s x)" "msgaddr (threads (sched_lock s) x) = msgaddr (threads s x)"
  "sender (threads (sched_lock s) x) = sender (threads s x)" "recvobj (threads (sched_lock s) x) = recvobj (threads s x)"
  "receiver (threads (sched_lock s) x) = receiver (threads s x)" "sendobj (threads (sched_lock s) x) = sendobj (threads s x)"
  by (simp_all add: sched_lock_def)

lemma object_valid_lock [simp]: "object_valid (sched_lock s) = object_valid s"
  by (simp add: object_valid_def fun_eq_iff)

lemma kmem_map_lock [simp]: "kmem_map a n (sched_lock s) = kmem_map a n s"
  by (simp add: kmem_map_def)

lemma kpoke_word_mem [simp]: "mem_only s (kpoke_word p v s)"
  unfolding kpoke_word_def by (meson mem_only_poke mem_only_trans)

lemma kpoke_word_at:
  "i < 4 \<Longrightarrow> pmem (vm (kpoke_word p v s)) (p + i) = le32 v ! i"
  "x < p \<or> p + 4 \<le> x \<Longrightarrow> pmem (vm (kpoke_word p v s)) x = pmem (vm s) x"
  by (auto simp: kpoke_word_def less_Suc_eq numeral_eq_Suc)

lemma msg_dequeue_first:
  assumes "q \<noteq> []"
  shows "\<exists>us vs. q = us @ msg_dequeue s q # vs \<and> (\<forall>x \<in> set us. prio (threads s (msg_dequeue s q)) < prio (threads s x)) \<and>
    (\<forall>y \<in> set vs. prio (threads s (msg_dequeue s q)) \<le> prio (threads s y))"
  using top_waiter_first [of "hd q" "tl q" "\<lambda>t. prio (threads s t)"] assms by (simp add: msg_dequeue_def)

section \<open>Sending\<close>

text \<open>
  C34: Who may send. A call of \<^verbatim>\<open>msg_send\<close> goes to sleep exactly when the buffer is in user space, holds at
  least a header and is mapped, the object exists, the caller owns it or has the capability for it, and the caller is
  not itself serving that object. In every other case it returns an error and leaves every
  object, every thread's message state and all of memory as they were.
\<close>

theorem msg_send_errors:
  assumes "msg_send ob msg sz t s = (r, s')"
  shows "(r = Sleeping \<longleftrightarrow> user_area msg \<and> MSG_HEADER_SIZE \<le> sz \<and> object_valid s ob \<and>
      (ob_owner (objects s ob) = cur_task_ptr s \<or> task_capable CAP_IPC s) \<and> recvobj (cur s) \<noteq> Some ob \<and>
      (\<exists>k. kmem_map msg sz s = Some (Some k))) \<and>
    (r \<noteq> Sleeping \<longrightarrow> objects s' = objects s \<and> pmem (vm s') = pmem (vm s) \<and>
      (\<forall>x. msgaddr (threads s' x) = msgaddr (threads s x) \<and> msgsize (threads s' x) = msgsize (threads s x) \<and>
           sendobj (threads s' x) = sendobj (threads s x) \<and> recvobj (threads s' x) = recvobj (threads s x)))"
proof -
  have k: "objects (sched_unlock w) = objects w" "pmem (vm (sched_unlock w)) = pmem (vm w)"
    "msgaddr (threads (sched_unlock w) x) = msgaddr (threads w x)" "msgsize (threads (sched_unlock w) x) = msgsize (threads w x)"
    "sendobj (threads (sched_unlock w) x) = sendobj (threads w x)" "recvobj (threads (sched_unlock w) x) = recvobj (threads w x)"
    for w x by (simp_all add: kproj)
  consider "\<not> user_area msg \<or> sz < MSG_HEADER_SIZE" | "kmem_map msg sz s = None" "user_area msg" "MSG_HEADER_SIZE \<le> sz"
    | "kmem_map msg sz s = Some None" "user_area msg" "MSG_HEADER_SIZE \<le> sz"
    | kmsg where "kmem_map msg sz s = Some (Some kmsg)" "user_area msg" "MSG_HEADER_SIZE \<le> sz"
    by (metis not_le option.exhaust)
  then show ?thesis
    by cases (use assms in \<open>auto simp: msg_send_def Let_def k split: if_splits\<close>)
qed

lemma msg_send_sleep:
  assumes "msg_send ob msg sz t s = (Sleeping, s')" "kmem_map msg sz s = Some (Some k)"
  defines "s3 \<equiv> upd_thread (cur_thread s) (\<lambda>t. t\<lparr>msgaddr := k, msgsize := sz\<rparr>)
    (kpoke_word (virt_to_phys k) (cur_task_ptr s) (sched_lock s))"
  defines "s4 \<equiv> (if recvq (objects s ob) = [] then s3
    else sched_unsleep (msg_dequeue s (recvq (objects s ob))) 0
           (upd_object ob (recvq_update (remove1 (msg_dequeue s (recvq (objects s ob))))) s3))"
  shows "s' = sched_tsleep IpcEvent t (upd_object ob (sendq_update (\<lambda>q. q @ [cur_thread s4]))
    (upd_cur (sendobj_update (\<lambda>_. Some ob)) s4))"
proof -
  have c: "cur_thread (kpoke_word p v (sched_lock s)) = cur_thread s" "objects (kpoke_word p v (sched_lock s)) = objects s"
    "threads (kpoke_word p v (sched_lock s)) = threads (sched_lock s)" for p v
    using mem_onlyD [OF kpoke_word_mem [of "sched_lock s" p v]] by simp_all
  have "(\<lambda>t. prio (threads s3 t)) = (\<lambda>t. prio (threads s t))" by (auto simp: s3_def c fun_eq_iff)
  then have d: "msg_dequeue s3 q = msg_dequeue s q" for q by (simp add: msg_dequeue_def)
  have o: "objects s3 = objects s" by (simp add: s3_def c)
  show ?thesis
    using assms(1,2) c by (auto simp: msg_send_def Let_def s3_def [symmetric] d o s4_def split: if_splits)
qed

text \<open>
  C11: What a sender leaves behind. The sender sleeps at the end of the object's send queue; the first
  word of the message, read by the receiver as the identity of the sender, is the caller's task,
  whatever the caller had put there; and if threads wait to receive from the object, the first of them with
  the best priority is taken off the receive queue and its sleep ends with success.
\<close>

theorem msg_send_spec:
  assumes "sched_wf s" and "thread_valid s (cur_thread s)" and "\<not> asleep s (cur_thread s)"
    and "cur_thread s \<noteq> idle_thread s" and "0 \<le> locks (cur s)"
    and "\<forall>x \<in> set (recvq (objects s ob)). thread_valid s x \<and> asleep s x"
    and "msg_send ob msg sz t s = (Sleeping, s')" and "kmem_map msg sz s = Some (Some k)"
  shows "sched_wf s' \<and> asleep s' (cur_thread s) \<and> sendq (objects s' ob) = sendq (objects s ob) @ [cur_thread s] \<and>
    msgaddr (threads s' (cur_thread s)) = k \<and> msgsize (threads s' (cur_thread s)) = sz \<and>
    (\<forall>i < 4. pmem (vm s') (virt_to_phys k + i) = le32 (cur_task_ptr s) ! i) \<and>
    (if recvq (objects s ob) = [] then sleepq s' = (sleepq s)(IpcEvent := sleepq s IpcEvent @ [cur_thread s])
     else \<exists>us th vs. recvq (objects s ob) = us @ th # vs \<and> recvq (objects s' ob) = us @ vs \<and>
       (\<forall>x \<in> set us. prio (threads s th) < prio (threads s x)) \<and> (\<forall>y \<in> set vs. prio (threads s th) \<le> prio (threads s y)) \<and>
       slpret (threads s' th) = 0 \<and> th \<noteq> cur_thread s \<and>
       sleepq s' = (\<lambda>e. remove1 th (sleepq s e))(IpcEvent := remove1 th (sleepq s IpcEvent) @ [cur_thread s]))"
proof -
  let ?c = "cur_thread s" and ?q = "recvq (objects s ob)"
  let ?d = "msg_dequeue s ?q"
  define s3 where "s3 = upd_thread (cur_thread s) (\<lambda>t. t\<lparr>msgaddr := k, msgsize := sz\<rparr>)
    (kpoke_word (virt_to_phys k) (cur_task_ptr s) (sched_lock s))"
  define w where "w = upd_object ob (recvq_update (remove1 ?d)) s3"
  define s4 where "s4 = (if ?q = [] then s3 else sched_unsleep ?d 0 w)"
  define s6 where "s6 = upd_object ob (sendq_update (\<lambda>q. q @ [cur_thread s4])) (upd_cur (sendobj_update (\<lambda>_. Some ob)) s4)"
  have s': "s' = sched_tsleep IpcEvent t s6"
    unfolding s6_def s4_def w_def s3_def by (rule msg_send_sleep [OF assms(7,8)])
  note m = mem_onlyD [OF kpoke_word_mem [of "sched_lock s" "virt_to_phys k" "cur_task_ptr s"]]
  have same: "sched_same a (upd_thread x (\<lambda>t. t\<lparr>msgaddr := k, msgsize := sz\<rparr>) a)" for a x by (simp add: sched_same_def)
  have s3: "sched_wf s3" "cur_thread s3 = ?c" "1 \<le> locks (cur s3)" "asleep s3 = asleep s" "thread_valid s3 = thread_valid s"
    "idle_thread s3 = idle_thread s" "objects s3 = objects s" "sleepq s3 = sleepq s" "msgaddr (threads s3 ?c) = k"
    "msgsize (threads s3 ?c) = sz" "\<forall>i < 4. pmem (vm s3) (virt_to_phys k + i) = le32 (cur_task_ptr s) ! i"
    using assms(1,5) m sched_same_wf [OF same] sched_same_wf [OF mem_only_same [OF kpoke_word_mem]]
    by (simp_all add: s3_def asleep_def thread_valid_def fun_eq_iff kpoke_word_at)
  have w: "sched_wf w" "cur_thread w = ?c" "1 \<le> locks (cur w)" "asleep w = asleep s" "thread_valid w = thread_valid s"
    "idle_thread w = idle_thread s" "sleepq w = sleepq s" "threads w = threads s3" "vm w = vm s3"
    using s3 by (simp_all add: w_def asleep_def thread_valid_def fun_eq_iff)
  have dq: "?d \<in> set ?q" if "?q \<noteq> []" using msg_dequeue_first [OF that, of s] by (metis in_set_conv_decomp)
  have u: "sched_wf (sched_unsleep ?d 0 w)" if "?q \<noteq> []" using sched_unsleep_wf [OF w(1)] dq [OF that] assms(6) w(5) by simp
  have "asleep s4 ?c = asleep s3 ?c" using sched_unsleep_nested(3) [OF w(3)] w(8) by (simp add: s4_def asleep_def)
  then have s4: "sched_wf s4" "cur_thread s4 = ?c" "asleep s4 ?c = asleep s ?c" "thread_valid s4 = thread_valid s"
    "idle_thread s4 = idle_thread s" "msgaddr (threads s4 ?c) = k" "msgsize (threads s4 ?c) = sz"
    "pmem (vm s4) = pmem (vm s3)" "sendq (objects s4 ob) = sendq (objects s ob)"
    using u s3 w sched_unsleep_nested [OF w(3)] by (auto simp: s4_def kproj) (simp_all add: w_def)
  have s6: "sched_wf s6" "cur_thread s6 = ?c" "asleep s6 (cur_thread s6) = asleep s ?c" "thread_valid s6 = thread_valid s"
    "idle_thread s6 = idle_thread s" "msgaddr (threads s6 ?c) = k" "msgsize (threads s6 ?c) = sz"
    "pmem (vm s6) = pmem (vm s3)" "sendq (objects s6 ob) = sendq (objects s ob) @ [?c]" "sleepq s6 = sleepq s4"
    "slpret (threads s6 x) = slpret (threads s4 x)" "recvq (objects s6 ob) = recvq (objects s4 ob)" for x
    using s4 sched_same_wf [of s4 "upd_thread ?c (sendobj_update (\<lambda>_. Some ob)) s4"]
    by (simp_all add: s6_def asleep_def thread_valid_def fun_eq_iff sched_same_def)
  note q = sched_tsleep_queue [OF s6(1), of IpcEvent t]
  have a: "sched_wf s'" "asleep s' ?c" "sleepq s' = (sleepq s4)(IpcEvent := sleepq s4 IpcEvent @ [?c])"
    using sched_tsleep_wf(1) [OF s6(1), of IpcEvent t] q assms(2-4) s6 by (simp_all add: s')
  have b: "msgaddr (threads s' ?c) = k" "msgsize (threads s' ?c) = sz" "pmem (vm s') = pmem (vm s3)"
    "sendq (objects s' ob) = sendq (objects s ob) @ [?c]" "recvq (objects s' ob) = recvq (objects s4 ob)"
    "slpret (threads s' x) = slpret (threads s4 x)" for x
    using s6 by (simp_all add: s' kproj sched_tsleep_slpret)
  show ?thesis
  proof (cases "?q = []")
    case True
    then show ?thesis using a b s3 by (simp add: s4_def)
  next
    case False
    obtain us vs where sp: "?q = us @ ?d # vs" "\<forall>x \<in> set us. prio (threads s ?d) < prio (threads s x)"
      "\<forall>y \<in> set vs. prio (threads s ?d) \<le> prio (threads s y)"
      using msg_dequeue_first [OF False, of s] by blast
    have d: "asleep w ?d" "?d \<noteq> ?c" using assms(3,6) w(4) dq [OF False] by auto
    have "?d \<notin> set us" using sp(2) by auto
    then have "remove1 ?d ?q = us @ vs" using sp(1) remove1_middle by metis
    then have "recvq (objects s4 ob) = us @ vs" using False s3(7) by (simp add: s4_def kproj w_def)
    moreover have "sleepq s4 e = remove1 ?d (sleepq s e)" "slpret (threads s4 ?d) = 0" for e
      using sched_unsleep_queue [OF w(3) d(1), of 0] False w(7) by (simp_all add: s4_def)
    ultimately show ?thesis
      unfolding if_not_P [OF False] using a b sp d(2) s3(11)
      by (intro conjI exI [of _ us] exI [of _ "?d"] exI [of _ vs]) (auto simp: fun_eq_iff)
  qed
qed

section \<open>Receiving\<close>

lemma umem_copyout_from_spec:
  assumes "a + n < UMEM_MAX" "\<forall>i < n. u_write s (a + i) = Some (p i)" "inj_on p {..<n}" "\<forall>i < n. \<forall>j < n. p i \<noteq> src + j"
  shows "fst (umem_copyout_from src a n s) = 0"
    "i < n \<Longrightarrow> pmem (vm (snd (umem_copyout_from src a n s))) (p i) = pmem (vm s) (src + i)"
    "\<forall>i < n. x \<noteq> p i \<Longrightarrow> pmem (vm (snd (umem_copyout_from src a n s))) x = pmem (vm s) x"
  using ucopyout_from_spec [OF assms(2-4)] assms(1) by (auto simp: umem_copyout_from_def case_prod_beta)

lemma umem_copyin_to_spec:
  assumes "a + n < UMEM_MAX" "\<forall>i < n. u_read s (a + i) = Some (p i)" "\<forall>i < n. \<forall>j < n. p i \<noteq> dst + j"
  shows "fst (umem_copyin_to a dst n s) = 0"
    "i < n \<Longrightarrow> pmem (vm (snd (umem_copyin_to a dst n s))) (dst + i) = pmem (vm s) (p i)"
    "\<forall>i < n. x \<noteq> dst + i \<Longrightarrow> pmem (vm (snd (umem_copyin_to a dst n s))) x = pmem (vm s) x"
  using ucopyin_to_spec [OF assms(2,3)] assms(1) by (auto simp: umem_copyin_to_def case_prod_beta)

text \<open>
  C35: Receiving a waiting message. The receiver gets the message of the first sender with the best priority: exactly the
  bytes of the sender's buffer, clipped to the smaller of the two buffers, and no other byte of
  memory changes. The two threads are then tied to each other and the sender has left the queue.
\<close>

theorem msg_receive_spec:
  assumes "user_area msg" and "object_valid s ob" and "ob_owner (objects s ob) = cur_task_ptr s"
    and "recvobj (cur s) = None" and "sendq (objects s ob) \<noteq> []" and "msg_receive ob msg sz t s = (r, s')"
    and "th = msg_dequeue s (sendq (objects s ob))" and "len = min sz (msgsize (threads s th))"
    and "src = virt_to_phys (msgaddr (threads s th))" and "msg + len < UMEM_MAX"
    and "\<forall>i < len. u_write s (msg + i) = Some (p i)" and "inj_on p {..<len}" and "\<forall>i < len. \<forall>j < len. p i \<noteq> src + j"
  shows "r = Done 0 \<and> (\<forall>i < len. pmem (vm s') (p i) = pmem (vm s) (src + i)) \<and>
    (\<forall>x. (\<forall>i < len. x \<noteq> p i) \<longrightarrow> pmem (vm s') x = pmem (vm s) x) \<and>
    sender (threads s' (cur_thread s)) = Some th \<and> receiver (threads s' th) = Some (cur_thread s) \<and>
    recvobj (threads s' (cur_thread s)) = Some ob \<and>
    (\<exists>us vs. sendq (objects s ob) = us @ th # vs \<and> sendq (objects s' ob) = us @ vs \<and>
       (\<forall>x \<in> set us. prio (threads s th) < prio (threads s x)) \<and> (\<forall>y \<in> set vs. prio (threads s th) \<le> prio (threads s y)))"
proof -
  let ?c = "cur_thread s"
  define s0 where "s0 = upd_thread ?c (recvobj_update (\<lambda>_. Some ob)) (sched_lock s)"
  define s1 where "s1 = upd_object ob (sendq_update (remove1 th)) s0"
  define s2 where "s2 = (if 0 < len then snd (umem_copyout_from src msg len s1) else s1)"
  have "(\<lambda>x. prio (threads s0 x)) = (\<lambda>x. prio (threads s x))" by (auto simp: s0_def fun_eq_iff)
  then have q: "msg_dequeue s0 (sendq (objects s0 ob)) = th" by (simp add: assms(7) msg_dequeue_def) (simp add: s0_def)
  have m1: "msgsize (threads s1 th) = msgsize (threads s th)" "msgaddr (threads s1 th) = msgaddr (threads s th)"
    "cur_thread s1 = ?c" "vm s1 = vm s" "recvobj (threads s1 ?c) = Some ob" "sendq (objects s1 ob) = remove1 th (sendq (objects s ob))"
    by (simp_all add: s1_def s0_def)
  have w: "\<forall>i < len. u_write s1 (msg + i) = Some (p i)" using assms(11) u_read_vm(2) [OF m1(4)] by simp
  note cp = umem_copyout_from_spec [OF assms(10) w assms(12,13)]
  have mo: "mem_only s1 s2" by (simp add: s2_def)
  note m2 = mem_onlyD [OF mo]
  have e: "(if 0 < len then umem_copyout_from src msg len s1 else (0, s1)) = (0, s2)"
    using cp(1) by (simp add: s2_def prod_eq_iff)
  have "msg_receive_take ob msg sz s0 =
    (Done 0, sched_unlock (upd_thread th (receiver_update (\<lambda>_. Some (cur_thread s2))) (upd_cur (sender_update (\<lambda>_. Some th)) s2)))"
    unfolding msg_receive_take_def Let_def q s1_def [symmetric] m1(1,2) assms(8,9) [symmetric] e by simp
  then have r: "r = Done 0"
    "s' = sched_unlock (upd_thread th (receiver_update (\<lambda>_. Some (cur_thread s2))) (upd_cur (sender_update (\<lambda>_. Some th)) s2))"
    using assms(1-6) by (simp_all add: msg_receive_def Let_def msg_receive_wait_def s0_def)
  have mem: "\<forall>i < len. pmem (vm s2) (p i) = pmem (vm s) (src + i)" "\<forall>x. (\<forall>i < len. x \<noteq> p i) \<longrightarrow> pmem (vm s2) x = pmem (vm s) x"
    using cp(2,3) m1(4) by (auto simp: s2_def)
  obtain us vs where sp: "sendq (objects s ob) = us @ th # vs" "\<forall>x \<in> set us. prio (threads s th) < prio (threads s x)"
    "\<forall>y \<in> set vs. prio (threads s th) \<le> prio (threads s y)"
    using msg_dequeue_first [OF assms(5), of s] unfolding assms(7) by blast
  have "th \<notin> set us" using sp(2) by auto
  then have "sendq (objects s' ob) = us @ vs" using m1(6) m2 sp(1) by (simp add: r kproj)
  moreover have "pmem (vm s') = pmem (vm s2)" "sender (threads s' ?c) = Some th" "receiver (threads s' th) = Some ?c"
    "recvobj (threads s' ?c) = Some ob"
    using m1(3,5) m2 by (auto simp: r kproj)
  ultimately show ?thesis using r(1) mem sp by auto
qed

section \<open>Replying\<close>

text \<open>
  C36: Replying. The reply is copied into the sender's buffer, clipped to the smaller of the two sizes, and no other
  byte of memory changes; the sender's sleep ends with success, and the two threads are
  separated, so that the receiver can receive again.
\<close>

theorem msg_reply_spec:
  assumes "sched_wf s" and "0 \<le> locks (cur s)" and "user_area msg" and "object_valid s ob"
    and "recvobj (cur s) = Some ob" and "sender (cur s) = Some th" and "thread_valid s th" and "asleep s th"
    and "th \<noteq> cur_thread s" and "msg_reply ob msg sz s = (err, s')"
    and "len = min sz (msgsize (threads s th))" and "dst = virt_to_phys (msgaddr (threads s th))"
    and "msg + len < UMEM_MAX" and "\<forall>i < len. u_read s (msg + i) = Some (p i)" and "\<forall>i < len. \<forall>j < len. p i \<noteq> dst + j"
  shows "err = 0 \<and> sched_wf s' \<and> (\<forall>i < len. pmem (vm s') (dst + i) = pmem (vm s) (p i)) \<and>
    (\<forall>x. (\<forall>i < len. x \<noteq> dst + i) \<longrightarrow> pmem (vm s') x = pmem (vm s) x) \<and>
    slpret (threads s' th) = 0 \<and> (\<forall>e. sleepq s' e = remove1 th (sleepq s e)) \<and> receiver (threads s' th) = None \<and>
    sender (threads s' (cur_thread s)) = None \<and> recvobj (threads s' (cur_thread s)) = None"
proof -
  let ?c = "cur_thread s"
  define s2 where "s2 = (if 0 < len then snd (umem_copyin_to msg dst len (sched_lock s)) else sched_lock s)"
  define u where "u = sched_unsleep th 0 s2"
  define v where "v = upd_thread ?c (\<lambda>t. t\<lparr>sender := None, recvobj := None\<rparr>) (upd_thread th (receiver_update (\<lambda>_. None)) u)"
  have rd: "\<forall>i < len. u_read (sched_lock s) (msg + i) = Some (p i)" using assms(14) u_read_vm(1) [of "sched_lock s" s] by simp
  note cp = umem_copyin_to_spec [OF assms(13) rd assms(15)]
  have mo: "mem_only (sched_lock s) s2" by (simp add: s2_def)
  note m2 = mem_onlyD [OF mo]
  have e: "(if 0 < len then umem_copyin_to msg dst len (sched_lock s) else (0, sched_lock s)) = (0, s2)"
    using cp(1) by (simp add: s2_def prod_eq_iff)
  have s2: "sched_wf s2" "1 \<le> locks (cur s2)" "thread_valid s2 th" "asleep s2 th" "cur_thread s2 = ?c"
    using assms(1,2,7,8) m2 sched_same_wf [OF mem_only_same [OF mo]] by (simp_all add: thread_valid_def asleep_def)
  have u: "sched_wf u" "cur_thread u = ?c" "pmem (vm u) = pmem (vm s2)" "slpret (threads u th) = 0"
    "sleepq u e = remove1 th (sleepq s e)" for e
    using sched_unsleep_wf [OF s2(1,3)] sched_unsleep_nested(1) [OF s2(2)] sched_unsleep_queue [OF s2(2,4)] s2(5) m2(6)
    by (simp_all add: u_def kproj)
  have "msg_reply ob msg sz s = (0, sched_unlock v)"
    unfolding msg_reply_def Let_def sched_lock_cur(1) sched_lock_ipc assms(6) option.case assms(11,12) [symmetric] e prod.case u_def [symmetric]
    using assms(3-5) u(2) by (simp add: v_def)
  then have r: "err = 0" "s' = sched_unlock v" using assms(10) by simp_all
  have "sched_same u v" using assms(9) by (simp add: sched_same_def v_def)
  then have v: "sched_wf v" using u(1) sched_same_wf by blast
  have w: "vm v = vm u" "sleepq v = sleepq u" "slpret (threads v th) = slpret (threads u th)" "receiver (threads v th) = None"
    "sender (threads v ?c) = None" "recvobj (threads v ?c) = None"
    using assms(9) by (simp_all add: v_def)
  have mem: "\<forall>i < len. pmem (vm s2) (dst + i) = pmem (vm s) (p i)" "\<forall>x. (\<forall>i < len. x \<noteq> dst + i) \<longrightarrow> pmem (vm s2) x = pmem (vm s) x"
    using cp(2,3) by (auto simp: s2_def)
  show ?thesis using r sched_unlock_wf [OF v] w u(3-5) mem by (simp add: kproj)
qed

text \<open>
  A send that times out before its message is received leaves the sender in the object's queue: only
  an exception takes it out. A receiver then copies from a buffer its owner has taken back.
\<close>

lemma msg_send_timeout_stays_queued:
  assumes "fst (sched_tsleep_ret s) = SLP_TIMEOUT"
  shows "fst (msg_send_resume s) = Done ETIMEDOUT" "objects (snd (msg_send_resume s)) = objects s"
  using assms by (simp_all add: msg_send_resume_def case_prod_beta Let_def slp_defs kproj)

section \<open>Examples\<close>

definition demo_ipc :: kstate where
  "demo_ipc = upd_object 0x80006000 (\<lambda>_. \<lparr>ob_magic = OBJECT_MAGIC, ob_name = replicate MAXOBJNAME 0, ob_owner = 0x80000200,
       sendq = [0x80003000], recvq = [0x80004000]\<rparr>)
     (upd_thread 0x80003000 (\<lambda>t. t\<lparr>msgaddr := 0x80300000, msgsize := 12\<rparr>) demo_state)"

lemma demo_ipc_proj [simp]:
  "cur_thread demo_ipc = 0x80002000" "idle_thread demo_ipc = 0x80001000" "vm demo_ipc = demo_vm"
  "threads demo_ipc 0x80002000 = demo_thread 200 TH_RUN None"
  "msgaddr (threads demo_ipc 0x80003000) = 0x80300000" "msgsize (threads demo_ipc 0x80003000) = 12"
  "objects demo_ipc 0x80006000 = \<lparr>ob_magic = OBJECT_MAGIC, ob_name = replicate MAXOBJNAME 0, ob_owner = 0x80000200,
       sendq = [0x80003000], recvq = [0x80004000]\<rparr>"
  "sched_wf demo_ipc" "thread_valid demo_ipc = thread_valid demo_state" "asleep demo_ipc = asleep demo_state"
  "tasks demo_ipc = tasks demo_state"
proof -
  have "sched_same demo_state (upd_thread 0x80003000 (\<lambda>t. t\<lparr>msgaddr := 0x80300000, msgsize := 12\<rparr>) demo_state)"
    by (simp add: sched_same_def)
  then show "sched_wf demo_ipc" using demo_wf by (simp add: demo_ipc_def sched_same_wf)
qed (simp_all add: demo_ipc_def demo_proj thread_valid_def asleep_def fun_eq_iff)

lemma demo_asleep: "asleep demo_state 0x80003000" "asleep demo_state 0x80004000" "\<not> asleep demo_state 0x80002000"
  by (simp_all add: asleep_def demo_proj demo_thread_def flag_simps)

lemma demo_cur_task: "cur_task_ptr demo_ipc = 0x80000200"
  by (simp add: cur_task_ptr_def cur_task_def demo_thread_def)

lemma demo_kmem_map: "kmem_map 0x1000 12 demo_ipc = Some (Some 0x80200000)"
proof -
  have m: "maps demo_vm x = \<lparr>rlist = [], refcnt = 1, pgd = 0x80003000\<rparr>" "mmu_st demo_vm = demo_mmu" for x
    by (simp_all add: demo_vm_def)
  have p: "pte_present 0x80003000 0x1000 demo_mmu" "page_present 0x80004000 0x1000 demo_mmu"
    "pgd_to_pte 0x80003000 0x1000 demo_mmu = 0x80004000" "pte_to_page 0x80004000 0x1000 demo_mmu = 0x200000"
    by (simp_all add: pte_present_def page_present_def pgd_to_pte_def pte_to_page_def demo_mmu_def PAGE_DIR_def PAGE_TABLE_def
        PTE_PRESENT_def PTE_ADDRESS_def phys_to_virt_def PAGE_OFFSET_def)
  have "mmu_pages_ok (Suc (Suc n)) 0x80003000 0x1000 0x1000 demo_mmu = Some True" for n
    using p by (simp add: PAGE_SIZE_def)
  from this [of "2 ^ 20 - 1"] have "mmu_pages_ok (2 ^ 20 + 1) 0x80003000 0x1000 0x1000 demo_mmu = Some True" by simp
  then have "mmu_extract 0x80003000 0x1000 12 demo_mmu = Some 0x200000"
    using p by (simp add: mmu_extract_def PAGE_TRUNC_def PAGE_SIZE_def)
  then show ?thesis by (simp add: kmem_map_def vm_translate_def m phys_to_virt_def PAGE_OFFSET_def)
qed

lemma demo_may_send:
  "user_area 0x1000" "object_valid demo_ipc 0x80006000" "recvobj (threads demo_ipc 0x80002000) = None" "locks (threads demo_ipc 0x80002000) = 0"
  by (simp_all add: user_area_def UMEM_MAX_def object_valid_def kern_area_def PAGE_OFFSET_def demo_thread_def zero_thread_def)

theorem msg_send_errors_witness:
  "fst (msg_send 0x80006000 0x1000 12 0 demo_ipc) = Sleeping \<and> fst (msg_send 0x80006000 0x1000 11 0 demo_ipc) \<noteq> Sleeping"
proof -
  obtain r s' where r: "msg_send 0x80006000 0x1000 12 0 demo_ipc = (r, s')" by fastforce
  obtain q t' where q: "msg_send 0x80006000 0x1000 11 0 demo_ipc = (q, t')" by fastforce
  show ?thesis
    using msg_send_errors [OF r] msg_send_errors [OF q] r q demo_may_send demo_kmem_map demo_cur_task
    by (simp add: MSG_HEADER_SIZE_def)
qed

theorem msg_send_spec_witness:
  "\<exists>s'. msg_send 0x80006000 0x1000 12 0 demo_ipc = (Sleeping, s') \<and> slpret (threads s' 0x80004000) = 0 \<and>
     sendq (objects s' 0x80006000) = [0x80003000, 0x80002000] \<and> pmem (vm s') 0x200001 = 0x02"
proof -
  obtain r s' where r: "msg_send 0x80006000 0x1000 12 0 demo_ipc = (r, s')" by fastforce
  then have rs: "msg_send 0x80006000 0x1000 12 0 demo_ipc = (Sleeping, s')"
    using demo_may_send demo_kmem_map demo_cur_task by (simp add: msg_send_def MSG_HEADER_SIZE_def Let_def)
  note sp = msg_send_spec [OF _ _ _ _ _ _ rs demo_kmem_map]
  have h: "thread_valid demo_ipc (cur_thread demo_ipc)" "\<not> asleep demo_ipc (cur_thread demo_ipc)"
    "cur_thread demo_ipc \<noteq> idle_thread demo_ipc" "0 \<le> locks (cur demo_ipc)"
    "\<forall>x \<in> set (recvq (objects demo_ipc 0x80006000)). thread_valid demo_ipc x \<and> asleep demo_ipc x"
    using demo_asleep demo_may_send by (simp_all add: demo_valid)
  have "\<forall>i < 4. pmem (vm s') (0x200000 + i) = le32 0x80000200 ! i"
    using sp [OF _ h] demo_cur_task by (simp add: virt_to_phys_def PAGE_OFFSET_def)
  from spec [OF this, of 1] have "pmem (vm s') 0x200001 = 0x02" by (simp add: le32_def)
  then show ?thesis using sp [OF _ h] rs by (auto simp: Cons_eq_append_conv)
qed

theorem msg_receive_spec_witness:
  "\<exists>s'. msg_receive 0x80006000 0x1000 16 0 demo_ipc = (Done 0, s') \<and>
     sender (threads s' 0x80002000) = Some 0x80003000 \<and> pmem (vm s') 0x200001 = pmem demo_vm 0x300001"
proof -
  obtain r s' where r: "msg_receive 0x80006000 0x1000 16 0 demo_ipc = (r, s')" by fastforce
  have "u_write demo_ipc = u_write demo_state" by (rule u_read_vm) (simp add: demo_proj)
  then have w: "\<forall>i < 12. u_write demo_ipc (0x1000 + i) = Some (0x200000 + i)" by simp
  have q: "msg_dequeue demo_ipc (sendq (objects demo_ipc 0x80006000)) = 0x80003000" by (simp add: msg_dequeue_def)
  note sp = msg_receive_spec [OF demo_may_send(1,2) _ _ _ r q [symmetric] refl refl, where p = "\<lambda>i. 0x200000 + i"]
  show ?thesis
    using sp w demo_may_send(3) demo_cur_task r
    by (auto simp: UMEM_MAX_def inj_on_def virt_to_phys_def PAGE_OFFSET_def dest: spec [of _ 1])
qed

theorem msg_reply_spec_witness:
  "\<exists>s'. msg_reply 0x80006000 0x1000 12
       (upd_thread 0x80002000 (\<lambda>t. t\<lparr>recvobj := Some 0x80006000, sender := Some 0x80003000\<rparr>) demo_ipc) = (0, s') \<and>
     slpret (threads s' 0x80003000) = 0 \<and> pmem (vm s') 0x300001 = 0x60"
proof -
  let ?s = "upd_thread 0x80002000 (\<lambda>t. t\<lparr>recvobj := Some 0x80006000, sender := Some 0x80003000\<rparr>) demo_ipc"
  obtain r s' where r: "msg_reply 0x80006000 0x1000 12 ?s = (r, s')" by fastforce
  have "sched_same demo_ipc ?s" by (simp add: sched_same_def)
  then have wf: "sched_wf ?s" by (simp add: sched_same_wf)
  have "u_read ?s = u_read demo_state" by (rule u_read_vm) (simp add: demo_proj)
  then have w: "\<forall>i < 12. u_read ?s (0x1000 + i) = Some (0x200000 + i)" by simp
  have h: "0 \<le> locks (cur ?s)" "object_valid ?s 0x80006000" "recvobj (cur ?s) = Some 0x80006000" "sender (cur ?s) = Some 0x80003000"
    "thread_valid ?s 0x80003000" "asleep ?s 0x80003000" "0x80003000 \<noteq> cur_thread ?s"
  proof -
    have "thread_valid ?s = thread_valid demo_ipc" "asleep ?s = asleep demo_ipc" "object_valid ?s = object_valid demo_ipc"
      by (simp_all add: object_valid_def thread_valid_def asleep_def fun_eq_iff del: demo_ipc_proj(9,10))
    then show "object_valid ?s 0x80006000" "thread_valid ?s 0x80003000" "asleep ?s 0x80003000"
      using demo_may_send demo_asleep demo_valid by simp_all
  qed (use demo_may_send in simp_all)
  note sp = msg_reply_spec [OF wf h(1) demo_may_send(1) h(2-7) r refl refl, where p = "\<lambda>i. 0x200000 + i"]
  have "pmem demo_vm 0x200001 = 0x60" by (simp add: demo_vm_def)
  then show ?thesis using sp w r by (auto simp: UMEM_MAX_def virt_to_phys_def PAGE_OFFSET_def dest: spec [of _ 1])
qed

end
