(* ===== verification/Clib.thy ===== *)
theory Clib
  imports Prelude
begin

text \<open>
  The string functions of \<^verbatim>\<open>sys/lib\<close> on buffers of bytes. A source string ends at its first
  zero byte, or where the buffer ends; the callers in the kernel pass buffers that hold as many bytes as
  they give for the length.
\<close>

section \<open>The functions\<close>

text \<open>A \<^verbatim>\<open>signed char\<close>.\<close>

definition schar :: "int \<Rightarrow> int" where
  "schar x = (if x mod 256 < 128 then x mod 256 else x mod 256 - 256)"

fun strncmp :: "nat list \<Rightarrow> nat list \<Rightarrow> nat \<Rightarrow> int" where
  "strncmp (a # src) (b # tgt) (Suc n) =
     (let res = schar (int a - int b) in if res \<noteq> 0 \<or> a = 0 then res else strncmp src tgt n)"
| "strncmp src tgt n = 0"

fun strnlen :: "nat list \<Rightarrow> nat \<Rightarrow> nat" where
  "strnlen (b # bs) (Suc n) = (if b = 0 then 0 else Suc (strnlen bs n))"
| "strnlen bs n = 0"

fun strlcpy_at :: "nat \<Rightarrow> nat list \<Rightarrow> nat list \<Rightarrow> nat \<Rightarrow> nat \<times> nat list" where
  "strlcpy_at i dest src 0 = (i, dest)"
| "strlcpy_at i dest src (Suc 0) = (i, dest[i := 0])"
| "strlcpy_at i dest [] (Suc (Suc n)) = (i, dest)"
| "strlcpy_at i dest (b # src) (Suc (Suc n)) =
     (if b = 0 then (i, dest[i := 0]) else strlcpy_at (i + 1) (dest[i := b]) src (Suc n))"

definition strlcpy :: "nat list \<Rightarrow> nat list \<Rightarrow> nat \<Rightarrow> nat \<times> nat list" where
  "strlcpy dest src count = strlcpy_at 0 dest src count"

section \<open>Lemmas\<close>

lemma schar_zero: "a < 256 \<Longrightarrow> b < 256 \<Longrightarrow> schar (int a - int b) = 0 \<longleftrightarrow> a = b"
proof -
  assume ab: "a < 256" "b < 256"
  have "schar (int a - int b) = 0 \<longleftrightarrow> (int a - int b) mod 256 = 0" by (auto simp: schar_def)
  also have "\<dots> \<longleftrightarrow> 256 dvd int a - int b" by (simp add: dvd_eq_mod_eq_0)
  also have "\<dots> \<longleftrightarrow> a = b"
  proof
    assume "256 dvd int a - int b"
    then obtain k where "int a - int b = 256 * k" by (elim dvdE)
    then have "k < 1" "- 1 < k" using ab by linarith+
    then have "k = 0" by simp
    then show "a = b" using \<open>int a - int b = 256 * k\<close> by simp
  qed simp
  finally show ?thesis .
qed

lemma strncmp_same: "0 \<notin> set bs \<Longrightarrow> strncmp (bs @ 0 # x) (bs @ 0 # y) n = 0"
proof (induction bs arbitrary: n)
  case Nil
  then show ?case by (cases n) (simp_all add: schar_def)
next
  case (Cons b bs)
  then show ?case by (cases n) (simp_all add: schar_def)
qed

lemma strncmp_eq_iff:
  assumes "0 \<notin> set xs" "0 \<notin> set ys" "set xs \<subseteq> {..<256}" "set ys \<subseteq> {..<256}" "length xs < n" "length ys < n"
  shows "strncmp (xs @ 0 # u) (ys @ 0 # v) n = 0 \<longleftrightarrow> xs = ys"
  using assms
proof (induction xs arbitrary: ys n)
  case Nil
  then obtain m where "n = Suc m" by (cases n) auto
  then show ?case using Nil.prems schar_zero [of 0] by (cases ys) (auto simp: schar_def)
next
  case (Cons x xs)
  obtain m where m: "n = Suc m" using Cons.prems by (cases n) auto
  show ?case
  proof (cases ys)
    case Nil
    then show ?thesis using Cons.prems m schar_zero [of x 0] by auto
  next
    case (Cons y ys')
    then show ?thesis using Cons.prems Cons.IH [of ys' m] m schar_zero [of x y] by auto
  qed
qed

lemma strlcpy_at_copy:
  assumes "0 \<notin> set bs" "i + length bs < length d"
  shows "strlcpy_at i d (bs @ [0]) (Suc (length bs)) = (i + length bs, take i d @ bs @ 0 # drop (Suc (i + length bs)) d)"
  using assms
proof (induction bs arbitrary: i d)
  case Nil
  then show ?case by (simp add: upd_conv_take_nth_drop)
next
  case (Cons b bs)
  have "take i d @ [b] = take (i + 1) (d[i := b])" using Cons.prems by (simp add: take_Suc_conv_app_nth)
  then show ?case using Cons.IH [of "i + 1" "d[i := b]"] Cons.prems by simp
qed

lemma strlcpy_length [simp]: "length (snd (strlcpy d src n)) = length d"
proof -
  have "length (snd (strlcpy_at i d src n)) = length d" for i
    by (induction i d src n rule: strlcpy_at.induct) auto
  then show ?thesis by (simp add: strlcpy_def)
qed

lemma strlcpy_copy:
  "0 \<notin> set bs \<Longrightarrow> length bs < length d \<Longrightarrow>
   strlcpy d (bs @ [0]) (Suc (length bs)) = (length bs, bs @ 0 # drop (Suc (length bs)) d)"
  using strlcpy_at_copy [of bs 0 d] by (simp add: strlcpy_def)

lemma strnlen_spec: "0 \<notin> set bs \<Longrightarrow> strnlen (bs @ 0 # x) n = min n (length bs)"
proof (induction bs arbitrary: n)
  case Nil
  then show ?case by (cases n) auto
next
  case (Cons b bs)
  then show ?case by (cases n) auto
qed

end
