(* ===== verification/Thread.thy ===== *)
theory Thread
  imports Timer Message Mutex Clib
begin

text \<open>
  Threads, \<^verbatim>\<open>sys/kern/thread.c\<close>, with \<^verbatim>\<open>sched_init\<close> and \<^verbatim>\<open>timer_init\<close>, which start kernel threads. The part
  of a kernel stack below the trap frame, which \<^verbatim>\<open>thread_create\<close> copies and fills with a pattern, holds no
  state of the model. A call that terminates its own thread ends in the switch to another thread; its
  result is never seen.
\<close>

section \<open>Names\<close>

text \<open>
  A pointer to a name: the kernel's own calls pass a string, a system call an address in user memory.
  The address of a kernel string is no user address.
\<close>

datatype name_ptr = KName "nat list" | UName vaddr

fun name_str :: "name_ptr \<Rightarrow> nat list" where
  "name_str (KName str) = str"
| "name_str (UName a) = []"

fun name_addr :: "name_ptr \<Rightarrow> vaddr" where
  "name_addr (KName str) = UMEM_MAX"
| "name_addr (UName a) = a"

definition cstr :: "string \<Rightarrow> nat list" where
  "cstr str = map of_char str @ [0]"

text \<open>Bytes copied over the start of an array.\<close>

definition overlay :: "nat list \<Rightarrow> nat list \<Rightarrow> nat list" where
  "overlay bs old = bs @ drop (length bs) old"

section \<open>Creation and termination\<close>

definition thread_alloc :: "kstate \<Rightarrow> tid option \<times> kstate" where
  "thread_alloc s0 =
     (case kmem_alloc_block s0 of
        (None, s1) \<Rightarrow> (None, s1)
      | (Some th, s1) \<Rightarrow>
          (case kmem_alloc_block s1 of
             (None, s2) \<Rightarrow> (None, kmem_free_block th s2)
           | (Some stack, s2) \<Rightarrow>
               let s3 = upd_timer (ThreadTimeout th) (\<lambda>_. zero_timer) s2
               in (Some th, upd_thread th (\<lambda>_. zero_thread\<lparr>kstack := stack, th_magic := THREAD_MAGIC\<rparr>) s3)))"

definition thread_free :: "tid \<Rightarrow> kstate \<Rightarrow> kstate" where
  "thread_free th s =
     (let s1 = upd_thread th (th_magic_update (\<lambda>_. 0)) s
      in kmem_free_block th (kmem_free_block (kstack (threads s1 th)) s1))"

definition thread_setup :: "tid \<Rightarrow> task_t \<Rightarrow> kstate \<Rightarrow> kstate" where
  "thread_setup th t s =
     (let s1 = upd_thread th (\<lambda>x. x\<lparr>th_task := Some t, suscnt := tk_suscnt (tasks s t) + 1\<rparr>) s;
          s2 = upd_ctx th (uframe_update (\<lambda>_. uframe (ctx (cur s1)))) s1;
          s3 = context_set th (CTX_KSTACK (kstack (threads s2 th) + KSTACK_SIZE)) s2;
          s4 = context_set th (CTX_KENTRY SyscallRet) s3;
          s5 = upd_task t (tk_threads_update (\<lambda>ths. ths @ [th])) s4
      in sched_start th s5)"

text \<open>The identifier goes to user memory or, for the kernel, to a variable of the caller (the second result).\<close>

definition thread_create :: "task_t \<Rightarrow> vaddr \<Rightarrow> kstate \<Rightarrow> sysres \<times> tid \<times> kstate" where
  "thread_create t thp s0 =
     (let s1 = sched_lock s0
      in if \<not> task_valid s1 t then (Done ESRCH, 0, sched_unlock s1)
         else if \<not> task_access t s1 then (Done EPERM, 0, sched_unlock s1)
         else case thread_alloc s1 of
                (None, s2) \<Rightarrow> (Done ENOMEM, 0, sched_unlock s2)
              | (Some th, s2) \<Rightarrow>
                  if cur_task s2 = Some (kern_task s2) then (Done 0, th, sched_unlock (thread_setup th t s2))
                  else (case umem_copyout (le32 th) thp s2 of
                          (e, s3) \<Rightarrow>
                            if e \<noteq> 0 then (Done EFAULT, 0, sched_unlock (thread_free th s3))
                            else (Done 0, th, sched_unlock (thread_setup th t s3))))"

text \<open>\<^verbatim>\<open>list_remove(&th->task_link)\<close>: off the list of its task.\<close>

definition task_unlink :: "tid \<Rightarrow> kstate \<Rightarrow> kstate" where
  "task_unlink th s = s\<lparr>tasks := (\<lambda>t. (tasks s t)\<lparr>tk_threads := remove1 th (tk_threads (tasks s t))\<rparr>)\<rparr>"

definition do_terminate :: "tid \<Rightarrow> kstate \<Rightarrow> kstate" where
  "do_terminate th s0 =
     (let s1 = mutex_cleanup th (timer_cleanup th (msg_cleanup th s0));
          s2 = sched_stop th (task_unlink th s1);
          s3 = upd_thread th (\<lambda>t. t\<lparr>excbits := 0, th_magic := 0\<rparr>) s2;
          s4 = (case zombie s3 of None \<Rightarrow> s3 | Some z \<Rightarrow> (thread_free z s3)\<lparr>zombie := None\<rparr>)
      in if th = cur_thread s4 then s4\<lparr>zombie := Some th\<rparr> else thread_free th s4)"

text \<open>The task of a thread as a pointer; \<^verbatim>\<open>NULL\<close> is 0.\<close>

definition th_task_ptr :: "tid \<Rightarrow> kstate \<Rightarrow> task_t" where
  "th_task_ptr th s = (case th_task (threads s th) of None \<Rightarrow> 0 | Some t \<Rightarrow> t)"

definition thread_terminate :: "tid \<Rightarrow> kstate \<Rightarrow> sysres \<times> kstate" where
  "thread_terminate th s0 =
     (let s1 = sched_lock s0
      in if \<not> thread_valid s1 th then (Done ESRCH, sched_unlock s1)
         else if \<not> task_access (th_task_ptr th s1) s1 then (Done EPERM, sched_unlock s1)
         else (Done 0, sched_unlock (do_terminate th s1)))"

section \<open>The other calls\<close>

definition thread_load :: "tid \<Rightarrow> vaddr \<Rightarrow> vaddr \<Rightarrow> kstate \<Rightarrow> sysres \<times> kstate" where
  "thread_load th entry stack s0 =
     (if entry \<noteq> 0 \<and> \<not> user_area entry \<or> stack \<noteq> 0 \<and> \<not> user_area stack then (Done EINVAL, s0)
      else let s1 = sched_lock s0
           in if \<not> thread_valid s1 th then (Done ESRCH, sched_unlock s1)
              else if \<not> task_access (th_task_ptr th s1) s1 then (Done EPERM, sched_unlock s1)
              else let s2 = (if entry \<noteq> 0 then context_set th (CTX_UENTRY entry) s1 else s1);
                       s3 = (if stack \<noteq> 0 then context_set th (CTX_USTACK stack) s2 else s2)
                   in (Done 0, sched_unlock s3))"

definition set_name :: "nat \<Rightarrow> vaddr \<Rightarrow> nat list \<Rightarrow> kstate \<Rightarrow> errno \<times> nat list" where
  "set_name len name old s =
     (case umem_copyin name len s of (e, bs) \<Rightarrow> (e, overlay bs old))"

definition thread_name :: "tid \<Rightarrow> name_ptr \<Rightarrow> kstate \<Rightarrow> sysres \<times> kstate" where
  "thread_name th name s0 =
     (let s1 = sched_lock s0;
          old = th_name (threads s1 th)
      in if \<not> thread_valid s1 th then (Done ESRCH, sched_unlock s1)
         else if cur_task s1 \<noteq> Some (kern_task s1) \<and> \<not> task_access (th_task_ptr th s1) s1 then (Done EPERM, sched_unlock s1)
         else if cur_task s1 = Some (kern_task s1)
           then (Done 0, sched_unlock (upd_thread th (th_name_update (\<lambda>_. snd (strlcpy old (name_str name) MAXTHNAME))) s1))
         else case umem_strnlen (name_addr name) MAXTHNAME s1 of
                None \<Rightarrow> (Done EFAULT, sched_unlock s1)
              | Some len \<Rightarrow>
                  if MAXTHNAME \<le> len
                  then (case set_name (MAXTHNAME - 1) (name_addr name) old s1 of
                          (_, nm) \<Rightarrow>
                            (Done ENAMETOOLONG,
                             sched_unlock (upd_thread th (th_name_update (\<lambda>_. nm[MAXTHNAME - 1 := 0])) s1)))
                  else (case set_name (len + 1) (name_addr name) old s1 of
                          (e, nm) \<Rightarrow> (Done e, sched_unlock (upd_thread th (th_name_update (\<lambda>_. nm)) s1))))"

definition thread_self :: "kstate \<Rightarrow> tid" where
  "thread_self s = cur_thread s"

definition thread_yield :: "kstate \<Rightarrow> kstate" where
  "thread_yield s = sched_yield s"

definition thread_suspend :: "tid \<Rightarrow> kstate \<Rightarrow> sysres \<times> kstate" where
  "thread_suspend th s0 =
     (let s1 = sched_lock s0
      in if \<not> thread_valid s1 th then (Done ESRCH, sched_unlock s1)
         else if \<not> task_access (th_task_ptr th s1) s1 then (Done EPERM, sched_unlock s1)
         else let s2 = upd_thread th (suscnt_update (\<lambda>n. n + 1)) s1;
                  s3 = (if suscnt (threads s2 th) = 1 then sched_suspend th s2 else s2)
              in (Done 0, sched_unlock s3))"

definition thread_resume :: "tid \<Rightarrow> kstate \<Rightarrow> sysres \<times> kstate" where
  "thread_resume th s0 =
     (let s1 = sched_lock s0
      in if \<not> thread_valid s1 th then (Done ESRCH, sched_unlock s1)
         else if \<not> task_access (th_task_ptr th s1) s1 then (Done EPERM, sched_unlock s1)
         else if suscnt (threads s1 th) = 0 then (Done EINVAL, sched_unlock s1)
         else let s2 = upd_thread th (suscnt_update (\<lambda>n. n - 1)) s1;
                  s3 = (if suscnt (threads s2 th) = 0 \<and> tk_suscnt (tasks s2 (th_task_ptr th s2)) = 0
                        then sched_resume th s2 else s2)
              in (Done 0, sched_unlock s3))"

definition OP_GETPRIO :: nat where "OP_GETPRIO = 0"
definition OP_SETPRIO :: nat where "OP_SETPRIO = 1"
definition OP_GETPOLICY :: nat where "OP_GETPOLICY = 2"
definition OP_SETPOLICY :: nat where "OP_SETPOLICY = 3"

definition copyin_int :: "vaddr \<Rightarrow> kstate \<Rightarrow> int option" where
  "copyin_int a s = map_option (\<lambda>n. sint (word_of_nat n :: u32)) (copyin_word a s)"

definition clamp_prio :: "int \<Rightarrow> nat" where
  "clamp_prio p = (if p < 0 then 0 else if int PRIO_IDLE \<le> p then PRIO_IDLE - 1 else nat p)"

definition set_prio :: "tid \<Rightarrow> int \<Rightarrow> kstate \<Rightarrow> sysres \<times> kstate" where
  "set_prio th req s =
     (let p = clamp_prio req
      in if p < prio (threads s th) \<and> \<not> task_capable CAP_NICE s then (Done EPERM, s)
         else let p' = (if prio (threads s th) \<noteq> baseprio (threads s th) \<and> prio (threads s th) < p
                        then prio (threads s th) else p)
              in (case mutex_setprio th p' s of
                    (None, s1) \<Rightarrow> (Panic, s1)
                  | (Some _, s1) \<Rightarrow> (Done 0, sched_setprio th p' p' s1)))"

definition schedparam_op :: "tid \<Rightarrow> nat \<Rightarrow> vaddr \<Rightarrow> kstate \<Rightarrow> sysres \<times> kstate" where
  "schedparam_op th op param s =
     (if op = OP_GETPRIO then (case umem_copyout (le32 (sched_getprio th s)) param s of (e, s') \<Rightarrow> (Done e, s'))
      else if op = OP_SETPRIO then
        (case copyin_int param s of None \<Rightarrow> (Done EFAULT, s) | Some p \<Rightarrow> set_prio th p s)
      else if op = OP_GETPOLICY then
        (case umem_copyout (le32 (unat (word_of_int (sched_getpolicy th s) :: u32))) param s of (e, s') \<Rightarrow> (Done e, s'))
      else if op = OP_SETPOLICY then
        (case copyin_int param s of
           None \<Rightarrow> (Done EFAULT, s)
         | Some p \<Rightarrow> (case sched_setpolicy th p s of (e, s') \<Rightarrow> (Done (if e \<noteq> 0 then EINVAL else 0), s')))
      else (Done EINVAL, s))"

definition thread_schedparam :: "tid \<Rightarrow> nat \<Rightarrow> vaddr \<Rightarrow> kstate \<Rightarrow> sysres \<times> kstate" where
  "thread_schedparam th op param s0 =
     (let s1 = sched_lock s0
      in if \<not> thread_valid s1 th then (Done ESRCH, sched_unlock s1)
         else if th_task (threads s1 th) = Some (kern_task s1) then (Done EPERM, sched_unlock s1)
         else if th_task (threads s1 th) \<noteq> cur_task s1 \<and> \<not> task_capable CAP_NICE s1 then (Done EPERM, sched_unlock s1)
         else (case schedparam_op th op param s1 of (r, s2) \<Rightarrow> (r, sched_unlock s2)))"

definition thread_idle :: "kstate \<Rightarrow> kstate" where
  "thread_idle s = snd (thread_name (cur_thread s) (KName (cstr ''idle'')) s)"

text \<open>One round of the idle loop, after the processor has halted until an interrupt.\<close>

definition thread_idle_next :: "kstate \<Rightarrow> kstate" where
  "thread_idle_next s = sched_yield s"

section \<open>Kernel threads\<close>

definition kthread_create :: "kentry \<Rightarrow> nat \<Rightarrow> nat \<Rightarrow> kstate \<Rightarrow> tid option \<times> kstate" where
  "kthread_create entry arg p s0 =
     (case thread_alloc s0 of
        (None, s1) \<Rightarrow> (None, s1)
      | (Some th, s1) \<Rightarrow>
          let s2 = upd_thread th (th_task_update (\<lambda>_. Some (kern_task s1))) s1;
              s3 = context_set th (CTX_KSTACK (kstack (threads s2 th) + KSTACK_SIZE)) s2;
              s4 = context_set th (CTX_KARG arg) (context_set th (CTX_KENTRY entry) s3);
              s5 = upd_task (kern_task s4) (tk_threads_update (\<lambda>ths. th # ths)) s4;
              s6 = snd (sched_setpolicy th SCHED_FIFO (sched_start th s5))
          in (Some th, sched_resume th (sched_setprio th p p s6)))"

definition kthread_terminate :: "tid \<Rightarrow> kstate \<Rightarrow> kstate" where
  "kthread_terminate th s = sched_unlock (do_terminate th (sched_lock s))"

section \<open>Information\<close>

definition event_name :: "event \<Rightarrow> nat list" where
  "event_name e = cstr (case e of DpcEvent \<Rightarrow> ''dpc'' | TimerEvent \<Rightarrow> ''timer'' | DelayEvent \<Rightarrow> ''delay''
     | IpcEvent \<Rightarrow> ''ipc'' | ExceptionEvent \<Rightarrow> ''exception'' | SemEvent _ \<Rightarrow> ''semaphore'' | MutexEvent _ \<Rightarrow> ''mutex''
     | CondEvent _ \<Rightarrow> ''condition'' | IstEvent _ \<Rightarrow> ''interrupt'' | PeriodicEvent _ \<Rightarrow> ''periodic'')"

record info_thread =
  it_cookie :: nat
  it_policy :: int
  it_prio :: nat
  it_time :: u32
  it_task :: task_t
  it_th_name :: "nat list"
  it_taskname :: "nat list"
  it_slpevt :: "nat list"

text \<open>
  The order of the search. Its inner loop tests after the first thread, so a task without threads
  counts as one: its list head taken for a thread, here \<open>None\<close>.
\<close>

definition info_slots :: "kstate \<Rightarrow> (task_t \<times> tid option) list" where
  "info_slots s =
     concat (map (\<lambda>t. if tk_threads (tasks s t) = [] then [(t, None)] else map (\<lambda>th. (t, Some th)) (tk_threads (tasks s t)))
       (kern_task s # task_list s))"

definition thread_info :: "info_thread \<Rightarrow> kstate \<Rightarrow> sysres \<times> info_thread \<times> kstate" where
  "thread_info info s0 =
     (let s = sched_lock s0
      in if length (info_slots s) \<le> it_cookie info then (Done ESRCH, info, sched_unlock s)
         else case info_slots s ! it_cookie info of
                (t, None) \<Rightarrow> (Panic, info, s)
              | (t, Some th) \<Rightarrow>
                  let x = threads s th
                  in (Done 0,
                      info\<lparr>it_policy := policy x, it_prio := prio x, it_time := th_time x, it_task := th_task_ptr th s,
                        it_taskname := snd (strlcpy (it_taskname info) (tk_name (tasks s t)) MAXTASKNAME),
                        it_th_name := snd (strlcpy (it_th_name info) (th_name x) MAXTHNAME),
                        it_slpevt := snd (strlcpy (it_slpevt info)
                          (case slpevt x of Some e \<Rightarrow> event_name e | None \<Rightarrow> cstr ''-'') MAXEVTNAME)\<rparr>,
                      sched_unlock s))"

section \<open>Initialisation\<close>

definition BOOTSTACK_TOP :: nat where "BOOTSTACK_TOP = 0x80003000"

definition thread_init :: "kstate \<Rightarrow> kstate" where
  "thread_init s =
     (let idle = idle_thread s;
          s1 = upd_thread idle (\<lambda>t. t\<lparr>kstack := BOOTSTACK_TOP - KSTACK_SIZE, th_magic := THREAD_MAGIC, th_mutexes := [],
            th_task := Some (kern_task s), state := TH_RUN, policy := SCHED_FIFO, prio := PRIO_IDLE, baseprio := PRIO_IDLE,
            locks := 1\<rparr>) s;
          s2 = context_set idle (CTX_KSTACK BOOTSTACK_TOP) s1
      in upd_task (kern_task s2) (tk_threads_update (\<lambda>ths. idle # ths)) s2)"

text \<open>\<open>None\<close>: the kernel panics without the memory for a thread of its own.\<close>

definition sched_init :: "kstate \<Rightarrow> kstate option" where
  "sched_init s0 =
     (let s1 = event_init DpcEvent (s0\<lparr>runq := (\<lambda>_. []), wakeq := [], dpcq := []\<rparr>);
          s2 = upd_cur (resched_update (\<lambda>_. True)) (s1\<lparr>top_prio := PRIO_IDLE\<rparr>)
      in case kthread_create DpcThread 0 PRIO_DPC s2 of
           (None, s3) \<Rightarrow> None
         | (Some th, s3) \<Rightarrow> Some (snd (thread_name th (KName (cstr ''dpc'')) s3)))"

definition timer_init :: "kstate \<Rightarrow> kstate option" where
  "timer_init s0 =
     (let s1 = event_init DelayEvent (event_init TimerEvent (s0\<lparr>timer_list := [], expire_list := []\<rparr>))
      in case kthread_create TimerThread 0 PRIO_TIMER s1 of
           (None, s2) \<Rightarrow> None
         | (Some th, s2) \<Rightarrow> Some (snd (thread_name th (KName (cstr ''timer'')) s2)))"

section \<open>What the scheduler lock leaves alone\<close>

lemma lock_thread_valid [simp]: "thread_valid (sched_lock s) = thread_valid s"
  by (rule thread_valid_rest) simp

lemma lock_th_task_ptr [simp]: "th_task_ptr th (sched_lock s) = th_task_ptr th s"
  by (simp add: th_task_ptr_def kproj)

end
