(* ===== verification/Device.thy ===== *)
theory Device
  imports Thread
begin

text \<open>
  Device objects and the device handles of a task, \<^verbatim>\<open>sys/kern/device.c\<close>. The drivers are code outside the
  kernel core: the argument \<open>io\<close> gives for the address of an operation table the operations in it, \<open>None\<close> where the
  driver leaves one out. A file is named by its task and its index in the table of that task.
\<close>

section \<open>Device objects\<close>

type_synonym file_t = "task_t \<times> nat"

record devio =
  d_open :: "(file_t \<Rightarrow> kstate \<Rightarrow> errno \<times> kstate) option"
  d_close :: "(file_t \<Rightarrow> kstate \<Rightarrow> errno \<times> kstate) option"
  d_read :: "(file_t \<Rightarrow> vaddr \<Rightarrow> nat \<Rightarrow> int \<Rightarrow> kstate \<Rightarrow> errno \<times> nat \<times> kstate) option"
  d_write :: "(file_t \<Rightarrow> vaddr \<Rightarrow> nat \<Rightarrow> int \<Rightarrow> kstate \<Rightarrow> errno \<times> nat \<times> kstate) option"
  d_ioctl :: "(file_t \<Rightarrow> nat \<Rightarrow> nat \<Rightarrow> kstate \<Rightarrow> errno \<times> kstate) option"
  d_event :: "(int \<Rightarrow> kstate \<Rightarrow> errno \<times> kstate) option"

text \<open>A driver that provides no operation.\<close>

definition no_driver :: devio where
  "no_driver = \<lparr>d_open = None, d_close = None, d_read = None, d_write = None, d_ioctl = None, d_event = None\<rparr>"

definition device_valid :: "kstate \<Rightarrow> nat \<Rightarrow> bool" where
  "device_valid s dev = (kern_area dev \<and> dv_magic (devices s dev) = DEVICE_MAGIC)"

definition device_hold :: "nat \<Rightarrow> kstate \<Rightarrow> int \<times> kstate" where
  "device_hold dev s0 =
     (let s1 = sched_lock s0
      in if device_valid s1 dev then (0, sched_unlock (upd_device dev (dv_refcnt_update (\<lambda>n. n + 1)) s1))
         else (-1, sched_unlock s1))"

definition device_release :: "nat \<Rightarrow> kstate \<Rightarrow> kstate" where
  "device_release dev s0 =
     (let s1 = upd_device dev (dv_refcnt_update (\<lambda>n. n - 1)) (sched_lock s0);
          s2 = (if dv_refcnt (devices s1 dev) = 0
                then let a = upd_device dev (dv_magic_update (\<lambda>_. 0)) s1
                     in kmem_free_block dev (a\<lparr>device_list := remove1 dev (device_list a)\<rparr>)
                else s1)
      in sched_unlock s2)"

definition device_lookup :: "nat list \<Rightarrow> kstate \<Rightarrow> nat option" where
  "device_lookup name s =
     (case filter (\<lambda>d. strncmp (dv_name (devices s d)) name MAXDEVNAME = 0) (device_list s) of
        [] \<Rightarrow> None | d # _ \<Rightarrow> Some d)"

definition device_create :: "nat \<Rightarrow> nat list \<Rightarrow> nat \<Rightarrow> nat \<Rightarrow> kstate \<Rightarrow> nat \<times> kstate" where
  "device_create io name flags info s0 =
     (let len = strnlen name MAXDEVNAME
      in if len = 0 \<or> MAXDEVNAME \<le> len then (0, s0)
         else let s1 = sched_lock s0
              in if device_lookup name s1 \<noteq> None then (0, sched_unlock s1)
                 else case kmem_alloc_block s1 of
                        (None, s2) \<Rightarrow> (0, sched_unlock s2)
                      | (Some dev, s2) \<Rightarrow>
                          let s3 = upd_device dev (\<lambda>d. d\<lparr>dv_name := snd (strlcpy (dv_name d) name (len + 1)), dv_io := io,
                                dv_info := info, dv_flags := flags, dv_refcnt := 1, dv_magic := DEVICE_MAGIC\<rparr>) s2
                          in (dev, sched_unlock (s3\<lparr>device_list := dev # device_list s3\<rparr>)))"

definition device_destroy :: "nat \<Rightarrow> kstate \<Rightarrow> errno \<times> kstate" where
  "device_destroy dev s0 =
     (let s1 = sched_lock s0
      in if device_valid s1 dev then (0, sched_unlock (device_release dev s1)) else (ENODEV, sched_unlock s1))"

section \<open>Handles\<close>

definition FD_MAGIC :: u32 where "FD_MAGIC = 0x44455600"

definition upd_file :: "file_t \<Rightarrow> (dev_file \<Rightarrow> dev_file) \<Rightarrow> kstate \<Rightarrow> kstate" where
  "upd_file f g s = upd_task (fst f) (files_update (\<lambda>t. t(snd f := g (t (snd f))))) s"

abbreviation the_file :: "file_t \<Rightarrow> kstate \<Rightarrow> dev_file" where
  "the_file f s \<equiv> files (tasks s (fst f)) (snd f)"

text \<open>The first free slot; \<open>None\<close> after \<^verbatim>\<open>CONFIG_DEV_OPEN_MAX\<close> slots.\<close>

fun fd_search :: "(nat \<Rightarrow> dev_file) \<Rightarrow> nat \<Rightarrow> nat \<Rightarrow> nat option" where
  "fd_search t 0 i = None"
| "fd_search t (Suc n) i = (if f_dev (t i) \<noteq> None then fd_search t n (i + 1) else Some i)"

definition fd_alloc :: "nat list \<Rightarrow> kstate \<Rightarrow> (errno + u32) \<times> kstate" where
  "fd_alloc name s0 =
     (let self = cur_task_ptr s0;
          s1 = sched_lock s0
      in case fd_search (files (tasks s1 self)) DEV_OPEN_MAX 0 of
           None \<Rightarrow> (Inl EMFILE, sched_unlock s1)
         | Some i \<Rightarrow>
             (case device_lookup name s1 of
                None \<Rightarrow> (Inl ENXIO, sched_unlock s1)
              | Some dev \<Rightarrow>
                  let s2 = snd (device_hold dev s1);
                      s3 = upd_file (self, i) (\<lambda>_. \<lparr>f_dev = Some dev, f_priv = dv_info (devices s2 dev), f_flags = 0\<rparr>) s2
                  in (Inr (word_of_nat i XOR FD_MAGIC), sched_unlock s3)))"

definition file_lookup :: "u32 \<Rightarrow> kstate \<Rightarrow> file_t option \<times> kstate" where
  "file_lookup fd s0 =
     (let i = unat (fd XOR FD_MAGIC)
      in if DEV_OPEN_MAX \<le> i then (None, s0)
         else let s1 = sched_lock s0;
                  f = (cur_task_ptr s1, i)
              in (if f_dev (the_file f s1) = None then None else Some f, sched_unlock s1))"

definition fd_free :: "u32 \<Rightarrow> kstate \<Rightarrow> errno \<times> kstate" where
  "fd_free fd s0 =
     (case file_lookup fd (sched_lock s0) of
        (None, s1) \<Rightarrow> (- EBADF, sched_unlock s1)
      | (Some f, s1) \<Rightarrow>
          let s2 = (case f_dev (the_file f s1) of None \<Rightarrow> s1 | Some dev \<Rightarrow> device_release dev s1)
          in (0, sched_unlock (upd_file f (f_dev_update (\<lambda>_. None)) s2)))"

text \<open>The operation table of the device of a file.\<close>

definition file_io :: "(nat \<Rightarrow> devio) \<Rightarrow> file_t \<Rightarrow> kstate \<Rightarrow> devio" where
  "file_io io f s = io (dv_io (devices s (case f_dev (the_file f s) of None \<Rightarrow> 0 | Some d \<Rightarrow> d)))"

definition device_close :: "(nat \<Rightarrow> devio) \<Rightarrow> u32 \<Rightarrow> kstate \<Rightarrow> errno \<times> kstate" where
  "device_close io fd s0 =
     (case file_lookup fd s0 of
        (None, s1) \<Rightarrow> (EBADF, s1)
      | (Some f, s1) \<Rightarrow>
          let (err, s2) = (case d_close (file_io io f s1) of None \<Rightarrow> (0, s1) | Some op \<Rightarrow> op f s1)
          in (err, snd (fd_free fd s2)))"

text \<open>The handles found in the table of \<open>t\<close> are closed in the table of the current task.\<close>

definition terminate_slot :: "(nat \<Rightarrow> devio) \<Rightarrow> task_t \<Rightarrow> nat \<Rightarrow> kstate \<Rightarrow> kstate" where
  "terminate_slot io t i s =
     (if f_dev (the_file (t, i) s) \<noteq> None then snd (device_close io (word_of_nat i XOR FD_MAGIC) s) else s)"

definition device_terminate :: "(nat \<Rightarrow> devio) \<Rightarrow> task_t \<Rightarrow> kstate \<Rightarrow> kstate" where
  "device_terminate io t s = sched_unlock (fold (terminate_slot io t) [0..<DEV_OPEN_MAX] (sched_lock s))"

section \<open>The system calls\<close>

definition device_open :: "(nat \<Rightarrow> devio) \<Rightarrow> vaddr \<Rightarrow> nat \<Rightarrow> vaddr \<Rightarrow> kstate \<Rightarrow> errno \<times> kstate" where
  "device_open io name flags fdp s0 =
     (if \<not> task_capable CAP_DEVIO s0 then (EPERM, s0)
      else case umem_strnlen name MAXDEVNAME s0 of
             None \<Rightarrow> (EFAULT, s0)
           | Some len \<Rightarrow>
               if len = 0 then (ENOENT, s0)
               else if MAXDEVNAME \<le> len then (ENAMETOOLONG, s0)
               else (case umem_copyin name (len + 1) s0 of
                       (e, str) \<Rightarrow>
                         if e \<noteq> 0 then (EFAULT, s0)
                         else (case fd_alloc str s0 of
                                 (Inl er, s1) \<Rightarrow> (er, s1)
                               | (Inr fd, s1) \<Rightarrow>
                                   (case file_lookup fd s1 of
                                      (None, s2) \<Rightarrow> (EBADF, s2)
                                    | (Some f, s2) \<Rightarrow>
                                        let s3 = upd_file f (f_flags_update (\<lambda>_. flags)) s2;
                                            (err, s4) = (case d_open (file_io io f s3) of None \<Rightarrow> (0, s3) | Some op \<Rightarrow> op f s3)
                                        in if err = 0 then umem_copyout (le32 (unat fd)) fdp s4
                                           else (err, snd (fd_free fd s4))))))"

definition dev_transfer :: "(file_t \<Rightarrow> vaddr \<Rightarrow> nat \<Rightarrow> int \<Rightarrow> kstate \<Rightarrow> errno \<times> nat \<times> kstate) option \<Rightarrow>
    file_t \<Rightarrow> vaddr \<Rightarrow> vaddr \<Rightarrow> int \<Rightarrow> kstate \<Rightarrow> errno \<times> kstate" where
  "dev_transfer op f buf nbyte blkno s =
     (case op of
        None \<Rightarrow> (EIO, s)
      | Some g \<Rightarrow>
          (case copyin_word nbyte s of
             None \<Rightarrow> (EFAULT, s)
           | Some count \<Rightarrow>
               (case g f buf count blkno s of
                  (err, n, s1) \<Rightarrow> if err = 0 then copyout_word n nbyte s1 else (err, s1))))"

definition device_read :: "(nat \<Rightarrow> devio) \<Rightarrow> u32 \<Rightarrow> vaddr \<Rightarrow> vaddr \<Rightarrow> int \<Rightarrow> kstate \<Rightarrow> errno \<times> kstate" where
  "device_read io fd buf nbyte blkno s0 =
     (case file_lookup fd s0 of
        (None, s1) \<Rightarrow> (EBADF, s1)
      | (Some f, s1) \<Rightarrow> dev_transfer (d_read (file_io io f s1)) f buf nbyte blkno s1)"

definition device_write :: "(nat \<Rightarrow> devio) \<Rightarrow> u32 \<Rightarrow> vaddr \<Rightarrow> vaddr \<Rightarrow> int \<Rightarrow> kstate \<Rightarrow> errno \<times> kstate" where
  "device_write io fd buf nbyte blkno s0 =
     (case file_lookup fd s0 of
        (None, s1) \<Rightarrow> (EBADF, s1)
      | (Some f, s1) \<Rightarrow> dev_transfer (d_write (file_io io f s1)) f buf nbyte blkno s1)"

definition device_ioctl :: "(nat \<Rightarrow> devio) \<Rightarrow> u32 \<Rightarrow> nat \<Rightarrow> nat \<Rightarrow> kstate \<Rightarrow> errno \<times> kstate" where
  "device_ioctl io fd cmd arg s0 =
     (case file_lookup fd s0 of
        (None, s1) \<Rightarrow> (EBADF, s1)
      | (Some f, s1) \<Rightarrow>
          (case d_ioctl (file_io io f s1) of None \<Rightarrow> (EIO, s1) | Some op \<Rightarrow> op f cmd arg s1))"

fun broadcast_from :: "(nat \<Rightarrow> devio) \<Rightarrow> int \<Rightarrow> bool \<Rightarrow> nat list \<Rightarrow> errno \<Rightarrow> kstate \<Rightarrow> errno \<times> kstate" where
  "broadcast_from io ev force [] ret s = (ret, s)"
| "broadcast_from io ev force (d # ds) ret s =
     (case d_event (io (dv_io (devices s d))) of
        None \<Rightarrow> broadcast_from io ev force ds ret s
      | Some op \<Rightarrow>
          (case op ev s of
             (err, s1) \<Rightarrow>
               if err = 0 then broadcast_from io ev force ds ret s1
               else if force then broadcast_from io ev force ds EIO s1
               else (err, s1)))"

definition device_broadcast :: "(nat \<Rightarrow> devio) \<Rightarrow> int \<Rightarrow> bool \<Rightarrow> kstate \<Rightarrow> errno \<times> kstate" where
  "device_broadcast io ev force s0 =
     (let s1 = sched_lock s0
      in case broadcast_from io ev force (device_list s1) 0 s1 of (ret, s2) \<Rightarrow> (ret, sched_unlock s2))"

record info_device =
  id_cookie :: nat
  id_id :: nat
  id_flags :: nat
  id_name :: "nat list"

definition device_info :: "info_device \<Rightarrow> kstate \<Rightarrow> errno \<times> info_device \<times> kstate" where
  "device_info info s0 =
     (let s = sched_lock s0
      in if id_cookie info < length (device_list s)
         then let d = device_list s ! id_cookie info
              in (0, info\<lparr>id_id := d, id_flags := dv_flags (devices s d),
                    id_name := snd (strlcpy (id_name info) (dv_name (devices s d)) MAXDEVNAME)\<rparr>, sched_unlock s)
         else (ESRCH, info, sched_unlock s))"

text \<open>Boot: the drivers of the table, by their order, and then those of the driver module.\<close>

definition driver_init :: "(nat \<times> (kstate \<Rightarrow> kstate) option) list \<Rightarrow> kstate \<Rightarrow> kstate" where
  "driver_init drvs s =
     fold (\<lambda>order. fold (\<lambda>(o1, ini) t. if o1 = order then (case ini of None \<Rightarrow> t | Some f \<Rightarrow> f t) else t) drvs) [0..<16] s"

definition device_init :: "(nat \<times> (kstate \<Rightarrow> kstate) option) list \<Rightarrow> (kstate \<Rightarrow> kstate) option \<Rightarrow> kstate \<Rightarrow> kstate" where
  "device_init drvs entry s =
     (let s1 = driver_init drvs (s\<lparr>device_list := []\<rparr>)
      in case entry of None \<Rightarrow> s1 | Some f \<Rightarrow> f s1)"

end
