(* ===== verification/Object.thy ===== *)
theory Object
  imports Message Clib
begin

text \<open>
  Objects and their names, \<^verbatim>\<open>sys/ipc/object.c\<close>. The hash table is the list of the objects
  linked in each bucket. \<open>object_create\<close> hashes the name through the user's own pointer while the name it
  compares and stores is the copy in the kernel, so the hash reads user memory here.
\<close>

section \<open>The operations\<close>

definition OBJ_MAXBUCKETS :: nat where "OBJ_MAXBUCKETS = 32"

definition char_val :: "nat \<Rightarrow> u32" where
  "char_val b = (if b < 128 then word_of_nat b else word_of_nat b - 256)"

fun object_hash_from :: "u32 \<Rightarrow> nat list \<Rightarrow> u32" where
  "object_hash_from h [] = h"
| "object_hash_from h (b # bs) = (if b = 0 then h else object_hash_from ((push_bit 5 h + h) + char_val b) bs)"

definition bucket :: "u32 \<Rightarrow> nat" where
  "bucket h = unat (h AND word_of_nat (OBJ_MAXBUCKETS - 1))"

definition object_hash :: "nat list \<Rightarrow> nat" where
  "object_hash str = bucket (object_hash_from 0 str)"

text \<open>
  The same loop on a string in user memory, for at most \<open>n\<close> bytes. \<open>None\<close>: a byte is not mapped
  and the kernel faults.
\<close>

fun user_hash :: "kstate \<Rightarrow> nat \<Rightarrow> vaddr \<Rightarrow> u32 \<Rightarrow> u32 option" where
  "user_hash s 0 a h = None"
| "user_hash s (Suc n) a h =
     (case u_read s a of
        None \<Rightarrow> None
      | Some p \<Rightarrow>
          let b = pmem (vm s) p
          in if b = 0 then Some h else user_hash s n (a + 1) ((push_bit 5 h + h) + char_val b))"

definition object_find :: "nat list \<Rightarrow> kstate \<Rightarrow> nat option" where
  "object_find name s =
     find (\<lambda>ob. strncmp (ob_name (objects s ob)) name MAXOBJNAME = 0) (obj_table s (object_hash name))"

text \<open>
  \<open>stk\<close> are the bytes that follow the array \<^verbatim>\<open>str\<close> on the kernel's stack: the hash of an
  unterminated name runs on into them. The identifier is written to user memory after the
  scheduler has been unlocked (\<open>object_lookup_ret\<close>).
\<close>

definition object_lookup :: "vaddr \<Rightarrow> nat list \<Rightarrow> kstate \<Rightarrow> (errno + nat option) \<times> kstate" where
  "object_lookup name stk s =
     (case umem_strnlen name MAXOBJNAME s of
        None \<Rightarrow> (Inl EFAULT, s)
      | Some len \<Rightarrow>
          if len = 0 \<or> MAXOBJNAME \<le> len then (Inl ESRCH, s)
          else case umem_copyin name (len + 1) s of
                 (e, str) \<Rightarrow>
                   if e \<noteq> 0 then (Inl EFAULT, s)
                   else let s1 = sched_lock s in (Inr (object_find (str @ stk) s1), sched_unlock s1))"

definition object_lookup_ret :: "nat option \<Rightarrow> vaddr \<Rightarrow> kstate \<Rightarrow> errno \<times> kstate" where
  "object_lookup_ret r objp s =
     (case r of
        None \<Rightarrow> (ENOENT, s)
      | Some ob \<Rightarrow> (case copyout_word ob objp s of (e, s1) \<Rightarrow> (if e \<noteq> 0 then EFAULT else 0, s1)))"

text \<open>The name a new object gets; the null pointer stands for no name.\<close>

definition object_name :: "vaddr \<Rightarrow> kstate \<Rightarrow> errno + nat list" where
  "object_name name s =
     (if name = 0 then Inr [0]
      else case umem_strnlen name MAXOBJNAME s of
             None \<Rightarrow> Inl EFAULT
           | Some len \<Rightarrow>
               if MAXOBJNAME \<le> len then Inl ENAMETOOLONG
               else case umem_copyin name (len + 1) s of
                      (e, str) \<Rightarrow> if e \<noteq> 0 then Inl EFAULT else Inr (str[len := 0]))"

definition object_link :: "nat \<Rightarrow> nat \<Rightarrow> kstate \<Rightarrow> kstate" where
  "object_link h ob s = s\<lparr>obj_table := (obj_table s)(h := ob # obj_table s h)\<rparr>"

definition object_create :: "vaddr \<Rightarrow> vaddr \<Rightarrow> kstate \<Rightarrow> sysres \<times> kstate" where
  "object_create name objp s =
     (case object_name name s of
        Inl e \<Rightarrow> (Done e, s)
      | Inr str \<Rightarrow>
          (case copyout_word 0 objp (sched_lock s) of
             (e, s2) \<Rightarrow>
               if e \<noteq> 0 then (Done EFAULT, sched_unlock s2)
               else if object_find str s2 \<noteq> None then (Done EEXIST, sched_unlock s2)
               else case kmem_alloc_block s2 of
                      (None, s3) \<Rightarrow> (Done ENOMEM, sched_unlock s3)
                    | (Some ob, s3) \<Rightarrow>
                        let s4 = (if name \<noteq> 0
                                  then upd_object ob (ob_name_update (\<lambda>nm. snd (strlcpy nm str (length str)))) s3
                                  else s3);
                            self = cur_task_ptr s4;
                            s5 = upd_object ob (\<lambda>x. x\<lparr>ob_owner := self, ob_magic := OBJECT_MAGIC, sendq := [], recvq := []\<rparr>) s4
                        in case (if name = 0 then Some 0 else user_hash s5 (2 ^ 32) name 0) of
                             None \<Rightarrow> (Panic, s5)
                           | Some h \<Rightarrow>
                               let s6 = upd_task self (tk_objects_update (\<lambda>os. ob # os)) (object_link (bucket h) ob s5)
                               in (Done 0, sched_unlock (snd (copyout_word ob objp s6)))))"

definition object_destroy :: "nat \<Rightarrow> kstate \<Rightarrow> errno \<times> kstate" where
  "object_destroy ob s =
     (let s1 = sched_lock s
      in if \<not> object_valid s1 ob then (EINVAL, sched_unlock s1)
         else if ob_owner (objects s1 ob) \<noteq> cur_task_ptr s1 then (EACCES, sched_unlock s1)
         else let s2 = msg_cancel ob (upd_object ob (ob_magic_update (\<lambda>_. 0)) s1);
                  s3 = upd_task (ob_owner (objects s2 ob)) (tk_objects_update (remove1 ob)) s2;
                  s4 = s3\<lparr>obj_table := (\<lambda>h. remove1 ob (obj_table s3 h))\<rparr>
              in (0, sched_unlock (kmem_free_block ob s4)))"

definition object_init :: "kstate \<Rightarrow> kstate" where
  "object_init s = s\<lparr>obj_table := (\<lambda>_. [])\<rparr>"

section \<open>Strings in user memory\<close>

definition ustring :: "kstate \<Rightarrow> vaddr \<Rightarrow> nat list \<Rightarrow> bool" where
  "ustring s a bs = ((\<forall>i < length bs. \<exists>p. u_read s (a + i) = Some p \<and> pmem (vm s) p = bs ! i) \<and> 0 \<notin> set bs \<and>
     (\<exists>p. u_read s (a + length bs) = Some p \<and> pmem (vm s) p = 0))"

lemma ustring_Cons:
  "ustring s a (b # bs) \<longleftrightarrow> (\<exists>p. u_read s a = Some p \<and> pmem (vm s) p = b) \<and> b \<noteq> 0 \<and> ustring s (a + 1) bs"
  by (auto simp: ustring_def All_less_Suc2)

lemma ustring_scan: "ustring s a bs \<Longrightarrow> length bs < n \<Longrightarrow> uscan s a n = Some (n - length bs - 1)"
proof (induction bs arbitrary: a n)
  case Nil
  then show ?case by (cases n) (auto simp: ustring_def)
next
  case (Cons b bs)
  then show ?case by (cases n) (auto simp: ustring_Cons)
qed

lemma ustring_strnlen:
  assumes "ustring s a bs" "length bs < n" "n < 2 ^ 32" "a < UMEM_MAX"
  shows "umem_strnlen a n s = Some (length bs)"
  using ustring_scan [OF assms(1,2)] assms(2-4) by (simp add: umem_strnlen_def mod_if)

lemma ustring_read: "ustring s a bs \<Longrightarrow> uread s a (Suc (length bs)) = bs @ [0]"
  by (induction bs arbitrary: a) (auto simp: ustring_Cons ustring_def [of _ _ "[]"])

lemma ustring_hash:
  "ustring s a bs \<Longrightarrow> length bs < n \<Longrightarrow> user_hash s n a h = Some (object_hash_from h (bs @ [0]))"
proof (induction bs arbitrary: a n h)
  case Nil
  then show ?case by (cases n) (auto simp: ustring_def)
next
  case (Cons b bs)
  then show ?case by (cases n) (auto simp: ustring_Cons)
qed

lemma ustring_cong:
  assumes "ustring s a bs" "mmu_st (vm s') = mmu_st (vm s)"
    and "\<forall>i \<le> length bs. \<forall>p. u_read s (a + i) = Some p \<longrightarrow> pmem (vm s') p = pmem (vm s) p"
  shows "ustring s' a bs"
proof -
  have "u_read s' x = u_read s x" for x using assms(2) by (simp add: u_read_def cur_pgd_def)
  then show ?thesis using assms(1,3) unfolding ustring_def by (metis le_refl less_imp_le)
qed

section \<open>Creating an object\<close>

lemma object_find_cong: "objects s' = objects s \<Longrightarrow> obj_table s' = obj_table s \<Longrightarrow> object_find str s' = object_find str s"
  by (simp add: object_find_def)

lemma kmem_alloc_block_vm:
  "vpool (vm a) = vpool (vm b) \<Longrightarrow> fst (kmem_alloc_block a) = fst (kmem_alloc_block b)"
  "mmu_st (vm (snd (kmem_alloc_block s))) = mmu_st (vm s)" "pmem (vm (snd (kmem_alloc_block s))) = pmem (vm s)"
  by (simp_all add: kmem_alloc_block_def vm_kmem_alloc_def split: list.split)

lemma object_name_ustring:
  assumes "ustring s name bs" "length bs < MAXOBJNAME" "name \<noteq> 0" "name + MAXOBJNAME < UMEM_MAX"
  shows "object_name name s = Inr (bs @ [0])"
proof -
  have l: "umem_strnlen name MAXOBJNAME s = Some (length bs)"
    using assms by (intro ustring_strnlen) (simp_all add: MAXOBJNAME_def)
  have "uread s name (length bs + 1) = bs @ [0]" using ustring_read [OF assms(1)] by simp
  then have "umem_copyin name (length bs + 1) s = (0, bs @ [0])"
    using assms(2,4) by (simp add: umem_copyin_def del: uread.simps)
  then show ?thesis using l assms(2,3) by (simp add: object_name_def list_update_append)
qed

lemma copyout_word_ok:
  assumes "a + 4 < UMEM_MAX" "\<forall>j < 4. u_write s (a + j) \<noteq> None"
  shows "fst (copyout_word v a s) = 0"
    "\<forall>j < 4. u_write s (a + j) \<noteq> Some x \<Longrightarrow> pmem (vm (snd (copyout_word v a s))) x = pmem (vm s) x"
  using assms uwrite_ok [of "le32 v" a s] uwrite_mem_other [of "le32 v" s a x]
  by (auto simp: copyout_word_def umem_copyout_def case_prod_beta)

text \<open>
  C37: Creating a named object. When the name is a terminated string shorter than the limit that does not
  share memory with the place for the result, the call fails with \<^verbatim>\<open>EEXIST\<close> exactly when an object
  of that name can be found, and then changes no object. Otherwise, unless memory runs out, the name leads
  to the new object from then on; it belongs to the caller's task and has empty message queues.
\<close>

theorem object_create_spec:
  assumes "ustring s name bs" and "length bs < MAXOBJNAME" and "name \<noteq> 0" and "name + MAXOBJNAME < UMEM_MAX"
    and "objp + 4 < UMEM_MAX" and "\<forall>j < 4. u_write s (objp + j) \<noteq> None"
    and "\<forall>i \<le> length bs. \<forall>j < 4. u_read s (name + i) \<noteq> u_write s (objp + j)"
    and "\<forall>ob. length (ob_name (objects s ob)) = MAXOBJNAME"
    and "object_create name objp s = (r, s')"
  shows "case object_find (bs @ [0]) s of
      Some ob \<Rightarrow> r = Done EEXIST \<and> obj_table s' = obj_table s \<and> objects s' = objects s
    | None \<Rightarrow>
        (case fst (kmem_alloc_block s) of
           None \<Rightarrow> r = Done ENOMEM \<and> obj_table s' = obj_table s \<and> objects s' = objects s
         | Some ob \<Rightarrow> r = Done 0 \<and> object_find (bs @ [0]) s' = Some ob \<and>
             ob_magic (objects s' ob) = OBJECT_MAGIC \<and> ob_owner (objects s' ob) = cur_task_ptr s \<and>
             sendq (objects s' ob) = [] \<and> recvq (objects s' ob) = [] \<and>
             tk_objects (tasks s' (cur_task_ptr s)) = ob # tk_objects (tasks s (cur_task_ptr s)))"
proof -
  note nm = object_name_ustring [OF assms(1-4)]
  have uw: "u_write (sched_lock s) = u_write s" "u_read (sched_lock s) = u_read s" by (rule u_read_vm, simp)+
  define s2 where "s2 = snd (copyout_word 0 objp (sched_lock s))"
  have mo: "mem_only (sched_lock s) s2" by (simp add: s2_def)
  note m2 = mem_onlyD [OF mo]
  have c2: "copyout_word 0 objp (sched_lock s) = (0, s2)"
    using copyout_word_ok(1) [OF assms(5), of "sched_lock s" 0] assms(6) by (simp add: s2_def uw prod_eq_iff)
  have us2: "ustring s2 name bs"
  proof (rule ustring_cong [OF assms(1)])
    show "\<forall>i \<le> length bs. \<forall>p. u_read s (name + i) = Some p \<longrightarrow> pmem (vm s2) p = pmem (vm s) p"
      using copyout_word_ok(2) [OF assms(5), of "sched_lock s"] assms(6,7) unfolding s2_def uw by (metis sched_lock_vm(1))
  qed (simp add: m2)
  have f2: "object_find (bs @ [0]) s2 = object_find (bs @ [0]) s" by (rule object_find_cong) (simp_all add: m2)
  have a2: "fst (kmem_alloc_block s2) = fst (kmem_alloc_block s)" by (rule kmem_alloc_block_vm) (simp add: m2)
  show ?thesis
  proof (cases "object_find (bs @ [0]) s")
    case (Some ob)
    then show ?thesis using assms(9) f2 m2 by (auto simp: object_create_def nm c2 kproj)
  next
    case N: None
    obtain ro s3 where al: "kmem_alloc_block s2 = (ro, s3)" by fastforce
    have s3e: "s3 = snd (kmem_alloc_block s2)" and s3: "fst (kmem_alloc_block s) = ro" using al a2 by simp_all
    have k3: "objects s3 = objects s" "obj_table s3 = obj_table s" "tasks s3 = tasks s" "threads s3 = threads (sched_lock s)"
      "cur_thread s3 = cur_thread s" "mmu_st (vm s3) = mmu_st (vm s2)" "pmem (vm s3) = pmem (vm s2)"
      unfolding s3e by (simp_all add: m2 kmem_alloc_block_vm)
    show ?thesis
    proof (cases ro)
      case None
      then show ?thesis using assms(9) f2 N s3 k3 by (auto simp: object_create_def nm c2 al kproj)
    next
      case (Some ob)
      define s5 where "s5 = upd_object ob (\<lambda>x. x\<lparr>ob_owner := cur_task_ptr s, ob_magic := OBJECT_MAGIC, sendq := [], recvq := []\<rparr>)
        (upd_object ob (ob_name_update (\<lambda>nm. snd (strlcpy nm (bs @ [0]) (Suc (length bs))))) s3)"
      have v5: "vm s5 = vm s3" by (simp add: s5_def)
      have "ustring s5 name bs"
        by (rule ustring_cong [OF us2]) (simp_all add: v5 k3)
      then have h: "user_hash s5 (2 ^ 32) name 0 = Some (object_hash_from 0 (bs @ [0]))"
        using assms(2) by (intro ustring_hash) (simp_all add: MAXOBJNAME_def)
      have ct: "cur_task_ptr (upd_object ob f s3) = cur_task_ptr s" for f
        by (simp add: cur_task_ptr_def cur_task_def k3)
      define s6 where "s6 = upd_task (cur_task_ptr s) (tk_objects_update (\<lambda>os. ob # os)) (object_link (object_hash (bs @ [0])) ob s5)"
      have r: "r = Done 0" "s' = sched_unlock (snd (copyout_word ob objp s6))"
        using assms(3,9) f2 N h
        by (auto simp: object_create_def nm c2 al Some Let_def ct s5_def [symmetric] object_hash_def s6_def)
      note m7 = mem_onlyD [OF umem_mem(2) [of s6 ob objp]]
      have nob: "ob_name (objects s5 ob) = bs @ 0 # drop (Suc (length bs)) (ob_name (objects s ob))" "0 \<notin> set bs"
        using assms(1,2,8) strlcpy_copy [of bs "ob_name (objects s ob)"]
        by (simp_all add: s5_def k3 ustring_def)
      have e: "objects s' = objects s5" "obj_table s' = (obj_table s5)(object_hash (bs @ [0]) := ob # obj_table s5 (object_hash (bs @ [0])))"
        "tasks s' = (tasks s5)(cur_task_ptr s := tk_objects_update (\<lambda>os. ob # os) (tasks s5 (cur_task_ptr s)))"
        by (simp_all add: r(2) kproj m7) (simp_all add: s6_def object_link_def)
      have "object_find (bs @ [0]) s' = Some ob"
        using nob strncmp_same [of bs _ "[]"] by (simp add: object_find_def e)
      then show ?thesis using N Some s3 r(1) by (simp add: e) (simp add: s5_def k3)
    qed
  qed
qed

lemma demo_ustring: "vm s = vm demo_state \<Longrightarrow> ustring s 0x1010 [0x61, 0x62]"
proof -
  assume v: "vm s = vm demo_state"
  have "u_read s (0x1000 + i) = Some (0x200000 + i)" if "i < 0x1000" for i using u_read_vm(1) [OF v] that by simp
  from this [of 16] this [of 17] this [of 18] show ?thesis
    by (simp add: ustring_def v demo_proj All_less_Suc2) (simp add: demo_vm_def All_less_Suc2 numeral_2_eq_2)
qed

theorem object_create_spec_witness:
  "\<exists>s'. object_create 0x1010 0x1020 demo_state = (Done 0, s') \<and> object_find [0x61, 0x62, 0] s' = Some 0x80007000"
proof -
  obtain r s' where r: "object_create 0x1010 0x1020 demo_state = (r, s')" by fastforce
  have m: "u_write demo_state (0x1000 + i) = Some (0x200000 + i)" "u_read demo_state (0x1000 + i) = Some (0x200000 + i)"
    if "i < 0x1000" for i using that by simp_all
  have w: "\<forall>j < 4. u_write demo_state (0x1020 + j) \<noteq> None" using m(1) [of "0x20 + j" for j] by (simp add: add.assoc [symmetric])
  have d: "\<forall>i \<le> length [0x61, 0x62 :: nat]. \<forall>j < 4. u_read demo_state (0x1010 + i) \<noteq> u_write demo_state (0x1020 + j)"
    using m(1) [of "0x20 + j" for j] m(2) [of "0x10 + i" for i] by (simp add: add.assoc [symmetric])
  have n: "\<forall>ob. length (ob_name (objects demo_state ob)) = MAXOBJNAME" by (simp add: demo_state_def zero_state_def)
  have "object_find ([0x61, 0x62] @ [0]) demo_state = None" by (simp add: object_find_def demo_proj)
  then show ?thesis
    using object_create_spec [OF demo_ustring _ _ _ _ w d n r] r
    by (simp add: MAXOBJNAME_def UMEM_MAX_def demo_alloc)
qed

text \<open>
  An object without a name keeps whatever its memory held as its name. If that starts with a zero byte, a second
  object without a name cannot be created.
\<close>

lemma object_create_second_unnamed:
  assumes "ob \<in> set (obj_table s 0)" "ob_name (objects s ob) = 0 # bs"
  shows "fst (object_create 0 objp s) \<in> {Done EEXIST, Done EFAULT}"
proof -
  obtain e s2 where c: "copyout_word 0 objp (sched_lock s) = (e, s2)" by fastforce
  note m = mem_onlyD [OF umem_mem(2) [of "sched_lock s" 0 objp]]
  have k: "objects s2 = objects s" "obj_table s2 = obj_table s" using c m by simp_all
  have "strncmp (ob_name (objects s2 ob)) [0] MAXOBJNAME = 0" using assms(2) k strncmp_same [of "[]" bs "[]"] by simp
  then have "object_find [0] s2 \<noteq> None"
    using assms(1) k by (auto simp: object_find_def object_hash_def bucket_def find_None_iff)
  then show ?thesis using c by (auto simp: object_create_def object_name_def)
qed

end
