(* ===== verification/Task.thy ===== *)
theory Task
  imports Device Object
begin

text \<open>
  Tasks, \<^verbatim>\<open>sys/kern/task.c\<close>, and the system calls of \<^verbatim>\<open>sys/mem/vm.c\<close> on the memory of a task. The loops over
  the threads and objects of a task run over the lists as they are when the loop starts.
\<close>

section \<open>Creation and termination\<close>

definition VM_NEW :: nat where "VM_NEW = 0"
definition VM_SHARE :: nat where "VM_SHARE = 1"
definition VM_COPY :: nat where "VM_COPY = 2"

definition upd_vm :: "(vmstate \<Rightarrow> vmstate) \<Rightarrow> kstate \<Rightarrow> kstate" where
  "upd_vm f s = s\<lparr>vm := f (vm s)\<rparr>"

definition task_map :: "nat \<Rightarrow> task_t \<Rightarrow> kstate \<Rightarrow> nat option \<times> kstate" where
  "task_map vm_option par s =
     (if vm_option = VM_NEW then (case vm_create (vm s) of (r, v) \<Rightarrow> (r, s\<lparr>vm := v\<rparr>))
      else if vm_option = VM_SHARE then
        (Some (tk_map (tasks s par)), upd_vm (vm_reference (tk_map (tasks s par))) s)
      else (case vm_fork (tk_map (tasks s par)) (vm s) of (r, v) \<Rightarrow> (r, s\<lparr>vm := v\<rparr>)))"

definition task_fill :: "task_t \<Rightarrow> nat \<Rightarrow> task_t \<Rightarrow> kstate \<Rightarrow> kstate" where
  "task_fill t mp par s =
     (let s1 = upd_task t (\<lambda>x. x\<lparr>tk_map := mp, handler := handler (tasks s par), capability := capability (tasks s par),
            parent := Some par, tk_magic := TASK_MAGIC, tk_objects := [], tk_threads := []\<rparr>) s
      in s1\<lparr>task_list := t # task_list s1\<rparr>)"

text \<open>The identifier goes to user memory or, for the kernel, to a variable of the caller (the second result).\<close>

definition task_create :: "task_t \<Rightarrow> nat \<Rightarrow> vaddr \<Rightarrow> kstate \<Rightarrow> sysres \<times> task_t \<times> kstate" where
  "task_create par vm_option child s0 =
     (if vm_option \<notin> {VM_NEW, VM_SHARE, VM_COPY} then (Done EINVAL, 0, s0)
      else let s1 = sched_lock s0;
               kern = (cur_task s1 = Some (kern_task s1));
               (err, s2) = (if \<not> task_valid s1 par then (ESRCH, s1)
                  else if kern then (0, s1)
                  else if \<not> task_access par s1 then (EPERM, s1)
                  else (case umem_copyout (le32 0) child s1 of (e, t) \<Rightarrow> (if e \<noteq> 0 then EFAULT else 0, t)))
           in if err \<noteq> 0 then (Done err, 0, sched_unlock s2)
              else (case kmem_alloc_block s2 of
                 (None, s3) \<Rightarrow> (Done ENOMEM, 0, sched_unlock s3)
               | (Some t, s3) \<Rightarrow>
                   let s4 = upd_timer (TaskAlarm t) (\<lambda>_. zero_timer) (upd_task t (\<lambda>_. zero_task) s3)
                   in (case task_map vm_option par s4 of
                         (None, s5) \<Rightarrow> (Done ENOMEM, 0, sched_unlock (kmem_free_block t s5))
                       | (Some mp, s5) \<Rightarrow>
                           let s6 = task_fill t mp par s5
                           in if kern then (Done 0, t, sched_unlock s6)
                              else (case umem_copyout (le32 t) child s6 of (e, s7) \<Rightarrow> (Done e, t, sched_unlock s7)))))"

definition kill_thread :: "tid \<Rightarrow> kstate \<Rightarrow> kstate" where
  "kill_thread th s = (if th \<noteq> cur_thread s then snd (thread_terminate th s) else s)"

definition kill_object :: "nat \<Rightarrow> kstate \<Rightarrow> kstate" where
  "kill_object ob s = snd (object_destroy ob (upd_object ob (ob_owner_update (\<lambda>_. cur_task_ptr s)) s))"

definition task_release :: "task_t \<Rightarrow> kstate \<Rightarrow> kstate" where
  "task_release t s =
     (let s1 = upd_vm (vm_terminate (tk_map (tasks s t))) (timer_stop (TaskAlarm t) s);
          s2 = upd_task t (tk_magic_update (\<lambda>_. 0)) s1
      in kmem_free_block t (s2\<lparr>task_list := remove1 t (task_list s2)\<rparr>))"

definition task_terminate :: "(nat \<Rightarrow> devio) \<Rightarrow> task_t \<Rightarrow> kstate \<Rightarrow> sysres \<times> kstate" where
  "task_terminate io t s0 =
     (let s1 = sched_lock s0
      in if \<not> task_valid s1 t then (Done ESRCH, sched_unlock s1)
         else if \<not> task_access t s1 then (Done EPERM, sched_unlock s1)
         else let s2 = device_terminate io t s1;
                  s3 = fold kill_thread (tk_threads (tasks s2 t)) s2;
                  s4 = fold kill_object (tk_objects (tasks s3 t)) s3;
                  s5 = task_release t s4;
                  s6 = (if Some t = cur_task s5
                        then snd (thread_terminate (cur_thread s5) (upd_cur (th_task_update (\<lambda>_. None)) s5)) else s5)
              in (Done 0, sched_unlock s6))"

section \<open>The other calls\<close>

definition task_self :: "kstate \<Rightarrow> task_t" where
  "task_self s = cur_task_ptr s"

definition task_suspend :: "task_t \<Rightarrow> kstate \<Rightarrow> sysres \<times> kstate" where
  "task_suspend t s0 =
     (let s1 = sched_lock s0
      in if \<not> task_valid s1 t then (Done ESRCH, sched_unlock s1)
         else if \<not> task_access t s1 then (Done EPERM, sched_unlock s1)
         else let s2 = upd_task t (tk_suscnt_update (\<lambda>n. n + 1)) s1;
                  s3 = (if tk_suscnt (tasks s2 t) = 1
                        then fold (\<lambda>th x. snd (thread_suspend th x)) (tk_threads (tasks s2 t)) s2 else s2)
              in (Done 0, sched_unlock s3))"

definition task_resume :: "task_t \<Rightarrow> kstate \<Rightarrow> sysres \<times> kstate" where
  "task_resume t s0 =
     (let s1 = sched_lock s0
      in if \<not> task_valid s1 t then (Done ESRCH, sched_unlock s1)
         else if \<not> task_access t s1 then (Done EPERM, sched_unlock s1)
         else if tk_suscnt (tasks s1 t) = 0 then (Done EINVAL, sched_unlock s1)
         else let s2 = upd_task t (tk_suscnt_update (\<lambda>n. n - 1)) s1;
                  s3 = (if tk_suscnt (tasks s2 t) = 0
                        then fold (\<lambda>th x. snd (thread_resume th x)) (tk_threads (tasks s2 t)) s2 else s2)
              in (Done 0, sched_unlock s3))"

definition task_name :: "task_t \<Rightarrow> name_ptr \<Rightarrow> kstate \<Rightarrow> sysres \<times> kstate" where
  "task_name t name s0 =
     (let s1 = sched_lock s0;
          old = tk_name (tasks s1 t)
      in if \<not> task_valid s1 t then (Done ESRCH, sched_unlock s1)
         else if \<not> task_access t s1 then (Done EPERM, sched_unlock s1)
         else if cur_task s1 = Some (kern_task s1)
           then (Done 0, sched_unlock (upd_task t (tk_name_update (\<lambda>_. snd (strlcpy old (name_str name) MAXTASKNAME))) s1))
         else case umem_strnlen (name_addr name) MAXTASKNAME s1 of
                None \<Rightarrow> (Done EFAULT, sched_unlock s1)
              | Some len \<Rightarrow>
                  if MAXTASKNAME \<le> len then (Done ENAMETOOLONG, sched_unlock s1)
                  else (case set_name (len + 1) (name_addr name) old s1 of
                          (e, nm) \<Rightarrow> (Done e, sched_unlock (upd_task t (tk_name_update (\<lambda>_. nm)) s1))))"

text \<open>\<^verbatim>\<open>task_getcap\<close> copies the capability out after it has dropped the scheduler lock.\<close>

definition task_getcap :: "task_t \<Rightarrow> kstate \<Rightarrow> sysres \<times> u32 \<times> kstate" where
  "task_getcap t s0 =
     (let s1 = sched_lock s0
      in if \<not> task_valid s1 t then (Done ESRCH, 0, sched_unlock s1)
         else (Yielded, capability (tasks s1 t), sched_unlock s1))"

definition task_getcap_ret :: "u32 \<Rightarrow> vaddr \<Rightarrow> kstate \<Rightarrow> sysres \<times> kstate" where
  "task_getcap_ret c cap s = (case copyout_word (unat c) cap s of (e, s') \<Rightarrow> (Done e, s'))"

definition task_setcap :: "task_t \<Rightarrow> vaddr \<Rightarrow> kstate \<Rightarrow> sysres \<times> kstate" where
  "task_setcap t cap s0 =
     (if \<not> task_capable CAP_SETPCAP s0 then (Done EPERM, s0)
      else let s1 = sched_lock s0
           in if \<not> task_valid s1 t then (Done ESRCH, sched_unlock s1)
              else case copyin_word cap s1 of
                     None \<Rightarrow> (Done EFAULT, sched_unlock s1)
                   | Some c \<Rightarrow> (Done 0, sched_unlock (upd_task t (capability_update (\<lambda>_. word_of_nat c)) s1)))"

section \<open>Boot tasks\<close>

text \<open>
  A boot module is loaded as a task with one thread. \<open>None\<close>: a step fails and the kernel panics, or the
  store to the new stack faults.
\<close>

definition boot_task :: "nat list \<Rightarrow> module \<Rightarrow> kstate \<Rightarrow> kstate option" where
  "boot_task name md s0 =
     (case task_create (kern_task s0) VM_NEW 0 s0 of
        (r, t, s1) \<Rightarrow>
          if r \<noteq> Done 0 then None
          else let s2 = snd (task_name t (KName name) s1)
               in (case vm_load (tk_map (tasks s2 t)) md (vm s2) of
                     (err, stack, v) \<Rightarrow>
                       if err \<noteq> 0 then None
                       else (case thread_create t 0 (s2\<lparr>vm := v\<rparr>) of
                               (r, th, s3) \<Rightarrow>
                                 if r \<noteq> Done 0 then None
                                 else let s4 = snd (thread_name th (KName (cstr ''main'')) s3);
                                          sp = stack + USTACK_SIZE - 12
                                      in (case uwrite (le32 0) sp s4 of
                                            (False, s5) \<Rightarrow> None
                                          | (True, s5) \<Rightarrow>
                                              (case thread_load th (md_entry md) sp s5 of
                                                 (r, s6) \<Rightarrow>
                                                   if r \<noteq> Done 0 then None else Some (snd (thread_resume th s6)))))))"

fun task_bootstrap :: "(nat list \<times> module) list \<Rightarrow> kstate \<Rightarrow> kstate option" where
  "task_bootstrap [] s = Some s"
| "task_bootstrap ((name, md) # mods) s =
     (case boot_task name md s of None \<Rightarrow> None | Some s' \<Rightarrow> task_bootstrap mods s')"

definition task_init :: "kstate \<Rightarrow> kstate" where
  "task_init s =
     (upd_task (kern_task s) (\<lambda>t. t\<lparr>tk_name := snd (strlcpy (tk_name t) (cstr ''kernel'') MAXTASKNAME), tk_objects := [],
        tk_threads := [], capability := 0xffffffff, tk_magic := TASK_MAGIC\<rparr>) s)\<lparr>task_list := []\<rparr>"

section \<open>The memory of a task\<close>

text \<open>
  \<^verbatim>\<open>vm_allocate\<close> tests the address by reading it from user memory a second time, \<^verbatim>\<open>*addr\<close>, without the
  protection of \<^verbatim>\<open>umem_copyin\<close>; nothing runs between the two reads and the second cannot fault after the first.
\<close>

definition may_map :: "task_t \<Rightarrow> kstate \<Rightarrow> errno" where
  "may_map t s =
     (if \<not> task_valid s t then ESRCH else if Some t \<noteq> cur_task s \<and> \<not> task_capable CAP_MEMORY s then EPERM else 0)"

definition vm_allocate :: "task_t \<Rightarrow> vaddr \<Rightarrow> nat \<Rightarrow> bool \<Rightarrow> kstate \<Rightarrow> sysres \<times> kstate" where
  "vm_allocate t addr sz anywhere s0 =
     (let s1 = sched_lock s0
      in if may_map t s1 \<noteq> 0 then (Done (may_map t s1), sched_unlock s1)
         else case copyin_word addr s1 of
                None \<Rightarrow> (Done EFAULT, sched_unlock s1)
              | Some uaddr \<Rightarrow>
                  if \<not> anywhere \<and> \<not> user_area uaddr then (Done EACCES, sched_unlock s1)
                  else (case do_allocate (tk_map (tasks s1 t)) uaddr sz anywhere (vm s1) of
                          (err, uaddr', v) \<Rightarrow>
                            let s2 = s1\<lparr>vm := v\<rparr>
                            in if err \<noteq> 0 then (Done err, sched_unlock s2)
                               else (case copyout_word uaddr' addr s2 of
                                       (e, s3) \<Rightarrow> (Done (if e \<noteq> 0 then EFAULT else 0), sched_unlock s3))))"

definition vm_free :: "task_t \<Rightarrow> vaddr \<Rightarrow> kstate \<Rightarrow> sysres \<times> kstate" where
  "vm_free t addr s0 =
     (let s1 = sched_lock s0
      in if may_map t s1 \<noteq> 0 then (Done (may_map t s1), sched_unlock s1)
         else if \<not> user_area addr then (Done EFAULT, sched_unlock s1)
         else (case do_free (tk_map (tasks s1 t)) addr (vm s1) of
                 (err, v) \<Rightarrow> (Done err, sched_unlock (s1\<lparr>vm := v\<rparr>))))"

definition vm_attribute :: "task_t \<Rightarrow> vaddr \<Rightarrow> u32 \<Rightarrow> kstate \<Rightarrow> sysres \<times> kstate" where
  "vm_attribute t addr attr s0 =
     (let s1 = sched_lock s0
      in if attr = 0 \<or> attr AND NOT (VMA_READ OR VMA_WRITE) \<noteq> 0 then (Done EINVAL, sched_unlock s1)
         else if may_map t s1 \<noteq> 0 then (Done (may_map t s1), sched_unlock s1)
         else if \<not> user_area addr then (Done EFAULT, sched_unlock s1)
         else (case do_attribute (tk_map (tasks s1 t)) addr attr (vm s1) of
                 (err, v) \<Rightarrow> (Done err, sched_unlock (s1\<lparr>vm := v\<rparr>))))"

text \<open>\<^verbatim>\<open>do_map\<close> first writes a null pointer to the result to see that it can; its own work is in \<open>Vm\<close>.\<close>

definition vm_map_call :: "task_t \<Rightarrow> vaddr \<Rightarrow> nat \<Rightarrow> vaddr \<Rightarrow> kstate \<Rightarrow> sysres \<times> kstate" where
  "vm_map_call t addr sz alloc s0 =
     (let s1 = sched_lock s0
      in if \<not> task_valid s1 t then (Done ESRCH, sched_unlock s1)
         else if Some t = cur_task s1 then (Done EINVAL, sched_unlock s1)
         else if \<not> task_capable CAP_MEMORY s1 then (Done EPERM, sched_unlock s1)
         else if \<not> user_area addr then (Done EFAULT, sched_unlock s1)
         else if sz = 0 then (Done EINVAL, sched_unlock s1)
         else (case copyout_word 0 alloc s1 of
                 (e, s2) \<Rightarrow>
                   if e \<noteq> 0 then (Done EFAULT, sched_unlock s2)
                   else (case do_map (tk_map (tasks s2 (cur_task_ptr s2))) (tk_map (tasks s2 t)) addr sz (vm s2) of
                           (err, a, v) \<Rightarrow>
                             let s3 = s2\<lparr>vm := v\<rparr>
                             in if err \<noteq> 0 then (Done err, sched_unlock s3)
                                else (Done 0, sched_unlock (snd (copyout_word a alloc s3))))))"

end
