(* ===== verification/Irq.thy ===== *)
theory Irq
  imports Thread
begin

text \<open>
  Interrupts: \<^verbatim>\<open>sys/kern/irq.c\<close>, the interrupt controller of \<^verbatim>\<open>sys/arch/i386/pc/interrupt.c\<close>, the clock
  interrupt of \<^verbatim>\<open>sys/arch/i386/pc/clock.c\<close> and the interrupt entry of \<^verbatim>\<open>locore.S\<close>. The service routines of
  drivers are the argument \<open>isr\<close>; a function pointer is a number, and 0 names \<^verbatim>\<open>clock_isr\<close>. The two mask
  registers of the 8259 pair are the fields \<open>pic_mask_m\<close> and \<open>pic_mask_s\<close>; a set bit masks the line.
\<close>

section \<open>The interrupt controller\<close>

definition INT_CONTINUE :: int where "INT_CONTINUE = 2"
definition INT_DONE :: int where "INT_DONE = 0"
definition IPL_NONE :: nat where "IPL_NONE = 0"
definition IPL_CLOCK :: nat where "IPL_CLOCK = 10"
definition IPL_HIGH :: nat where "IPL_HIGH = 11"

definition ISTPRIO :: "nat \<Rightarrow> nat" where
  "ISTPRIO p = PRIO_IST + (IPL_HIGH - p)"

definition upd_pic :: "(pic \<Rightarrow> pic) \<Rightarrow> kstate \<Rightarrow> kstate" where
  "upd_pic f s = s\<lparr>pic := f (pic s)\<rparr>"

definition update_mask :: "pic \<Rightarrow> pic" where
  "update_mask p =
     (let mask = mask_table p (irq_level p)
      in p\<lparr>pic_mask_m := mask AND 0xff, pic_mask_s := drop_bit 8 mask\<rparr>)"

definition interrupt_unmask :: "nat \<Rightarrow> nat \<Rightarrow> pic \<Rightarrow> pic" where
  "interrupt_unmask vector level p =
     update_mask (p\<lparr>ipl_table := (ipl_table p)(vector := level),
       mask_table := (\<lambda>i. if i < level then unset_bit vector (mask_table p i) else mask_table p i)\<rparr>)"

definition interrupt_mask :: "nat \<Rightarrow> pic \<Rightarrow> pic" where
  "interrupt_mask vector p =
     (let level = ipl_table p vector
      in update_mask (p\<lparr>mask_table := (\<lambda>i. if i < level then set_bit vector (mask_table p i) else mask_table p i),
           ipl_table := (ipl_table p)(vector := IPL_NONE)\<rparr>))"

text \<open>The edge/level register: bit set for a level-triggered line.\<close>

definition interrupt_setup :: "nat \<Rightarrow> bool \<Rightarrow> pic \<Rightarrow> pic" where
  "interrupt_setup vector level_mode p =
     (let port = (if vector < 8 then 0 else 1); b = vector mod 8
      in p\<lparr>elcr := (elcr p)(port := (if level_mode then set_bit b (elcr p port) else unset_bit b (elcr p port)))\<rparr>)"

definition interrupt_init :: "pic \<Rightarrow> pic" where
  "interrupt_init p =
     p\<lparr>irq_level := IPL_NONE, ipl_table := (\<lambda>i. if i < NIRQS then IPL_NONE else ipl_table p i),
       mask_table := (\<lambda>i. if i < NIPLS then 0xfffb else mask_table p i), pic_mask_s := 0xff, pic_mask_m := 0xfb\<rparr>"

section \<open>Attaching and serving\<close>

definition irq_attach :: "nat \<Rightarrow> nat \<Rightarrow> bool \<Rightarrow> nat \<Rightarrow> nat option \<Rightarrow> kstate \<Rightarrow> nat option \<times> kstate" where
  "irq_attach vector p shared isr ist s0 =
     (let s1 = sched_lock s0
      in case kmem_alloc_block s1 of
           (None, s2) \<Rightarrow> (None, sched_unlock s2)
         | (Some q, s2) \<Rightarrow>
             let s3 = upd_irq q (\<lambda>_. \<lparr>iq_vector = vector, iq_isr = isr, iq_ist = ist, iq_istreq = 0, iq_thread = None\<rparr>) s2;
                 (ok, s4) =
                   (case ist of
                      None \<Rightarrow> (True, s3)
                    | Some _ \<Rightarrow>
                        (case kthread_create IrqThread q (ISTPRIO p) s3 of
                           (None, t) \<Rightarrow> (False, kmem_free_block q t)
                         | (Some th, t) \<Rightarrow>
                             let t1 = upd_irq q (iq_thread_update (\<lambda>_. Some th)) t;
                                 t2 = snd (thread_name th (KName (cstr ''ist'')) t1)
                             in (True, event_init (IstEvent q) t2)))
             in if \<not> ok then (None, sched_unlock s4)
                else let s5 = s4\<lparr>irq_table := (irq_table s4)(vector := Some q)\<rparr>;
                         s6 = upd_pic (\<lambda>c. interrupt_unmask vector p (interrupt_setup vector shared c)) (irq_lock s5)
                     in (Some q, sched_unlock (irq_unlock s6)))"

definition irq_detach :: "nat \<Rightarrow> kstate \<Rightarrow> kstate" where
  "irq_detach q s0 =
     (let s1 = irq_unlock (upd_pic (interrupt_mask (iq_vector (irqs s0 q))) (irq_lock s0));
          s2 = s1\<lparr>irq_table := (irq_table s1)(iq_vector (irqs s1 q) := None)\<rparr>;
          s3 = (case iq_thread (irqs s2 q) of None \<Rightarrow> s2 | Some th \<Rightarrow> kthread_terminate th s2)
      in kmem_free_block q s3)"

text \<open>The service thread: the test at the top of its loop, and the round after it, with the call it makes.\<close>

definition irq_thread_wait :: "nat \<Rightarrow> kstate \<Rightarrow> sysres \<times> kstate" where
  "irq_thread_wait q s0 =
     (let s = s0\<lparr>interrupts := False\<rparr>
      in if iq_istreq (irqs s q) \<le> 0 then (Sleeping, sched_tsleep (IstEvent q) 0 s) else (Yielded, s))"

definition irq_thread_next :: "nat \<Rightarrow> kstate \<Rightarrow> (nat option \<times> nat) \<times> kstate" where
  "irq_thread_next q s =
     ((iq_ist (irqs s q), iq_vector (irqs s q)), (upd_irq q (iq_istreq_update (\<lambda>n. n - 1)) s)\<lparr>interrupts := True\<rparr>)"

definition irq_handler :: "(nat \<Rightarrow> nat \<Rightarrow> kstate \<Rightarrow> int \<times> kstate) \<Rightarrow> nat \<Rightarrow> kstate \<Rightarrow> kstate" where
  "irq_handler isr vector s =
     (case irq_table s vector of
        None \<Rightarrow> s
      | Some q \<Rightarrow>
          (case isr (iq_isr (irqs s q)) vector s of
             (rc, s1) \<Rightarrow>
               if rc = INT_CONTINUE then sched_wakeup (IstEvent q) (upd_irq q (iq_istreq_update (\<lambda>n. n + 1)) s1) else s1))"

definition clock_isr :: "(nat \<Rightarrow> bool \<Rightarrow> kstate \<Rightarrow> kstate) \<Rightarrow> kstate \<Rightarrow> int \<times> kstate" where
  "clock_isr hook s = (INT_DONE, irq_unlock (timer_tick hook (irq_lock s)))"

definition call_isr :: "(nat \<Rightarrow> bool \<Rightarrow> kstate \<Rightarrow> kstate) \<Rightarrow> (nat \<Rightarrow> nat \<Rightarrow> kstate \<Rightarrow> int \<times> kstate) \<Rightarrow>
    nat \<Rightarrow> nat \<Rightarrow> kstate \<Rightarrow> int \<times> kstate" where
  "call_isr hook drv f vector s = (if f = 0 then clock_isr hook s else drv f vector s)"

text \<open>\<^verbatim>\<open>interrupt_handler\<close>: up to the dispatch, and after it with the level to go back to.\<close>

definition interrupt_begin :: "nat \<Rightarrow> kstate \<Rightarrow> kstate" where
  "interrupt_begin vector s =
     (upd_pic (\<lambda>p. let new_ipl = ipl_table p vector
        in update_mask (if irq_level p < new_ipl then p\<lparr>irq_level := new_ipl\<rparr> else p)) s)\<lparr>interrupts := True\<rparr>"

definition interrupt_end :: "nat \<Rightarrow> kstate \<Rightarrow> kstate" where
  "interrupt_end old_ipl s = upd_pic (\<lambda>p. update_mask (p\<lparr>irq_level := old_ipl\<rparr>)) (s\<lparr>interrupts := False\<rparr>)"

definition interrupt_handler :: "(nat \<Rightarrow> nat \<Rightarrow> kstate \<Rightarrow> int \<times> kstate) \<Rightarrow> nat \<Rightarrow> kstate \<Rightarrow> kstate" where
  "interrupt_handler isr vector s = interrupt_end (irq_level (pic s)) (irq_handler isr vector (interrupt_begin vector s))"

text \<open>The outermost interrupt runs with the scheduler locked and tries to preempt when it ends.\<close>

definition interrupt_common :: "(nat \<Rightarrow> nat \<Rightarrow> kstate \<Rightarrow> int \<times> kstate) \<Rightarrow> nat \<Rightarrow> kstate \<Rightarrow> kstate" where
  "interrupt_common isr vector s = sched_unlock (interrupt_handler isr vector (sched_lock (s\<lparr>interrupts := False\<rparr>)))"

definition irq_init :: "kstate \<Rightarrow> kstate" where
  "irq_init s = (upd_pic interrupt_init s)\<lparr>interrupts := True\<rparr>"

definition clock_init :: "kstate \<Rightarrow> nat option \<times> kstate" where
  "clock_init s = irq_attach 0 IPL_CLOCK False 0 None s"

section \<open>Interrupt levels\<close>

text \<open>
  Line \<open>v\<close> is masked at level \<open>i\<close> exactly when its own level is not above \<open>i\<close>; the controllers hold the
  mask of the level in force. Line 2 is the cascade of the second controller and stays open.
\<close>

definition pic_ok :: "pic \<Rightarrow> bool" where
  "pic_ok p = ((\<forall>i < NIPLS. \<forall>v < NIRQS. v \<noteq> 2 \<longrightarrow> bit (mask_table p i) v = (ipl_table p v \<le> i)) \<and>
     (\<forall>v < NIRQS. ipl_table p v < NIPLS) \<and> irq_level p < NIPLS \<and>
     pic_mask_m p = mask_table p (irq_level p) AND 0xff \<and> pic_mask_s p = drop_bit 8 (mask_table p (irq_level p)))"

text \<open>The lines the controllers let through.\<close>

definition line_open :: "pic \<Rightarrow> nat \<Rightarrow> bool" where
  "line_open p v = (if v < 8 then \<not> bit (pic_mask_m p) v else \<not> bit (pic_mask_s p) (v - 8))"

lemma update_mask_idem [simp]: "update_mask (update_mask p) = update_mask p"
  by (simp add: update_mask_def Let_def)

lemma update_mask_fields [simp]:
  "mask_table (update_mask p) = mask_table p" "ipl_table (update_mask p) = ipl_table p" "irq_level (update_mask p) = irq_level p"
  "pic_mask_m (update_mask p) = mask_table p (irq_level p) AND 0xff" "pic_mask_s (update_mask p) = drop_bit 8 (mask_table p (irq_level p))"
  by (simp_all add: update_mask_def Let_def)

lemma line_open_update:
  assumes "v < NIRQS"
  shows "line_open (update_mask p) v = (\<not> bit (mask_table p (irq_level p)) v)"
proof -
  have "bit (0xff :: u32) v" if "v < 8"
  proof -
    have "bit (mask 8 :: u32) v" using that by (simp add: bit_mask_iff)
    moreover have "mask 8 = (0xff :: u32)" by (simp add: mask_eq_exp_minus_1)
    ultimately show ?thesis by metis
  qed
  then show ?thesis by (simp add: line_open_def update_mask_def Let_def bit_and_iff bit_drop_bit_eq)
qed

lemma pic_ok_open:
  assumes "pic_ok p" "v < NIRQS" "v \<noteq> 2"
  shows "line_open p v \<longleftrightarrow> irq_level p < ipl_table p v"
proof -
  have "line_open p v = line_open (update_mask p) v" using assms(1) by (simp add: pic_ok_def line_open_def)
  then show ?thesis using assms line_open_update [OF assms(2), of p] by (auto simp: pic_ok_def)
qed

lemma pic_ok_level: "pic_ok p \<Longrightarrow> l < NIPLS \<Longrightarrow> pic_ok (update_mask (p\<lparr>irq_level := l\<rparr>))"
  by (simp add: pic_ok_def)

lemma interrupt_init_ok: "pic_ok (interrupt_init p)"
proof -
  have b: "bit (0xfffb :: u32) v" if "v < 16" "v \<noteq> 2" for v
  proof -
    have "bit (unset_bit 2 (mask 16) :: u32) v" using that by (simp add: bit_unset_bit_iff bit_mask_iff)
    moreover have "unset_bit 2 (mask 16) = (0xfffb :: u32)" by (simp add: mask_eq_exp_minus_1 unset_bit_eq_and_not)
    ultimately show ?thesis by metis
  qed
  then show ?thesis by (auto simp: pic_ok_def interrupt_init_def NIRQS_def NIPLS_def IPL_NONE_def update_mask_def Let_def)
qed

lemma interrupt_unmask_ok:
  assumes "pic_ok p" "vector < NIRQS" "level < NIPLS" "ipl_table p vector = IPL_NONE"
  shows "pic_ok (interrupt_unmask vector level p)"
proof -
  have "bit (mask_table p i) vector" if "i < NIPLS" "vector \<noteq> 2" for i
    using that assms by (simp add: pic_ok_def IPL_NONE_def)
  then show ?thesis using assms
    by (auto simp: pic_ok_def interrupt_unmask_def bit_unset_bit_iff)
qed

lemma interrupt_mask_ok:
  assumes "pic_ok p" "vector < NIRQS"
  shows "pic_ok (interrupt_mask vector p)"
proof -
  have "vector < 32" using assms(2) by (simp add: NIRQS_def)
  then show ?thesis using assms
    by (auto simp: pic_ok_def interrupt_mask_def Let_def bit_set_bit_iff IPL_NONE_def NIPLS_def not_less)
qed

lemma interrupt_setup_ok: "pic_ok (interrupt_setup vector m p) = pic_ok p"
  by (simp add: pic_ok_def interrupt_setup_def Let_def)

lemma interrupt_attach_ok:
  assumes "pic_ok p" "vector < NIRQS" "level < NIPLS" "ipl_table p vector = IPL_NONE"
  shows "pic_ok (interrupt_unmask vector level (interrupt_setup vector m p))"
  using assms by (intro interrupt_unmask_ok) (simp_all add: interrupt_setup_ok, simp add: interrupt_setup_def Let_def)

section \<open>Nested interrupts\<close>

text \<open>
  The interrupts being served, innermost first, each with the level that its end restores. Between
  the steps the rest of the kernel runs and attaches or detaches lines that are not being served;
  a line is taken only when the controllers let it through.
\<close>

inductive irq_nest :: "(nat \<times> nat) list \<Rightarrow> kstate \<Rightarrow> bool" where
  booted: "irq_nest [] (irq_init s)"
| enter: "irq_nest st s \<Longrightarrow> v < NIRQS \<Longrightarrow> v \<noteq> 2 \<Longrightarrow> line_open (pic s) v \<Longrightarrow>
    irq_nest ((v, irq_level (pic s)) # st) (interrupt_begin v s)"
| leave: "irq_nest ((v, old) # st) s \<Longrightarrow> irq_nest st (interrupt_end old s)"
| attach: "irq_nest st s \<Longrightarrow> v < NIRQS \<Longrightarrow> l < NIPLS \<Longrightarrow> ipl_table (pic s) v = IPL_NONE \<Longrightarrow>
    pic s' = interrupt_unmask v l (interrupt_setup v m (pic s)) \<Longrightarrow> irq_nest st s'"
| detach: "irq_nest st s \<Longrightarrow> v < NIRQS \<Longrightarrow> v \<notin> fst ` set st \<Longrightarrow> pic s' = interrupt_mask v (pic s) \<Longrightarrow> irq_nest st s'"
| other: "irq_nest st s \<Longrightarrow> pic s' = pic s \<Longrightarrow> irq_nest st s'"

fun levels_ok :: "nat \<Rightarrow> (nat \<times> nat) list \<Rightarrow> pic \<Rightarrow> bool" where
  "levels_ok l [] p = (l = IPL_NONE)"
| "levels_ok l ((v, old) # st) p = (v < NIRQS \<and> ipl_table p v = l \<and> old < l \<and> levels_ok old st p)"

lemma levels_ok_cong:
  "\<forall>v \<in> fst ` set st. ipl_table p' v = ipl_table p v \<Longrightarrow> levels_ok l st p' = levels_ok l st p"
  by (induction st arbitrary: l) auto

lemma levels_ok_served: "levels_ok l st p \<Longrightarrow> v \<in> fst ` set st \<Longrightarrow> ipl_table p v \<noteq> IPL_NONE"
  by (induction st arbitrary: l) (force simp: IPL_NONE_def)+

lemma levels_ok_length: "levels_ok l st p \<Longrightarrow> length st \<le> l"
  by (induction st arbitrary: l) (auto, fastforce)

lemma irq_nest_levels: "irq_nest st s \<Longrightarrow> pic_ok (pic s) \<and> levels_ok (irq_level (pic s)) st (pic s)"
proof (induction rule: irq_nest.induct)
  case (booted s)
  then show ?case using interrupt_init_ok by (simp add: irq_init_def upd_pic_def interrupt_init_def)
next
  case (enter st s v)
  then have o: "irq_level (pic s) < ipl_table (pic s) v" using pic_ok_open by blast
  have n: "ipl_table (pic s) v < NIPLS" using enter by (simp add: pic_ok_def)
  have "levels_ok (irq_level (pic s)) st (pic (interrupt_begin v s))"
    using enter.IH by (subst levels_ok_cong [of st _ "pic s"]) (auto simp: interrupt_begin_def upd_pic_def Let_def)
  then show ?case
    using enter o n pic_ok_level [of "pic s" "ipl_table (pic s) v"] by (simp add: interrupt_begin_def upd_pic_def Let_def)
next
  case (leave v old st s)
  have "old < NIPLS" using leave by (simp add: pic_ok_def)
  moreover have "levels_ok old st (pic (interrupt_end old s))"
    using leave.IH by (subst levels_ok_cong [of st _ "pic s"]) (auto simp: interrupt_end_def upd_pic_def)
  ultimately show ?case using leave.IH pic_ok_level [of "pic s" old] by (simp add: interrupt_end_def upd_pic_def)
next
  case (attach st s v l s' m)
  have "v \<notin> fst ` set st" using levels_ok_served attach by blast
  then have "levels_ok (irq_level (pic s)) st (pic s')"
    using attach by (subst levels_ok_cong [of st _ "pic s"]) (auto simp: interrupt_unmask_def interrupt_setup_def Let_def)
  then show ?case using attach interrupt_attach_ok [of "pic s" v l m]
    by (simp add: interrupt_unmask_def interrupt_setup_def Let_def)
next
  case (detach st s v s')
  have "levels_ok (irq_level (pic s)) st (pic s')"
    using detach by (subst levels_ok_cong [of st _ "pic s"]) (auto simp: interrupt_mask_def Let_def)
  then show ?case using detach interrupt_mask_ok [of "pic s" v] by (simp add: interrupt_mask_def Let_def)
next
  case (other st s s')
  then show ?case by simp
qed

section \<open>Requests to a service thread\<close>

text \<open>
  The runs of the service thread \<open>th\<close> of the descriptor \<open>q\<close>: where it is in its loop, the requests made so
  far, the calls of the service routine so far. It leaves its sleep when it is no longer queued on the event of
  the descriptor. Everything else the kernel does leaves the descriptor and that queue alone.
\<close>

datatype ist_phase = IstTop | IstAsleep | IstReady

inductive ist_run :: "nat \<Rightarrow> tid \<Rightarrow> ist_phase \<Rightarrow> nat \<Rightarrow> nat \<Rightarrow> kstate \<Rightarrow> bool" for q th where
  attached: "iq_istreq (irqs s q) = 0 \<Longrightarrow> sleepq s (IstEvent q) = [] \<Longrightarrow> ist_run q th IstTop 0 0 s"
| request: "ist_run q th ph n r s \<Longrightarrow> irq_table s v = Some q \<Longrightarrow> isr (iq_isr (irqs s q)) v s = (INT_CONTINUE, s1) \<Longrightarrow>
    irqs s1 q = irqs s q \<Longrightarrow> ist_run q th ph (n + 1) r (irq_handler isr v s)"
| test: "ist_run q th IstTop n r s \<Longrightarrow> cur_thread s = th \<Longrightarrow> irq_thread_wait q s = (res, s') \<Longrightarrow>
    ist_run q th (if res = Sleeping then IstAsleep else IstReady) n r s'"
| woken: "ist_run q th IstAsleep n r s \<Longrightarrow> th \<notin> set (sleepq s (IstEvent q)) \<Longrightarrow> ist_run q th IstReady n r s"
| serve: "ist_run q th IstReady n r s \<Longrightarrow> irq_thread_next q s = (call, s') \<Longrightarrow> ist_run q th IstTop n (r + 1) s'"
| other: "ist_run q th ph n r s \<Longrightarrow> irqs s' q = irqs s q \<Longrightarrow> sleepq s' (IstEvent q) = sleepq s (IstEvent q) \<Longrightarrow> ist_run q th ph n r s'"

lemma sched_wakeup_sleepq: "sleepq (sched_wakeup e s) = (sleepq s)(e := [])"
  by (auto simp: sched_wakeup_def Let_def wakeup_from_effect kproj)

lemma sched_tsleep_queued: "cur_thread s \<in> set (sleepq (sched_tsleep e 0 s) e)"
  by (simp add: sched_tsleep_def Let_def sched_switch_threads)

lemma irq_handler_request:
  assumes "irq_table s v = Some q" "isr (iq_isr (irqs s q)) v s = (INT_CONTINUE, s1)" "irqs s1 q = irqs s q"
  shows "irqs (irq_handler isr v s) q = (irqs s q)\<lparr>iq_istreq := iq_istreq (irqs s q) + 1\<rparr>"
    "sleepq (irq_handler isr v s) (IstEvent q) = []"
  using assms by (simp_all add: irq_handler_def sched_wakeup_sleepq kproj)

lemma ist_run_inv:
  "ist_run q th ph n r s \<Longrightarrow> int n = int r + iq_istreq (irqs s q) \<and> 0 \<le> iq_istreq (irqs s q) \<and>
     (ph = IstReady \<longrightarrow> 0 < iq_istreq (irqs s q)) \<and>
     (ph = IstAsleep \<longrightarrow> (0 < iq_istreq (irqs s q) \<longleftrightarrow> th \<notin> set (sleepq s (IstEvent q))))"
proof (induction rule: ist_run.induct)
  case (request ph n r s v isr s1)
  then show ?case using irq_handler_request [of s v q isr s1] by auto
next
  case (test n r s res s')
  show ?case
  proof (cases "iq_istreq (irqs s q) \<le> 0")
    case True
    then have "res = Sleeping" "s' = sched_tsleep (IstEvent q) 0 (s\<lparr>interrupts := False\<rparr>)"
      using test.hyps(3) by (auto simp: irq_thread_wait_def Let_def)
    then show ?thesis
      using test True sched_tsleep_queued [of "s\<lparr>interrupts := False\<rparr>" "IstEvent q"] by (auto simp: kproj)
  next
    case False
    then show ?thesis using test by (auto simp: irq_thread_wait_def Let_def)
  qed
next
  case (serve n r s call s')
  then show ?case by (auto simp: irq_thread_next_def)
qed auto

section \<open>Properties\<close>

text \<open>
  C8: While interrupts are served, the controllers let through exactly the lines whose level is above
  the level of the interrupt being served. So the levels of nested interrupts strictly increase, and
  no more than 11 interrupts are ever nested on the interrupt stack.
\<close>

theorem irq_nesting_bounded:
  assumes "irq_nest st s"
  shows "length st \<le> IPL_HIGH \<and> levels_ok (irq_level (pic s)) st (pic s) \<and>
    (\<forall>v < NIRQS. v \<noteq> 2 \<longrightarrow> line_open (pic s) v = (irq_level (pic s) < ipl_table (pic s) v))"
proof -
  have p: "pic_ok (pic s)" "levels_ok (irq_level (pic s)) st (pic s)" using irq_nest_levels [OF assms] by auto
  then have "length st \<le> IPL_HIGH" using levels_ok_length [OF p(2)] by (simp add: pic_ok_def NIPLS_def IPL_HIGH_def)
  then show ?thesis using p pic_ok_open by simp
qed

theorem irq_nesting_bounded_witness:
  "\<exists>s. irq_nest [(4, 0)] s \<and> irq_level (pic s) = 1 \<and> \<not> line_open (pic s) 4"
proof -
  define s where "s = upd_pic (\<lambda>p. interrupt_unmask 4 1 (interrupt_setup 4 False p)) (irq_init demo_state)"
  have n: "irq_nest [] s"
    by (rule irq_nest.attach [OF irq_nest.booted [of demo_state], of 4 1 s False])
      (simp_all add: s_def upd_pic_def NIRQS_def NIPLS_def irq_init_def interrupt_init_def)
  have l: "irq_level (pic s) = 0" "ipl_table (pic s) 4 = 1"
    by (simp_all add: s_def upd_pic_def irq_init_def interrupt_init_def interrupt_unmask_def interrupt_setup_def Let_def IPL_NONE_def)
  have "line_open (pic s) 4" using irq_nesting_bounded [OF n] l by (simp add: NIRQS_def)
  then have e: "irq_nest [(4, 0)] (interrupt_begin 4 s)" using irq_nest.enter [OF n, of 4] l by (simp add: NIRQS_def)
  moreover have "irq_level (pic (interrupt_begin 4 s)) = 1" "ipl_table (pic (interrupt_begin 4 s)) 4 = 1"
    using l by (simp_all add: interrupt_begin_def upd_pic_def Let_def)
  ultimately show ?thesis using irq_nesting_bounded [OF e] by (intro exI [of _ "interrupt_begin 4 s"]) (simp add: NIRQS_def)
qed

text \<open>
  C22: No request to an interrupt service thread is lost and none is served twice: the requests made by the
  interrupt handler are the calls made so far and the requests still counted. The thread never sleeps
  on its event while a request is counted, and it calls the service routine only when there is one.
\<close>

theorem ist_no_lost_request:
  assumes "ist_run q th ph n r s"
  shows "int n = int r + iq_istreq (irqs s q) \<and> r \<le> n \<and> (ph = IstReady \<longrightarrow> r < n) \<and>
    (ph = IstAsleep \<and> r < n \<longrightarrow> th \<notin> set (sleepq s (IstEvent q)))"
  using ist_run_inv [OF assms] by auto

theorem ist_no_lost_request_witness:
  "\<exists>s. ist_run 0x80007000 0x80002000 IstTop 1 0 s \<and> iq_istreq (irqs s 0x80007000) = 1"
proof -
  let ?s = "demo_state\<lparr>irq_table := (\<lambda>_. None)(4 := Some 0x80007000)\<rparr>"
  let ?isr = "\<lambda>f v s. (INT_CONTINUE, s :: kstate)"
  have "ist_run 0x80007000 0x80002000 IstTop 0 0 ?s"
    by (rule ist_run.attached) (simp_all add: demo_state_def zero_state_def)
  then have "ist_run 0x80007000 0x80002000 IstTop (0 + 1) 0 (irq_handler ?isr 4 ?s)"
    by (rule ist_run.request [where ?s1.0 = ?s]) simp_all
  from ist_no_lost_request [OF this] this show ?thesis by auto
qed

end
