(* ===== verification/Deliver.thy ===== *)
theory Deliver
  imports Task Irq
begin

text \<open>
  The way back to user mode: delivery of exceptions (\<^verbatim>\<open>exception_deliver\<close> of \<^verbatim>\<open>sys/kern/exception.c\<close>), processor
  traps (\<^verbatim>\<open>sys/arch/i386/i386/trap.c\<close>), and the end of the outermost interrupt in \<^verbatim>\<open>locore.S\<close>.
\<close>

section \<open>The operations\<close>

text \<open>\<open>Panic\<close>: the stack of the thread cannot take the saved registers.\<close>

definition exception_deliver :: "(nat \<Rightarrow> devio) \<Rightarrow> kstate \<Rightarrow> sysres \<times> kstate" where
  "exception_deliver io s0 =
     (let th = cur_thread s0;
          self = cur_task_ptr s0;
          s1 = irq_unlock (irq_lock (sched_lock s0));
          bitmap = excbits (threads s1 th)
      in if bitmap = 0 then (Done 0, sched_unlock s1)
         else let exc = exc_first bitmap
              in (case handler (tasks s1 self) of
                    None \<Rightarrow> (Done 0, sched_unlock (snd (task_terminate io self s1)))
                  | Some h \<Rightarrow>
                      (case context_save th s1 of
                         None \<Rightarrow> (Panic, s1)
                       | Some s2 \<Rightarrow>
                           let s3 = context_set th (CTX_UARG exc) (context_set th (CTX_UENTRY h) s2);
                               s4 = irq_unlock (upd_thread th (excbits_update (unset_bit exc)) (irq_lock s3))
                           in (Done 0, sched_unlock s4))))"

definition SIGILL :: nat where "SIGILL = 4"
definition SIGTRAP :: nat where "SIGTRAP = 5"
definition SIGFPE :: nat where "SIGFPE = 8"
definition SIGSEGV :: nat where "SIGSEGV = 11"

definition exception_map :: "nat list" where
  "exception_map = [SIGFPE, SIGTRAP, SIGILL, SIGTRAP, SIGFPE, SIGILL, SIGILL, SIGFPE, SIGILL, SIGFPE, SIGSEGV, SIGSEGV,
     SIGSEGV, SIGILL, SIGSEGV, SIGILL, SIGFPE, SIGILL, SIGILL]"

text \<open>
  A page fault of the kernel at one of the three instructions that access user memory makes the routine
  return \<^verbatim>\<open>EFAULT\<close>; the routines of \<open>Umem\<close> have that result already. \<open>known\<close> says that the fault is at one of them.
\<close>

definition trap_handler :: "(nat \<Rightarrow> devio) \<Rightarrow> nat \<Rightarrow> u32 \<Rightarrow> bool \<Rightarrow> kstate \<Rightarrow> sysres \<times> kstate" where
  "trap_handler io trap_no cs known s =
     (if 18 < trap_no \<or> trap_no = 2 then (Panic, s)
      else if trap_no = 14 \<and> cs = KERNEL_CS \<and> known then (Done 0, s)
      else if cs = KERNEL_CS then (Panic, s)
      else exception_deliver io (exception_mark (exception_map ! trap_no) s))"

text \<open>After the outermost interrupt: exceptions are delivered when it came from user mode.\<close>

definition interrupt_return :: "(nat \<Rightarrow> devio) \<Rightarrow> bool \<Rightarrow> kstate \<Rightarrow> sysres \<times> kstate" where
  "interrupt_return io user s = (if user then exception_deliver io s else (Done 0, s))"

section \<open>Delivery and return\<close>

lemma u_access_mmu:
  "mmu_st (vm s') = mmu_st (vm s) \<Longrightarrow> u_write s' = u_write s \<and> u_read s' = u_read s"
  by (simp add: u_write_def u_read_def cur_pgd_def fun_eq_iff)

lemma u_write_read: "u_write s a = Some x \<Longrightarrow> u_read s a = Some x"
  by (simp add: u_write_def split: if_splits)

lemma irq_pair_proj [simp]:
  "threads (irq_lock s) = threads s" "cur_thread (irq_lock s) = cur_thread s" "vm (irq_lock s) = vm s"
  "threads (irq_unlock s) = threads s" "cur_thread (irq_unlock s) = cur_thread s" "vm (irq_unlock s) = vm s"
  "tasks (irq_lock s) = tasks s" "tasks (irq_unlock s) = tasks s"
  "wakeq (irq_lock s) = wakeq s" "wakeq (irq_unlock s) = wakeq s"
  by (simp_all add: irq_lock_def irq_unlock_def Let_def)

text \<open>
  The memory below the stack pointer that delivery uses: the frame at \<open>e - 64\<close> and, 512 bytes lower, the
  handler's argument. \<open>p\<close> gives the physical addresses.
\<close>

definition deliver_area :: "nat \<Rightarrow> (nat \<Rightarrow> nat) \<Rightarrow> kstate \<Rightarrow> bool" where
  "deliver_area e p s = (576 \<le> e \<and> e < UMEM_MAX \<and> (\<forall>i < 576. u_write s (e - 576 + i) = Some (p i)) \<and> inj_on p {..<576})"

lemma deliver_area_mmu: "mmu_st (vm s') = mmu_st (vm s) \<Longrightarrow> deliver_area e p s' = deliver_area e p s"
  using u_access_mmu [of s' s] by (simp add: deliver_area_def)

lemma deliver_area_part:
  assumes "deliver_area e p s" "k + n \<le> 576"
  shows "\<forall>i < n. u_write s (e - (576 - k) + i) = Some (p (k + i))" "inj_on (\<lambda>i. p (k + i)) {..<n}"
proof -
  have e: "576 \<le> e" and w: "\<forall>i < 576. u_write s (e - 576 + i) = Some (p i)"
    using assms(1) unfolding deliver_area_def by blast+
  show "\<forall>i < n. u_write s (e - (576 - k) + i) = Some (p (k + i))"
  proof (intro allI impI)
    fix i assume "i < n"
    then have "e - (576 - k) + i = e - 576 + (k + i)" "k + i < 576" using e assms(2) by simp_all
    then show "u_write s (e - (576 - k) + i) = Some (p (k + i))" using w by metis
  qed
  have "inj_on p {..<576}" using assms(1) by (simp add: deliver_area_def)
  from inj_onD [OF this] show "inj_on (\<lambda>i. p (k + i)) {..<n}"
    using assms(2) by (intro inj_onI) fastforce
qed

lemma context_save_spec:
  assumes "deliver_area e p s" "uframe (ctx (threads s th)) = u" "unat (u_esp u) = e"
  obtains m where "context_save th s = Some (upd_ctx th (\<lambda>c. c\<lparr>saved_regs := e - 64,
      uframe := (uframe c)\<lparr>u_esp := word_of_nat (e - 576)\<rparr>\<rparr>) (s\<lparr>vm := (vm s)\<lparr>pmem := m\<rparr>\<rparr>))"
    and "\<And>i. i < 64 \<Longrightarrow> m (p (512 + i)) = regs_bytes u ! i"
    and "\<And>x. x \<notin> p ` {..<576} \<Longrightarrow> m x = pmem (vm s) x"
proof -
  have e: "576 \<le> e" "e < 0x80000000" using assms(1) by (simp_all add: deliver_area_def UMEM_MAX_def)
  have sub: "sub32 e 64 = e - 64" "sub32 (e - 64) 512 = e - 576"
    using e by (simp_all add: sub32_def mod_if)
  have w: "\<forall>i < length (regs_bytes u). u_write s (e - 64 + i) = Some (p (512 + i))"
    and j: "inj_on (\<lambda>i. p (512 + i)) {..<length (regs_bytes u)}"
    using deliver_area_part [OF assms(1), of 512 64] by (simp_all add: REGS_SIZE_def)
  obtain m where m: "uwrite (regs_bytes u) (e - 64) s = (True, s\<lparr>vm := (vm s)\<lparr>pmem := m\<rparr>\<rparr>)"
    "\<And>i. i < length (regs_bytes u) \<Longrightarrow> m (p (512 + i)) = regs_bytes u ! i"
    "\<And>x. x \<notin> (\<lambda>i. p (512 + i)) ` {..<length (regs_bytes u)} \<Longrightarrow> m x = pmem (vm s) x"
    using uwrite_spec [OF w j] by blast
  have "context_save th s = Some (upd_ctx th (\<lambda>c. c\<lparr>saved_regs := e - 64,
      uframe := (uframe c)\<lparr>u_esp := word_of_nat (e - 576)\<rparr>\<rparr>) (s\<lparr>vm := (vm s)\<lparr>pmem := m\<rparr>\<rparr>))"
    using assms(2,3) m(1) sub by (simp add: context_save_def Let_def REGS_SIZE_def)
  moreover have "x \<notin> (\<lambda>i. p (512 + i)) ` {..<length (regs_bytes u)}" if "x \<notin> p ` {..<576}" for x
    using that by (auto simp: REGS_SIZE_def)
  ultimately show ?thesis using m(2,3) that by (simp add: REGS_SIZE_def)
qed

text \<open>The argument of the handler, 4 bytes above the new stack pointer.\<close>

lemma context_set_uarg:
  assumes "deliver_area e p s" "u_esp (uframe (ctx (threads s th))) = word_of_nat (e - 576)"
  obtains m where "context_set th (CTX_UARG v) s = s\<lparr>vm := (vm s)\<lparr>pmem := m\<rparr>\<rparr>"
    and "\<And>i. i < 4 \<Longrightarrow> m (p (4 + i)) = le32 v ! i"
    and "\<And>x. x \<notin> p ` {4..<8} \<Longrightarrow> m x = pmem (vm s) x"
proof -
  have e: "576 \<le> e" "e < 0x80000000" using assms(1) by (simp_all add: deliver_area_def UMEM_MAX_def)
  have a: "(unat (u_esp (uframe (ctx (threads s th)))) + 4) mod 2 ^ 32 = e - 572"
    unfolding assms(2) unat_of_nat using e by (simp add: mod_if)
  have w: "\<forall>i < length (le32 v). u_write s (e - 572 + i) = Some (p (4 + i))"
    and j: "inj_on (\<lambda>i. p (4 + i)) {..<length (le32 v)}"
    using deliver_area_part [OF assms(1), of 4 4] by simp_all
  obtain m where m: "uwrite (le32 v) (e - 572) s = (True, s\<lparr>vm := (vm s)\<lparr>pmem := m\<rparr>\<rparr>)"
    "\<And>i. i < length (le32 v) \<Longrightarrow> m (p (4 + i)) = le32 v ! i"
    "\<And>x. x \<notin> (\<lambda>i. p (4 + i)) ` {..<length (le32 v)} \<Longrightarrow> m x = pmem (vm s) x"
    using uwrite_spec [OF w j] by blast
  have "context_set th (CTX_UARG v) s = s\<lparr>vm := (vm s)\<lparr>pmem := m\<rparr>\<rparr>"
    using a m(1) e by (simp add: umem_copyout_def UMEM_MAX_def)
  moreover have "x \<notin> (\<lambda>i. p (4 + i)) ` {..<length (le32 v)}" if "x \<notin> p ` {4..<8}" for x using that by auto
  ultimately show ?thesis using m(2,3) that by simp
qed

text \<open>
  What delivery does, by the steps of the code: the frame saved, the entry point and the argument of the
  handler set, the exception no longer pending. \<open>s1\<close> is the state with the lock taken.
\<close>

definition delivered :: "nat \<Rightarrow> nat \<Rightarrow> cpu_context \<Rightarrow> cpu_context" where
  "delivered h e c = c\<lparr>saved_regs := e - 64, uframe := uentry_frame h ((uframe c)\<lparr>u_esp := word_of_nat (e - 576)\<rparr>)\<rparr>"

lemma deliver_frame:
  assumes "deliver_area e p s" "uframe (ctx (threads s th)) = u" "unat (u_esp u) = e"
  obtains s2 m where "context_save th s = Some s2"
    and "context_set th (CTX_UARG v) (context_set th (CTX_UENTRY h) s2) =
      (upd_ctx th (delivered h e) s)\<lparr>vm := (vm s)\<lparr>pmem := m\<rparr>\<rparr>"
    and "\<And>i. i < 64 \<Longrightarrow> m (p (512 + i)) = regs_bytes u ! i" and "\<And>i. i < 4 \<Longrightarrow> m (p (4 + i)) = le32 v ! i"
    and "\<And>x. x \<notin> p ` {..<576} \<Longrightarrow> m x = pmem (vm s) x"
proof -
  define s2 where "s2 m = upd_ctx th (\<lambda>c. c\<lparr>saved_regs := e - 64,
      uframe := (uframe c)\<lparr>u_esp := word_of_nat (e - 576)\<rparr>\<rparr>) (s\<lparr>vm := (vm s)\<lparr>pmem := m\<rparr>\<rparr>)" for m
  obtain m1 where m1: "context_save th s = Some (s2 m1)"
    "\<And>i. i < 64 \<Longrightarrow> m1 (p (512 + i)) = regs_bytes u ! i" "\<And>x. x \<notin> p ` {..<576} \<Longrightarrow> m1 x = pmem (vm s) x"
    using context_save_spec [OF assms] by (auto simp: s2_def)
  define s3 where "s3 = context_set th (CTX_UENTRY h) (s2 m1)"
  have s3: "s3 = (upd_ctx th (delivered h e) s)\<lparr>vm := (vm s)\<lparr>pmem := m1\<rparr>\<rparr>"
    by (cases s) (simp add: s3_def s2_def upd_ctx_def upd_thread_def delivered_def [abs_def] comp_def)
  have a3: "deliver_area e p s3" using assms(1) deliver_area_mmu [of s3 s] by (simp add: s3)
  have e3: "u_esp (uframe (ctx (threads s3 th))) = word_of_nat (e - 576)"
    by (simp add: s3 upd_ctx_def upd_thread_def delivered_def uentry_frame_def)
  obtain m where m: "context_set th (CTX_UARG v) s3 = s3\<lparr>vm := (vm s3)\<lparr>pmem := m\<rparr>\<rparr>"
    "\<And>i. i < 4 \<Longrightarrow> m (p (4 + i)) = le32 v ! i" "\<And>x. x \<notin> p ` {4..<8} \<Longrightarrow> m x = pmem (vm s3) x"
    using context_set_uarg [OF a3 e3] by blast
  show ?thesis
  proof (rule that [OF m1(1), of m])
    show "context_set th (CTX_UARG v) (context_set th (CTX_UENTRY h) (s2 m1)) =
        (upd_ctx th (delivered h e) s)\<lparr>vm := (vm s)\<lparr>pmem := m\<rparr>\<rparr>"
      unfolding s3_def [symmetric] m(1) by (simp add: s3)
    show "m (p (4 + i)) = le32 v ! i" if "i < 4" for i using m(2) that .
    show "m (p (512 + i)) = regs_bytes u ! i" if "i < 64" for i
    proof -
      have "inj_on p {..<576}" using assms(1) by (simp add: deliver_area_def)
      then have "p (512 + i) \<notin> p ` {4..<8}" using that by (auto dest!: inj_onD)
      then show ?thesis using m(3) m1(2) [OF that] by (simp add: s3)
    qed
    show "m x = pmem (vm s) x" if "x \<notin> p ` {..<576}" for x
    proof -
      have "x \<notin> p ` {4..<8}" using that by auto
      then show ?thesis using m(3) m1(3) [OF that] by (simp add: s3)
    qed
  qed
qed

lemma exception_deliver_run:
  assumes "quiet s" and "excbits (cur s) \<noteq> 0" and "handler (tasks s (cur_task_ptr s)) = Some h"
    and "u = uframe (ctx (cur s))" "e = unat (u_esp u)" and "deliver_area e p s"
    and "exc = exc_first (excbits (cur s))"
  obtains s' m where "exception_deliver io s = (Done 0, s')" and "cur_thread s' = cur_thread s"
    and "ctx (cur s') = delivered h e (ctx (cur s))" "excbits (cur s') = unset_bit exc (excbits (cur s))"
    and "vm s' = (vm s)\<lparr>pmem := m\<rparr>" and "\<And>i. i < 64 \<Longrightarrow> m (p (512 + i)) = regs_bytes u ! i"
    and "\<And>i. i < 4 \<Longrightarrow> m (p (4 + i)) = le32 exc ! i" and "\<And>x. x \<notin> p ` {..<576} \<Longrightarrow> m x = pmem (vm s) x"
proof -
  let ?th = "cur_thread s"
  define s1 where "s1 = irq_unlock (irq_lock (sched_lock s))"
  have s1: "threads s1 = (threads s)(?th := locks_update (\<lambda>n. n + 1) (cur s))" "cur_thread s1 = ?th" "tasks s1 = tasks s"
    "vm s1 = vm s" "wakeq s1 = wakeq s"
    by (simp_all add: s1_def sched_lock_def upd_thread_def)
  have a1: "deliver_area e p s1" using assms(6) deliver_area_mmu [of s1 s] s1(4) by simp
  have u1: "uframe (ctx (threads s1 ?th)) = u" "unat (u_esp u) = e" using s1(1) assms(4,5) by simp_all
  obtain s2 m where m: "context_save ?th s1 = Some s2"
    "context_set ?th (CTX_UARG exc) (context_set ?th (CTX_UENTRY h) s2) =
      (upd_ctx ?th (delivered h e) s1)\<lparr>vm := (vm s1)\<lparr>pmem := m\<rparr>\<rparr>" (is "_ = ?s3")
    "\<And>i. i < 64 \<Longrightarrow> m (p (512 + i)) = regs_bytes u ! i" "\<And>i. i < 4 \<Longrightarrow> m (p (4 + i)) = le32 exc ! i"
    "\<And>x. x \<notin> p ` {..<576} \<Longrightarrow> m x = pmem (vm s1) x"
    using deliver_frame [OF a1 u1] by blast
  define s4 where "s4 = irq_unlock (upd_thread ?th (excbits_update (unset_bit exc)) (irq_lock ?s3))"
  have s4: "threads s4 = (threads s)(?th := excbits_update (unset_bit exc)
      (ctx_update (delivered h e) (locks_update (\<lambda>n. n + 1) (cur s))))" "cur_thread s4 = ?th"
    "vm s4 = (vm s)\<lparr>pmem := m\<rparr>" "wakeq s4 = wakeq s"
    using s1 by (simp_all add: s4_def upd_thread_def upd_ctx_def)
  have d: "exception_deliver io s = (Done 0, sched_unlock s4)"
    using assms(2,3) m(1,2) s1 unfolding exception_deliver_def s1_def [symmetric]
    by (simp add: Let_def assms(7) [symmetric] s4_def del: context_set.simps)
  have u: "sched_unlock s4 = upd_cur (locks_update (\<lambda>n. n - 1)) s4"
    by (rule quiet_section [OF assms(1)]) (use s4 assms(1) in \<open>simp_all add: quiet_def\<close>)
  show ?thesis
    by (rule that [OF d, of m]) (use u s4 s1(4) m(3-5) in \<open>simp_all add: upd_thread_def\<close>)
qed


text \<open>The current thread has a pending exception and a stack that ends with its page.\<close>

definition demo_fault :: kstate where
  "demo_fault = upd_task 0x80000200 (handler_update (\<lambda>_. Some 0x1000))
     (upd_thread 0x80002000 (\<lambda>t. t\<lparr>excbits := 0x100, ctx := (ctx t)\<lparr>uframe := (uframe (ctx t))\<lparr>u_esp := 0x2000\<rparr>\<rparr>\<rparr>) demo_state)"


end
