(* ===== verification/System.thy ===== *)
theory System
  imports Deliver
begin

text \<open>
  System information (\<^verbatim>\<open>sys/kern/system.c\<close>, built without \<^verbatim>\<open>DEBUG\<close>) and the start of the kernel
  (\<^verbatim>\<open>sys/kern/main.c\<close>).
\<close>

section \<open>System calls\<close>

definition ENOSYS :: errno where "ENOSYS = 68"

definition sys_log :: "vaddr \<Rightarrow> kstate \<Rightarrow> sysres \<times> kstate" where
  "sys_log str s = (Done ENOSYS, s)"

definition sys_panic :: "(nat \<Rightarrow> devio) \<Rightarrow> vaddr \<Rightarrow> kstate \<Rightarrow> sysres \<times> kstate" where
  "sys_panic io str s = (Done 0, snd (task_terminate io (cur_task_ptr s) s))"

definition sys_debug :: "nat \<Rightarrow> nat \<Rightarrow> kstate \<Rightarrow> sysres \<times> kstate" where
  "sys_debug cmd arg s = (Done (- ENOSYS), s)"

definition sys_time :: "vaddr \<Rightarrow> kstate \<Rightarrow> errno \<times> kstate" where
  "sys_time ticks s = copyout_word (unat (timer_count s)) ticks s"

definition INFO_KERNEL :: nat where "INFO_KERNEL = 1"
definition INFO_MEMORY :: nat where "INFO_MEMORY = 2"
definition INFO_THREAD :: nat where "INFO_THREAD = 3"
definition INFO_DEVICE :: nat where "INFO_DEVICE = 4"
definition INFO_TIMER :: nat where "INFO_TIMER = 5"

text \<open>The structures of \<^verbatim>\<open>sys/sysinfo.h\<close> in memory.\<close>

definition word_nat :: "nat list \<Rightarrow> nat \<Rightarrow> nat" where
  "word_nat bs i = of_le32 (take 4 (drop (4 * i) bs))"

definition get_info_thread :: "nat list \<Rightarrow> info_thread" where
  "get_info_thread bs = \<lparr>it_cookie = word_nat bs 0, it_policy = sint (word_of_nat (word_nat bs 1) :: u32),
     it_prio = word_nat bs 2, it_time = word_of_nat (word_nat bs 3), it_task = word_nat bs 4,
     it_th_name = take MAXTHNAME (drop 20 bs), it_taskname = take MAXTASKNAME (drop 32 bs), it_slpevt = take MAXEVTNAME (drop 44 bs)\<rparr>"

definition put_info_thread :: "info_thread \<Rightarrow> nat list" where
  "put_info_thread i = le32 (it_cookie i) @ le32 (unat (word_of_int (it_policy i) :: u32)) @ le32 (it_prio i) @
     le32 (unat (it_time i)) @ le32 (it_task i) @ it_th_name i @ it_taskname i @ it_slpevt i"

definition get_info_device :: "nat list \<Rightarrow> info_device" where
  "get_info_device bs = \<lparr>id_cookie = word_nat bs 0, id_id = word_nat bs 1, id_flags = word_nat bs 2,
     id_name = take MAXDEVNAME (drop 12 bs)\<rparr>"

definition put_info_device :: "info_device \<Rightarrow> nat list" where
  "put_info_device i = le32 (id_cookie i) @ le32 (id_id i) @ le32 (id_flags i) @ id_name i"

definition memory_bytes :: "page_pool \<Rightarrow> page_pool \<Rightarrow> nat list" where
  "memory_bytes pp kp =
     (case page_info pp of
        (tot, free, disk) \<Rightarrow>
          (case kpage_info kp of (kt, kf) \<Rightarrow> le32 tot @ le32 free @ le32 kt @ le32 kf @ le32 disk))"

text \<open>\<open>infokern\<close> are the bytes of the constant that describes the build, \<open>kp\<close> the kernel page pool.\<close>

definition sys_info :: "nat list \<Rightarrow> page_pool \<Rightarrow> nat \<Rightarrow> vaddr \<Rightarrow> kstate \<Rightarrow> sysres \<times> kstate" where
  "sys_info infokern kp type buf s0 =
     (if buf = 0 \<or> \<not> user_area buf then (Done EFAULT, s0)
      else let s1 = sched_lock s0;
               out = (\<lambda>bs x. case umem_copyout bs buf x of (e, x') \<Rightarrow> (Done e, sched_unlock x'))
           in if type = INFO_KERNEL then out infokern s1
              else if type = INFO_MEMORY then out (memory_bytes (mmu_pool (mmu_st (vm s1))) kp) s1
              else if type = INFO_THREAD then
                (case umem_copyin buf 56 s1 of
                   (e, bs) \<Rightarrow>
                     if e \<noteq> 0 then (Done EFAULT, sched_unlock s1)
                     else (case thread_info (get_info_thread bs) s1 of
                             (Done err, i, s2) \<Rightarrow>
                               if err \<noteq> 0 then (Done err, sched_unlock s2)
                               else out (put_info_thread (i\<lparr>it_cookie := (it_cookie i + 1) mod 2 ^ 32\<rparr>)) s2
                           | (r, i, s2) \<Rightarrow> (r, s2)))
              else if type = INFO_DEVICE then
                (case umem_copyin buf 24 s1 of
                   (e, bs) \<Rightarrow>
                     if e \<noteq> 0 then (Done EFAULT, sched_unlock s1)
                     else (case device_info (get_info_device bs) s1 of
                             (err, i, s2) \<Rightarrow>
                               if err \<noteq> 0 then (Done err, sched_unlock s2)
                               else out (put_info_device (i\<lparr>id_cookie := (id_cookie i + 1) mod 2 ^ 32\<rparr>)) s2))
              else if type = INFO_TIMER then out (le32 timer_info) s1
              else (Done EINVAL, sched_unlock s1))"

section \<open>The start of the kernel\<close>

text \<open>
  \<^verbatim>\<open>main\<close> from the point where the page pools are filled and the processor is set up; \<open>drvs\<close> and \<open>entry\<close> are the
  drivers, \<open>mods\<close> the boot modules. \<open>None\<close>: the kernel panics.
\<close>

definition kernel_main :: "(nat \<times> (kstate \<Rightarrow> kstate) option) list \<Rightarrow> (kstate \<Rightarrow> kstate) option \<Rightarrow>
    (nat list \<times> module) list \<Rightarrow> kstate \<Rightarrow> kstate option" where
  "kernel_main drvs entry mods s0 =
     (let s1 = sched_lock s0
      in case vm_init (vm s1) of
           None \<Rightarrow> None
         | Some v \<Rightarrow>
             (case sched_init (thread_init (task_init (s1\<lparr>vm := v\<rparr>))) of
                None \<Rightarrow> None
              | Some s2 \<Rightarrow>
                  (case timer_init (exception_init s2) of
                     None \<Rightarrow> None
                   | Some s3 \<Rightarrow>
                       let s4 = irq_init (msg_init (object_init s3));
                           s5 = device_init drvs entry (snd (clock_init s4))
                       in (case task_bootstrap mods s5 of
                             None \<Rightarrow> None
                           | Some s6 \<Rightarrow> Some (thread_idle (sched_unlock s6))))))"

end
