(* ===== verification/Device_Refs.thy ===== *)
theory Device_Refs
  imports Device
begin

text \<open>
  Reference counting of devices. The count of a device object is the number of references its driver
  holds (\<^verbatim>\<open>device_create\<close>, \<^verbatim>\<open>device_hold\<close>) and of open handles; an open handle always names a device object
  that exists, and an object without references is gone. A driver may do what it likes with
  the rest of the kernel, but it changes device objects and handles by the calls of \<^verbatim>\<open>sys/kern/device.c\<close> only.
\<close>

section \<open>The invariant\<close>

text \<open>The part of the state that counts: the objects, their list, the handles of the tasks, and the free blocks.\<close>

record dview =
  v_dev :: "nat \<Rightarrow> device"
  v_list :: "nat list"
  v_files :: "task_t \<Rightarrow> nat \<Rightarrow> dev_file"
  v_pool :: "nat list"

definition dev_view :: "kstate \<Rightarrow> dview" where
  "dev_view s = \<lparr>v_dev = devices s, v_list = device_list s, v_files = \<lambda>t. files (tasks s t), v_pool = vpool (vm s)\<rparr>"

definition handles :: "dview \<Rightarrow> nat \<Rightarrow> file_t set" where
  "handles v d = {f. f_dev (v_files v (fst f) (snd f)) = Some d}"

definition listed :: "dview \<Rightarrow> nat \<Rightarrow> bool" where
  "listed v d = (kern_area d \<and> dv_magic (v_dev v d) = DEVICE_MAGIC)"

definition pool_ok :: "dview \<Rightarrow> bool" where
  "pool_ok v = (distinct (v_pool v) \<and> (\<forall>a \<in> set (v_pool v). kern_area a) \<and> set (v_pool v) \<inter> set (v_list v) = {})"

text \<open>\<open>R d\<close> is the number of references to \<open>d\<close> that its driver holds.\<close>

definition counted :: "(nat \<Rightarrow> int) \<Rightarrow> dview \<Rightarrow> bool" where
  "counted R v =
     ((\<forall>d. listed v d = (d \<in> set (v_list v))) \<and> distinct (v_list v) \<and>
      (\<forall>d \<in> set (v_list v). dv_refcnt (v_dev v d) = R d + int (card (handles v d)) \<and> 0 < dv_refcnt (v_dev v d)) \<and>
      (\<forall>d. 0 \<le> R d) \<and> (\<forall>d. d \<notin> set (v_list v) \<longrightarrow> R d = 0) \<and>
      (\<forall>t i d. f_dev (v_files v t i) = Some d \<longrightarrow> d \<in> set (v_list v) \<and> i < DEV_OPEN_MAX) \<and>
      finite {f. f_dev (v_files v (fst f) (snd f)) \<noteq> None} \<and> pool_ok v)"

definition dev_ok :: "(nat \<Rightarrow> int) \<Rightarrow> kstate \<Rightarrow> bool" where
  "dev_ok R s = counted R (dev_view s)"

section \<open>Operations on the view\<close>

definition v_hold :: "nat \<Rightarrow> dview \<Rightarrow> dview" where
  "v_hold d v = v\<lparr>v_dev := (v_dev v)(d := dv_refcnt_update (\<lambda>n. n + 1) (v_dev v d))\<rparr>"

definition v_release :: "nat \<Rightarrow> dview \<Rightarrow> dview" where
  "v_release d v =
     (let x = dv_refcnt_update (\<lambda>n. n - 1) (v_dev v d)
      in if dv_refcnt x = 0
         then v\<lparr>v_dev := (v_dev v)(d := dv_magic_update (\<lambda>_. 0) x), v_list := remove1 d (v_list v), v_pool := d # v_pool v\<rparr>
         else v\<lparr>v_dev := (v_dev v)(d := x)\<rparr>)"

definition v_set :: "file_t \<Rightarrow> dev_file \<Rightarrow> dview \<Rightarrow> dview" where
  "v_set f x v = v\<lparr>v_files := (v_files v)(fst f := (v_files v (fst f))(snd f := x))\<rparr>"

lemma countedD:
  assumes "counted R v"
  shows "listed v d = (d \<in> set (v_list v))" "distinct (v_list v)"
    "d \<in> set (v_list v) \<Longrightarrow> dv_refcnt (v_dev v d) = R d + int (card (handles v d))"
    "d \<in> set (v_list v) \<Longrightarrow> 0 < dv_refcnt (v_dev v d)" "0 \<le> R d" "d \<notin> set (v_list v) \<Longrightarrow> R d = 0"
    "f_dev (v_files v t i) = Some d \<Longrightarrow> d \<in> set (v_list v)" "f_dev (v_files v t i) = Some d \<Longrightarrow> i < DEV_OPEN_MAX"
    "finite {f. f_dev (v_files v (fst f) (snd f)) \<noteq> None}" "pool_ok v"
  using assms unfolding counted_def by blast+

lemma finite_handles: "counted R v \<Longrightarrow> finite (handles v d)"
  by (rule finite_subset [OF _ countedD(9)]) (auto simp: handles_def)

lemma counted_hold:
  assumes "counted R v" "d \<in> set (v_list v)"
  shows "counted (R(d := R d + 1)) (v_hold d v)"
proof -
  have "handles (v_hold d v) = handles v" "listed (v_hold d v) = listed v" "pool_ok (v_hold d v) = pool_ok v"
    by (auto simp: handles_def listed_def pool_ok_def v_hold_def fun_eq_iff)
  then show ?thesis using assms countedD(5) [OF assms(1), of d] unfolding counted_def by (auto simp: v_hold_def)
qed

lemma counted_release:
  assumes "counted R v" "0 < R d"
  shows "counted (R(d := R d - 1)) (v_release d v)"
proof -
  have l: "d \<in> set (v_list v)" using assms countedD(6) [OF assms(1), of d] by force
  have h: "handles (v_release d v) = handles v" by (auto simp: handles_def v_release_def Let_def fun_eq_iff)
  show ?thesis
  proof (cases "dv_refcnt (v_dev v d) = 1")
    case True
    then have c: "R d = 1" "card (handles v d) = 0" using countedD(3) [OF assms(1) l] assms(2) by linarith+
    then have r: "R d = 1" "handles v d = {}" using finite_handles [OF assms(1), of d] by simp_all
    let ?v = "v\<lparr>v_dev := (v_dev v)(d := dv_magic_update (\<lambda>_. 0) (dv_refcnt_update (\<lambda>n. n - 1) (v_dev v d))),
      v_list := remove1 d (v_list v), v_pool := d # v_pool v\<rparr>"
    have v: "v_release d v = ?v" using True by (simp add: v_release_def Let_def)
    have k: "kern_area d" using countedD(1) [OF assms(1), of d] l by (simp add: listed_def)
    have li: "listed ?v x = (x \<noteq> d \<and> listed v x)" for x by (auto simp: listed_def magic_defs)
    have s: "set (v_list ?v) = set (v_list v) - {d}" using countedD(2) [OF assms(1)] by simp
    have p: "pool_ok ?v" using countedD(2,10) [OF assms(1)] k l by (auto simp: pool_ok_def)
    have f: "v_files ?v = v_files v" by simp
    have n: "e \<noteq> d" if "f_dev (v_files v t i) = Some e" for t i e using r(2) that by (auto simp: handles_def)
    show ?thesis
      unfolding v counted_def li s f
      using countedD [OF assms(1)] r(1) p n h [unfolded v] by (auto simp: distinct_remove1)
  next
    case False
    then have v: "v_release d v = v\<lparr>v_dev := (v_dev v)(d := dv_refcnt_update (\<lambda>n. n - 1) (v_dev v d))\<rparr>"
      by (simp add: v_release_def Let_def)
    have e: "listed (v_release d v) = listed v" "pool_ok (v_release d v) = pool_ok v" "v_list (v_release d v) = v_list v"
      "v_files (v_release d v) = v_files v"
      by (auto simp: v listed_def pool_ok_def fun_eq_iff)
    show ?thesis unfolding counted_def e h
      using countedD [OF assms(1)] assms(2) False l by (auto simp: v intro: order_le_neq_trans)
  qed
qed

text \<open>A reference of the driver becomes a handle, and back.\<close>

lemma handles_set:
  "handles (v_set f x v) d = (if f_dev x = Some d then insert f (handles v d) else handles v d - {f})"
  by (cases f) (auto simp: handles_def v_set_def split: if_splits)

lemma v_set_sel [simp]:
  "v_dev (v_set f x v) = v_dev v" "v_list (v_set f x v) = v_list v" "v_pool (v_set f x v) = v_pool v"
  "listed (v_set f x v) = listed v" "pool_ok (v_set f x v) = pool_ok v"
  by (simp_all add: v_set_def listed_def pool_ok_def fun_eq_iff)

lemma v_set_files:
  "v_files (v_set f x v) t i = (if (t, i) = f then x else v_files v t i)"
  by (cases f) (auto simp: v_set_def)

lemma counted_open:
  assumes "counted (R(d := R d + 1)) v" "0 \<le> R d" "d \<in> set (v_list v)" "f_dev (v_files v (fst f) (snd f)) = None"
    "snd f < DEV_OPEN_MAX" "f_dev x = Some d"
  shows "counted R (v_set f x v)"
proof -
  let ?R = "R(d := R d + 1)"
  have nf: "f \<notin> handles v e" for e using assms(4) by (simp add: handles_def)
  have c: "card (handles (v_set f x v) e) = card (handles v e) + (if e = d then 1 else 0)" for e
    using nf finite_handles [OF assms(1)] assms(6) by (auto simp: handles_set)
  have "{g. f_dev (v_files (v_set f x v) (fst g) (snd g)) \<noteq> None} \<subseteq> insert f {g. f_dev (v_files v (fst g) (snd g)) \<noteq> None}"
    by (auto simp: v_set_files split: if_splits)
  then have fin: "finite {g. f_dev (v_files (v_set f x v) (fst g) (snd g)) \<noteq> None}"
    using countedD(9) [OF assms(1)] finite_subset by blast
  have rc: "dv_refcnt (v_dev v e) = R e + int (card (handles (v_set f x v) e))" if "e \<in> set (v_list v)" for e
    using countedD(3) [OF assms(1) that] c by (auto split: if_splits)
  have R: "0 \<le> R e \<and> (e \<notin> set (v_list v) \<longrightarrow> R e = 0)" for e
    using countedD(5,6) [OF assms(1), of e] assms(2,3) by (auto split: if_splits)
  have fl: "e \<in> set (v_list v) \<and> i < DEV_OPEN_MAX" if "f_dev (v_files (v_set f x v) t i) = Some e" for t i e
    using that countedD(7,8) [OF assms(1), of t i e] assms(3,5,6) by (auto simp: v_set_files split: if_splits)
  show ?thesis using countedD(1,2,4,10) [OF assms(1)] rc R fl fin unfolding counted_def v_set_sel by blast
qed

lemma counted_close:
  assumes "counted R v" "f_dev (v_files v (fst f) (snd f)) = Some d" "f_dev x = None"
  shows "counted (R(d := R d + 1)) (v_set f x v)"
proof -
  have f: "f \<in> handles v d" "\<And>e. e \<noteq> d \<Longrightarrow> f \<notin> handles v e" using assms(2) by (simp_all add: handles_def)
  have c: "int (card (handles (v_set f x v) e)) = int (card (handles v e)) - (if e = d then 1 else 0)" for e
    using f finite_handles [OF assms(1), of e] assms(3) card_Suc_Diff1 [of "handles v e" f] by (auto simp: handles_set)
  have "{g. f_dev (v_files (v_set f x v) (fst g) (snd g)) \<noteq> None} \<subseteq> {g. f_dev (v_files v (fst g) (snd g)) \<noteq> None}"
    using assms(2,3) by (auto simp: v_set_files split: if_splits)
  then have fin: "finite {g. f_dev (v_files (v_set f x v) (fst g) (snd g)) \<noteq> None}"
    using countedD(9) [OF assms(1)] finite_subset by blast
  have d: "d \<in> set (v_list v)" using countedD(7) [OF assms(1,2)] .
  have rc: "dv_refcnt (v_dev v e) = (R(d := R d + 1)) e + int (card (handles (v_set f x v) e))" if "e \<in> set (v_list v)" for e
    using countedD(3) [OF assms(1) that] c [of e] by simp
  have R: "0 \<le> (R(d := R d + 1)) e \<and> (e \<notin> set (v_list v) \<longrightarrow> (R(d := R d + 1)) e = 0)" for e
    using countedD(5,6) [OF assms(1), of e] d by auto
  have fl: "e \<in> set (v_list v) \<and> i < DEV_OPEN_MAX" if "f_dev (v_files (v_set f x v) t i) = Some e" for t i e
    using that countedD(7,8) [OF assms(1), of t i e] assms(3) by (auto simp: v_set_files split: if_splits)
  show ?thesis using countedD(1,2,4,10) [OF assms(1)] rc R fl fin unfolding counted_def v_set_sel by blast
qed

lemma v_set_release: "v_set f x (v_release d v) = v_release d (v_set f x v)"
  by (simp add: v_set_def v_release_def Let_def)

lemma counted_free:
  assumes "counted R v" "f_dev (v_files v (fst f) (snd f)) = Some d" "f_dev x = None"
  shows "counted R (v_set f x (v_release d v))"
  using counted_release [OF counted_close [OF assms], of d] countedD(5) [OF assms(1), of d] by (simp add: v_set_release)

text \<open>The rest of a file does not count.\<close>

lemma counted_same:
  assumes "counted R v" "v_dev v' = v_dev v" "v_list v' = v_list v" "pool_ok v'"
    "\<And>t i. f_dev (v_files v' t i) = f_dev (v_files v t i)"
  shows "counted R v'"
proof -
  have "handles v' = handles v" "listed v' = listed v" using assms by (auto simp: handles_def listed_def fun_eq_iff)
  then show ?thesis using assms unfolding counted_def by auto
qed

section \<open>The calls\<close>

lemma k_rest_dev_view:
  assumes "k_rest s' = k_rest s"
  shows "dev_view s' = dev_view s"
  by (simp add: dev_view_def k_restD [OF assms])

lemma mem_only_dev_view:
  assumes "mem_only s s'"
  shows "dev_view s' = dev_view s"
  by (simp add: dev_view_def mem_onlyD [OF assms])

lemmas dev_view_sched [simp] = k_rest_dev_view [OF queue_ops_rest(7)] k_rest_dev_view [OF sched_unlock_rest]

lemma device_valid_listed: "device_valid s d = listed (dev_view s) d"
  by (simp add: device_valid_def listed_def dev_view_def)

lemma dev_view_file [simp]: "dev_view (upd_file f g s) = v_set f (g (the_file f s)) (dev_view s)"
  by (auto simp: upd_file_def upd_task_def dev_view_def v_set_def)

lemma device_hold_view:
  "dev_view (snd (device_hold d s)) = (if device_valid s d then v_hold d (dev_view s) else dev_view s)"
proof -
  have "device_valid (sched_lock s) d = device_valid s d" by (simp add: device_valid_listed)
  moreover have "dev_view (upd_device d (dv_refcnt_update (\<lambda>n. n + 1)) (sched_lock s)) = v_hold d (dev_view s)"
    using dev_view_sched(1) [of s] by (simp add: dev_view_def v_hold_def upd_device_def)
  ultimately show ?thesis by (simp add: device_hold_def Let_def)
qed

lemma device_release_view: "dev_view (device_release d s) = v_release d (dev_view s)"
  unfolding device_release_def Let_def dev_view_sched(2) using dev_view_sched(1) [of s]
  by (auto simp: dev_view_def v_release_def upd_device_def kmem_free_block_def vm_kmem_free_def)

lemma device_lookup_listed: "device_lookup name s = Some d \<Longrightarrow> d \<in> set (device_list s)"
proof -
  assume "device_lookup name s = Some d"
  then obtain ds where "filter (\<lambda>d. strncmp (dv_name (devices s d)) name MAXDEVNAME = 0) (device_list s) = d # ds"
    by (auto simp: device_lookup_def split: list.splits)
  from arg_cong [OF this, of set] show ?thesis by auto
qed

lemma fd_search_free: "fd_search t n i = Some j \<Longrightarrow> f_dev (t j) = None \<and> j < i + n"
  by (induction t n i rule: fd_search.induct) (auto split: if_splits)

lemma hold_ok:
  assumes "dev_ok R s" "device_valid s d"
  shows "dev_ok (R(d := R d + 1)) (snd (device_hold d s))"
  using assms counted_hold countedD(1) [of R "dev_view s" d] by (simp add: dev_ok_def device_hold_view device_valid_listed)

lemma release_ok: "dev_ok R s \<Longrightarrow> 0 < R d \<Longrightarrow> dev_ok (R(d := R d - 1)) (device_release d s)"
  by (simp add: dev_ok_def device_release_view counted_release)

lemma lock_ok [simp]: "dev_ok R (sched_lock s) = dev_ok R s" "dev_ok R (sched_unlock s) = dev_ok R s"
  by (simp_all add: dev_ok_def)

lemma destroy_ok: "dev_ok R s \<Longrightarrow> 0 < R d \<Longrightarrow> dev_ok (R(d := R d - 1)) (snd (device_destroy d s))"
  using countedD(1,6) [of R "dev_view s" d] by (fastforce simp: device_destroy_def Let_def device_valid_listed dev_ok_def
      device_release_view counted_release)

lemma fd_alloc_ok:
  assumes "dev_ok R s"
  shows "dev_ok R (snd (fd_alloc name s))"
proof (cases "fd_search (files (tasks (sched_lock s) (cur_task_ptr s))) DEV_OPEN_MAX 0")
  case None
  then show ?thesis using assms by (simp add: fd_alloc_def Let_def)
next
  case (Some i)
  let ?f = "(cur_task_ptr s, i)"
  show ?thesis
  proof (cases "device_lookup name (sched_lock s)")
    case None
    then show ?thesis using Some assms by (simp add: fd_alloc_def Let_def)
  next
    case l: (Some d)
    define s2 where "s2 = snd (device_hold d (sched_lock s))"
    have v: "counted R (dev_view s)" using assms by (simp add: dev_ok_def)
    have dl: "d \<in> set (v_list (dev_view s))"
      using device_lookup_listed [OF l] dev_view_sched(1) [of s] by (simp add: dev_view_def)
    have "dev_ok (R(d := R d + 1)) s2"
      unfolding s2_def using hold_ok [of R "sched_lock s" d] assms dl countedD(1) [OF v, of d] by (simp add: device_valid_listed)
    moreover have w: "dev_view s2 = v_hold d (dev_view s)"
      using dl countedD(1) [OF v, of d] by (simp add: s2_def device_hold_view device_valid_listed)
    have "f_dev (v_files (dev_view s2) (fst ?f) (snd ?f)) = None" "snd ?f < DEV_OPEN_MAX"
      using fd_search_free [OF Some] dev_view_sched(1) [of s] unfolding w by (auto simp: v_hold_def dev_view_def fun_eq_iff)
    ultimately have "dev_ok R (upd_file ?f (\<lambda>_. \<lparr>f_dev = Some d, f_priv = dv_info (devices s2 d), f_flags = 0\<rparr>) s2)"
      using counted_open [of R d "dev_view s2" ?f] countedD(5) [OF v, of d] dl w by (simp add: dev_ok_def v_hold_def)
    then show ?thesis using Some l by (simp add: fd_alloc_def Let_def s2_def)
  qed
qed

lemma counted_new:
  assumes "counted R v" "v_pool v = d # rest" "dv_magic x = DEVICE_MAGIC" "dv_refcnt x = 1"
  shows "counted (R(d := 1)) (v\<lparr>v_dev := (v_dev v)(d := x), v_list := d # v_list v, v_pool := rest\<rparr>)" (is "counted ?R ?v")
proof -
  have k: "kern_area d" "d \<notin> set (v_list v)" using countedD(10) [OF assms(1)] assms(2) by (auto simp: pool_ok_def)
  have h: "handles ?v = handles v" by (simp add: handles_def fun_eq_iff)
  have e: "handles v d = {}" using countedD(7) [OF assms(1)] k(2) by (auto simp: handles_def)
  have li: "listed ?v y = (y = d \<or> listed v y)" for y using k(1) assms(3) by (simp add: listed_def)
  have p: "pool_ok ?v" using countedD(10) [OF assms(1)] k(2) assms(2) by (auto simp: pool_ok_def)
  show ?thesis unfolding counted_def li h using countedD [OF assms(1)] p e k(2) assms(4) by auto
qed

lemma create_ok:
  assumes "dev_ok R s" "device_create io name flags info s = (d, s')"
  shows "dev_ok (if d = 0 then R else R(d := 1)) s'"
proof (cases "d = 0")
  case True
  have "0 \<notin> set (vpool (vm s))"
    using assms(1) countedD(10) [of R "dev_view s"] by (auto simp: dev_ok_def pool_ok_def dev_view_def kern_area_def PAGE_OFFSET_def)
  moreover have "dev_view ((sched_lock s)\<lparr>vm := vm s\<rparr>) = dev_view s"
    using dev_view_sched(1) [of s] by (simp add: dev_view_def)
  ultimately show ?thesis using assms True
    by (auto simp: device_create_def Let_def kmem_alloc_block_def vm_kmem_alloc_def dev_ok_def
        split: if_splits list.splits)
next
  case False
  obtain rest where p: "vpool (vm (sched_lock s)) = d # rest"
    and s': "s' = sched_unlock ((upd_device d (\<lambda>x. x\<lparr>dv_name := snd (strlcpy (dv_name x) name (strnlen name MAXDEVNAME + 1)),
      dv_io := io, dv_info := info, dv_flags := flags, dv_refcnt := 1, dv_magic := DEVICE_MAGIC\<rparr>)
      ((sched_lock s)\<lparr>vm := (vm (sched_lock s))\<lparr>vpool := rest\<rparr>\<rparr>))\<lparr>device_list := d # device_list (sched_lock s)\<rparr>)"
    using assms(2) False
    by (auto simp: device_create_def Let_def kmem_alloc_block_def vm_kmem_alloc_def upd_device_def split: if_splits list.splits)
  have v: "counted R (dev_view s)" using assms(1) by (simp add: dev_ok_def)
  have "v_pool (dev_view s) = d # rest" using p dev_view_sched(1) [of s] by (simp add: dev_view_def)
  from counted_new [OF v this] show ?thesis
    unfolding s' dev_ok_def dev_view_sched(2) using False dev_view_sched(1) [of s] by (simp add: dev_view_def upd_device_def)
qed

lemma file_lookup_file:
  assumes "file_lookup fd s = (Some f, s')"
  shows "dev_view s' = dev_view s" "f_dev (v_files (dev_view s) (fst f) (snd f)) \<noteq> None"
proof -
  have f: "s' = sched_unlock (sched_lock s)" "f_dev (the_file f (sched_lock s)) \<noteq> None"
    using assms by (auto simp: file_lookup_def Let_def split: if_splits)
  show "dev_view s' = dev_view s" by (simp add: f(1))
  have "dev_view (sched_lock s) = dev_view s" by simp
  then show "f_dev (v_files (dev_view s) (fst f) (snd f)) \<noteq> None" using f(2) by (auto simp: dev_view_def fun_eq_iff)
qed

lemma file_lookup_ok: "file_lookup fd s = (r, s') \<Longrightarrow> dev_ok R s' = dev_ok R s"
  by (auto simp: file_lookup_def Let_def split: if_splits)

lemma fd_free_ok:
  assumes "dev_ok R s"
  shows "dev_ok R (snd (fd_free fd s))"
proof -
  obtain r s1 where l: "file_lookup fd (sched_lock s) = (r, s1)" by fastforce
  show ?thesis
  proof (cases r)
    case None
    then show ?thesis using l assms file_lookup_ok [OF l] by (simp add: fd_free_def)
  next
    case (Some f)
    note v = file_lookup_file [OF l [unfolded Some]]
    obtain d where d: "f_dev (v_files (dev_view s1) (fst f) (snd f)) = Some d" using v by auto
    have c: "counted R (dev_view s1)" using assms v(1) by (simp add: dev_ok_def)
    have "f_dev (the_file f s1) = Some d" using d by (simp add: dev_view_def)
    then show ?thesis using Some l counted_free [OF c d] by (simp add: fd_free_def Let_def dev_ok_def device_release_view)
  qed
qed

section \<open>Drivers\<close>

text \<open>What an operation of a driver, or any other part of the kernel, may do to devices and handles: nothing.\<close>

definition drv_frame :: "kstate \<Rightarrow> kstate \<Rightarrow> bool" where
  "drv_frame s s' =
     (devices s' = devices s \<and> device_list s' = device_list s \<and>
      (\<forall>t i. f_dev (files (tasks s' t) i) = f_dev (files (tasks s t) i)) \<and>
      (pool_ok (dev_view s) \<longrightarrow> pool_ok (dev_view s')))"

definition driver_ok :: "devio \<Rightarrow> bool" where
  "driver_ok x =
     ((\<forall>op f s. d_open x = Some op \<longrightarrow> drv_frame s (snd (op f s))) \<and>
      (\<forall>op f s. d_close x = Some op \<longrightarrow> drv_frame s (snd (op f s))) \<and>
      (\<forall>op f a n b s. d_read x = Some op \<longrightarrow> drv_frame s (snd (snd (op f a n b s)))) \<and>
      (\<forall>op f a n b s. d_write x = Some op \<longrightarrow> drv_frame s (snd (snd (op f a n b s)))) \<and>
      (\<forall>op f c a s. d_ioctl x = Some op \<longrightarrow> drv_frame s (snd (op f c a s))) \<and>
      (\<forall>op e s. d_event x = Some op \<longrightarrow> drv_frame s (snd (op e s))))"

lemma drv_frame_ok: "drv_frame s s' \<Longrightarrow> dev_ok R s \<Longrightarrow> dev_ok R s'"
  using countedD(10) [of R "dev_view s"] counted_same [of R "dev_view s" "dev_view s'"]
  unfolding dev_ok_def drv_frame_def by (auto simp: dev_view_def)

lemma driver_snd:
  assumes "driver_ok x" "dev_ok R s"
  shows "d_open x = Some op \<Longrightarrow> dev_ok R (snd (op f s))" "d_close x = Some op \<Longrightarrow> dev_ok R (snd (op f s))"
    "d_read x = Some rw \<Longrightarrow> dev_ok R (snd (snd (rw f a n b s)))" "d_write x = Some rw \<Longrightarrow> dev_ok R (snd (snd (rw f a n b s)))"
    "d_ioctl x = Some ct \<Longrightarrow> dev_ok R (snd (ct f c g s))" "d_event x = Some ev \<Longrightarrow> dev_ok R (snd (ev m s))"
  using assms(1) by (cases f; auto simp: driver_ok_def intro!: drv_frame_ok [OF _ assms(2)])+

lemma driver_okD:
  assumes "driver_ok x" "dev_ok R s"
  shows "d_open x = Some op \<Longrightarrow> op f s = (e, s') \<Longrightarrow> dev_ok R s'"
    "d_close x = Some op \<Longrightarrow> op f s = (e, s') \<Longrightarrow> dev_ok R s'"
    "d_read x = Some rw \<Longrightarrow> rw f a n b s = (e, k, s') \<Longrightarrow> dev_ok R s'"
    "d_write x = Some rw \<Longrightarrow> rw f a n b s = (e, k, s') \<Longrightarrow> dev_ok R s'"
    "d_ioctl x = Some ct \<Longrightarrow> ct f c g s = (e, s') \<Longrightarrow> dev_ok R s'"
    "d_event x = Some ev \<Longrightarrow> ev m s = (e, s') \<Longrightarrow> dev_ok R s'"
  using driver_snd(1,2) [OF assms, of op f] driver_snd(3,4) [OF assms, of rw f a n b] driver_snd(5) [OF assms, of ct f c g]
    driver_snd(6) [OF assms, of ev m] by simp_all

lemma copyout_ok:
  assumes "dev_ok R s"
  shows "dev_ok R (snd (umem_copyout bs a s))" "dev_ok R (snd (copyout_word w a s))"
  using assms mem_only_dev_view [OF umem_mem(1)] mem_only_dev_view [OF umem_mem(2)] by (simp_all add: dev_ok_def)

lemma close_ok:
  assumes "\<And>x. driver_ok (io x)" "dev_ok R s"
  shows "dev_ok R (snd (device_close io fd s))"
proof -
  obtain r s1 where l: "file_lookup fd s = (r, s1)" by fastforce
  then have s1: "dev_ok R s1" using assms(2) file_lookup_ok by blast
  show ?thesis
  proof (cases r)
    case (Some f)
    obtain e s2 where c: "(case d_close (file_io io f s1) of None \<Rightarrow> (0, s1) | Some op \<Rightarrow> op f s1) = (e, s2)" by fastforce
    then have "dev_ok R s2" using s1 driver_okD(2) [OF assms(1)] by (auto simp: file_io_def split: option.splits)
    then show ?thesis using l Some c by (simp add: device_close_def fd_free_ok)
  qed (use l s1 in \<open>simp add: device_close_def\<close>)
qed

lemma terminate_ok:
  assumes "\<And>x. driver_ok (io x)" "dev_ok R s"
  shows "dev_ok R (device_terminate io t s)"
proof -
  have "dev_ok R (fold (terminate_slot io t) is x)" if "dev_ok R x" for "is" x
    using that by (induction "is" arbitrary: x) (simp_all add: terminate_slot_def close_ok [OF assms(1)])
  then show ?thesis using assms(2) by (simp add: device_terminate_def)
qed

lemma upd_file_ok:
  assumes "dev_ok R s" "\<And>x. f_dev (g x) = f_dev x"
  shows "dev_ok R (upd_file f g s)"
  using assms(1) unfolding dev_ok_def dev_view_file
  by (rule counted_same) (use assms countedD(10) in \<open>auto simp: v_set_files dev_ok_def dev_view_def\<close>)

lemma open_ok:
  assumes "\<And>x. driver_ok (io x)" "dev_ok R s"
  shows "dev_ok R (snd (device_open io name flags fdp s))"
proof -
  have main: "dev_ok R (snd (case file_lookup fd s1 of
        (None, s2) \<Rightarrow> (EBADF, s2)
      | (Some f, s2) \<Rightarrow>
          let s3 = upd_file f (f_flags_update (\<lambda>_. flags)) s2;
              (err, s4) = (case d_open (file_io io f s3) of None \<Rightarrow> (0, s3) | Some op \<Rightarrow> op f s3)
          in if err = 0 then umem_copyout (le32 (unat fd)) fdp s4 else (err, snd (fd_free fd s4))))"
    if "dev_ok R s1" for fd s1
  proof -
    obtain r s2 where l: "file_lookup fd s1 = (r, s2)" by fastforce
    then have s2: "dev_ok R s2" using that file_lookup_ok by blast
    have s3: "dev_ok R (upd_file f (f_flags_update (\<lambda>_. flags)) s2)" (is "dev_ok R (?s3 f)") for f
      by (rule upd_file_ok [OF s2]) simp
    show ?thesis
    proof (cases r)
      case (Some f)
      obtain e s4 where c: "(case d_open (file_io io f (?s3 f)) of None \<Rightarrow> (0, ?s3 f) | Some op \<Rightarrow> op f (?s3 f)) = (e, s4)" by fastforce
      then have "dev_ok R s4" using s3 [of f] driver_okD(1) [OF assms(1) s3 [of f], where f = f] by (auto simp: file_io_def split: option.splits)
      then show ?thesis using l Some c by (simp add: Let_def fd_free_ok copyout_ok)
    qed (use l s2 in simp)
  qed
  have "dev_ok R s1" if "fd_alloc str s = (x, s1)" for str x s1 using fd_alloc_ok [OF assms(2)] that by (metis snd_conv)
  then show ?thesis using assms(2) main unfolding device_open_def by (auto split: option.split prod.split sum.split)
qed

lemma transfer_ok:
  assumes "dev_ok R s" "\<And>g a n b x e k y. op = Some g \<Longrightarrow> dev_ok R x \<Longrightarrow> g f a n b x = (e, k, y) \<Longrightarrow> dev_ok R y"
  shows "dev_ok R (snd (dev_transfer op f buf nbyte blkno s))"
  using assms(1) assms(2) [OF _ assms(1)]
  by (auto simp: dev_transfer_def copyout_ok split: option.split prod.split)

lemma rw_ok:
  assumes "\<And>x. driver_ok (io x)" "dev_ok R s"
  shows "dev_ok R (snd (device_read io fd buf nbyte blkno s))" "dev_ok R (snd (device_write io fd buf nbyte blkno s))"
    "dev_ok R (snd (device_ioctl io fd cmd arg s))"
proof -
  obtain r s1 where l: "file_lookup fd s = (r, s1)" by fastforce
  then have s1: "dev_ok R s1" using assms(2) file_lookup_ok by blast
  have rd: "dev_ok R (snd (dev_transfer (d_read (file_io io f s1)) f buf nbyte blkno s1))" for f
    by (rule transfer_ok [OF s1]) (use driver_okD(3) [OF assms(1)] in \<open>simp add: file_io_def\<close>)
  have wr: "dev_ok R (snd (dev_transfer (d_write (file_io io f s1)) f buf nbyte blkno s1))" for f
    by (rule transfer_ok [OF s1]) (use driver_okD(4) [OF assms(1)] in \<open>simp add: file_io_def\<close>)
  have ct: "dev_ok R (snd (case d_ioctl (file_io io f s1) of None \<Rightarrow> (EIO, s1) | Some op \<Rightarrow> op f cmd arg s1))" for f
    by (cases "d_ioctl (file_io io f s1)") (use s1 driver_snd(5) [OF assms(1) s1] in \<open>simp_all add: file_io_def\<close>)
  show "dev_ok R (snd (device_read io fd buf nbyte blkno s))" "dev_ok R (snd (device_write io fd buf nbyte blkno s))"
    "dev_ok R (snd (device_ioctl io fd cmd arg s))"
    using l s1 rd wr ct by (cases r; simp add: device_read_def device_write_def device_ioctl_def)+
qed

lemma broadcast_ok:
  assumes "\<And>x. driver_ok (io x)" "dev_ok R s"
  shows "dev_ok R (snd (device_broadcast io ev force s))"
proof -
  have b: "dev_ok R x \<Longrightarrow> dev_ok R (snd (broadcast_from io ev force ds ret x))" for ds ret x
  proof (induction ds arbitrary: ret x)
    case (Cons d ds)
    show ?case
    proof (cases "d_event (io (dv_io (devices x d)))")
      case (Some op)
      obtain e y where o: "op ev x = (e, y)" by fastforce
      have "dev_ok R y" by (rule driver_okD(6) [OF assms(1) Cons.prems Some o])
      then show ?thesis using Cons.IH [of y] Some o by (cases force) simp_all
    qed (use Cons in simp)
  qed simp
  obtain r y where o: "broadcast_from io ev force (device_list (sched_lock s)) 0 (sched_lock s) = (r, y)" by fastforce
  have "dev_ok R y" using b [of "sched_lock s"] assms(2) o by (metis lock_ok(1) snd_conv)
  then show ?thesis using o by (simp add: device_broadcast_def Let_def del: k_rest_state)
qed

section \<open>Histories\<close>

text \<open>The state of a history: the references the drivers hold, and the kernel's state.\<close>

inductive dev_step :: "(nat \<Rightarrow> devio) \<Rightarrow> (nat \<Rightarrow> int) \<times> kstate \<Rightarrow> (nat \<Rightarrow> int) \<times> kstate \<Rightarrow> bool" for io where
  Create: "device_create x name flags info s = (d, s') \<Longrightarrow> dev_step io (R, s) (if d = 0 then R else R(d := 1), s')"
| Destroy: "0 < R d \<Longrightarrow> dev_step io (R, s) (R(d := R d - 1), snd (device_destroy d s))"
| Hold: "device_valid s d \<Longrightarrow> dev_step io (R, s) (R(d := R d + 1), snd (device_hold d s))"
| Release: "0 < R d \<Longrightarrow> dev_step io (R, s) (R(d := R d - 1), device_release d s)"
| Open: "dev_step io (R, s) (R, snd (device_open io nm fl fdp s))"
| Close: "dev_step io (R, s) (R, snd (device_close io fd s))"
| Read: "dev_step io (R, s) (R, snd (device_read io fd buf nbyte blkno s))"
| Write: "dev_step io (R, s) (R, snd (device_write io fd buf nbyte blkno s))"
| Ioctl: "dev_step io (R, s) (R, snd (device_ioctl io fd cmd arg s))"
| Broadcast: "dev_step io (R, s) (R, snd (device_broadcast io ev force s))"
| End: "dev_step io (R, s) (R, device_terminate io t s)"
| Other: "drv_frame s s' \<Longrightarrow> dev_step io (R, s) (R, s')"

lemma dev_step_ok:
  assumes "\<And>x. driver_ok (io x)"
  shows "dev_step io p q \<Longrightarrow> dev_ok (fst p) (snd p) \<Longrightarrow> dev_ok (fst q) (snd q)"
proof (induction rule: dev_step.induct)
  case (Create x name flags info s d s' R)
  then show ?case using create_ok [of R s x name flags info d s'] by (simp only: fst_conv snd_conv)
next
  case (Destroy R d s)
  then show ?case using destroy_ok [of R s d] by (simp only: fst_conv snd_conv)
next
  case (Hold s d R)
  then show ?case using hold_ok [of R s d] by (simp only: fst_conv snd_conv)
next
  case (Release R d s)
  then show ?case using release_ok [of R s d] by (simp only: fst_conv snd_conv)
next
  case (Other s s' R)
  then show ?case using drv_frame_ok by simp
qed (simp_all add: open_ok [OF assms] close_ok [OF assms] rw_ok [OF assms] broadcast_ok [OF assms] terminate_ok [OF assms])

text \<open>
  C5: The reference count of a device is exact. Whatever sequence of device calls the tasks and drivers make, an
  open handle names a device object that exists and is in the list, the count of a device is the number of its
  driver's references plus the number of open handles, and a device object exists just as long as
  that number is not zero; its memory is not free meanwhile.
\<close>

theorem device_refcount:
  assumes "\<And>x. driver_ok (io x)" and "dev_ok R s" and "(dev_step io)\<^sup>*\<^sup>* (R, s) (R', s')"
  shows "(f_dev (files (tasks s' t) i) = Some d \<longrightarrow> device_valid s' d \<and> i < DEV_OPEN_MAX) \<and>
    (device_valid s' d \<longrightarrow>
       dv_refcnt (devices s' d) = R' d + int (card {f. f_dev (the_file f s') = Some d}) \<and> d \<notin> set (vpool (vm s'))) \<and>
    (device_valid s' d \<longleftrightarrow> 0 < R' d + int (card {f. f_dev (the_file f s') = Some d}))"
proof -
  have "dev_ok R' s'" using assms(3,2) by (induction "(R', s')" arbitrary: R' s' rule: rtranclp_induct)
    (auto dest: dev_step_ok [OF assms(1)])
  then have c: "counted R' (dev_view s')" by (simp add: dev_ok_def)
  have h: "handles (dev_view s') d = {f. f_dev (the_file f s') = Some d}" by (auto simp: handles_def dev_view_def)
  have l: "device_valid s' d = (d \<in> set (device_list s'))"
    using countedD(1) [OF c, of d] by (simp add: device_valid_listed) (simp add: dev_view_def)
  have "d \<in> set (device_list s') \<Longrightarrow> dv_refcnt (devices s' d) = R' d + int (card (handles (dev_view s') d)) \<and>
      0 < dv_refcnt (devices s' d) \<and> d \<notin> set (vpool (vm s'))"
    using countedD(3,4,10) [OF c] by (auto simp: pool_ok_def dev_view_def)
  moreover have "d \<notin> set (device_list s') \<Longrightarrow> R' d = 0 \<and> handles (dev_view s') d = {}"
    using countedD(6,7) [OF c] by (auto simp: handles_def) (auto simp: dev_view_def)
  moreover have "f_dev (files (tasks s' t) i) = Some d \<Longrightarrow> d \<in> set (device_list s') \<and> i < DEV_OPEN_MAX"
    using countedD(7,8) [OF c, of t i d] by (simp add: dev_view_def)
  ultimately show ?thesis unfolding l h [symmetric] by (cases "d \<in> set (device_list s')") auto
qed

lemma no_driver_ok: "driver_ok no_driver"
  by (simp add: driver_ok_def no_driver_def)

lemma demo_dev_ok: "dev_ok (\<lambda>_. 0) demo_state"
proof -
  have f: "f_dev (files (tasks demo_state t) i) = None" for t i
    by (simp add: demo_state_def demo_task_def zero_task_def)
  have v: "v_list (dev_view demo_state) = []" "v_pool (dev_view demo_state) = [0x80007000, 0x80008000, 0x80009000, 0x8000a000]"
    "dv_magic (v_dev (dev_view demo_state) d) = 0" "f_dev (v_files (dev_view demo_state) t i) = None" for d t i
    by (simp_all add: dev_view_def demo_proj f demo_vm_def) (simp add: demo_state_def zero_state_def)
  show ?thesis unfolding dev_ok_def counted_def
    by (simp add: v listed_def pool_ok_def kern_area_def PAGE_OFFSET_def magic_defs)
qed

theorem device_refcount_witness:
  "\<exists>s'. device_create 5 [0x61, 0] 0 0 demo_state = (0x80007000, s') \<and> device_valid s' 0x80007000 \<and>
    0x80007000 \<notin> set (vpool (vm s'))"
proof -
  obtain d s' where c: "device_create 5 [0x61, 0] 0 0 demo_state = (d, s')" by fastforce
  have "vpool (vm (sched_lock demo_state)) = vpool demo_vm" using dev_view_sched(1) [of demo_state] by (simp add: dev_view_def demo_proj)
  moreover have "device_list (sched_lock demo_state) = []" using dev_view_sched(1) [of demo_state] by (simp add: dev_view_def demo_proj)
  moreover have "strnlen [0x61, 0] MAXDEVNAME = 1" by (simp add: MAXDEVNAME_def numeral_eq_Suc)
  ultimately have d: "d = 0x80007000" using c
    by (simp add: device_create_def device_lookup_def Let_def kmem_alloc_block_def vm_kmem_alloc_def demo_vm_def MAXDEVNAME_def
        split: if_splits)
  have "(dev_step (\<lambda>_. no_driver))\<^sup>*\<^sup>* (\<lambda>_. 0, demo_state) (if d = 0 then \<lambda>_. 0 else (\<lambda>_. 0)(d := 1), s')"
    using dev_step.Create [OF c] by blast
  from device_refcount [OF no_driver_ok demo_dev_ok this, of 0 0 d] show ?thesis using c d by auto
qed

end
