(* ===== verification/Thread_Links.thy ===== *)
theory Thread_Links
  imports Thread
begin

text \<open>
  What the pointers between tasks, threads and memory blocks point to. A thread on the list of a task is a
  live thread of that task, a live thread is on the list of its task, and the blocks of live threads
  (the thread, its kernel stack, its periodic timer) are apart from each other and from the free
  blocks. The calls of \<^verbatim>\<open>sys/kern/thread.c\<close> and \<^verbatim>\<open>timer_periodic\<close> keep this.
\<close>

section \<open>The invariant\<close>

definition live_task :: "kstate \<Rightarrow> task_t \<Rightarrow> bool" where
  "live_task s t = (t = kern_task s \<or> t \<in> set (task_list s))"

definition hold :: "kstate \<Rightarrow> tid \<Rightarrow> nat list" where
  "hold s th = th # kstack (threads s th) # (case periodic (threads s th) of None \<Rightarrow> [] | Some p \<Rightarrow> [p])"

definition zombie_hold :: "kstate \<Rightarrow> nat list" where
  "zombie_hold s = (case zombie s of None \<Rightarrow> [] | Some z \<Rightarrow> [z, kstack (threads s z)])"

definition lists_ok :: "kstate \<Rightarrow> bool" where
  "lists_ok s =
     ((\<forall>t. task_valid s t = live_task s t) \<and>
      (\<forall>t. live_task s t \<longrightarrow> distinct (tk_threads (tasks s t)) \<and>
         (\<forall>th \<in> set (tk_threads (tasks s t)). thread_valid s th \<and> th_task (threads s th) = Some t)) \<and>
      (\<forall>th. thread_valid s th \<longrightarrow>
         (\<exists>t. live_task s t \<and> th_task (threads s th) = Some t \<and> th \<in> set (tk_threads (tasks s t)))))"

definition blocks_ok :: "kstate \<Rightarrow> bool" where
  "blocks_ok s =
     (distinct (vpool (vm s)) \<and> (\<forall>a \<in> set (vpool (vm s)). kern_area a) \<and>
      (\<forall>th. thread_valid s th \<longrightarrow> distinct (hold s th) \<and> (\<forall>a \<in> set (hold s th). kern_area a) \<and>
         set (hold s th) \<inter> set (vpool (vm s)) = {} \<and> set (hold s th) \<inter> set (zombie_hold s) = {}) \<and>
      (\<forall>th th'. thread_valid s th \<longrightarrow> thread_valid s th' \<longrightarrow> th \<noteq> th' \<longrightarrow> set (hold s th) \<inter> set (hold s th') = {}) \<and>
      distinct (zombie_hold s) \<and> (\<forall>a \<in> set (zombie_hold s). kern_area a) \<and> set (zombie_hold s) \<inter> set (vpool (vm s)) = {})"

definition links_ok :: "kstate \<Rightarrow> bool" where
  "links_ok s = (lists_ok s \<and> blocks_ok s)"

section \<open>Frames\<close>

text \<open>What the invariant reads.\<close>

definition lview :: "kstate \<Rightarrow> (tid \<Rightarrow> nat \<times> task_t option \<times> nat \<times> nat option) \<times> (task_t \<Rightarrow> nat \<times> tid list) \<times>
    task_t list \<times> task_t \<times> tid option \<times> nat list" where
  "lview s = (\<lambda>x. (th_magic (threads s x), th_task (threads s x), kstack (threads s x), periodic (threads s x)),
     \<lambda>t. (tk_magic (tasks s t), tk_threads (tasks s t)), task_list s, kern_task s, zombie s, vpool (vm s))"

lemma lview_eqD:
  assumes "lview s' = lview s"
  shows "th_magic (threads s' x) = th_magic (threads s x)" "th_task (threads s' x) = th_task (threads s x)"
    "kstack (threads s' x) = kstack (threads s x)" "periodic (threads s' x) = periodic (threads s x)"
    "tk_magic (tasks s' t) = tk_magic (tasks s t)" "tk_threads (tasks s' t) = tk_threads (tasks s t)"
    "task_list s' = task_list s" "kern_task s' = kern_task s" "zombie s' = zombie s" "vpool (vm s') = vpool (vm s)"
  using assms by (auto simp: lview_def fun_eq_iff)

lemma lview_fieldsD:
  assumes "lview s' = (F, G, ts, k, z, p)"
  shows "th_magic (threads s' x) = fst (F x)" "th_task (threads s' x) = fst (snd (F x))"
    "kstack (threads s' x) = fst (snd (snd (F x)))" "periodic (threads s' x) = snd (snd (snd (F x)))"
    "tk_magic (tasks s' t) = fst (G t)" "tk_threads (tasks s' t) = snd (G t)"
    "task_list s' = ts" "kern_task s' = k" "zombie s' = z" "vpool (vm s') = p"
  using assms by (auto simp: lview_def)

lemma lview_sel [simp]:
  "fst (lview s) x = (th_magic (threads s x), th_task (threads s x), kstack (threads s x), periodic (threads s x))"
  "fst (snd (lview s)) t = (tk_magic (tasks s t), tk_threads (tasks s t))"
  "snd (snd (lview s)) = (task_list s, kern_task s, zombie s, vpool (vm s))"
  by (simp_all add: lview_def)

lemma lview_links:
  assumes "lview s' = lview s"
  shows "links_ok s' = links_ok s"
proof -
  have "hold s' = hold s" "zombie_hold s' = zombie_hold s" "thread_valid s' = thread_valid s" "task_valid s' = task_valid s"
    "live_task s' = live_task s"
    by (simp_all add: hold_def zombie_hold_def thread_valid_def task_valid_def live_task_def fun_eq_iff lview_eqD [OF assms]
        split: option.split)
  then show ?thesis by (simp add: links_ok_def lists_ok_def blocks_ok_def lview_eqD [OF assms])
qed

lemma k_rest_lview:
  assumes "k_rest s' = k_rest s"
  shows "lview s' = lview s"
  by (simp add: lview_def fun_eq_iff k_restD [OF assms] th_own_eqD [OF k_rest_threads [OF assms]])

lemma mem_only_lview:
  assumes "mem_only s s'"
  shows "lview s' = lview s"
  by (simp add: lview_def mem_onlyD [OF assms])

lemma lview_upd_thread:
  assumes "\<And>t. th_magic (f t) = th_magic t" "\<And>t. th_task (f t) = th_task t" "\<And>t. kstack (f t) = kstack t"
    "\<And>t. periodic (f t) = periodic t"
  shows "lview (upd_thread th f s) = lview s"
  using assms by (simp add: lview_def upd_thread_def fun_eq_iff)

lemma lview_store [simp]:
  "lview (upd_mutex m fm s) = lview s" "lview (upd_timer r fr s) = lview s" "lview (ipc_unlink th s) = lview s"
  "lview (event_init e s) = lview s" "lview (timer_add r tk s) = lview s"
  by (simp_all add: lview_def upd_mutex_def upd_timer_def ipc_unlink_def event_init_def timer_add_def Let_def)

lemmas lview_k_rest [simp] = k_rest_upd [THEN k_rest_lview] queue_ops_rest [THEN k_rest_lview]
  sched_unlock_rest [THEN k_rest_lview] sched_ops_rest [THEN k_rest_lview]

lemma lview_sched [simp]:
  "lview (sched_setprio th b p s) = lview s" "lview (snd (sched_setpolicy th pol s)) = lview s"
  "lview (sched_start th s) = lview s"
  by (simp_all add: sched_setprio_def sched_setpolicy_def sched_start_def Let_def lview_upd_thread)

lemma lview_context_set [simp]: "lview (context_set th r s) = lview s"
proof (cases r)
  case (CTX_UARG v)
  then show ?thesis by (simp add: mem_only_lview [OF umem_mem(1)])
qed (simp_all add: upd_ctx_def lview_upd_thread)

lemma lview_mutex_handover [simp]: "lview (mutex_handover m s) = lview s"
proof -
  obtain r s1 where w: "sched_wakeone (MutexEvent m) s = (r, s1)" by fastforce
  have "lview (snd (sched_wakeone (MutexEvent m) s)) = lview s" by simp
  then have "lview s1 = lview s" unfolding w by simp
  then show ?thesis using w by (cases r) (simp_all add: mutex_handover_def Let_def lview_upd_thread)
qed

lemma lview_mutex_cleanup [simp]: "lview (mutex_cleanup th s) = lview s"
proof -
  have "lview (mutex_cleanup_from th ms s) = lview s" for ms
    by (induction th ms s rule: mutex_cleanup_from.induct)
      (simp_all add: Let_def lview_upd_thread)
  then show ?thesis by (simp add: mutex_cleanup_def)
qed

lemma lview_msg_cleanup [simp]: "lview (msg_cleanup th s) = lview s"
  by (simp add: msg_cleanup_def Let_def lview_upd_thread split: option.split)

section \<open>A thread is added\<close>

lemma blocksD:
  assumes "blocks_ok s"
  shows "distinct (vpool (vm s))" "a \<in> set (vpool (vm s)) \<Longrightarrow> kern_area a"
    "thread_valid s th \<Longrightarrow> distinct (hold s th)" "thread_valid s th \<Longrightarrow> set (hold s th) \<inter> set (vpool (vm s)) = {}"
    "thread_valid s th \<Longrightarrow> set (hold s th) \<inter> set (zombie_hold s) = {}"
    "thread_valid s th \<Longrightarrow> thread_valid s th' \<Longrightarrow> th \<noteq> th' \<Longrightarrow> set (hold s th) \<inter> set (hold s th') = {}"
    "distinct (zombie_hold s)" "set (zombie_hold s) \<inter> set (vpool (vm s)) = {}"
    "thread_valid s th \<Longrightarrow> a \<in> set (hold s th) \<Longrightarrow> kern_area a" "a \<in> set (zombie_hold s) \<Longrightarrow> kern_area a"
  using assms unfolding blocks_ok_def by blast+

lemma hold_self [simp]: "th \<in> set (hold s th)"
  by (simp add: hold_def)

text \<open>\<open>s'\<close> is \<open>s\<close> with the blocks \<open>th\<close> and \<open>st\<close> taken from the pool for a new thread of task \<open>t\<close>.\<close>

definition added :: "tid \<Rightarrow> nat \<Rightarrow> nat list \<Rightarrow> task_t \<Rightarrow> tid list \<Rightarrow> kstate \<Rightarrow> kstate \<Rightarrow> bool" where
  "added th st rest t ths s s' =
     (lview s' = ((fst (lview s))(th := (THREAD_MAGIC, Some t, st, None)),
        (fst (snd (lview s)))(t := (tk_magic (tasks s t), ths)), task_list s, kern_task s, zombie s, rest))"

lemma addedD:
  assumes "added th st rest t ths s s'"
  shows "th_magic (threads s' x) = (if x = th then THREAD_MAGIC else th_magic (threads s x))"
    "th_task (threads s' x) = (if x = th then Some t else th_task (threads s x))"
    "kstack (threads s' x) = (if x = th then st else kstack (threads s x))"
    "periodic (threads s' x) = (if x = th then None else periodic (threads s x))"
    "tk_magic (tasks s' u) = tk_magic (tasks s u)" "tk_threads (tasks s' u) = (if u = t then ths else tk_threads (tasks s u))"
    "task_list s' = task_list s" "kern_task s' = kern_task s" "zombie s' = zombie s" "vpool (vm s') = rest"
  by (simp_all add: lview_fieldsD [OF assms [unfolded added_def]])

lemma added_links:
  assumes "links_ok s" "vpool (vm s) = th # st # rest" "live_task s t" "added th st rest t ths s s'"
    and "distinct (tk_threads (tasks s t)) \<Longrightarrow> th \<notin> set (tk_threads (tasks s t)) \<Longrightarrow>
      distinct ths \<and> set ths = insert th (set (tk_threads (tasks s t)))"
  shows "links_ok s'"
proof -
  note f = addedD [OF assms(4)]
  have b: "blocks_ok s" and l: "lists_ok s" using assms(1) by (simp_all add: links_ok_def)
  have ka: "kern_area th" using blocksD(2) [OF b, of th] assms(2) by simp
  have nv: "\<not> thread_valid s th" using blocksD(4) [OF b, of th] assms(2) hold_self [of th s] by auto
  have v: "thread_valid s' x = (x = th \<or> thread_valid s x)" for x using ka by (simp add: thread_valid_def f)
  have h: "hold s' x = (if x = th then [th, st] else hold s x)" for x by (simp add: hold_def f)
  have "zombie s \<noteq> Some th" using blocksD(8) [OF b] assms(2) by (auto simp: zombie_hold_def)
  then have z: "zombie_hold s' = zombie_hold s" by (auto simp: zombie_hold_def f split: option.split)
  have lt: "live_task s' = live_task s" "task_valid s' = task_valid s"
    by (simp_all add: live_task_def task_valid_def fun_eq_iff f)
  have nt: "th \<notin> set (tk_threads (tasks s u))" if "live_task s u" for u
    using l that nv unfolding lists_ok_def by blast
  have ths: "distinct ths" "set ths = insert th (set (tk_threads (tasks s t)))"
    using assms(5) nt [OF assms(3)] l assms(3) unfolding lists_ok_def by blast+
  have ux: "x \<noteq> th" if "live_task s u" "x \<in> set (tk_threads (tasks s u))" for u x using nt that by blast
  have "lists_ok s'"
    unfolding lists_ok_def lt v f using l ths ux nv assms(3) unfolding lists_ok_def by (auto split: if_splits) metis
  moreover have "blocks_ok s'"
    unfolding blocks_ok_def v h z f using blocksD [OF b] assms(2) by (auto split: if_splits)
  ultimately show ?thesis by (simp add: links_ok_def)
qed

lemma thread_alloc_cases:
  assumes "links_ok s"
  obtains (none) s1 where "thread_alloc s = (None, s1)" "links_ok s1" "kern_task s1 = kern_task s"
  | (some) th st rest s1 where "thread_alloc s = (Some th, s1)" "vpool (vm s) = th # st # rest"
      "lview s1 = ((fst (lview s))(th := (THREAD_MAGIC, None, st, None)), fst (snd (lview s)), task_list s, kern_task s,
        zombie s, rest)"
proof -
  consider "vpool (vm s) = []" | a where "vpool (vm s) = [a]" | th st rest where "vpool (vm s) = th # st # rest"
    by (cases "vpool (vm s)" rule: remdups_adj.cases) auto
  then show ?thesis
  proof cases
    case 1
    then show ?thesis using assms none
      by (simp add: thread_alloc_def kmem_alloc_block_def vm_kmem_alloc_def)
  next
    case 2
    then have "thread_alloc s = (None, s\<lparr>vm := (vm s)\<lparr>vpool := [a]\<rparr>\<rparr>)"
      by (simp add: thread_alloc_def kmem_alloc_block_def vm_kmem_alloc_def kmem_free_block_def vm_kmem_free_def)
    moreover have "lview (s\<lparr>vm := (vm s)\<lparr>vpool := [a]\<rparr>\<rparr>) = lview s" using 2 by (simp add: lview_def)
    ultimately show ?thesis using none [OF _ lview_links [THEN iffD2, OF _ assms]] by simp
  next
    case 3
    define s1 where "s1 = upd_thread th (\<lambda>_. zero_thread\<lparr>kstack := st, th_magic := THREAD_MAGIC\<rparr>)
      (upd_timer (ThreadTimeout th) (\<lambda>_. zero_timer) (s\<lparr>vm := (vm s)\<lparr>vpool := rest\<rparr>\<rparr>))"
    have "thread_alloc s = (Some th, s1)" using 3 by (simp add: thread_alloc_def kmem_alloc_block_def vm_kmem_alloc_def s1_def)
    moreover have "lview s1 = ((fst (lview s))(th := (THREAD_MAGIC, None, st, None)), fst (snd (lview s)), task_list s, kern_task s,
        zombie s, rest)"
      by (auto simp: s1_def lview_def upd_thread_def upd_timer_def zero_thread_def)
    ultimately show ?thesis using some 3 by blast
  qed
qed

lemma lview_set_task:
  assumes "\<And>x. th_magic (f x) = th_magic x" "\<And>x. th_task (f x) = Some t" "\<And>x. kstack (f x) = kstack x"
    "\<And>x. periodic (f x) = periodic x"
  shows "lview (upd_thread th f s) = ((fst (lview s))(th := (th_magic (threads s th), Some t, kstack (threads s th),
    periodic (threads s th))), snd (lview s))"
  using assms by (auto simp: lview_def upd_thread_def)

lemma lview_append:
  "lview (upd_task t (tk_threads_update f) s) =
    (fst (lview s), (fst (snd (lview s)))(t := (tk_magic (tasks s t), f (tk_threads (tasks s t)))), snd (snd (lview s)))"
  by (auto simp: lview_def upd_task_def)

lemma thread_setup_added:
  assumes "lview s1 = ((fst (lview s))(th := (THREAD_MAGIC, None, st, None)), fst (snd (lview s)), task_list s, kern_task s,
    zombie s, rest)"
  shows "added th st rest t (tk_threads (tasks s t) @ [th]) s (thread_setup th t s1)"
proof -
  define s2 where "s2 = upd_thread th (\<lambda>x. x\<lparr>th_task := Some t, suscnt := tk_suscnt (tasks s1 t) + 1\<rparr>) s1"
  define s4 where "s4 = context_set th (CTX_KENTRY SyscallRet) (context_set th (CTX_KSTACK
    (kstack (threads (upd_ctx th (uframe_update (\<lambda>_. uframe (ctx (cur s2)))) s2) th) + KSTACK_SIZE))
    (upd_ctx th (uframe_update (\<lambda>_. uframe (ctx (cur s2)))) s2))"
  have a: "th_magic (threads s1 th) = THREAD_MAGIC" "kstack (threads s1 th) = st" "periodic (threads s1 th) = None"
    "tk_magic (tasks s1 u) = tk_magic (tasks s u)" "tk_threads (tasks s1 u) = tk_threads (tasks s u)" for u
    by (simp_all add: lview_fieldsD [OF assms])
  have "lview s2 = ((fst (lview s))(th := (THREAD_MAGIC, Some t, st, None)), fst (snd (lview s)), task_list s, kern_task s,
      zombie s, rest)"
    unfolding s2_def by (subst lview_set_task) (auto simp: assms a)
  moreover have l4: "lview s4 = lview s2" by (simp add: s4_def upd_ctx_def lview_upd_thread)
  moreover have "tk_magic (tasks s4 t) = tk_magic (tasks s t)" "tk_threads (tasks s4 t) = tk_threads (tasks s t)"
    using l4 lview_eqD(5,6) [OF l4, of t] a(4,5) [of t] by (simp_all add: s2_def upd_thread_def)
  moreover have "thread_setup th t s1 = sched_start th (upd_task t (tk_threads_update (\<lambda>ths. ths @ [th])) s4)"
    by (simp add: thread_setup_def Let_def s2_def s4_def)
  ultimately show ?thesis unfolding added_def by (simp add: lview_append)
qed

lemma added_undo:
  assumes "lview s1 = ((fst (lview s))(th := (THREAD_MAGIC, None, st, None)), fst (snd (lview s)), task_list s, kern_task s,
    zombie s, rest)" "vpool (vm s) = th # st # rest" "links_ok s"
  shows "links_ok (thread_free th s1)"
proof -
  let ?f = "thread_free th s1"
  have st: "kstack (threads s1 th) = st" by (simp add: lview_fieldsD [OF assms(1)])
  have lf: "lview ?f = ((fst (lview s))(th := (0, None, st, None)), fst (snd (lview s)), task_list s, kern_task s, zombie s, th # st # rest)"
    unfolding lview_def [of ?f]
    by (auto simp: thread_free_def upd_thread_def kmem_free_block_def vm_kmem_free_def Let_def st lview_fieldsD [OF assms(1)])
  have f: "th_magic (threads ?f x) = (if x = th then 0 else th_magic (threads s x))"
    "x \<noteq> th \<Longrightarrow> th_task (threads ?f x) = th_task (threads s x)" "x \<noteq> th \<Longrightarrow> kstack (threads ?f x) = kstack (threads s x)"
    "x \<noteq> th \<Longrightarrow> periodic (threads ?f x) = periodic (threads s x)"
    "tk_magic (tasks ?f u) = tk_magic (tasks s u)" "tk_threads (tasks ?f u) = tk_threads (tasks s u)"
    "task_list ?f = task_list s" "kern_task ?f = kern_task s" "zombie ?f = zombie s" "vpool (vm ?f) = vpool (vm s)" for x u
    by (simp_all add: lview_fieldsD [OF lf] assms(2))
  have b: "blocks_ok s" and l: "lists_ok s" using assms(3) by (simp_all add: links_ok_def)
  have nv: "\<not> thread_valid s th" using blocksD(4) [OF b, of th] assms(2) hold_self [of th s] by auto
  have v: "thread_valid ?f = thread_valid s" using nv by (auto simp: thread_valid_def f(1) fun_eq_iff magic_defs)
  have h: "hold ?f x = hold s x" "th_task (threads ?f x) = th_task (threads s x)" if "thread_valid s x" for x
  proof -
    have "x \<noteq> th" using nv that by auto
    then show "hold ?f x = hold s x" "th_task (threads ?f x) = th_task (threads s x)" using f(2-4) [of x] by (simp_all add: hold_def)
  qed
  have "zombie s \<noteq> Some th" using blocksD(8) [OF b] assms(2) by (auto simp: zombie_hold_def)
  then have z: "zombie_hold ?f = zombie_hold s" by (auto simp: zombie_hold_def f split: option.split)
  have lt: "live_task ?f = live_task s" "task_valid ?f = task_valid s"
    by (simp_all add: live_task_def task_valid_def fun_eq_iff f)
  show ?thesis using b l unfolding links_ok_def lists_ok_def blocks_ok_def lt v z f(6,10) by (simp add: h cong: conj_cong imp_cong)
qed

lemma links_live: "links_ok s \<Longrightarrow> task_valid s t = live_task s t"
  by (simp add: links_ok_def lists_ok_def)

lemma thread_create_links:
  assumes "links_ok s0"
  shows "links_ok (snd (snd (thread_create t thp s0)))"
proof -
  define s where "s = sched_lock s0"
  have s: "links_ok s" unfolding s_def using assms lview_links lview_k_rest by metis
  have u: "links_ok (sched_unlock x) = links_ok x" for x by (rule lview_links) simp
  show ?thesis
  proof (cases "task_valid s t \<and> task_access t s")
    case False
    then show ?thesis using s u by (simp add: thread_create_def s_def [symmetric])
  next
    case True
    then have live: "live_task s t" using links_live [OF s] by simp
    from s show ?thesis
    proof (cases rule: thread_alloc_cases)
      case (none s1)
      then show ?thesis using True u by (simp add: thread_create_def s_def [symmetric])
    next
      case (some th st rest s1)
      obtain e s2 where co: "umem_copyout (le32 th) thp s1 = (e, s2)" by fastforce
      have l2: "lview s2 = lview s1" using mem_only_lview [OF umem_mem(1) [of s1 "le32 th" thp]] co by simp
      have add: "links_ok (thread_setup th t x)" if "lview x = lview s1" for x
        by (rule added_links [OF s some(2) live thread_setup_added])
          (use that some(3) in simp_all)
      have "links_ok (thread_free th s2)" by (rule added_undo [OF _ some(2) s]) (use l2 some(3) in simp)
      then show ?thesis using True some(1) add [OF refl] add [OF l2] by (simp add: thread_create_def s_def [symmetric] co u)
    qed
  qed
qed

lemma kthread_create_links:
  assumes "links_ok s"
  shows "links_ok (snd (kthread_create entry arg p s))"
  using assms
proof (cases rule: thread_alloc_cases)
  case (none s1)
  then show ?thesis by (simp add: kthread_create_def)
next
  case (some th st rest s1)
  define s2 where "s2 = upd_thread th (th_task_update (\<lambda>_. Some (kern_task s1))) s1"
  define s4 where "s4 = context_set th (CTX_KARG arg) (context_set th (CTX_KENTRY entry)
    (context_set th (CTX_KSTACK (kstack (threads s2 th) + KSTACK_SIZE)) s2))"
  note f = lview_fieldsD [OF some(3)]
  have l4: "lview s4 = lview s2" by (simp add: s4_def del: context_set.simps)
  have k: "kern_task s4 = kern_task s" using lview_eqD(8) [OF l4] f(8) by (simp add: s2_def upd_thread_def)
  have tk: "tk_magic (tasks s4 u) = tk_magic (tasks s u)" "tk_threads (tasks s4 u) = tk_threads (tasks s u)" for u
    using lview_eqD(5,6) [OF l4, of u] f(5,6) [of u] by (simp_all add: s2_def upd_thread_def)
  have l2: "lview s2 = ((fst (lview s))(th := (THREAD_MAGIC, Some (kern_task s), st, None)), fst (snd (lview s)), task_list s,
      kern_task s, zombie s, rest)"
    unfolding s2_def by (subst lview_set_task) (auto simp: some(3) f)
  define s5 where "s5 = upd_task (kern_task s4) (tk_threads_update (\<lambda>ths. th # ths)) s4"
  have a: "added th st rest (kern_task s) (th # tk_threads (tasks s (kern_task s))) s s5"
    unfolding added_def s5_def lview_append l4 l2 k tk by simp
  have "links_ok s5"
    by (rule added_links [OF assms some(2) _ a]) (simp_all add: live_task_def)
  moreover have "lview (snd (kthread_create entry arg p s)) = lview s5"
    using some(1) by (simp add: kthread_create_def Let_def s2_def s4_def s5_def del: context_set.simps)
  ultimately show ?thesis using lview_links by blast
qed

section \<open>A thread is removed\<close>

text \<open>
  \<open>s'\<close> is \<open>s\<close> without the thread \<open>th\<close>: its periodic timer and the last zombie are free again, and \<open>th\<close> and its
  stack too, unless \<open>th\<close> was running and is the zombie now.
\<close>

definition removed :: "tid \<Rightarrow> bool \<Rightarrow> kstate \<Rightarrow> kstate \<Rightarrow> bool" where
  "removed th running s s' =
     (lview s' = (\<lambda>x. (if x = th \<or> zombie s = Some x then 0 else th_magic (threads s x), th_task (threads s x),
          kstack (threads s x), periodic (threads s x)),
        \<lambda>t. (tk_magic (tasks s t), remove1 th (tk_threads (tasks s t))), task_list s, kern_task s,
        if running then Some th else None,
        (if running then [] else [th, kstack (threads s th)]) @ zombie_hold s @ drop 2 (hold s th) @ vpool (vm s)))"

lemma removed_links:
  assumes "links_ok s" "thread_valid s th" "removed th running s s'"
  shows "links_ok s'"
proof -
  note f = lview_fieldsD [OF assms(3) [unfolded removed_def]]
  have b: "blocks_ok s" and l: "lists_ok s" using assms(1) by (simp_all add: links_ok_def)
  have nz: "\<not> thread_valid s z" if "zombie s = Some z" for z
    using blocksD(5) [OF b, of z] that hold_self [of z s] by (auto simp: zombie_hold_def)
  have v: "thread_valid s' x = (x \<noteq> th \<and> thread_valid s x)" for x
    using nz by (auto simp: thread_valid_def f magic_defs)
  have h: "hold s' x = hold s x" for x by (simp add: hold_def f)
  have z: "zombie_hold s' = (if running then take 2 (hold s th) else [])"
    by (simp add: zombie_hold_def f hold_def split: option.split)
  have p: "vpool (vm s') = (if running then [] else take 2 (hold s th)) @ zombie_hold s @ drop 2 (hold s th) @ vpool (vm s)"
    by (simp add: f hold_def)
  define A B where "A = take 2 (hold s th)" and "B = drop 2 (hold s th)"
  have hs: "set (hold s th) = set A \<union> set B" "distinct (A @ B)"
    using blocksD(3) [OF b assms(2)] append_take_drop_id [of 2 "hold s th"] unfolding A_def B_def by (metis set_append)+
  have o: "set (hold s x) \<inter> (set A \<union> set B) = {}" if "thread_valid s x" "x \<noteq> th" for x
    using blocksD(6) [OF b that(1) assms(2) that(2)] hs(1) by simp
  have mine: "(set A \<union> set B) \<inter> set (vpool (vm s)) = {}" "(set A \<union> set B) \<inter> set (zombie_hold s) = {}"
    "\<And>a. a \<in> set A \<union> set B \<Longrightarrow> kern_area a"
    using blocksD(4,5,9) [OF b assms(2)] hs(1) by auto
  have dis: "distinct (vpool (vm s'))" and zv: "set (zombie_hold s') \<inter> set (vpool (vm s')) = {}" "distinct (zombie_hold s')"
    unfolding p z A_def [symmetric] B_def [symmetric] using hs(2) mine blocksD(1,7,8) [OF b] by auto
  have area: "\<forall>a \<in> set (vpool (vm s')). kern_area a" "\<forall>a \<in> set (zombie_hold s'). kern_area a"
    unfolding p z A_def [symmetric] B_def [symmetric] using mine(3) blocksD(2,10) [OF b] by auto
  have rest: "set (hold s x) \<inter> set (vpool (vm s')) = {} \<and> set (hold s x) \<inter> set (zombie_hold s') = {}"
    if "thread_valid s x" "x \<noteq> th" for x
    unfolding p z A_def [symmetric] B_def [symmetric] using o [OF that] blocksD(4,5) [OF b that(1)] by auto
  have "blocks_ok s'"
    using dis zv area rest blocksD(3,6,9) [OF b] unfolding blocks_ok_def v h by blast
  moreover have "lists_ok s'"
  proof -
    have lt: "live_task s' = live_task s" "task_valid s' = task_valid s"
      by (simp_all add: live_task_def task_valid_def fun_eq_iff f)
    have "x \<noteq> th \<longrightarrow> x \<in> set (remove1 th (tk_threads (tasks s t))) = (x \<in> set (tk_threads (tasks s t)))" for x t by auto
    then show ?thesis
      using l unfolding lists_ok_def lt v by (auto simp: f notin_set_remove1 set_remove1_eq)
  qed
  ultimately show ?thesis by (simp add: links_ok_def)
qed

lemma timer_cleanup_lview:
  "lview (timer_cleanup th s) = (fst (lview s), fst (snd (lview s)), task_list s, kern_task s, zombie s,
    drop 2 (hold s th) @ vpool (vm s))"
proof (cases "periodic (threads s th)")
  case (Some p)
  have "lview (timer_stop (Periodic p) s) = lview s" by simp
  from lview_eqD [OF this] show ?thesis using Some
    by (simp add: timer_cleanup_def kmem_free_block_def vm_kmem_free_def hold_def lview_def)
qed (simp add: timer_cleanup_def hold_def lview_def)

lemma do_terminate_removed:
  assumes "thread_valid s th" "blocks_ok s"
  shows "\<exists>running. removed th running s (do_terminate th s)"
proof -
  define s1 where "s1 = mutex_cleanup th (timer_cleanup th (msg_cleanup th s))"
  have m: "lview (msg_cleanup th s) = lview s" by simp
  have h: "hold (msg_cleanup th s) th = hold s th" by (simp add: hold_def lview_eqD [OF m])
  have l1: "lview s1 = (fst (lview s), fst (snd (lview s)), task_list s, kern_task s, zombie s,
      drop 2 (hold s th) @ vpool (vm s))"
    unfolding s1_def lview_mutex_cleanup timer_cleanup_lview m h lview_eqD [OF m] by simp
  define s2 where "s2 = sched_stop th (task_unlink th s1)"
  have "lview s2 = lview (task_unlink th s1)" by (simp add: s2_def)
  then have l2: "lview s2 = (fst (lview s), \<lambda>t. (tk_magic (tasks s t), remove1 th (tk_threads (tasks s t))), task_list s,
      kern_task s, zombie s, drop 2 (hold s th) @ vpool (vm s))"
    using lview_fieldsD [OF l1] by (auto simp: lview_def task_unlink_def)
  define s3 where "s3 = upd_thread th (\<lambda>t. t\<lparr>excbits := 0, th_magic := 0\<rparr>) s2"
  define s4 where "s4 = (case zombie s3 of None \<Rightarrow> s3 | Some z \<Rightarrow> (thread_free z s3)\<lparr>zombie := None\<rparr>)"
  have z3: "zombie s3 = zombie s" using lview_fieldsD(9) [OF l2] by (simp add: s3_def upd_thread_def)
  have k: "kstack (threads s2 x) = kstack (threads s x)" for x using lview_fieldsD(3) [OF l2] by simp
  have l4: "lview s4 = (\<lambda>x. (if x = th \<or> zombie s = Some x then 0 else th_magic (threads s x), th_task (threads s x),
        kstack (threads s x), periodic (threads s x)), \<lambda>t. (tk_magic (tasks s t), remove1 th (tk_threads (tasks s t))),
      task_list s, kern_task s, None, zombie_hold s @ drop 2 (hold s th) @ vpool (vm s))"
    unfolding s4_def z3 lview_def [of "case zombie s of None \<Rightarrow> s3 | Some z \<Rightarrow> (thread_free z s3)\<lparr>zombie := None\<rparr>"]
    by (auto simp: lview_fieldsD [OF l2] s3_def upd_thread_def thread_free_def kmem_free_block_def vm_kmem_free_def
        zombie_hold_def Let_def fun_eq_iff k split: option.split)
  have "do_terminate th s = (if th = cur_thread s4 then s4\<lparr>zombie := Some th\<rparr> else thread_free th s4)"
    unfolding do_terminate_def Let_def s4_def s3_def s2_def s1_def by (rule refl)
  moreover have "removed th True s (s4\<lparr>zombie := Some th\<rparr>)"
    unfolding removed_def using lview_fieldsD [OF l4] by (auto simp: lview_def)
  moreover have "removed th False s (thread_free th s4)"
    unfolding removed_def using lview_fieldsD [OF l4]
    by (auto simp: lview_def thread_free_def upd_thread_def kmem_free_block_def vm_kmem_free_def Let_def fun_eq_iff)
  ultimately show ?thesis by metis
qed

lemma do_terminate_links:
  assumes "links_ok s" "thread_valid s th"
  shows "links_ok (do_terminate th s)"
  using do_terminate_removed [OF assms(2)] removed_links [OF assms] assms(1) by (auto simp: links_ok_def)

section \<open>The calls\<close>

lemma lview_lock_links:
  assumes "links_ok s" "lview s' = lview s"
  shows "links_ok s'" "links_ok (sched_unlock s')"
  using assms lview_links [of s' s] lview_links [of "sched_unlock s'" s'] by simp_all

lemma terminate_links:
  assumes "links_ok s"
  shows "links_ok (snd (thread_terminate th s))" "thread_valid s th \<Longrightarrow> links_ok (kthread_terminate th s)"
proof -
  have l: "links_ok (sched_lock s)" by (rule lview_lock_links(1) [OF assms]) simp
  have u: "links_ok (sched_unlock x) = links_ok x" for x by (rule lview_links) simp
  have v: "thread_valid (sched_lock s) = thread_valid s" by (rule thread_valid_rest) simp
  show "links_ok (snd (thread_terminate th s))" "thread_valid s th \<Longrightarrow> links_ok (kthread_terminate th s)"
    using l do_terminate_links [OF l, of th] v by (simp_all add: thread_terminate_def kthread_terminate_def Let_def u)
qed

lemma lview_prio_inherit_loop: "lview (snd (prio_inherit_loop n w m s)) = lview s"
  by (induction n arbitrary: m s) (simp_all add: Let_def split: option.split)

lemma lview_calls:
  "lview (snd (thread_load th e st s)) = lview s" "lview (snd (thread_suspend th s)) = lview s"
  "lview (snd (thread_resume th s)) = lview s" "lview (snd (thread_name th nm s)) = lview s"
  by (simp_all add: thread_load_def thread_suspend_def thread_resume_def thread_name_def Let_def lview_upd_thread
      del: context_set.simps split: option.split prod.split)

lemma lview_set_prio: "lview (snd (set_prio th p s)) = lview s"
proof -
  have "lview (snd (mutex_setprio th q s)) = lview s" for q
    by (simp add: mutex_setprio_def prio_inherit_def lview_prio_inherit_loop del: prio_inherit_loop.simps split: option.split)
  then have "lview s1 = lview s" if "mutex_setprio th q s = (r, s1)" for q r s1 using that by (metis snd_conv)
  then show ?thesis by (auto simp: set_prio_def Let_def split: prod.split option.split)
qed

lemma lview_schedparam: "lview (snd (thread_schedparam th op param s)) = lview s"
proof -
  have c: "lview (snd (umem_copyout bs a x)) = lview x" for bs a x by (rule mem_only_lview) simp
  then have "lview x' = lview x" if "umem_copyout bs a x = (e, x')" for bs a x e x' using that by (metis snd_conv)
  moreover have "lview x' = lview x" if "sched_setpolicy th q x = (e, x')" for q x e x' using that lview_sched(2) by (metis snd_conv)
  ultimately have "lview (snd (schedparam_op th op param x)) = lview x" for x
    using lview_set_prio by (auto simp: schedparam_op_def split: prod.split option.split)
  then have "lview x' = lview x" if "schedparam_op th op param x = (e, x')" for x e x' using that by (metis snd_conv)
  then show ?thesis by (auto simp: thread_schedparam_def Let_def split: prod.split)
qed

lemma periodic_links:
  assumes "links_ok s" "thread_valid s th" "periodic (threads s th) = None" "vpool (vm s) = p # rest"
    and l: "lview s' = ((fst (lview s))(th := (th_magic (threads s th), th_task (threads s th), kstack (threads s th), Some p)),
      fst (snd (lview s)), task_list s, kern_task s, zombie s, rest)"
  shows "links_ok s'"
proof -
  note f = lview_fieldsD [OF l]
  have b: "blocks_ok s" and li: "lists_ok s" using assms(1) by (simp_all add: links_ok_def)
  have eq: "thread_valid s' = thread_valid s" "live_task s' = live_task s" "task_valid s' = task_valid s"
    "zombie_hold s' = zombie_hold s"
    by (auto simp: thread_valid_def live_task_def task_valid_def zombie_hold_def fun_eq_iff f split: option.split)
  have h: "hold s' x = (if x = th then hold s th @ [p] else hold s x)" for x
    using assms(3) by (simp add: hold_def f)
  have "th_task (threads s' x) = th_task (threads s x)" "tk_threads (tasks s' t) = tk_threads (tasks s t)" for x t by (simp_all add: f)
  then have "lists_ok s'" using li by (simp add: lists_ok_def eq)
  moreover have "blocks_ok s'"
    unfolding blocks_ok_def eq h f(10) using blocksD [OF b] assms(2,4) by auto
  ultimately show ?thesis by (simp add: links_ok_def)
qed

lemma timer_periodic_links:
  assumes "links_ok s0"
  shows "links_ok (snd (timer_periodic th start period s0))"
proof -
  define s where "s = sched_lock s0"
  have s: "links_ok s" unfolding s_def by (rule lview_lock_links(1) [OF assms]) simp
  have u: "links_ok (sched_unlock x) = links_ok x" for x by (rule lview_links) simp
  have pp: "lview (periodic_program p a b x) = lview x" for p a b x by (simp add: periodic_program_def Let_def)
  show ?thesis
  proof (cases "thread_valid s th \<and> th_task (threads s th) = cur_task s \<and> start \<noteq> 0 \<and> period \<noteq> 0 \<and>
      periodic (threads s th) = None \<and> vpool (vm s) \<noteq> []")
    case True
    then obtain p rest where v: "vpool (vm s) = p # rest" by (cases "vpool (vm s)") auto
    let ?s5 = "upd_thread th (periodic_update (\<lambda>_. Some p)) (upd_timer (Periodic p) (tm_active_update (\<lambda>_. True))
      (event_init (PeriodicEvent p) (s\<lparr>vm := (vm s)\<lparr>vpool := rest\<rparr>\<rparr>)))"
    have "links_ok ?s5"
      by (rule periodic_links [OF s _ _ v]) (use True in \<open>auto simp: lview_def upd_thread_def upd_timer_def event_init_def\<close>)
    then have "links_ok (periodic_program p start period ?s5)" using lview_lock_links(1) pp by blast
    then show ?thesis using True v
      by (simp add: timer_periodic_def s_def [symmetric] kmem_alloc_block_def vm_kmem_alloc_def Let_def u)
  next
    case False
    have "links_ok (periodic_program p a b s)" "links_ok (timer_stop r s)" for p a b r
      using lview_lock_links(1) [OF s] pp by simp_all
    then show ?thesis using False assms s
      by (auto simp: timer_periodic_def s_def [symmetric] kmem_alloc_block_def vm_kmem_alloc_def Let_def u split: option.split list.split)
  qed
qed

text \<open>What threads, the clock and the interrupts do: the calls above, and scheduling, which keeps all but its own variables.\<close>

inductive th_step :: "kstate \<Rightarrow> kstate \<Rightarrow> bool" where
  Create: "th_step s (snd (snd (thread_create t thp s)))"
| Terminate: "th_step s (snd (thread_terminate th s))"
| Kcreate: "th_step s (snd (kthread_create entry arg p s))"
| Kterminate: "thread_valid s th \<Longrightarrow> th_step s (kthread_terminate th s)"
| Load: "th_step s (snd (thread_load th entry stack s))"
| Name: "th_step s (snd (thread_name th nm s))"
| Suspend: "th_step s (snd (thread_suspend th s))"
| Resume: "th_step s (snd (thread_resume th s))"
| Schedparam: "th_step s (snd (thread_schedparam th op param s))"
| Period: "th_step s (snd (timer_periodic th start period s))"
| Sched: "k_rest s' = k_rest s \<Longrightarrow> th_step s s'"

lemma th_step_links: "th_step s s' \<Longrightarrow> links_ok s \<Longrightarrow> links_ok s'"
proof (induction rule: th_step.induct)
  case (Sched s' s)
  then show ?case using lview_links [OF k_rest_lview] by blast
qed (simp_all add: thread_create_links terminate_links kthread_create_links timer_periodic_links
    lview_links [OF lview_calls(1)] lview_links [OF lview_calls(2)] lview_links [OF lview_calls(3)]
    lview_links [OF lview_calls(4)] lview_links [OF lview_schedparam])

text \<open>
  C4: The pointers between tasks, threads and memory keep their types. Through any sequence of thread calls
  and scheduling, a thread on the list of a task is a live thread of that task and is on it once, every
  live thread is on the list of its own task, and the memory of live threads and of the last thread
  that ended is neither shared nor free.
\<close>

theorem thread_links:
  assumes "links_ok s" and "th_step\<^sup>*\<^sup>* s s'"
  shows "links_ok s'"
  using assms(2,1) by (induction rule: rtranclp_induct) (auto intro: th_step_links)

text \<open>The example state with a kernel stack for each thread.\<close>

definition demo_links :: kstate where
  "demo_links = demo_state\<lparr>threads := \<lambda>x. (threads demo_state x)\<lparr>kstack := x + 0x10000\<rparr>\<rparr>"

lemma demo_links_ok: "links_ok demo_links"
proof -
  have v: "thread_valid demo_links x = (x \<in> {0x80001000, 0x80002000, 0x80003000, 0x80004000})" for x
    using demo_valid [of x] by (simp add: thread_valid_def demo_links_def)
  have p: "periodic (threads demo_links x) = None" for x
    by (simp add: demo_links_def demo_state_def demo_thread_def zero_thread_def)
  have h: "hold demo_links x = [x, x + 0x10000]" for x by (simp add: hold_def p) (simp add: demo_links_def)
  have z: "zombie_hold demo_links = []" by (simp add: zombie_hold_def demo_links_def demo_proj)
  have pool: "vpool (vm demo_links) = [0x80007000, 0x80008000, 0x80009000, 0x8000a000]"
    by (simp add: demo_links_def demo_proj demo_vm_def)
  have "blocks_ok demo_links" unfolding blocks_ok_def v h z pool by (auto simp: kern_area_def PAGE_OFFSET_def)
  moreover have "lists_ok demo_links"
  proof -
    have lt: "live_task demo_links t = (t \<in> {0x80000100, 0x80000200})" for t
      by (auto simp: live_task_def demo_links_def demo_proj)
    have tv: "task_valid demo_links t = (t \<in> {0x80000100, 0x80000200})" for t
      by (auto simp: task_valid_def demo_links_def demo_state_def demo_task_def zero_task_def kern_area_def PAGE_OFFSET_def magic_defs)
    have tk: "tk_threads (tasks demo_links 0x80000100) = [0x80001000]"
      "tk_threads (tasks demo_links 0x80000200) = [0x80002000, 0x80003000, 0x80004000]"
      by (simp_all add: demo_links_def demo_state_def demo_task_def)
    have tt: "th_task (threads demo_links 0x80001000) = Some 0x80000100" "th_task (threads demo_links 0x80002000) = Some 0x80000200"
      "th_task (threads demo_links 0x80003000) = Some 0x80000200" "th_task (threads demo_links 0x80004000) = Some 0x80000200"
      by (simp_all add: demo_links_def demo_state_def demo_thread_def)
    show ?thesis unfolding lists_ok_def lt tv v by (auto simp: tk tt)
  qed
  ultimately show ?thesis by (simp add: links_ok_def)
qed

theorem thread_links_witness:
  "links_ok demo_links \<and> links_ok (snd (thread_terminate 0x80003000 (snd (snd (thread_create 0x80000200 0x1000 demo_links)))))"
proof -
  have "th_step\<^sup>*\<^sup>* demo_links (snd (thread_terminate 0x80003000 (snd (snd (thread_create 0x80000200 0x1000 demo_links)))))"
    by (meson Create Terminate converse_rtranclp_into_rtranclp r_into_rtranclp)
  from thread_links [OF demo_links_ok this] show ?thesis using demo_links_ok by simp
qed

end
