(* ===== verification/Boot.thy ===== *)
theory Boot
  imports System Thread_Links
begin

text \<open>
  The invariants at the start of the kernel: from zeroed storage, \<^verbatim>\<open>task_init\<close>, \<^verbatim>\<open>thread_init\<close>, \<^verbatim>\<open>sched_init\<close> and
  \<^verbatim>\<open>timer_init\<close> (in the order of \<^verbatim>\<open>main\<close>) reach a state that satisfies what the theorems of the scheduler
  and of the thread calls assume.
\<close>

section \<open>A new thread for the scheduler\<close>

definition born :: "thread \<Rightarrow> bool" where
  "born x = (th_magic x = THREAD_MAGIC \<and> state x = (TH_RUN OR TH_SUSPEND) \<and> prio x < NPRIO \<and> \<not> resched x)"

lemma born_wf:
  assumes "sched_wf s" "\<not> thread_valid s th" "kern_area th" "th \<noteq> cur_thread s" "born x"
  shows "sched_wf (upd_thread th (\<lambda>_. x) s)" (is "sched_wf ?s")
proof -
  have c: "sched_core {} s" "preempt_ok s" "cur_thread s \<noteq> 0" using assms(1) by (auto simp: sched_wf_def)
  have f: "cur_thread ?s = cur_thread s" "idle_thread ?s = idle_thread s" "runq ?s = runq s" "wakeq ?s = wakeq s"
    "sleepq ?s = sleepq s" "top_prio ?s = top_prio s" "threads ?s = (threads s)(th := x)"
    by (simp_all add: upd_thread_def)
  have v: "thread_valid ?s y = (y = th \<or> thread_valid s y)" for y using assms(3,5) by (simp add: thread_valid_def f born_def)
  have r: "ready ?s y = ready s y" for y using assms(2,5) by (auto simp: ready_def v f born_def flag_simps)
  have a: "thread_valid s y \<Longrightarrow> asleep ?s y = asleep s y" "\<not> asleep ?s th" for y
    using assms(2,5) by (auto simp: asleep_def f born_def flag_simps)
  have u: "thread_valid s y \<Longrightarrow> y \<noteq> th" for y using assms(2) by blast
  have "runq_ok ?s" using c(1) u unfolding sched_core_def runq_ok_def r f by (auto simp: ready_def)
  moreover have "wait_ok ?s" using c(1) u a unfolding sched_core_def wait_ok_def v f by auto
  moreover have "linked_ok {} ?s" using c(1) u a unfolding sched_core_def linked_ok_def r v f by (auto simp: ready_def)
  moreover have "attr_ok ?s" using c(1) u assms(4,5) unfolding sched_core_def attr_ok_def v f by (auto simp: born_def)
  moreover have "top_ok ?s" using c(1) by (simp add: sched_core_def top_ok_iff f)
  moreover have "preempt_ok ?s" using c(2) assms(4) by (simp add: preempt_ok_def f)
  ultimately show ?thesis using c(3) by (simp add: sched_wf_def sched_core_def f)
qed

text \<open>The state before the last step of \<^verbatim>\<open>kthread_create\<close>, where the new thread is still suspended.\<close>

definition newborn :: "nat \<Rightarrow> thread" where
  "newborn p = zero_thread\<lparr>th_magic := THREAD_MAGIC, state := TH_RUN OR TH_SUSPEND, prio := p\<rparr>"

lemma kthread_create_steps:
  assumes "vpool (vm s) = th # st # rest" "th \<noteq> cur_thread s"
  obtains s1 where "kthread_create e a p s = (Some th, sched_resume th s1)" "sched_same (upd_thread th (\<lambda>_. newborn p) s) s1"
    "vpool (vm s1) = rest" "kern_task s1 = kern_task s" 
    "\<And>x. x \<noteq> th \<Longrightarrow> th_task (threads s1 x) = th_task (threads s x) \<and> locks (threads s1 x) = locks (threads s x)"
proof -
  have ns: "TH_RUN OR TH_SUSPEND \<noteq> TH_RUN" by (simp add: TH_RUN_def TH_SUSPEND_def)
  define s1 where "s1 = sched_setprio th p p (snd (sched_setpolicy th SCHED_FIFO (sched_start th (upd_task (kern_task s)
      (tk_threads_update (\<lambda>ths. th # ths)) (context_set th (CTX_KARG a) (context_set th (CTX_KENTRY e) (context_set th
      (CTX_KSTACK (st + KSTACK_SIZE)) (upd_thread th (th_task_update (\<lambda>_. Some (kern_task s)))
      (upd_thread th (\<lambda>_. zero_thread\<lparr>kstack := st, th_magic := THREAD_MAGIC\<rparr>)
      (upd_timer (ThreadTimeout th) (\<lambda>_. zero_timer) (s\<lparr>vm := (vm s)\<lparr>vpool := rest\<rparr>\<rparr>)))))))))))"
  have k: "kthread_create e a p s = (Some th, sched_resume th s1)"
    using assms(1)
    by (simp add: kthread_create_def thread_alloc_def kmem_alloc_block_def vm_kmem_alloc_def Let_def upd_ctx_def upd_task_def
        upd_timer_def upd_thread_def s1_def comp_def)
  show ?thesis
    by (rule that [OF k]; use assms(2) ns in \<open>simp add: s1_def sched_setprio_def sched_setpolicy_def sched_start_def upd_ctx_def
      upd_task_def upd_thread_def upd_timer_def sched_same_def newborn_def zero_thread_def Let_def\<close>)
qed

text \<open>
  The state while the kernel starts: the boot thread \<open>idle\<close> runs with the scheduler locked, \<open>K\<close> are the kernel
  threads that are ready, with their priorities.
\<close>

definition boot_inv :: "tid \<Rightarrow> nat list \<Rightarrow> (tid \<times> nat) set \<Rightarrow> kstate \<Rightarrow> bool" where
  "boot_inv idle pool K s =
     (sched_wf s \<and> links_ok s \<and> cur_thread s = idle \<and> thread_valid s idle \<and> locks (threads s idle) = 1 \<and>
      th_task (threads s idle) = Some (kern_task s) \<and> vpool (vm s) = pool \<and> sleepq s = (\<lambda>_. []) \<and>
      (\<forall>(th, p) \<in> K. ready s th \<and> prio (threads s th) = p))"

lemma sched_resume_new:
  assumes "state (threads s th) = (TH_RUN OR TH_SUSPEND)"
  shows "cur_thread (sched_resume th s) = cur_thread s" "sleepq (sched_resume th s) = sleepq s"
    "state (threads (sched_resume th s) x) = (if x = th then TH_RUN else state (threads s x))"
    "locks (threads (sched_resume th s) x) = locks (threads s x)"
proof -
  have "(TH_RUN OR TH_SUSPEND) AND TH_SUSPEND \<noteq> 0" "(TH_RUN OR TH_SUSPEND) AND NOT TH_SUSPEND = TH_RUN"
    by (simp_all add: TH_RUN_def TH_SUSPEND_def)
  then show "cur_thread (sched_resume th s) = cur_thread s" "sleepq (sched_resume th s) = sleepq s"
    "state (threads (sched_resume th s) x) = (if x = th then TH_RUN else state (threads s x))"
    "locks (threads (sched_resume th s) x) = locks (threads s x)"
    using assms by (simp_all add: sched_resume_def runq_enqueue_def Let_def upd_thread_def)
qed

lemma kthread_create_boot:
  assumes "boot_inv idle (th # st # rest) K s" "p < NPRIO"
  shows "\<exists>s'. kthread_create e a p s = (Some th, s') \<and> boot_inv idle rest (insert (th, p) K) s'"
proof -
  have i: "sched_wf s" "links_ok s" "cur_thread s = idle" "thread_valid s idle" "locks (threads s idle) = 1"
    "th_task (threads s idle) = Some (kern_task s)" "vpool (vm s) = th # st # rest" "sleepq s = (\<lambda>_. [])"
    and K: "\<And>x q. (x, q) \<in> K \<Longrightarrow> ready s x \<and> prio (threads s x) = q"
    using assms(1) by (auto simp: boot_inv_def)
  have b: "blocks_ok s" using i(2) by (simp add: links_ok_def)
  have nv: "\<not> thread_valid s th" and ka: "kern_area th"
    using blocksD(4) [OF b, of th] blocksD(2) [OF b, of th] i(7) hold_self [of th s] by auto
  have nc: "th \<noteq> cur_thread s" using nv i(3,4) by auto
  obtain s1 where s1: "kthread_create e a p s = (Some th, sched_resume th s1)"
    and sm: "sched_same (upd_thread th (\<lambda>_. newborn p) s) s1" and s1': "vpool (vm s1) = rest" "kern_task s1 = kern_task s"
    "\<And>x. x \<noteq> th \<Longrightarrow> th_task (threads s1 x) = th_task (threads s x) \<and> locks (threads s1 x) = locks (threads s x)"
    using kthread_create_steps [OF i(7) nc] by blast
  let ?s = "sched_resume th s1"
  have f: "cur_thread s1 = idle" "sleepq s1 = sleepq s" "th_magic (threads s1 x) = (if x = th then THREAD_MAGIC else th_magic (threads s x))"
    "state (threads s1 x) = (if x = th then TH_RUN OR TH_SUSPEND else state (threads s x))"
    "prio (threads s1 x) = (if x = th then p else prio (threads s x))" for x
    using sm i(3) by (simp_all add: sched_same_def newborn_def upd_thread_def)
  have "born (newborn p)" using assms(2) by (simp add: born_def newborn_def zero_thread_def)
  then have w1: "sched_wf s1" using sched_same_wf [OF sm] born_wf [OF i(1) nv ka nc] by simp
  have v1: "thread_valid s1 x = (x = th \<or> thread_valid s x)" for x using ka by (simp add: thread_valid_def f)
  have st1: "state (threads s1 th) = (TH_RUN OR TH_SUSPEND)" using f(4) by simp
  note r = sched_resume_new [OF st1]
  have kr: "k_rest ?s = k_rest s1" by simp
  note k = k_restD [OF kr] th_own_eqD [OF k_rest_threads [OF kr]] thread_valid_rest [OF kr]
  have "sched_wf ?s" by (rule sched_resume_wf [OF w1]) (use v1 nc f(1) i(3) in auto)
  moreover have "links_ok ?s" using kthread_create_links [OF i(2), of e a p] s1 by simp
  moreover have "ready ?s x \<and> prio (threads ?s x) = q" if "(x, q) \<in> insert (th, p) K" for x q
    using that K [of x q] nc nv by (auto simp: ready_def r k f v1 i(3))
  ultimately have "boot_inv idle rest (insert (th, p) K) ?s"
    unfolding boot_inv_def using i s1' nc by (auto simp: r k f v1)
  then show ?thesis using s1 by blast
qed

lemma boot_inv_same:
  assumes "boot_inv idle pool K s" "sched_same s s'" "lview s' = lview s" "locks (threads s' idle) = locks (threads s idle)"
  shows "boot_inv idle pool K s'"
proof -
  have "ready s' = ready s" "thread_valid s' = thread_valid s" using sched_same_proj [OF assms(2)] by simp_all
  moreover have "cur_thread s' = cur_thread s" "sleepq s' = sleepq s" "\<And>x. prio (threads s' x) = prio (threads s x)"
    using assms(2) by (simp_all add: sched_same_def)
  ultimately show ?thesis
    using assms(1,4) sched_same_wf [OF assms(2)] lview_links [OF assms(3)] lview_eqD [OF assms(3)] by (simp add: boot_inv_def)
qed

lemma thread_name_boot:
  assumes "boot_inv idle pool K s" "thread_valid s th"
  shows "boot_inv idle pool K (snd (thread_name th (KName n) s))"
proof -
  let ?f = "th_name_update (\<lambda>_. snd (strlcpy (th_name (threads (sched_lock s) th)) n MAXTHNAME))"
  have c: "cur_thread s = idle" "locks (threads s idle) = 1" "th_task (threads s idle) = Some (kern_task s)"
    using assms(1) by (auto simp: boot_inv_def)
  have "cur_task (sched_lock s) = Some (kern_task (sched_lock s))"
    using c by (simp add: cur_task_def kproj)
  moreover have "thread_valid (sched_lock s) th" using assms(2) thread_valid_rest [OF queue_ops_rest(7), of s] by simp
  ultimately have "snd (thread_name th (KName n) s) = sched_unlock (upd_thread th ?f (sched_lock s))"
    by (simp add: thread_name_def Let_def)
  also have "\<dots> = upd_cur (locks_update (\<lambda>n. n - 1)) (upd_thread th ?f (sched_lock s))"
    by (rule sched_unlock_nested) (use c in \<open>auto simp: sched_lock_def upd_thread_def\<close>)
  finally have e: "snd (thread_name th (KName n) s) = upd_cur (locks_update (\<lambda>n. n - 1)) (upd_thread th ?f (sched_lock s))" .
  show ?thesis unfolding e
    by (rule boot_inv_same [OF assms(1)])
      (use c in \<open>auto simp: sched_same_def lview_def sched_lock_def upd_thread_def\<close>)
qed

lemma kthread_start_boot:
  assumes "boot_inv idle (th # st # rest) K s" "p < NPRIO" "kthread_create e a p s = (r, s')"
  shows "r = Some th" "boot_inv idle rest (insert (th, p) K) (snd (thread_name th (KName n) s'))"
proof -
  have k: "r = Some th" "boot_inv idle rest (insert (th, p) K) s'" using kthread_create_boot [OF assms(1,2), of e a] assms(3) by auto
  then have "thread_valid s' th" by (simp add: boot_inv_def ready_def)
  then show "r = Some th" "boot_inv idle rest (insert (th, p) K) (snd (thread_name th (KName n) s'))"
    using k thread_name_boot by blast+
qed

section \<open>From zeroed storage\<close>

text \<open>The kernel's own variables are zeroed and lie in its part of the address space, and the blocks are those of an empty heap.\<close>

definition boot_mem :: "tid \<Rightarrow> task_t \<Rightarrow> nat list \<Rightarrow> bool" where
  "boot_mem idle kt pool =
     (kern_area idle \<and> kern_area kt \<and> distinct (idle # (BOOTSTACK_TOP - KSTACK_SIZE) # pool) \<and> (\<forall>a \<in> set pool. kern_area a))"

definition boot0 :: "tid \<Rightarrow> task_t \<Rightarrow> vmstate \<Rightarrow> kstate" where
  "boot0 idle kt v = thread_init (task_init (sched_lock (zero_state idle kt v)))"

lemma boot0_fields:
  "x \<noteq> idle \<Longrightarrow> threads (boot0 idle kt v) x = zero_thread"
  "th_magic (threads (boot0 idle kt v) idle) = THREAD_MAGIC" "state (threads (boot0 idle kt v) idle) = TH_RUN"
  "prio (threads (boot0 idle kt v) idle) = PRIO_IDLE" "locks (threads (boot0 idle kt v) idle) = 1"
  "th_task (threads (boot0 idle kt v) idle) = Some kt" "kstack (threads (boot0 idle kt v) idle) = BOOTSTACK_TOP - KSTACK_SIZE"
  "periodic (threads (boot0 idle kt v) idle) = None"
  "cur_thread (boot0 idle kt v) = idle" "idle_thread (boot0 idle kt v) = idle" "kern_task (boot0 idle kt v) = kt"
  "task_list (boot0 idle kt v) = []" "zombie (boot0 idle kt v) = None" "vpool (vm (boot0 idle kt v)) = vpool v"
  "sleepq (boot0 idle kt v) = (\<lambda>_. [])" "tk_magic (tasks (boot0 idle kt v) t) = (if t = kt then TASK_MAGIC else 0)"
  "tk_threads (tasks (boot0 idle kt v) t) = (if t = kt then [idle] else [])"
  by (simp_all add: boot0_def thread_init_def task_init_def sched_lock_def zero_state_def upd_thread_def upd_task_def upd_ctx_def
      zero_task_def zero_thread_def Let_def)

text \<open>The state in which \<^verbatim>\<open>sched_init\<close> creates its thread.\<close>

definition boot1 :: "kstate \<Rightarrow> kstate" where
  "boot1 s = upd_cur (resched_update (\<lambda>_. True))
     ((event_init DpcEvent (s\<lparr>runq := (\<lambda>_. []), wakeq := [], dpcq := []\<rparr>))\<lparr>top_prio := PRIO_IDLE\<rparr>)"

lemma boot1_inv:
  assumes "boot_mem idle kt (vpool v)"
  shows "boot_inv idle (vpool v) {} (boot1 (boot0 idle kt v))" (is "boot_inv _ _ _ ?s")
proof -
  let ?b = "boot0 idle kt v"
  note z = boot0_fields [where idle = idle and kt = kt and v = v]
  have m: "kern_area idle" "kern_area kt" "idle \<noteq> BOOTSTACK_TOP - KSTACK_SIZE" using assms by (auto simp: boot_mem_def)
  have i0: "idle \<noteq> 0" using m(1) by (auto simp: kern_area_def PAGE_OFFSET_def)
  have f: "threads ?s = (threads ?b)(idle := resched_update (\<lambda>_. True) (threads ?b idle))" "cur_thread ?s = idle" "idle_thread ?s = idle"
    "runq ?s = (\<lambda>_. [])" "wakeq ?s = []" "sleepq ?s = (\<lambda>_. [])" "top_prio ?s = PRIO_IDLE" "kern_task ?s = kt"
    "vm ?s = vm ?b" "tasks ?s = tasks ?b" "task_list ?s = []" "zombie ?s = None"
    by (simp_all add: boot1_def event_init_def upd_thread_def z fun_eq_iff)
  have v: "thread_valid ?s x = (x = idle)" for x
    using m(1) by (cases "x = idle") (simp_all add: thread_valid_def f z(1,2) zero_thread_def magic_defs)
  have r: "\<not> ready ?s x" for x by (simp add: ready_def v f)
  have a: "\<not> asleep ?s idle" by (simp add: asleep_def f z TH_RUN_def)
  have "top_ok ?s" by (simp add: top_ok_iff f prio_defs)
  moreover have "attr_ok ?s" by (simp add: attr_ok_def v f z prio_defs)
  ultimately have "sched_wf ?s"
    using r a i0 by (simp add: sched_wf_def sched_core_def runq_ok_def wait_ok_def linked_ok_def preempt_ok_def v f)
  moreover have "links_ok ?s"
  proof -
    have l: "live_task ?s t = (t = kt)" "task_valid ?s t = (t = kt)" for t
      using m(2) by (auto simp: live_task_def task_valid_def f z magic_defs)
    have h: "hold ?s idle = [idle, BOOTSTACK_TOP - KSTACK_SIZE]" by (simp add: hold_def f z)
    have k: "kern_area (BOOTSTACK_TOP - KSTACK_SIZE)" by (simp add: kern_area_def PAGE_OFFSET_def BOOTSTACK_TOP_def KSTACK_SIZE_def)
    show ?thesis using assms m k
      by (simp add: links_ok_def lists_ok_def blocks_ok_def v l h zombie_hold_def f z boot_mem_def)
  qed
  ultimately show ?thesis by (simp add: boot_inv_def v f z)
qed

lemma sched_init_boot:
  assumes "boot_inv idle (th # st # rest) {} (boot1 s)"
  shows "\<exists>s1. sched_init s = Some s1 \<and> boot_inv idle rest {(th, PRIO_DPC)} s1"
proof -
  obtain r s2 where k: "kthread_create DpcThread 0 PRIO_DPC (boot1 s) = (r, s2)" by fastforce
  have p: "PRIO_DPC < NPRIO" by (simp add: prio_defs PRIO_DPC_def)
  have "sched_init s = Some (snd (thread_name th (KName (cstr ''dpc'')) s2))"
    using kthread_start_boot(1) [OF assms p k] k by (simp add: sched_init_def boot1_def Let_def)
  then show ?thesis using kthread_start_boot(2) [OF assms p k] by blast
qed

lemma timer_init_boot:
  assumes "boot_inv idle (th # st # rest) K s"
  shows "\<exists>s1. timer_init (exception_init s) = Some s1 \<and> boot_inv idle rest (insert (th, PRIO_TIMER) K) s1"
proof -
  let ?s = "event_init DelayEvent (event_init TimerEvent ((exception_init s)\<lparr>timer_list := [], expire_list := []\<rparr>))"
  have "sleepq s = (\<lambda>_. [])" using assms by (simp add: boot_inv_def)
  then have b: "boot_inv idle (th # st # rest) K ?s"
    by (intro boot_inv_same [OF assms]) (auto simp: sched_same_def lview_def event_init_def exception_init_def)
  obtain r s2 where k: "kthread_create TimerThread 0 PRIO_TIMER ?s = (r, s2)" by fastforce
  have p: "PRIO_TIMER < NPRIO" by (simp add: prio_defs PRIO_TIMER_def)
  have "timer_init (exception_init s) = Some (snd (thread_name th (KName (cstr ''timer'')) s2))"
    using kthread_start_boot(1) [OF b p k] k by (simp add: timer_init_def Let_def)
  then show ?thesis using kthread_start_boot(2) [OF b p k] by blast
qed

text \<open>
  C12: The kernel starts in a consistent state. From zeroed variables and a heap with memory for two threads,
  \<^verbatim>\<open>task_init\<close>, \<^verbatim>\<open>thread_init\<close>, \<^verbatim>\<open>sched_init\<close>, \<^verbatim>\<open>exception_init\<close> and \<^verbatim>\<open>timer_init\<close> do not panic; the scheduler's invariant and
  the typing of threads and tasks then hold, the boot thread runs, and the threads for deferred calls and for timers
  are ready at their priorities.
\<close>

theorem boot_invariants:
  assumes "boot_mem idle kt (vpool v)" and "vpool v = dpc # st1 # tmr # st2 # rest"
  shows "\<exists>s1 s2. sched_init (thread_init (task_init (sched_lock (zero_state idle kt v)))) = Some s1 \<and>
    timer_init (exception_init s1) = Some s2 \<and> sched_wf s2 \<and> links_ok s2 \<and> cur_thread s2 = idle \<and> vpool (vm s2) = rest \<and>
    ready s2 dpc \<and> prio (threads s2 dpc) = PRIO_DPC \<and> ready s2 tmr \<and> prio (threads s2 tmr) = PRIO_TIMER"
proof -
  have "boot_inv idle (dpc # st1 # tmr # st2 # rest) {} (boot1 (boot0 idle kt v))" using boot1_inv [OF assms(1)] assms(2) by simp
  from sched_init_boot [OF this] obtain s1 where s1: "sched_init (boot0 idle kt v) = Some s1"
    "boot_inv idle (tmr # st2 # rest) {(dpc, PRIO_DPC)} s1" by blast
  from timer_init_boot [OF s1(2)] obtain s2 where "timer_init (exception_init s1) = Some s2"
    "boot_inv idle rest {(tmr, PRIO_TIMER), (dpc, PRIO_DPC)} s2" by blast
  then show ?thesis using s1(1) by (simp add: boot_inv_def boot0_def)
qed

theorem boot_invariants_witness:
  "\<exists>s1 s2. sched_init (thread_init (task_init (sched_lock (zero_state 0x80001000 0x80000100 demo_vm)))) = Some s1 \<and>
    timer_init (exception_init s1) = Some s2 \<and> sched_wf s2 \<and> ready s2 0x80009000"
proof -
  have m: "boot_mem 0x80001000 0x80000100 (vpool demo_vm)"
    by (simp add: boot_mem_def demo_vm_def kern_area_def PAGE_OFFSET_def BOOTSTACK_TOP_def KSTACK_SIZE_def)
  have "vpool demo_vm = [0x80007000, 0x80008000, 0x80009000, 0x8000a000]" by (simp add: demo_vm_def)
  from boot_invariants [OF m this] show ?thesis by blast
qed

end
