(* ===== verification/Suspend.thy ===== *)
theory Suspend
  imports Task
begin

text \<open>
  Suspension, \<^verbatim>\<open>thread_suspend\<close> and \<^verbatim>\<open>thread_resume\<close> of \<^verbatim>\<open>sys/kern/thread.c\<close> with the counts of \<^verbatim>\<open>sys/kern/task.c\<close>: a thread
  does not run until it has been resumed as often as it was suspended, and a case where it never runs again.
\<close>

definition suspended :: "kstate \<Rightarrow> tid \<Rightarrow> bool" where
  "suspended s th = (state (threads s th) AND TH_SUSPEND \<noteq> 0)"

text \<open>The count and the flag of a thread.\<close>

definition susp_ok :: "kstate \<Rightarrow> tid \<Rightarrow> bool" where
  "susp_ok s th = (0 \<le> suscnt (threads s th) \<and> (0 < suscnt (threads s th) \<longrightarrow> suspended s th))"

lemma suscnt_same [simp]: "sched_wf (upd_thread th (suscnt_update f) s) = sched_wf s"
  by (rule sched_same_wf) (simp add: sched_same_def upd_thread_def)

lemma lock_wf [simp]: "sched_wf (sched_lock s) = sched_wf s"
  by (rule sched_same_wf) (simp add: sched_same_def sched_lock_def upd_thread_def)

lemma sched_suspend_effect:
  assumes "wakeq s = []"
  shows "cur_thread (sched_suspend th s) = cur_thread s" "locks (threads (sched_suspend th s) x) = locks (threads s x)"
    "wakeq (sched_suspend th s) = []"
    "state (threads (sched_suspend th s) x) = (if x = th then state (threads s x) OR TH_SUSPEND else state (threads s x))"
  using assms by (simp_all add: sched_suspend_def Let_def runq_remove_def link_remove_def upd_thread_def)

lemma sched_resume_effect:
  assumes "wakeq s = []"
  shows "cur_thread (sched_resume th s) = cur_thread s" "locks (threads (sched_resume th s) x) = locks (threads s x)"
    "wakeq (sched_resume th s) = []"
    "state (threads (sched_resume th s) x) = (if x = th then state (threads s x) AND NOT TH_SUSPEND else state (threads s x))"
proof -
  have "state (threads s th) AND TH_SUSPEND = 0 \<Longrightarrow> state (threads s th) AND NOT TH_SUSPEND = state (threads s th)"
    by (auto simp: bit_eq_iff bit_simps)
  then show "cur_thread (sched_resume th s) = cur_thread s" "locks (threads (sched_resume th s) x) = locks (threads s x)"
    "wakeq (sched_resume th s) = []"
    "state (threads (sched_resume th s) x) = (if x = th then state (threads s x) AND NOT TH_SUSPEND else state (threads s x))"
    using assms by (auto simp: sched_resume_def Let_def runq_enqueue_def upd_thread_def)
qed

text \<open>The end of a call that has woken nobody.\<close>

lemma unlock_states:
  assumes "sched_wf s" "locks (cur s) = 1" "wakeq s = []"
  shows "state (threads (sched_unlock s) x) = state (threads s x)" "sched_wf (sched_unlock s)"
    "suscnt (threads (sched_unlock s) x) = suscnt (threads s x)" "state (cur (sched_unlock s)) = TH_RUN"
  using sched_unlock_effect(1) [of s x] assms sched_unlock_wf sched_unlock_best_lemma(1) [of s]
  by (auto simp: sched_wf_def kproj)

lemma thread_suspend_run:
  assumes "sched_wf s" "wakeq s = []" "locks (cur s) = 0" "thread_valid s th" "task_access (th_task_ptr th s) s"
    "th \<noteq> idle_thread s" "susp_ok s th"
  shows "\<exists>s'. thread_suspend th s = (Done 0, s') \<and> sched_wf s' \<and> suscnt (threads s' th) = suscnt (threads s th) + 1 \<and>
    susp_ok s' th \<and> cur_thread s' \<noteq> th \<and> \<not> ready s' th \<and> (\<forall>x. x \<noteq> th \<longrightarrow> state (threads s' x) = state (threads s x))"
proof -
  define s1 where "s1 = upd_thread th (suscnt_update (\<lambda>n. n + 1)) (sched_lock s)"
  have w1: "sched_wf s1" using assms(1) by (simp add: s1_def)
  have s1: "wakeq s1 = []" "locks (cur s1) = 1" "thread_valid s1 th" "th \<noteq> idle_thread s1"
    "suscnt (threads s1 th) = suscnt (threads s th) + 1" "state (threads s1 x) = state (threads s x)" for x
    using assms by (auto simp: s1_def sched_lock_def upd_thread_def thread_valid_def)
  define s2 where "s2 = (if suscnt (threads s1 th) = 1 then sched_suspend th s1 else s1)"
  have e: "thread_suspend th s = (Done 0, sched_unlock s2)"
  proof -
    show ?thesis using assms(4,5) by (simp add: thread_suspend_def Let_def s1_def s2_def)
  qed
  have s2: "sched_wf s2" "wakeq s2 = []" "locks (cur s2) = 1"
    using w1 s1 sched_suspend_wf [OF w1 s1(3,4)] sched_suspend_effect [OF s1(1), of th] by (simp_all add: s2_def)
  have st: "state (threads s2 x) = (if x = th \<and> suscnt (threads s1 th) = 1 then state (threads s x) OR TH_SUSPEND else state (threads s x))"
    "suscnt (threads s2 th) = suscnt (threads s th) + 1" for x
    by (simp_all add: s2_def kproj sched_suspend_effect(4) [OF s1(1)] s1(5,6))
  note u = unlock_states [OF s2(1,3,2)]
  have f: "(y OR TH_SUSPEND) AND TH_SUSPEND \<noteq> 0" for y
  proof -
    have "(y OR TH_SUSPEND) AND TH_SUSPEND = TH_SUSPEND" by (auto simp: bit_eq_iff bit_simps)
    then show ?thesis by (simp add: TH_SUSPEND_def)
  qed
  have sp: "suspended (sched_unlock s2) th"
  proof (cases "suscnt (threads s1 th) = 1")
    case True
    then show ?thesis using f by (simp add: suspended_def u st)
  next
    case False
    then show ?thesis using assms(7) s1(5) by (auto simp: suspended_def u st susp_ok_def)
  qed
  then have nr: "state (threads (sched_unlock s2) th) \<noteq> TH_RUN" by (auto simp: suspended_def flag_simps)
  then show ?thesis using e u st assms(7) sp by (auto simp: susp_ok_def ready_def)
qed

lemma thread_resume_run:
  assumes "sched_wf s" "wakeq s = []" "locks (cur s) = 0" "thread_valid s th" "task_access (th_task_ptr th s) s"
    "th \<noteq> cur_thread s" "susp_ok s th"
  shows "\<exists>s'. thread_resume th s = (Done (if suscnt (threads s th) = 0 then EINVAL else 0), s') \<and> sched_wf s' \<and>
    suscnt (threads s' th) = suscnt (threads s th) - (if suscnt (threads s th) = 0 then 0 else 1) \<and> susp_ok s' th \<and>
    state (threads s' th) = (if suscnt (threads s th) = 1 \<and> tk_suscnt (tasks s (th_task_ptr th s)) = 0
      then state (threads s th) AND NOT TH_SUSPEND else state (threads s th)) \<and>
    (\<forall>x. x \<noteq> th \<longrightarrow> state (threads s' x) = state (threads s x))"
proof -
  have v: "thread_valid (sched_lock s) th" using assms(4) by simp
  have a: "task_access (th_task_ptr th (sched_lock s)) (sched_lock s)" using assms(5) by simp
  have l: "wakeq (sched_lock s) = []" "locks (cur (sched_lock s)) = 1" "suscnt (threads (sched_lock s) x) = suscnt (threads s x)"
    "state (threads (sched_lock s) x) = state (threads s x)" for x
    using assms(2,3) by (auto simp: sched_lock_def upd_thread_def)
  show ?thesis
  proof (cases "suscnt (threads s th) = 0")
    case True
    have "thread_resume th s = (Done EINVAL, sched_unlock (sched_lock s))"
      using True v a l(3) by (simp add: thread_resume_def Let_def)
    moreover have "sched_wf (sched_lock s)" using assms(1) by simp
    ultimately show ?thesis
      using True assms(7) unlock_states [of "sched_lock s"] l by (simp add: susp_ok_def)
  next
    case False
    define s1 where "s1 = upd_thread th (suscnt_update (\<lambda>n. n - 1)) (sched_lock s)"
    have w1: "sched_wf s1" using assms(1) by (simp add: s1_def)
    have s1: "wakeq s1 = []" "locks (cur s1) = 1" "thread_valid s1 th" "th \<noteq> cur_thread s1" "tasks s1 = tasks s"
      "th_task_ptr th s1 = th_task_ptr th s" "suscnt (threads s1 th) = suscnt (threads s th) - 1"
      "state (threads s1 x) = state (threads s x)" for x
      using assms by (auto simp: s1_def sched_lock_def upd_thread_def thread_valid_def th_task_ptr_def)
    define s2 where "s2 = (if suscnt (threads s1 th) = 0 \<and> tk_suscnt (tasks s1 (th_task_ptr th s1)) = 0 then sched_resume th s1 else s1)"
    have e: "thread_resume th s = (Done 0, sched_unlock s2)"
      using False v a l(3) by (simp add: thread_resume_def Let_def s1_def s2_def)
    have s2: "sched_wf s2" "wakeq s2 = []" "locks (cur s2) = 1"
      using w1 s1(1-4) sched_resume_wf [OF w1 s1(3,4)] sched_resume_effect [OF s1(1), of th] by (simp_all add: s2_def)
    have st: "state (threads s2 x) = (if x = th \<and> suscnt (threads s th) = 1 \<and> tk_suscnt (tasks s (th_task_ptr th s)) = 0
        then state (threads s x) AND NOT TH_SUSPEND else state (threads s x))"
      "suscnt (threads s2 th) = suscnt (threads s th) - 1" for x
      by (simp_all add: s2_def kproj sched_resume_effect(4) [OF s1(1)] s1(5-8))
    show ?thesis using e unlock_states [OF s2(1,3,2)] st False assms(7)
      by (auto simp: susp_ok_def suspended_def)
  qed
qed

text \<open>
  C40: Suspensions nest. Suspending a thread adds one to its count; from then on it is marked suspended, it is neither
  the current thread nor in a run queue. Resuming it takes one from the count, and takes the mark away just when the
  count becomes zero and its task is not suspended; on a count of zero it fails with \<^verbatim>\<open>EINVAL\<close>. The state of every other thread, and
  the invariant of the scheduler, are kept.
\<close>

theorem suspension_counts:
  assumes "sched_wf s" and "wakeq s = []" and "locks (cur s) = 0" and "thread_valid s th" and "task_access (th_task_ptr th s) s"
    and "th \<noteq> idle_thread s" and "susp_ok s th"
  shows "(\<exists>s'. thread_suspend th s = (Done 0, s') \<and> sched_wf s' \<and> suscnt (threads s' th) = suscnt (threads s th) + 1 \<and>
      susp_ok s' th \<and> cur_thread s' \<noteq> th \<and> \<not> ready s' th \<and> (\<forall>x. x \<noteq> th \<longrightarrow> state (threads s' x) = state (threads s x))) \<and>
    (th \<noteq> cur_thread s \<longrightarrow> (\<exists>s'. thread_resume th s = (Done (if suscnt (threads s th) = 0 then EINVAL else 0), s') \<and> sched_wf s' \<and>
      suscnt (threads s' th) = suscnt (threads s th) - (if suscnt (threads s th) = 0 then 0 else 1) \<and> susp_ok s' th \<and>
      state (threads s' th) = (if suscnt (threads s th) = 1 \<and> tk_suscnt (tasks s (th_task_ptr th s)) = 0
        then state (threads s th) AND NOT TH_SUSPEND else state (threads s th)) \<and>
      (\<forall>x. x \<noteq> th \<longrightarrow> state (threads s' x) = state (threads s x))))"
  using thread_suspend_run [OF assms] thread_resume_run [OF assms(1-5) _ assms(7)] by blast

theorem suspension_counts_witness:
  "\<exists>s'. thread_suspend 0x80002000 demo_state = (Done 0, s') \<and> cur_thread s' \<noteq> 0x80002000 \<and> suscnt (threads s' 0x80002000) = 1"
proof -
  have t: "th_task_ptr 0x80002000 demo_state = 0x80000200" by (simp add: th_task_ptr_def demo_proj demo_thread_def)
  have a: "task_access (th_task_ptr 0x80002000 demo_state) demo_state"
    unfolding t by (simp add: task_access_def cur_task_ptr_def cur_task_def demo_proj demo_thread_def)
  have o: "susp_ok demo_state 0x80002000" "suscnt (threads demo_state 0x80002000) = 0" "locks (cur demo_state) = 0"
    by (simp_all add: susp_ok_def demo_proj demo_thread_def zero_thread_def)
  have v: "thread_valid demo_state 0x80002000" "0x80002000 \<noteq> idle_thread demo_state" "wakeq demo_state = []"
    by (simp add: demo_valid) (simp_all add: demo_proj)
  show ?thesis using suspension_counts [OF demo_wf v(3) o(3) v(1) a v(2) o(1)] o(2) by auto
qed

text \<open>
  A resumption that is lost: a thread resumed while its task is suspended keeps the mark, and the later \<^verbatim>\<open>task_resume\<close>, which calls
  \<^verbatim>\<open>thread_resume\<close> on it, fails on the zero count and leaves it marked. No resumption can ever clear the mark.
\<close>

lemma thread_resume_zero:
  assumes "suscnt (threads s th) = 0" "1 \<le> locks (cur s)"
  shows "state (threads (snd (thread_resume th s)) x) = state (threads s x)"
    "suscnt (threads (snd (thread_resume th s)) th) = 0" "fst (thread_resume th s) \<noteq> Done 0"
proof -
  have "sched_unlock (sched_lock s) = upd_cur (locks_update (\<lambda>n. n - 1)) (sched_lock s)"
    by (rule sched_unlock_nested) (use assms(2) in \<open>simp add: sched_lock_def upd_thread_def\<close>)
  then have "sched_unlock (sched_lock s) = upd_cur (locks_update (\<lambda>n. n - 1)) (upd_cur (locks_update (\<lambda>n. n + 1)) s)"
    by (simp add: sched_lock_def upd_thread_def)
  moreover have "suscnt (threads (sched_lock s) th) = 0" using assms(1) by (simp add: kproj)
  ultimately show "state (threads (snd (thread_resume th s)) x) = state (threads s x)"
    "suscnt (threads (snd (thread_resume th s)) th) = 0" "fst (thread_resume th s) \<noteq> Done 0"
    using assms(1) by (auto simp: thread_resume_def Let_def upd_thread_def ESRCH_def EPERM_def EINVAL_def)
qed

end
