(* ===== verification/Queue.thy ===== *)
theory Queue
  imports Prelude
begin

text \<open>
  The circular doubly linked queues of \<^verbatim>\<open>sys/lib/queue.c\<close> and
  \<^verbatim>\<open>sys/include/queue.h\<close>, and the identical lists of \<^verbatim>\<open>include/sys/list.h\<close>, on an
  explicit pointer heap. \<open>is_queue\<close> relates a heap to the list of elements that a
  head stands for; every operation is proved to refine the list operation the rest
  of the development uses in its place. The interface the clients rely on is the
  locale \<open>queue_iface\<close>, interpreted on the pointer operations at the end.
\<close>

section \<open>The heap and the operations\<close>

record 'a qheap =
  nxt :: "'a \<Rightarrow> 'a"
  prv :: "'a \<Rightarrow> 'a"

definition set_nxt :: "'a \<Rightarrow> 'a \<Rightarrow> 'a qheap \<Rightarrow> 'a qheap" where
  "set_nxt p q h = h\<lparr>nxt := (nxt h)(p := q)\<rparr>"

definition set_prv :: "'a \<Rightarrow> 'a \<Rightarrow> 'a qheap \<Rightarrow> 'a qheap" where
  "set_prv p q h = h\<lparr>prv := (prv h)(p := q)\<rparr>"

definition queue_init :: "'a \<Rightarrow> 'a qheap \<Rightarrow> 'a qheap" where
  "queue_init head h = set_nxt head head (set_prv head head h)"

definition queue_empty :: "'a \<Rightarrow> 'a qheap \<Rightarrow> bool" where
  "queue_empty head h = (nxt h head = head)"

definition queue_first :: "'a \<Rightarrow> 'a qheap \<Rightarrow> 'a" where
  "queue_first head h = nxt h head"

definition queue_last :: "'a \<Rightarrow> 'a qheap \<Rightarrow> 'a" where
  "queue_last head h = prv h head"

definition enqueue :: "'a \<Rightarrow> 'a \<Rightarrow> 'a qheap \<Rightarrow> 'a qheap" where
  "enqueue head item h0 =
     (let h1 = set_nxt item head h0;
          h2 = set_prv item (prv h1 head) h1;
          h3 = set_nxt (prv h2 item) item h2
      in set_prv head item h3)"

definition dequeue :: "'a \<Rightarrow> 'a qheap \<Rightarrow> 'a option \<times> 'a qheap" where
  "dequeue head h0 =
     (if nxt h0 head = head then (None, h0)
      else let item = nxt h0 head;
               h1 = set_prv (nxt h0 item) head h0;
               h2 = set_nxt head (nxt h1 item) h1
           in (Some item, h2))"

definition queue_insert :: "'a \<Rightarrow> 'a \<Rightarrow> 'a qheap \<Rightarrow> 'a qheap" where
  "queue_insert prev item h0 =
     (let h1 = set_prv item prev h0;
          h2 = set_nxt item (nxt h1 prev) h1;
          h3 = set_prv (nxt h2 prev) item h2
      in set_nxt prev item h3)"

definition queue_remove :: "'a \<Rightarrow> 'a qheap \<Rightarrow> 'a qheap" where
  "queue_remove item h0 =
     (let h1 = set_nxt (prv h0 item) (nxt h0 item) h0
      in set_prv (nxt h1 item) (prv h1 item) h1)"

definition list_insert :: "'a \<Rightarrow> 'a \<Rightarrow> 'a qheap \<Rightarrow> 'a qheap" where
  "list_insert prev node h0 =
     (let h1 = set_nxt node (nxt h0 prev) h0;
          h2 = set_prv node prev h1;
          h3 = set_prv (nxt h2 prev) node h2
      in set_nxt prev node h3)"

definition list_remove :: "'a \<Rightarrow> 'a qheap \<Rightarrow> 'a qheap" where
  "list_remove node h0 =
     (let h1 = set_nxt (prv h0 node) (nxt h0 node) h0
      in set_prv (nxt h1 node) (prv h1 node) h1)"

lemmas queue_op_defs = enqueue_def dequeue_def queue_insert_def queue_remove_def
  list_insert_def list_remove_def set_nxt_def set_prv_def Let_def

section \<open>The abstraction\<close>

text \<open>
  \<open>qseg h a xs b\<close>: following \<open>next\<close> from \<open>a\<close> visits \<open>xs\<close> and arrives at \<open>b\<close>, and
  every \<open>prev\<close> pointer on the way points back.
\<close>

fun qseg :: "'a qheap \<Rightarrow> 'a \<Rightarrow> 'a list \<Rightarrow> 'a \<Rightarrow> bool" where
  "qseg h a [] b = (nxt h a = b \<and> prv h b = a)"
| "qseg h a (x # xs) b = (nxt h a = x \<and> prv h x = a \<and> qseg h x xs b)"

definition is_queue :: "'a qheap \<Rightarrow> 'a \<Rightarrow> 'a list \<Rightarrow> bool" where
  "is_queue h head xs = (distinct (head # xs) \<and> qseg h head xs head)"

lemma qseg_append [simp]:
  "qseg h a (xs @ y # ys) b = (qseg h a xs y \<and> qseg h y ys b)"
  by (induction xs arbitrary: a) auto

lemma qseg_frame:
  assumes "\<forall>p \<in> insert a (set xs). nxt h' p = nxt h p"
    and "\<forall>p \<in> insert b (set xs). prv h' p = prv h p"
  shows "qseg h' a xs b = qseg h a xs b"
  using assms by (induction xs arbitrary: a) auto

lemma qseg_first: "qseg h a xs b \<Longrightarrow> nxt h a = hd (xs @ [b])"
  by (cases xs) auto

lemma qseg_last: "qseg h a xs b \<Longrightarrow> prv h b = last (a # xs)"
  by (induction xs arbitrary: a) auto

lemma qseg_unique: "qseg h a xs b \<Longrightarrow> qseg h a ys b \<Longrightarrow> b \<notin> set xs \<Longrightarrow> b \<notin> set ys \<Longrightarrow> xs = ys"
proof (induction xs arbitrary: a ys)
  case Nil
  then show ?case by (cases ys) auto
next
  case (Cons x xs)
  then show ?case by (cases ys) auto
qed

lemma is_queue_unique: "is_queue h head xs \<Longrightarrow> is_queue h head ys \<Longrightarrow> xs = ys"
  unfolding is_queue_def by (auto intro: qseg_unique)

lemma is_queue_frame:
  assumes "is_queue h head xs"
    and "\<forall>p \<in> insert head (set xs). nxt h' p = nxt h p \<and> prv h' p = prv h p"
  shows "is_queue h' head xs"
  using assms qseg_frame [of head xs h' h head] by (auto simp: is_queue_def)

section \<open>Refinement of the list operations\<close>

lemma queue_init_refines: "is_queue (queue_init head h) head []"
  by (simp add: is_queue_def queue_init_def set_nxt_def set_prv_def)

lemma queue_empty_refines: "is_queue h head xs \<Longrightarrow> queue_empty head h = (xs = [])"
  by (cases xs) (auto simp: is_queue_def queue_empty_def)

lemma queue_first_refines: "is_queue h head xs \<Longrightarrow> xs \<noteq> [] \<Longrightarrow> queue_first head h = hd xs"
  by (cases xs) (auto simp: is_queue_def queue_first_def)

lemma queue_last_refines: "is_queue h head xs \<Longrightarrow> xs \<noteq> [] \<Longrightarrow> queue_last head h = last xs"
  using qseg_last [of h head xs head] by (fastforce simp: is_queue_def queue_last_def)

text \<open>
  Splicing: a node put between two adjacent nodes, which is what both \<open>enqueue\<close>
  (before the head) and \<open>queue_insert\<close> (after an element) do.
\<close>

definition spliced :: "'a \<Rightarrow> 'a \<Rightarrow> 'a \<Rightarrow> 'a qheap \<Rightarrow> 'a qheap" where
  "spliced a item b h =
     \<lparr>nxt = (nxt h)(item := b, a := item), prv = (prv h)(item := a, b := item)\<rparr>"

lemma qheap_eqI: "nxt h = nxt h' \<Longrightarrow> prv h = prv h' \<Longrightarrow> h = (h' :: 'a qheap)"
  by simp

lemma qseg_spliced [simp]:
  "z \<notin> insert a (set xs) \<Longrightarrow> item \<notin> insert a (set xs) \<Longrightarrow> y \<notin> insert b (set xs) \<Longrightarrow>
   item \<notin> insert b (set xs) \<Longrightarrow> qseg (spliced z item y h) a xs b = qseg h a xs b"
  by (rule qseg_frame) (auto simp: spliced_def)

lemma spliced_ptrs [simp]:
  "z \<noteq> item \<Longrightarrow> y \<noteq> item \<Longrightarrow> nxt (spliced z item y h) z = item"
  "z \<noteq> item \<Longrightarrow> y \<noteq> item \<Longrightarrow> nxt (spliced z item y h) item = y"
  "z \<noteq> item \<Longrightarrow> y \<noteq> item \<Longrightarrow> prv (spliced z item y h) item = z"
  "z \<noteq> item \<Longrightarrow> y \<noteq> item \<Longrightarrow> prv (spliced z item y h) y = item"
  by (auto simp: spliced_def)

lemma spliced_queue:
  assumes "is_queue h head (xs @ ys)" and "item \<notin> insert head (set (xs @ ys))"
  shows "is_queue (spliced (last (head # xs)) item (hd (ys @ [head])) h) head (xs @ item # ys)"
proof (cases xs rule: rev_cases)
  case Nil
  then show ?thesis using assms by (cases ys) (auto simp: is_queue_def)
next
  case (snoc zs z)
  then show ?thesis using assms by (cases ys) (auto simp: is_queue_def)
qed

lemma enqueue_refines:
  assumes q: "is_queue h head xs" and new: "item \<notin> insert head (set xs)"
  shows "is_queue (enqueue head item h) head (xs @ [item])"
proof -
  have "prv h head = last (head # xs)"
    using q qseg_last [of h head xs head] by (auto simp: is_queue_def)
  then have "enqueue head item h = spliced (last (head # xs)) item head h"
    using new by (intro qheap_eqI) (auto simp: queue_op_defs spliced_def fun_eq_iff)
  with spliced_queue [of h head xs "[]" item] q new show ?thesis by simp
qed

lemma queue_insert_refines:
  assumes q: "is_queue h head (xs @ ys)" and new: "item \<notin> insert head (set (xs @ ys))"
  shows "is_queue (queue_insert (last (head # xs)) item h) head (xs @ item # ys)"
proof -
  let ?p = "last (head # xs)"
  have p: "?p \<in> insert head (set xs)"
    by (cases xs rule: rev_cases) auto
  have n: "nxt h ?p = hd (ys @ [head])"
  proof (cases xs rule: rev_cases)
    case Nil
    then show ?thesis using q qseg_first [of h head ys head] by (auto simp: is_queue_def)
  next
    case (snoc zs z)
    then show ?thesis using q by (cases ys) (auto simp: is_queue_def)
  qed
  have "hd (ys @ [head]) \<in> insert head (set ys)"
    by (cases ys) auto
  with n new p have "queue_insert ?p item h = spliced ?p item (hd (ys @ [head])) h"
    by (intro qheap_eqI) (auto simp: queue_op_defs spliced_def fun_eq_iff)
  with spliced_queue [OF q new] show ?thesis by simp
qed

lemma list_insert_eq: "node \<noteq> prev \<Longrightarrow> list_insert prev node h = queue_insert prev node h"
  by (intro qheap_eqI) (auto simp: queue_op_defs fun_eq_iff)

text \<open>Unlinking: the neighbours of a node are joined.\<close>

definition unlinked :: "'a \<Rightarrow> 'a \<Rightarrow> 'a qheap \<Rightarrow> 'a qheap" where
  "unlinked a b h = \<lparr>nxt = (nxt h)(a := b), prv = (prv h)(b := a)\<rparr>"

lemma qseg_unlinked [simp]:
  "z \<notin> insert a (set xs) \<Longrightarrow> y \<notin> insert b (set xs) \<Longrightarrow> qseg (unlinked z y h) a xs b = qseg h a xs b"
  by (rule qseg_frame) (auto simp: unlinked_def)

lemma unlinked_ptrs [simp]:
  "nxt (unlinked z y h) z = y" "prv (unlinked z y h) y = z"
  by (auto simp: unlinked_def)

lemma unlinked_queue:
  assumes "is_queue h head (xs @ item # ys)"
  shows "is_queue (unlinked (last (head # xs)) (hd (ys @ [head])) h) head (xs @ ys)"
proof (cases xs rule: rev_cases)
  case Nil
  then show ?thesis using assms by (cases ys) (auto simp: is_queue_def)
next
  case (snoc zs z)
  then show ?thesis using assms by (cases ys) (auto simp: is_queue_def)
qed

lemma queue_neighbours:
  assumes "is_queue h head (xs @ item # ys)"
  shows "prv h item = last (head # xs)" and "nxt h item = hd (ys @ [head])"
    and "item \<noteq> last (head # xs)" and "item \<noteq> hd (ys @ [head])"
  using assms qseg_last [of h head xs item] qseg_first [of h item ys head]
  by (auto simp: is_queue_def hd_append split: if_splits dest: last_in_set hd_in_set)

lemma queue_remove_unlinked:
  assumes "is_queue h head (xs @ item # ys)"
  shows "queue_remove item h = unlinked (last (head # xs)) (hd (ys @ [head])) h"
  using queue_neighbours [OF assms]
  by (intro qheap_eqI) (auto simp: queue_op_defs unlinked_def fun_eq_iff)

lemma queue_remove_refines:
  assumes q: "is_queue h head xs" and item: "item \<in> set xs"
  shows "is_queue (queue_remove item h) head (remove1 item xs)"
proof -
  from item obtain ys zs where xs: "xs = ys @ item # zs" and "item \<notin> set ys"
    by (metis split_list_first)
  with q unlinked_queue [of h head ys item zs] queue_remove_unlinked [of h head ys item zs]
  show ?thesis by simp
qed

lemma list_remove_eq: "list_remove node h = queue_remove node h"
  by (simp add: list_remove_def queue_remove_def)

text \<open>
  Removing an element that is no longer linked follows its stale pointers: what was enqueued in the
  meantime is lost.
\<close>

lemma queue_remove_twice:
  assumes "is_queue h head [a]" "b \<noteq> head" "b \<noteq> a"
  shows "queue_empty head (queue_remove a (enqueue head b (queue_remove a h)))"
  using assms by (auto simp: is_queue_def queue_op_defs queue_empty_def)

lemma dequeue_unlinks_first:
  assumes "is_queue h head (x # xs)"
  shows "dequeue head h = (Some x, queue_remove x h)"
proof -
  have "snd (dequeue head h) = queue_remove x h"
    using assms by (intro qheap_eqI) (auto simp: is_queue_def queue_op_defs fun_eq_iff)
  moreover have "fst (dequeue head h) = Some x"
    using assms by (auto simp: is_queue_def dequeue_def Let_def)
  ultimately show ?thesis by (metis prod.collapse)
qed

lemma dequeue_refines:
  assumes q: "is_queue h head xs"
  shows "fst (dequeue head h) = (case xs of [] \<Rightarrow> None | x # _ \<Rightarrow> Some x)"
    and "is_queue (snd (dequeue head h)) head (tl xs)"
proof -
  show "fst (dequeue head h) = (case xs of [] \<Rightarrow> None | x # _ \<Rightarrow> Some x)"
    using q by (cases xs) (auto simp: is_queue_def dequeue_def Let_def)
  show "is_queue (snd (dequeue head h)) head (tl xs)"
  proof (cases xs)
    case Nil
    then show ?thesis using q by (auto simp: is_queue_def dequeue_def)
  next
    case (Cons x ys)
    then show ?thesis
      using queue_remove_refines [OF q, of x] dequeue_unlinks_first [of h head x ys] q by simp
  qed
qed

lemma enqueue_frame:
  assumes q: "is_queue h head xs" and q': "is_queue h head' ys"
    and disj: "insert head (set xs) \<inter> insert head' (set ys) = {}"
    and new: "item \<notin> insert head (set xs) \<union> insert head' (set ys)"
  shows "is_queue (enqueue head item h) head' ys"
proof -
  have "prv h head = last (head # xs)"
    using q qseg_last [of h head xs head] by (simp add: is_queue_def)
  also have "\<dots> \<in> insert head (set xs)"
    by (cases xs rule: rev_cases) auto
  finally have "prv h head \<notin> insert head' (set ys)" using disj by blast
  with disj new show ?thesis
    by (intro is_queue_frame [OF q']) (auto simp: queue_op_defs)
qed

lemma queue_remove_frame:
  assumes q: "is_queue h head xs" and q': "is_queue h head' ys"
    and disj: "insert head (set xs) \<inter> insert head' (set ys) = {}" and x: "x \<in> set xs"
  shows "is_queue (queue_remove x h) head' ys"
proof -
  from x obtain us vs where xs: "xs = us @ x # vs" by (metis split_list)
  have "last (head # us) \<in> insert head (set xs)"
    using xs by (cases us rule: rev_cases) auto
  moreover have "hd (vs @ [head]) \<in> insert head (set xs)"
    using xs by (cases vs) auto
  ultimately have "last (head # us) \<notin> insert head' (set ys)" "hd (vs @ [head]) \<notin> insert head' (set ys)"
    using disj by blast+
  with queue_remove_unlinked [of h head us x vs] q xs show ?thesis
    by (intro is_queue_frame [OF q']) (auto simp: unlinked_def simp del: last.simps)
qed

lemma dequeue_frame:
  assumes q: "is_queue h head xs" and q': "is_queue h head' ys"
    and disj: "insert head (set xs) \<inter> insert head' (set ys) = {}"
  shows "is_queue (snd (dequeue head h)) head' ys"
proof (cases xs)
  case Nil
  then show ?thesis using q q' by (auto simp: is_queue_def dequeue_def)
next
  case (Cons x zs)
  then show ?thesis
    using queue_remove_frame [OF q q' disj, of x] dequeue_unlinks_first [of h head x zs] q by simp
qed

section \<open>The interface and its clients\<close>

text \<open>
  The kernel's loops over queues have two shapes: drain a queue
  (\<open>while (!queue_empty(q)) dequeue(q)\<close>, in \<^verbatim>\<open>wakeq_flush\<close>, \<^verbatim>\<open>msg_cancel\<close> and
  \<^verbatim>\<open>dpc_thread\<close>) and move every element of one queue to the tail of another
  (\<^verbatim>\<open>sched_wakeup\<close>). Both are proved once, from the laws below.
\<close>

fun drain :: "('a \<Rightarrow> 'h \<Rightarrow> 'a option \<times> 'h) \<Rightarrow> nat \<Rightarrow> 'a \<Rightarrow> 'h \<Rightarrow> 'a list \<times> 'h" where
  "drain deq 0 q h = ([], h)"
| "drain deq (Suc n) q h =
     (case deq q h of
        (None, h') \<Rightarrow> ([], h')
      | (Some x, h') \<Rightarrow> (let (xs, h'') = drain deq n q h' in (x # xs, h'')))"

fun move_all :: "('a \<Rightarrow> 'h \<Rightarrow> 'a option \<times> 'h) \<Rightarrow> ('a \<Rightarrow> 'a \<Rightarrow> 'h \<Rightarrow> 'h) \<Rightarrow>
    nat \<Rightarrow> 'a \<Rightarrow> 'a \<Rightarrow> 'h \<Rightarrow> 'h" where
  "move_all deq enq 0 src dst h = h"
| "move_all deq enq (Suc n) src dst h =
     (case deq src h of
        (None, h') \<Rightarrow> h'
      | (Some x, h') \<Rightarrow> move_all deq enq n src dst (enq dst x h'))"

locale queue_iface =
  fixes rep :: "'h \<Rightarrow> 'a \<Rightarrow> 'a list \<Rightarrow> bool"
    and enq :: "'a \<Rightarrow> 'a \<Rightarrow> 'h \<Rightarrow> 'h"
    and deq :: "'a \<Rightarrow> 'h \<Rightarrow> 'a option \<times> 'h"
  assumes rep_distinct: "rep h q xs \<Longrightarrow> distinct (q # xs)"
    and deq_Nil: "rep h q [] \<Longrightarrow> deq q h = (None, h)"
    and deq_Cons: "rep h q (x # xs) \<Longrightarrow> \<exists>h'. deq q h = (Some x, h') \<and> rep h' q xs"
    and enq_rep: "rep h q xs \<Longrightarrow> item \<notin> insert q (set xs) \<Longrightarrow> rep (enq q item h) q (xs @ [item])"
    and deq_frame: "rep h q xs \<Longrightarrow> rep h p ys \<Longrightarrow> insert q (set xs) \<inter> insert p (set ys) = {} \<Longrightarrow>
      rep (snd (deq q h)) p ys"
    and enq_frame: "rep h q xs \<Longrightarrow> rep h p ys \<Longrightarrow> insert q (set xs) \<inter> insert p (set ys) = {} \<Longrightarrow>
      item \<notin> insert q (set xs) \<union> insert p (set ys) \<Longrightarrow> rep (enq q item h) p ys"
begin

lemma drain_all:
  "rep h q xs \<Longrightarrow> length xs < n \<Longrightarrow>
   \<exists>h'. drain deq n q h = (xs, h') \<and> rep h' q []"
proof (induction xs arbitrary: h n)
  case Nil
  then show ?case using deq_Nil by (cases n) auto
next
  case (Cons x xs)
  from Cons.prems(2) obtain m where n: "n = Suc m" and m: "length xs < m"
    by (cases n) auto
  from deq_Cons [OF Cons.prems(1)] obtain h' where "deq q h = (Some x, h')" and "rep h' q xs"
    by blast
  with Cons.IH [of h' m] m n show ?case by auto
qed

lemma move_all_appends:
  "rep h src xs \<Longrightarrow> rep h dst ys \<Longrightarrow> insert src (set xs) \<inter> insert dst (set ys) = {} \<Longrightarrow>
   length xs < n \<Longrightarrow>
   rep (move_all deq enq n src dst h) src [] \<and> rep (move_all deq enq n src dst h) dst (ys @ xs)"
proof (induction xs arbitrary: h n ys)
  case Nil
  then show ?case using deq_Nil by (cases n) auto
next
  case (Cons x xs)
  from Cons.prems(4) obtain m where n: "n = Suc m" and m: "length xs < m"
    by (cases n) auto
  from deq_Cons [OF Cons.prems(1)] obtain h' where d: "deq src h = (Some x, h')" "rep h' src xs"
    by blast
  have y: "rep h' dst ys"
    using deq_frame [OF Cons.prems(1,2,3)] d by simp
  have x: "x \<notin> insert dst (set ys) \<union> insert src (set xs)"
    using Cons.prems(3) rep_distinct [OF Cons.prems(1)] by auto
  have "rep (enq dst x h') dst (ys @ [x])"
    using enq_rep [OF y] x by simp
  moreover have "rep (enq dst x h') src xs"
    using enq_frame [OF y d(2)] x Cons.prems(3) by auto
  ultimately show ?case
    using Cons.IH [of "enq dst x h'" "ys @ [x]" m] Cons.prems(3) x m n d by auto
qed

end

interpretation lq: queue_iface is_queue enqueue dequeue
proof (unfold_locales, goal_cases)
  case (1 h q xs)
  then show ?case by (simp add: is_queue_def)
next
  case (2 h q)
  then show ?case by (simp add: is_queue_def dequeue_def)
next
  case (3 h q x xs)
  then show ?case
    using dequeue_refines(2) [OF 3] dequeue_unlinks_first [OF 3] by simp
next
  case (4 h q xs item)
  then show ?case by (rule enqueue_refines)
next
  case (5 h q xs p ys)
  then show ?case by (rule dequeue_frame)
next
  case (6 h q xs p ys item)
  then show ?case by (rule enqueue_frame)
qed

end
