(* ===== verification/Linked_Lists.thy ===== *)
theory Linked_Lists
  imports Queue
begin

text \<open>
  Programs that keep many lists of \<^verbatim>\<open>include/sys/list.h\<close> at once: hash tables, lists of children, members
  of groups. \<open>lists_ok\<close> says of a whole family of lists, one per head, that the heap represents each of
  them and that no node is on two lists. The loops over a list are \<open>scan\<close>, a walk that stops at the first node
  with some property, and are proved correct from the laws of the locale \<open>list_family\<close>; a walk over
  links that do not form a list may never end, and then has no result.
\<close>

section \<open>Families of lists\<close>

definition lists_ok :: "'a qheap \<Rightarrow> 'a set \<Rightarrow> ('a \<Rightarrow> 'a list) \<Rightarrow> bool" where
  "lists_ok h H f =
     ((\<forall>a\<in>H. is_queue h a (f a)) \<and>
      (\<forall>a\<in>H. \<forall>b\<in>H. a \<noteq> b \<longrightarrow> insert a (set (f a)) \<inter> insert b (set (f b)) = {}))"

lemma lists_okD:
  "lists_ok h H f \<Longrightarrow> a \<in> H \<Longrightarrow> is_queue h a (f a)"
  "lists_ok h H f \<Longrightarrow> a \<in> H \<Longrightarrow> b \<in> H \<Longrightarrow> a \<noteq> b \<Longrightarrow>
     insert a (set (f a)) \<inter> insert b (set (f b)) = {}"
  unfolding lists_ok_def by blast+

lemma list_insert_frame:
  assumes q: "is_queue h a xs" and q': "is_queue h b ys"
    and disj: "insert a (set xs) \<inter> insert b (set ys) = {}"
    and new: "n \<notin> insert a (set xs) \<union> insert b (set ys)"
  shows "is_queue (list_insert a n h) b ys"
proof -
  have "nxt h a = hd (xs @ [a])"
    using q qseg_first [of h a xs a] by (simp add: is_queue_def)
  then have "nxt h a \<in> insert a (set xs)" by (cases xs) auto
  then have "nxt h a \<notin> insert b (set ys)" using disj by blast
  with disj new show ?thesis
    by (intro is_queue_frame [OF q']) (auto simp: queue_op_defs)
qed

lemma list_insert_refines:
  assumes "is_queue h a xs" and "n \<notin> insert a (set xs)"
  shows "is_queue (list_insert a n h) a (n # xs)"
  using queue_insert_refines [of h a "[]" xs n] list_insert_eq [of n a h] assms by auto

lemma lists_ok_insert:
  assumes ok: "lists_ok h H f" and a: "a \<in> H" and n: "n \<notin> H" "\<forall>b\<in>H. n \<notin> set (f b)"
  shows "lists_ok (list_insert a n h) H (f(a := n # f a))"
  unfolding lists_ok_def
proof (intro conjI ballI impI)
  fix b assume b: "b \<in> H"
  show "is_queue (list_insert a n h) b ((f(a := n # f a)) b)"
  proof (cases "b = a")
    case True
    have "n \<notin> insert a (set (f a))" using n a by blast
    then show ?thesis using list_insert_refines [OF lists_okD(1) [OF ok a]] True by simp
  next
    case False
    have new: "n \<notin> insert a (set (f a)) \<union> insert b (set (f b))" using n a b by blast
    show ?thesis
      using list_insert_frame [OF lists_okD(1) [OF ok a] lists_okD(1) [OF ok b]
          lists_okD(2) [OF ok a b not_sym [OF False]] new] False
      by simp
  qed
next
  fix b c assume "b \<in> H" "c \<in> H" "b \<noteq> c"
  with lists_okD(2) [OF ok this] n
  show "insert b (set ((f(a := n # f a)) b)) \<inter> insert c (set ((f(a := n # f a)) c)) = {}"
    by auto
qed

lemma lists_ok_remove:
  assumes ok: "lists_ok h H f" and a: "a \<in> H" and n: "n \<in> set (f a)"
  shows "lists_ok (list_remove n h) H (f(a := remove1 n (f a)))"
  unfolding lists_ok_def
proof (intro conjI ballI impI)
  fix b assume b: "b \<in> H"
  show "is_queue (list_remove n h) b ((f(a := remove1 n (f a))) b)"
  proof (cases "b = a")
    case True
    then show ?thesis
      using queue_remove_refines [OF lists_okD(1) [OF ok a] n] by (simp add: list_remove_eq)
  next
    case False
    show ?thesis
      using queue_remove_frame [OF lists_okD(1) [OF ok a] lists_okD(1) [OF ok b]
          lists_okD(2) [OF ok a b not_sym [OF False]] n] False
      by (simp add: list_remove_eq)
  qed
next
  fix b c assume "b \<in> H" "c \<in> H" "b \<noteq> c"
  with lists_okD(2) [OF ok this] set_remove1_subset [of n "f a"]
  show "insert b (set ((f(a := remove1 n (f a))) b)) \<inter> insert c (set ((f(a := remove1 n (f a))) c)) = {}"
    by auto
qed

lemma lists_ok_init:
  assumes ok: "lists_ok h H f" and a: "a \<notin> H" "\<forall>b\<in>H. a \<notin> set (f b)"
  shows "lists_ok (queue_init a h) (insert a H) (f(a := []))"
  unfolding lists_ok_def
proof (intro conjI ballI impI)
  fix b assume b: "b \<in> insert a H"
  show "is_queue (queue_init a h) b ((f(a := [])) b)"
  proof (cases "b = a")
    case True
    then show ?thesis by (simp add: queue_init_refines)
  next
    case False
    with b have "b \<in> H" by blast
    with False a show ?thesis
      by (auto intro!: is_queue_frame [OF lists_okD(1) [OF ok \<open>b \<in> H\<close>]] simp: queue_init_def set_nxt_def set_prv_def)
  qed
next
  fix b c assume bc: "b \<in> insert a H" "c \<in> insert a H" "b \<noteq> c"
  show "insert b (set ((f(a := [])) b)) \<inter> insert c (set ((f(a := [])) c)) = {}"
    using bc a lists_okD(2) [OF ok, of b c] by auto
qed

lemma lists_ok_mono: "lists_ok h H f \<Longrightarrow> H' \<subseteq> H \<Longrightarrow> lists_ok h H' f"
  unfolding lists_ok_def by blast

lemma lists_ok_next:
  assumes "lists_ok h H f" and "a \<in> H" and "f a = xs @ x # ys"
  shows "nxt h x = hd (ys @ [a])"
  using queue_neighbours(2) [of h a xs x ys] lists_okD(1) [OF assms(1,2)] assms(3) by simp

lemma lists_ok_first: "lists_ok h H f \<Longrightarrow> a \<in> H \<Longrightarrow> nxt h a = hd (f a @ [a])"
  using qseg_first [of h a "f a" a] lists_okD(1) [of h H f a] by (simp add: is_queue_def)

lemma lists_ok_distinct: "lists_ok h H f \<Longrightarrow> a \<in> H \<Longrightarrow> distinct (a # f a)"
  using lists_okD(1) [of h H f a] by (simp add: is_queue_def)

section \<open>Walks\<close>

text \<open>
  \<open>for (n = list_first(head); n != head; n = list_next(n))\<close> with a test that ends it, from \<open>n\<close> on. The
  result is the node at which the test holds, or the head.
\<close>

partial_function (option) scan :: "('a \<Rightarrow> 'a) \<Rightarrow> ('a \<Rightarrow> bool) \<Rightarrow> 'a \<Rightarrow> 'a \<Rightarrow> 'a option" where
  "scan nx P head n =
     (if n = head then Some head else if P n then Some n else scan nx P head (nx n))"

definition found :: "('a \<Rightarrow> bool) \<Rightarrow> 'a \<Rightarrow> 'a list \<Rightarrow> 'a" where
  "found P head xs = (case find P xs of None \<Rightarrow> head | Some n \<Rightarrow> n)"

locale list_family =
  fixes ok :: "'h \<Rightarrow> 'a set \<Rightarrow> ('a \<Rightarrow> 'a list) \<Rightarrow> bool"
    and nx :: "'h \<Rightarrow> 'a \<Rightarrow> 'a"
  assumes first: "ok h H f \<Longrightarrow> a \<in> H \<Longrightarrow> nx h a = hd (f a @ [a])"
    and succ: "ok h H f \<Longrightarrow> a \<in> H \<Longrightarrow> f a = xs @ x # ys \<Longrightarrow> nx h x = hd (ys @ [a])"
    and dist: "ok h H f \<Longrightarrow> a \<in> H \<Longrightarrow> distinct (a # f a)"
begin

lemma scan_from:
  assumes "ok h H f" "a \<in> H"
  shows "f a = xs @ ys \<Longrightarrow> scan (nx h) P a (hd (ys @ [a])) = Some (found P a ys)"
proof (induction ys arbitrary: xs)
  case Nil
  then show ?case by (simp add: scan.simps found_def)
next
  case (Cons y ys)
  have "y \<noteq> a" using dist [OF assms] Cons.prems by auto
  moreover have "nx h y = hd (ys @ [a])" by (rule succ [OF assms Cons.prems])
  ultimately show ?case
    using Cons.IH [of "xs @ [y]"] Cons.prems by (simp add: scan.simps [of _ _ _ y] found_def)
qed

lemma scan_list:
  assumes "ok h H f" "a \<in> H"
  shows "scan (nx h) P a (nx h a) = Some (found P a (f a))"
  using scan_from [OF assms, of "[]" "f a" P] first [OF assms] by simp

end

interpretation fam: list_family lists_ok nxt
  by unfold_locales (rule lists_ok_first lists_ok_next lists_ok_distinct; assumption)+

lemma found_cases:
  "found P a xs = a \<and> (\<forall>n\<in>set xs. \<not> P n) \<or> found P a xs \<in> set xs \<and> P (found P a xs)"
proof (cases "find P xs")
  case None
  moreover have "\<forall>n\<in>set xs. \<not> P n" using None by (simp add: find_None_iff)
  ultimately show ?thesis by (simp add: found_def)
next
  case (Some n)
  moreover have "n \<in> set xs" "P n" using Some by (auto simp: find_Some_iff)
  ultimately show ?thesis by (simp add: found_def)
qed

lemma found_head: "a \<notin> set xs \<Longrightarrow> (found P a xs = a) = (\<forall>n\<in>set xs. \<not> P n)"
  using found_cases [of P a xs] by metis

section \<open>Which node is on which list\<close>

text \<open>
  \<open>fam_ok h H m\<close>: the heap holds one list for every head in \<open>H\<close>, and the node \<open>n\<close> is on the list of \<open>a\<close>
  exactly if \<open>m n = Some a\<close>. Linking and unlinking update the map \<open>m\<close>.
\<close>

definition fam_list :: "'a qheap \<Rightarrow> 'a set \<Rightarrow> ('a \<Rightarrow> 'a option) \<Rightarrow> ('a \<Rightarrow> 'a list) \<Rightarrow> bool" where
  "fam_list h H m f =
     (ran m \<subseteq> H \<and> dom m \<inter> H = {} \<and> lists_ok h H f \<and> (\<forall>a\<in>H. set (f a) = {n. m n = Some a}))"

definition fam_ok :: "'a qheap \<Rightarrow> 'a set \<Rightarrow> ('a \<Rightarrow> 'a option) \<Rightarrow> bool" where
  "fam_ok h H m = (\<exists>f. fam_list h H m f)"

lemma fam_okE:
  assumes "fam_ok h H m"
  obtains f where "ran m \<subseteq> H" "dom m \<inter> H = {}" "lists_ok h H f" "\<forall>a\<in>H. set (f a) = {n. m n = Some a}"
  using assms unfolding fam_ok_def fam_list_def by blast

lemma fam_okI:
  "ran m \<subseteq> H \<Longrightarrow> dom m \<inter> H = {} \<Longrightarrow> lists_ok h H f \<Longrightarrow> \<forall>a\<in>H. set (f a) = {n. m n = Some a} \<Longrightarrow> fam_ok h H m"
  unfolding fam_ok_def fam_list_def by blast

lemma fam_list_head: "fam_list h H m f \<Longrightarrow> m n = Some a \<Longrightarrow> a \<in> H \<and> n \<notin> H \<and> n \<in> set (f a)"
  unfolding fam_list_def by (auto intro: ranI)

lemma fam_list_insert:
  assumes fam: "fam_list h H m f" and a: "a \<in> H" and n: "n \<notin> H" "m n = None"
  shows "fam_list (list_insert a n h) H (m(n \<mapsto> a)) (f(a := n # f a))"
proof -
  have f: "lists_ok h H f" "\<forall>a\<in>H. set (f a) = {n. m n = Some a}"
    using fam unfolding fam_list_def by blast+
  have "\<forall>b\<in>H. n \<notin> set (f b)" using f(2) n(2) by simp
  then have "lists_ok (list_insert a n h) H (f(a := n # f a))"
    by (rule lists_ok_insert [OF f(1) a n(1)])
  moreover have "\<forall>b\<in>H. set ((f(a := n # f a)) b) = {x. (m(n \<mapsto> a)) x = Some b}"
    using f(2) n(2) by auto
  moreover have "ran (m(n \<mapsto> a)) \<subseteq> H" "dom (m(n \<mapsto> a)) \<inter> H = {}"
    using fam a n unfolding fam_list_def by auto
  ultimately show ?thesis unfolding fam_list_def by blast
qed

lemma fam_list_remove:
  assumes fam: "fam_list h H m f" and n: "m n = Some a"
  shows "fam_list (list_remove n h) H (m(n := None)) (f(a := remove1 n (f a)))"
proof -
  have f: "lists_ok h H f" "\<forall>a\<in>H. set (f a) = {n. m n = Some a}"
    using fam unfolding fam_list_def by blast+
  have a: "a \<in> H" using fam_list_head [OF fam n] by blast
  have "lists_ok (list_remove n h) H (f(a := remove1 n (f a)))"
    using lists_ok_remove [OF f(1) a] f(2) a n by simp
  moreover have "\<forall>b\<in>H. set ((f(a := remove1 n (f a))) b) = {x. (m(n := None)) x = Some b}"
    using f(2) n lists_ok_distinct [OF f(1)] by auto
  moreover have "ran (m(n := None)) \<subseteq> H" "dom (m(n := None)) \<inter> H = {}"
    using fam unfolding fam_list_def by (auto simp: ran_def)
  ultimately show ?thesis unfolding fam_list_def by blast
qed

lemma fam_insert:
  "fam_ok h H m \<Longrightarrow> a \<in> H \<Longrightarrow> n \<notin> H \<Longrightarrow> m n = None \<Longrightarrow> fam_ok (list_insert a n h) H (m(n \<mapsto> a))"
  unfolding fam_ok_def by (blast intro: fam_list_insert)

lemma fam_remove: "fam_ok h H m \<Longrightarrow> m n = Some a \<Longrightarrow> fam_ok (list_remove n h) H (m(n := None))"
  unfolding fam_ok_def by (blast intro: fam_list_remove)

lemma fam_init:
  assumes fam: "fam_ok h H m" and a: "a \<notin> H" "m a = None"
  shows "fam_ok (queue_init a h) (insert a H) m"
proof -
  obtain f where f: "lists_ok h H f" "\<forall>a\<in>H. set (f a) = {n. m n = Some a}"
    using fam by (rule fam_okE)
  have "lists_ok (queue_init a h) (insert a H) (f(a := []))"
    using lists_ok_init [OF f(1) a(1)] f(2) a(2) by simp
  moreover have none: "m n \<noteq> Some a" for n
    using fam a(1) unfolding fam_ok_def fam_list_def by (auto dest: ranI)
  then have "\<forall>b\<in>insert a H. set ((f(a := [])) b) = {n. m n = Some b}"
    using f(2) by auto
  moreover have "ran m \<subseteq> insert a H" "dom m \<inter> insert a H = {}"
    using fam a(2) unfolding fam_ok_def fam_list_def by auto
  ultimately show ?thesis by (intro fam_okI)
qed

lemma fam_drop:
  assumes "fam_ok h H m" and "\<forall>n. m n \<noteq> Some a"
  shows "fam_ok h (H - {a}) m"
proof -
  obtain f where "lists_ok h H f" "\<forall>a\<in>H. set (f a) = {n. m n = Some a}"
    using assms(1) by (rule fam_okE)
  then have "lists_ok h (H - {a}) f" "\<forall>b\<in>H - {a}. set (f b) = {n. m n = Some b}"
    using lists_ok_mono [of h H f "H - {a}"] by auto
  moreover have "ran m \<subseteq> H - {a}" "dom m \<inter> (H - {a}) = {}"
    using assms unfolding fam_ok_def fam_list_def ran_def by auto
  ultimately show ?thesis by (intro fam_okI)
qed

text \<open>A walk over a list ends, at the first node with the property or at the head if there is none.\<close>

lemma fam_scan:
  assumes fam: "fam_ok h H m" and a: "a \<in> H"
  obtains n where "scan (nxt h) P a (nxt h a) = Some n"
    and "n = a \<and> (\<forall>x. m x = Some a \<longrightarrow> \<not> P x) \<or> n \<noteq> a \<and> m n = Some a \<and> P n"
proof -
  obtain f where f: "lists_ok h H f" "\<forall>a\<in>H. set (f a) = {n. m n = Some a}"
    using fam by (rule fam_okE)
  have s: "set (f a) = {n. m n = Some a}" using f(2) a by simp
  have "a \<notin> dom m" using fam a unfolding fam_ok_def fam_list_def by blast
  then have "m a \<noteq> Some a" by (simp add: domIff)
  then have "found P a (f a) = a \<and> (\<forall>x. m x = Some a \<longrightarrow> \<not> P x) \<or>
      found P a (f a) \<noteq> a \<and> m (found P a (f a)) = Some a \<and> P (found P a (f a))"
    using found_cases [of P a "f a"] unfolding s mem_Collect_eq Ball_def by metis
  then show ?thesis by (rule that [OF fam.scan_list [OF f(1) a]])
qed

lemma fam_nodes:
  assumes fam: "fam_ok h H m"
  shows "a \<in> H \<Longrightarrow> nxt h a \<in> H \<union> dom m"
    and "m n = Some a \<Longrightarrow> nxt h n \<in> H \<union> dom m \<and> prv h n \<in> H \<union> dom m"
proof -
  obtain f where f: "lists_ok h H f" "\<forall>a\<in>H. set (f a) = {n. m n = Some a}"
    using fam by (rule fam_okE)
  have sub: "set (f a) \<subseteq> dom m" if "a \<in> H" for a using f(2) that by auto
  show "nxt h a \<in> H \<union> dom m" if "a \<in> H"
    using lists_ok_first [OF f(1) that] sub [OF that] that by (cases "f a") auto
  assume n: "m n = Some a"
  then have "a \<in> ran m" by (rule ranI)
  then have a: "a \<in> H" using fam unfolding fam_ok_def fam_list_def by blast
  have "n \<in> set (f a)" using f(2) a n by simp
  then obtain xs ys where fa: "f a = xs @ n # ys" by (metis split_list)
  have "nxt h n = hd (ys @ [a])" "prv h n = last (a # xs)"
    using queue_neighbours [of h a xs n ys] lists_okD(1) [OF f(1) a] fa by simp_all
  moreover have "hd (ys @ [a]) \<in> insert a (set (f a))" using fa by (cases ys) auto
  moreover have "last (a # xs) \<in> insert a (set (f a))" using fa by (cases xs rule: rev_cases) auto
  ultimately show "nxt h n \<in> H \<union> dom m \<and> prv h n \<in> H \<union> dom m"
    using sub [OF a] a by auto
qed

lemma fam_empty:
  assumes fam: "fam_ok h H m" and a: "a \<in> H"
  shows "(nxt h a = a) = (\<forall>n. m n \<noteq> Some a)"
proof -
  obtain f where f: "lists_ok h H f" "\<forall>a\<in>H. set (f a) = {n. m n = Some a}"
    using fam by (rule fam_okE)
  have "(nxt h a = a) = (f a = [])"
    using lists_ok_first [OF f(1) a] lists_ok_distinct [OF f(1) a] by (cases "f a") auto
  then show ?thesis using f(2) a by auto
qed

end
