(* ===== verification/Proc.thy ===== *)
theory Proc
  imports Linked_Lists Kernel_State "HOL-Library.Monad_Syntax"
begin

text \<open>
  The process server, \<^verbatim>\<open>usr/server/proc\<close>: processes, process groups and sessions on top of the tasks of the
  kernel. The lists of the server are modelled by their links, because not every handler keeps them lists.
  A handler that does not return, because a walk over the links never ends or because it follows a
  \<^verbatim>\<open>NULL\<close> pointer, has no result. System calls are answered by the argument \<open>K\<close>, which may look at all calls made
  before; \<open>calls\<close> is the list of the calls made, the latest first.
\<close>

section \<open>Data\<close>

record proc =
  p_parent :: nat
  p_pgrp :: nat
  p_stat :: int
  p_exitcode :: int
  p_vforked :: int
  p_pid :: int
  p_task :: int
  p_cap :: u32
  p_stackbase :: int
  p_stacksaved :: int

record pgrp =
  pg_session :: nat
  pg_pgid :: int

record session =
  s_refcnt :: int
  s_leader :: nat
  s_ttyhold :: int

text \<open>The places that hold a \<^verbatim>\<open>struct list\<close>: the static heads and the members of a structure at an address.\<close>

datatype node = Null | AllProc | PidHash nat | TaskHash nat | PgidHash nat
  | PLink nat | PChildren nat | PSibling nat | PPidLink nat | PTaskLink nat | PPgrpLink nat
  | PgLink nat | PgMembers nat

datatype kcall =
    K_raise int int
  | K_vm_map int int
  | K_vm_allocate
  | K_vm_free int
  | K_copy int int
  | K_resume int
  | K_terminate int
  | K_getcap int
  | K_setup
  | K_open
  | K_getpgrp int
  | K_setsigt int int
  | K_return

type_synonym kern = "kcall list \<Rightarrow> kcall \<Rightarrow> int \<times> int"

record pstate =
  lists :: "node qheap"
  procs :: "nat \<Rightarrow> proc"
  pgrps :: "nat \<Rightarrow> pgrp"
  sessions :: "nat \<Rightarrow> session"
  last_pid :: int
  curproc :: nat
  pool :: "nat list"
  ttydev :: int
  calls :: "kcall list"

text \<open>The static structures; only that their addresses differ matters.\<close>

definition proc0 :: nat where "proc0 = 0x2000"
definition initproc :: nat where "initproc = 0x2100"
definition pgrp0 :: nat where "pgrp0 = 0x2200"
definition session0 :: nat where "session0 = 0x2300"

definition PID_MAX :: int where "PID_MAX = 0x8000"
definition SRUN :: int where "SRUN = 1"
definition SZOMB :: int where "SZOMB = 2"
definition SSTOP :: int where "SSTOP = 3"
definition SIGCHLD :: int where "SIGCHLD = 20"
definition DEVICE_NULL :: int where "DEVICE_NULL = 0"

definition IDHASH :: "int \<Rightarrow> nat" where
  "IDHASH x = nat (x mod 32)"

text \<open>
  Where a link lies in memory and what \<^verbatim>\<open>list_entry\<close> makes of it: the address of the link less the offset of
  the member that is named. The offsets are those of the 32-bit layout of \<^verbatim>\<open>struct proc\<close> and \<^verbatim>\<open>struct pgrp\<close>.
  A walk ends at its own head; the heads of the tables are never taken for entries.
\<close>

definition P_LINK :: nat where "P_LINK = 0"
definition P_SIBLING :: nat where "P_SIBLING = 20"
definition P_PID_LINK :: nat where "P_PID_LINK = 28"
definition P_TASK_LINK :: nat where "P_TASK_LINK = 36"
definition PG_LINK :: nat where "PG_LINK = 0"

lemmas offset_defs = P_LINK_def P_SIBLING_def P_PID_LINK_def P_TASK_LINK_def PG_LINK_def

fun node_addr :: "node \<Rightarrow> nat" where
  "node_addr (PLink p) = p"
| "node_addr (PChildren p) = p + 12"
| "node_addr (PSibling p) = p + 20"
| "node_addr (PPidLink p) = p + 28"
| "node_addr (PTaskLink p) = p + 36"
| "node_addr (PPgrpLink p) = p + 44"
| "node_addr (PgLink g) = g"
| "node_addr (PgMembers g) = g + 8"
| "node_addr _ = 0"

definition list_entry :: "node \<Rightarrow> nat \<Rightarrow> nat" where
  "list_entry n member = node_addr n - member"

section \<open>Lists, memory and system calls\<close>

definition link_in :: "node \<Rightarrow> node \<Rightarrow> pstate \<Rightarrow> pstate option" where
  "link_in prev n s =
     (if nxt (lists s) prev = Null then None
      else Some (s\<lparr>lists := list_insert prev n (lists s)\<rparr>))"

definition unlink :: "node \<Rightarrow> pstate \<Rightarrow> pstate option" where
  "unlink n s =
     (if nxt (lists s) n = Null \<or> prv (lists s) n = Null then None
      else Some (s\<lparr>lists := list_remove n (lists s)\<rparr>))"

definition linit :: "node \<Rightarrow> pstate \<Rightarrow> pstate" where
  "linit head s = s\<lparr>lists := queue_init head (lists s)\<rparr>"

definition set_proc :: "nat \<Rightarrow> (proc \<Rightarrow> proc) \<Rightarrow> pstate \<Rightarrow> pstate" where
  "set_proc p u s = s\<lparr>procs := (procs s)(p := u (procs s p))\<rparr>"

definition set_pgrp :: "nat \<Rightarrow> (pgrp \<Rightarrow> pgrp) \<Rightarrow> pstate \<Rightarrow> pstate" where
  "set_pgrp g u s = s\<lparr>pgrps := (pgrps s)(g := u (pgrps s g))\<rparr>"

text \<open>\<open>pool\<close> are the blocks \<^verbatim>\<open>malloc\<close> will hand out. The result 0 is \<^verbatim>\<open>NULL\<close>.\<close>

definition malloc :: "pstate \<Rightarrow> nat \<times> pstate" where
  "malloc s = (case pool s of [] \<Rightarrow> (0, s) | a # rest \<Rightarrow> (a, s\<lparr>pool := rest\<rparr>))"

definition mfree :: "nat \<Rightarrow> pstate \<Rightarrow> pstate" where
  "mfree a s = s\<lparr>pool := a # pool s\<rparr>"

definition syscall :: "kern \<Rightarrow> kcall \<Rightarrow> pstate \<Rightarrow> (int \<times> int) \<times> pstate" where
  "syscall K c s = (K (calls s) c, s\<lparr>calls := c # calls s\<rparr>)"

definition kcall_do :: "kern \<Rightarrow> kcall \<Rightarrow> pstate \<Rightarrow> pstate" where
  "kcall_do K c s = snd (syscall K c s)"

definition deref :: "nat \<Rightarrow> nat option" where
  "deref p = (if p = 0 then None else Some p)"

section \<open>Tables\<close>

definition lookup :: "node \<Rightarrow> nat \<Rightarrow> (nat \<Rightarrow> bool) \<Rightarrow> pstate \<Rightarrow> nat option" where
  "lookup head member P s =
     do { n \<leftarrow> scan (nxt (lists s)) (\<lambda>n. P (list_entry n member)) head (nxt (lists s) head);
          Some (if n = head then 0 else list_entry n member) }"

definition proc_find :: "int \<Rightarrow> pstate \<Rightarrow> nat option" where
  "proc_find pid s =
     lookup (PidHash (IDHASH pid)) P_PID_LINK (\<lambda>p. p_pid (procs s p) = pid) s"

definition pgrp_find :: "int \<Rightarrow> pstate \<Rightarrow> nat option" where
  "pgrp_find pgid s =
     lookup (PgidHash (IDHASH pgid)) PG_LINK (\<lambda>g. pg_pgid (pgrps s g) = pgid) s"

definition task_to_proc :: "int \<Rightarrow> pstate \<Rightarrow> nat option" where
  "task_to_proc task s =
     lookup (TaskHash (IDHASH task)) P_TASK_LINK (\<lambda>p. p_task (procs s p) = task) s"

definition proc_add :: "nat \<Rightarrow> pstate \<Rightarrow> pstate option" where
  "proc_add p s =
     do { s1 \<leftarrow> link_in (PidHash (IDHASH (p_pid (procs s p)))) (PPidLink p) s;
          link_in (TaskHash (IDHASH (p_task (procs s1 p)))) (PTaskLink p) s1 }"

definition proc_remove :: "nat \<Rightarrow> pstate \<Rightarrow> pstate option" where
  "proc_remove p s = do { s1 \<leftarrow> unlink (PPidLink p) s; unlink (PTaskLink p) s1 }"

definition pgrp_add :: "nat \<Rightarrow> pstate \<Rightarrow> pstate option" where
  "pgrp_add g s = link_in (PgidHash (IDHASH (pg_pgid (pgrps s g)))) (PgLink g) s"

definition pgrp_remove :: "nat \<Rightarrow> pstate \<Rightarrow> pstate option" where
  "pgrp_remove g s = unlink (PgLink g) s"

definition table_init :: "pstate \<Rightarrow> pstate" where
  "table_init s =
     fold (\<lambda>i s. linit (PgidHash i) (linit (TaskHash i) (linit (PidHash i) s))) [0..<32] s"

section \<open>Process identifiers\<close>

definition next_pid :: "int \<Rightarrow> int" where
  "next_pid pid = (if PID_MAX \<le> pid + 1 then 1 else pid + 1)"

partial_function (option) pid_loop :: "int \<Rightarrow> int \<Rightarrow> pstate \<Rightarrow> int option" where
  "pid_loop prev pid s =
     (if pid = prev then Some pid
      else do { p \<leftarrow> proc_find pid s;
                if p = 0 then Some pid else pid_loop prev (next_pid pid) s })"

definition pid_assign :: "pstate \<Rightarrow> (int \<times> pstate) option" where
  "pid_assign s =
     do { pid \<leftarrow> pid_loop (last_pid s) (next_pid (last_pid s)) s;
          Some (if pid = last_pid s then (0, s) else (pid, s\<lparr>last_pid := pid\<rparr>)) }"

section \<open>Requests\<close>

text \<open>The codes of the messages, \<^verbatim>\<open>include/server/stdmsg.h\<close> and \<^verbatim>\<open>include/server/proc.h\<close>.\<close>

abbreviation STD_DEBUG :: int where "STD_DEBUG \<equiv> 0x2"
abbreviation STD_SHUTDOWN :: int where "STD_SHUTDOWN \<equiv> 0x4"
abbreviation PS_GETPID :: int where "PS_GETPID \<equiv> 0x100"
abbreviation PS_GETPPID :: int where "PS_GETPPID \<equiv> 0x101"
abbreviation PS_GETPGID :: int where "PS_GETPGID \<equiv> 0x102"
abbreviation PS_SETPGID :: int where "PS_SETPGID \<equiv> 0x103"
abbreviation PS_SETSID :: int where "PS_SETSID \<equiv> 0x104"
abbreviation PS_GETSID :: int where "PS_GETSID \<equiv> 0x105"
abbreviation PS_FORK :: int where "PS_FORK \<equiv> 0x106"
abbreviation PS_EXIT :: int where "PS_EXIT \<equiv> 0x107"
abbreviation PS_STOP :: int where "PS_STOP \<equiv> 0x108"
abbreviation PS_WAITPID :: int where "PS_WAITPID \<equiv> 0x109"
abbreviation PS_KILL :: int where "PS_KILL \<equiv> 0x10A"
abbreviation PS_EXEC :: int where "PS_EXEC \<equiv> 0x10B"
abbreviation PS_PSTAT :: int where "PS_PSTAT \<equiv> 0x10C"
abbreviation PS_SETINIT :: int where "PS_SETINIT \<equiv> 0x10D"
abbreviation PS_REGISTER :: int where "PS_REGISTER \<equiv> 0x10E"
abbreviation PS_GETTASK :: int where "PS_GETTASK \<equiv> 0x10F"

record pmsg =
  m_task :: int
  m_code :: int
  d0 :: int
  d1 :: int
  d2 :: int

type_synonym reply = "errno \<times> pmsg \<times> pstate"

definition cur :: "pstate \<Rightarrow> proc" where
  "cur s = procs s (curproc s)"

definition pgid_of :: "nat \<Rightarrow> pstate \<Rightarrow> int" where
  "pgid_of p s = pg_pgid (pgrps s (p_pgrp (procs s p)))"

definition proc_getpid :: "pmsg \<Rightarrow> pstate \<Rightarrow> reply option" where
  "proc_getpid m s =
     (if curproc s = 0 then Some (ESRCH, m, s) else Some (0, m\<lparr>d0 := p_pid (cur s)\<rparr>, s))"

definition proc_getppid :: "pmsg \<Rightarrow> pstate \<Rightarrow> reply option" where
  "proc_getppid m s =
     (if curproc s = 0 then Some (ESRCH, m, s)
      else do { pp \<leftarrow> deref (p_parent (cur s)); Some (0, m\<lparr>d0 := p_pid (procs s pp)\<rparr>, s) })"

definition proc_or_self :: "int \<Rightarrow> pstate \<Rightarrow> nat option" where
  "proc_or_self pid s = (if pid = 0 then Some (curproc s) else proc_find pid s)"

definition proc_getpgid :: "pmsg \<Rightarrow> pstate \<Rightarrow> reply option" where
  "proc_getpgid m s =
     (if curproc s = 0 then Some (ESRCH, m, s)
      else do { p \<leftarrow> proc_or_self (d0 m) s;
                if p = 0 then Some (ESRCH, m, s)
                else Some (0, m\<lparr>d0 := pgid_of p s\<rparr>, s) })"

text \<open>The member \<^verbatim>\<open>pg_session\<close> of a new group is not set: it keeps what the block held.\<close>

definition proc_setpgid :: "pmsg \<Rightarrow> pstate \<Rightarrow> reply option" where
  "proc_setpgid m s =
     (if curproc s = 0 then Some (ESRCH, m, s)
      else do { p \<leftarrow> proc_or_self (d0 m) s;
        if p = 0 then Some (ESRCH, m, s)
        else if d1 m < 0 then Some (EINVAL, m, s)
        else let pgid = (if d1 m = 0 then p_pid (procs s p) else d1 m) in
          if pgid_of p s = pgid then Some (0, m, s)
          else do { g \<leftarrow> pgrp_find pgid s;
            if g = 0 then
              (let (g, s1) = malloc s in
               if g = 0 then Some (ENOMEM, m, s1)
               else do {
                 s2 \<leftarrow> pgrp_add g (set_pgrp g (pg_pgid_update (\<lambda>_. pgid)) (linit (PgMembers g) s1));
                 s3 \<leftarrow> link_in (PgMembers g) (PPgrpLink p) s2;
                 Some (0, m, set_proc p (p_pgrp_update (\<lambda>_. g)) s3) })
            else do {
              s1 \<leftarrow> unlink (PPgrpLink p) s;
              s2 \<leftarrow> link_in (PgMembers g) (PPgrpLink p) s1;
              Some (0, m, set_proc p (p_pgrp_update (\<lambda>_. g)) s2) } } })"

definition proc_getsid :: "pmsg \<Rightarrow> pstate \<Rightarrow> reply option" where
  "proc_getsid m s =
     (if curproc s = 0 then Some (ESRCH, m, s)
      else do { p \<leftarrow> proc_or_self (d0 m) s;
        if p = 0 then Some (ESRCH, m, s)
        else do {
          sess \<leftarrow> deref (pg_session (pgrps s (p_pgrp (procs s p))));
          leader \<leftarrow> deref (s_leader (sessions s sess));
          Some (0, m\<lparr>d0 := p_pid (procs s leader)\<rparr>, s) } })"

definition proc_setsid :: "pmsg \<Rightarrow> pstate \<Rightarrow> reply option" where
  "proc_setsid m s =
     (if curproc s = 0 then Some (ESRCH, m, s)
      else let p = curproc s in
        if p_pid (procs s p) = pgid_of p s then Some (EPERM, m, s)
        else let (sess, s1) = malloc s in
          if sess = 0 then Some (ENOMEM, m, s1)
          else let (g, s2) = malloc s1 in
            if g = 0 then Some (ENOMEM, m, mfree sess s2)
            else do {
              s3 \<leftarrow> pgrp_add g (set_pgrp g (pg_pgid_update (\<lambda>_. p_pid (procs s2 p))) (linit (PgMembers g) s2));
              s4 \<leftarrow> unlink (PPgrpLink p) s3;
              s5 \<leftarrow> link_in (PgMembers g) (PPgrpLink p) s4;
              let s6 = set_proc p (p_pgrp_update (\<lambda>_. g)) s5;
                  s7 = s6\<lparr>sessions := (sessions s6)(sess := \<lparr>s_refcnt = 1, s_leader = p, s_ttyhold = 0\<rparr>)\<rparr>;
                  s8 = set_pgrp g (pg_session_update (\<lambda>_. sess)) s7
              in Some (0, m\<lparr>d0 := p_pid (procs s8 p)\<rparr>, s8) })"

definition proc_gettask :: "pmsg \<Rightarrow> pstate \<Rightarrow> reply option" where
  "proc_gettask m s =
     do { p \<leftarrow> proc_find (d0 m) s;
          if p = 0 then Some (ESRCH, m, s) else Some (0, m\<lparr>d0 := p_task (procs s p)\<rparr>, s) }"

section \<open>Fork\<close>

text \<open>The result of \<open>vfork_start\<close> is what the C function returns; its caller drops it.\<close>

definition vfork_start :: "kern \<Rightarrow> nat \<Rightarrow> pstate \<Rightarrow> errno \<times> pstate" where
  "vfork_start K p s =
     (let ((e, stack), s1) = syscall K (K_vm_map (p_task (procs s p)) (p_stackbase (procs s p))) s in
      if e \<noteq> 0 then (ENOMEM, s1)
      else let ((e, saved), s2) = syscall K K_vm_allocate s1 in
        if e \<noteq> 0 then (ENOMEM, s2)
        else let s3 = set_proc p (p_stacksaved_update (\<lambda>_. saved)) s2;
                 s4 = kcall_do K (K_vm_free stack) (kcall_do K (K_copy saved stack) s3)
             in (0, set_proc p (p_vforked_update (\<lambda>_. 1)) s4))"

definition vfork_end :: "kern \<Rightarrow> nat \<Rightarrow> pstate \<Rightarrow> pstate" where
  "vfork_end K p s =
     (let ((e, stack), s1) = syscall K (K_vm_map (p_task (procs s p)) (p_stackbase (procs s p))) s in
      if e \<noteq> 0 then s1
      else let saved = p_stacksaved (procs s1 p);
               s2 = kcall_do K (K_copy stack saved) s1;
               s3 = kcall_do K (K_vm_free stack) (kcall_do K (K_vm_free saved) s2);
               s4 = set_proc p (p_vforked_update (\<lambda>_. 0)) s3
           in kcall_do K (K_resume (p_task (procs s4 p))) s4)"

text \<open>
  A new process keeps in \<^verbatim>\<open>p_vforked\<close>, \<^verbatim>\<open>p_cap\<close>, \<^verbatim>\<open>p_stackbase\<close> and \<^verbatim>\<open>p_stacksaved\<close> what its block held.
\<close>

definition fork_fields :: "nat \<Rightarrow> nat \<Rightarrow> int \<Rightarrow> int \<Rightarrow> proc \<Rightarrow> proc" where
  "fork_fields pr g pid task p =
     p\<lparr>p_parent := pr, p_pgrp := g, p_stat := SRUN, p_exitcode := 0, p_pid := pid, p_task := task\<rparr>"

definition proc_fork :: "kern \<Rightarrow> pmsg \<Rightarrow> pstate \<Rightarrow> reply option" where
  "proc_fork K m s =
     (if curproc s = 0 then Some (EINVAL, m, s)
      else do {
        old \<leftarrow> task_to_proc (d0 m) s;
        if old \<noteq> 0 then Some (EINVAL, m, s)
        else do {
          (pid, s1) \<leftarrow> pid_assign s;
          if pid = 0 then Some (EAGAIN, m, s1)
          else let (p, s2) = malloc s1 in
            if p = 0 then Some (ENOMEM, m, s2)
            else let c = curproc s2;
                     s3 = linit (PChildren p) (set_proc p (fork_fields c (p_pgrp (procs s2 c)) pid (d0 m)) s2)
              in do {
                s4 \<leftarrow> proc_add p s3;
                s5 \<leftarrow> link_in (PChildren c) (PSibling p) s4;
                s6 \<leftarrow> link_in (PgMembers (p_pgrp (procs s5 p))) (PPgrpLink p) s5;
                s7 \<leftarrow> link_in AllProc (PLink p) s6;
                let s8 = (if d1 m \<noteq> 0 then snd (vfork_start K c s7) else s7)
                in Some (0, m\<lparr>d0 := p_pid (procs s8 p)\<rparr>, s8) } } })"

definition proc_cleanup :: "nat \<Rightarrow> pstate \<Rightarrow> pstate option" where
  "proc_cleanup p s =
     do { s1 \<leftarrow> unlink (PSibling p) s;
          s2 \<leftarrow> unlink (PPgrpLink p) s1;
          s3 \<leftarrow> proc_remove p s2;
          s4 \<leftarrow> unlink (PLink p) s3;
          Some (mfree p s4) }"

section \<open>Exit and wait\<close>

partial_function (option) reparent :: "nat \<Rightarrow> node \<Rightarrow> pstate \<Rightarrow> pstate option" where
  "reparent c n s =
     (if n = PChildren c then Some s
      else let child = list_entry n P_SIBLING; n' = nxt (lists s) n in
        do { s1 \<leftarrow> unlink (PSibling child) (set_proc child (p_parent_update (\<lambda>_. initproc)) s);
             s2 \<leftarrow> link_in (PChildren initproc) (PSibling child) s1;
             reparent c n' s2 })"

definition proc_exit :: "kern \<Rightarrow> pmsg \<Rightarrow> pstate \<Rightarrow> reply option" where
  "proc_exit K m s =
     (if curproc s = 0 then Some (EINVAL, m, s)
      else if p_stat (cur s) = SZOMB then Some (EBUSY, m, s)
      else let c = curproc s;
               s1 = set_proc c (\<lambda>p. p\<lparr>p_stat := SZOMB, p_exitcode := d0 m\<rparr>) s
        in do {
          s2 \<leftarrow> reparent c (nxt (lists s1) (PChildren c)) s1;
          let pr = p_parent (procs s2 c);
              s3 = (if pr \<noteq> 0 \<and> p_vforked (procs s2 pr) \<noteq> 0
                    then (let s' = vfork_end K pr s2 in kcall_do K (K_terminate (p_task (procs s' c))) s')
                    else s2)
          in do {
            pp \<leftarrow> deref (p_parent (procs s3 c));
            Some (0, m, kcall_do K (K_raise (p_task (procs s3 pp)) SIGCHLD) s3) } })"

definition proc_stop :: "kern \<Rightarrow> pmsg \<Rightarrow> pstate \<Rightarrow> reply option" where
  "proc_stop K m s =
     (if curproc s = 0 then Some (EINVAL, m, s)
      else if p_stat (cur s) = SZOMB then Some (EBUSY, m, s)
      else let s1 = set_proc (curproc s) (\<lambda>p. p\<lparr>p_stat := SSTOP, p_exitcode := d0 m\<rparr>) s
        in do {
          pp \<leftarrow> deref (p_parent (cur s1));
          Some (0, m, kcall_do K (K_raise (p_task (procs s1 pp)) SIGCHLD) s1) })"

definition wait_match :: "int \<Rightarrow> pstate \<Rightarrow> nat \<Rightarrow> bool" where
  "wait_match pid s p =
     (if 0 < pid then p_pid (procs s p) = pid
      else if pid = 0 then pgid_of p s = pgid_of (curproc s) s
      else if pid \<noteq> -1 then pgid_of p s = - pid
      else True)"

definition waited :: "int \<Rightarrow> pstate \<Rightarrow> nat \<Rightarrow> bool" where
  "waited pid s p =
     (wait_match pid s p \<and> (p_stat (procs s p) = SSTOP \<or> p_stat (procs s p) = SZOMB))"

definition proc_waitpid :: "pmsg \<Rightarrow> pstate \<Rightarrow> reply option" where
  "proc_waitpid m s =
     (if curproc s = 0 then Some (EINVAL, m, s)
      else let head = PChildren (curproc s) in
        if nxt (lists s) head = head then Some (ECHILD, m, s)
        else do {
          p \<leftarrow> lookup head P_SIBLING (waited (d0 m) s) s;
          if p = 0 then Some (0, m\<lparr>d0 := 0, d1 := 0\<rparr>, s)
          else let m1 = m\<lparr>d0 := p_pid (procs s p), d1 := p_exitcode (procs s p)\<rparr> in
            if p_stat (procs s p) = SSTOP then Some (0, m1, s)
            else do { s1 \<leftarrow> proc_cleanup p s; Some (0, m1, s1) } })"

section \<open>Signals\<close>

definition send_sig :: "kern \<Rightarrow> nat \<Rightarrow> int \<Rightarrow> pstate \<Rightarrow> errno \<times> pstate" where
  "send_sig K p sig s =
     (if p_pid (procs s p) = 0 \<or> p_pid (procs s p) = 1 then (EPERM, s)
      else let ((e, _), s1) = syscall K (K_raise (p_task (procs s p)) sig) s in (e, s1))"

definition kill_one :: "kern \<Rightarrow> int \<Rightarrow> int \<Rightarrow> pstate \<Rightarrow> (errno \<times> pstate) option" where
  "kill_one K pid sig s =
     do { p \<leftarrow> proc_find pid s;
          Some (if p = 0 then (ESRCH, s) else send_sig K p sig s) }"

text \<open>
  The members of a group are linked by \<^verbatim>\<open>p_pgrp_link\<close>, but \<^verbatim>\<open>kill_pg\<close> takes the nodes for \<^verbatim>\<open>p_link\<close>: what it reads
  as a process begins 44 bytes into the structure.
\<close>

partial_function (option) kill_members ::
    "kern \<Rightarrow> int \<Rightarrow> node \<Rightarrow> node \<Rightarrow> errno \<Rightarrow> pstate \<Rightarrow> (errno \<times> pstate) option" where
  "kill_members K sig head n err s =
     (if n = head then Some (err, s)
      else let (e, s1) = send_sig K (list_entry n P_LINK) sig s in
        if e \<noteq> 0 then Some (e, s1)
        else kill_members K sig head (nxt (lists s1) n) e s1)"

definition kill_pg :: "kern \<Rightarrow> int \<Rightarrow> int \<Rightarrow> pstate \<Rightarrow> (errno \<times> pstate) option" where
  "kill_pg K pgid sig s =
     do { g \<leftarrow> pgrp_find pgid s;
          if g = 0 then Some (ESRCH, s)
          else kill_members K sig (PgMembers g) (nxt (lists s) (PgMembers g)) 0 s }"

partial_function (option) kill_all ::
    "kern \<Rightarrow> int \<Rightarrow> node \<Rightarrow> errno \<Rightarrow> pstate \<Rightarrow> (errno \<times> pstate) option" where
  "kill_all K sig n err s =
     (if n = AllProc then Some (err, s)
      else let p = procs s (list_entry n P_LINK) in
        if p_pid p \<noteq> 0 \<and> p_pid p \<noteq> 1
        then do { (e, s1) \<leftarrow> kill_one K (p_pid p) sig s;
                  if e \<noteq> 0 then Some (e, s1)
                  else kill_all K sig (nxt (lists s1) n) e s1 }
        else kill_all K sig (nxt (lists s) n) err s)"

definition proc_kill :: "kern \<Rightarrow> pmsg \<Rightarrow> pstate \<Rightarrow> reply option" where
  "proc_kill K m s =
     (let pid = d0 m; sig = d1 m in
      if sig \<in> {8, 4, 11} then Some (EINVAL, m, s)
      else do {
        c \<leftarrow> deref (curproc s);
        let capable = (p_cap (procs s c) AND CAP_KILL \<noteq> 0) in
        if 0 < pid then
          (if pid \<noteq> p_pid (procs s c) \<and> \<not> capable then Some (EPERM, m, s)
           else do { (e, s1) \<leftarrow> kill_one K pid sig s; Some (e, m, s1) })
        else if pid = -1 then
          (if \<not> capable then Some (EPERM, m, s)
           else do { (e, s1) \<leftarrow> kill_all K sig (nxt (lists s) AllProc) 0 s; Some (e, m, s1) })
        else if pid = 0 then
          do { p \<leftarrow> proc_find pid s;
               if p = 0 then Some (ESRCH, m, s)
               else do { (e, s1) \<leftarrow> kill_pg K (pgid_of p s) sig s; Some (e, m, s1) } }
        else if pgid_of c s \<noteq> - pid \<and> \<not> capable then Some (EPERM, m, s)
        else do { (e, s1) \<leftarrow> kill_pg K (- pid) sig s; Some (e, m, s1) } })"

section \<open>Signals of the terminal\<close>

definition tty_signal :: "kern \<Rightarrow> int \<Rightarrow> pstate \<Rightarrow> pstate option" where
  "tty_signal K sig s =
     (let ((e, pid), s1) = syscall K (K_getpgrp (ttydev s)) s in
      if e \<noteq> 0 then Some s1
      else do { (_, s2) \<leftarrow> kill_pg K pid sig s1; Some s2 })"

definition exception_handler :: "kern \<Rightarrow> int \<Rightarrow> pstate \<Rightarrow> pstate option" where
  "exception_handler K sig s =
     do { s1 \<leftarrow> (if sig \<in> {2, 3, 18, 21, 22, 29, 28, 23} \<and> ttydev s \<noteq> DEVICE_NULL
                 then tty_signal K sig s else Some s);
          Some (kcall_do K K_return s1) }"

definition tty_init :: "kern \<Rightarrow> int \<Rightarrow> pstate \<Rightarrow> pstate" where
  "tty_init K self s =
     (let s1 = kcall_do K K_setup s;
          ((e, dev), s2) = syscall K K_open s1
      in if e \<noteq> 0 then s2\<lparr>ttydev := DEVICE_NULL\<rparr>
         else kcall_do K (K_setsigt dev self) (s2\<lparr>ttydev := dev\<rparr>))"

section \<open>The server\<close>

definition newproc :: "nat \<Rightarrow> int \<Rightarrow> int \<Rightarrow> pstate \<Rightarrow> pstate option" where
  "newproc p pid task s =
     (let s1 = linit (PChildren p) (set_proc p (\<lambda>q. q\<lparr>p_parent := proc0, p_pgrp := pgrp0, p_stat := SRUN,
                 p_exitcode := 0, p_vforked := 0, p_pid := pid, p_task := task\<rparr>) s)
      in do {
        s2 \<leftarrow> link_in AllProc (PLink p) s1;
        s3 \<leftarrow> proc_add p s2;
        s4 \<leftarrow> link_in (PChildren proc0) (PSibling p) s3;
        link_in (PgMembers pgrp0) (PPgrpLink p) s4 })"

definition proc_exec :: "kern \<Rightarrow> pmsg \<Rightarrow> pstate \<Rightarrow> reply option" where
  "proc_exec K m s =
     do { p \<leftarrow> task_to_proc (d0 m) s;
          if p = 0 then Some (EINVAL, m, s)
          else do {
            s1 \<leftarrow> proc_remove p s;
            s2 \<leftarrow> proc_add p (set_proc p (p_task_update (\<lambda>_. d1 m)) s1);
            let s3 = set_proc p (p_stackbase_update (\<lambda>_. d2 m)) s2;
                pr = p_parent (procs s3 p);
                s4 = (if pr \<noteq> 0 \<and> p_vforked (procs s3 pr) \<noteq> 0 then vfork_end K pr s3 else s3)
            in Some (0, m, s4) } }"

definition proc_pstat :: "pmsg \<Rightarrow> pstate \<Rightarrow> reply option" where
  "proc_pstat m s =
     do { p \<leftarrow> task_to_proc (d0 m) s;
          if p = 0 then Some (EINVAL, m, s)
          else Some (0, m\<lparr>d0 := p_pid (procs s p), d2 := p_stat (procs s p),
                 d1 := (if p_parent (procs s p) = 0 then 0
                        else p_pid (procs s (p_parent (procs s p))))\<rparr>, s) }"

definition proc_setinit :: "pmsg \<Rightarrow> pstate \<Rightarrow> reply option" where
  "proc_setinit m s =
     (if p_stat (procs s initproc) = SRUN then Some (EPERM, m, s)
      else do { s1 \<leftarrow> newproc initproc 1 (m_task m) s; Some (0, m, s1) })"

text \<open>The links, which \<^verbatim>\<open>memset\<close> clears too, are all set by \<open>newproc\<close> before they are read.\<close>

definition zero_proc :: proc where
  "zero_proc = \<lparr>p_parent = 0, p_pgrp = 0, p_stat = 0, p_exitcode = 0, p_vforked = 0, p_pid = 0,
     p_task = 0, p_cap = 0, p_stackbase = 0, p_stacksaved = 0\<rparr>"

definition proc_register :: "pmsg \<Rightarrow> pstate \<Rightarrow> reply option" where
  "proc_register m s =
     (let (p, s1) = malloc s in
      if p = 0 then Some (ENOMEM, m, s1)
      else do {
        (pid, s2) \<leftarrow> pid_assign (set_proc p (\<lambda>_. zero_proc) s1);
        if pid = 0 then Some (EAGAIN, m, mfree p s2)
        else do { s3 \<leftarrow> newproc p pid (m_task m) s2; Some (0, m, s3) } })"

definition proc_shutdown :: "pmsg \<Rightarrow> pstate \<Rightarrow> reply option" where
  "proc_shutdown m s = Some (0, m, s)"

definition proc_debug :: "pmsg \<Rightarrow> pstate \<Rightarrow> reply option" where
  "proc_debug m s = Some (0, m, s)"

definition procmsg_map :: "kern \<Rightarrow> (int \<times> (pmsg \<Rightarrow> pstate \<Rightarrow> reply option)) list" where
  "procmsg_map K =
     [(STD_DEBUG, proc_debug), (STD_SHUTDOWN, proc_shutdown),
      (PS_GETPID, proc_getpid), (PS_GETPPID, proc_getppid), (PS_GETPGID, proc_getpgid), (PS_SETPGID, proc_setpgid),
      (PS_GETSID, proc_getsid), (PS_SETSID, proc_setsid), (PS_FORK, proc_fork K), (PS_EXIT, proc_exit K),
      (PS_STOP, proc_stop K), (PS_WAITPID, proc_waitpid), (PS_KILL, proc_kill K), (PS_EXEC, proc_exec K),
      (PS_PSTAT, proc_pstat), (PS_REGISTER, proc_register), (PS_SETINIT, proc_setinit), (PS_GETTASK, proc_gettask)]"

text \<open>One round of the message loop, from the message received to the status of its reply.\<close>

definition serve :: "kern \<Rightarrow> pmsg \<Rightarrow> pstate \<Rightarrow> reply option" where
  "serve K m s =
     (case map_of (procmsg_map K) (m_code m) of
        None \<Rightarrow> Some (EINVAL, m, s)
      | Some func \<Rightarrow>
          do { c \<leftarrow> task_to_proc (m_task m) s;
               let s1 = s\<lparr>curproc := c\<rparr> in
               if c = 0 then func m s1
               else let ((e, cap), s2) = syscall K (K_getcap (m_task m)) s1 in
                 if e \<noteq> 0 then Some (EINVAL, m, s2)
                 else func m (set_proc c (p_cap_update (\<lambda>_. word_of_int cap)) s2) })"

definition proc_init :: "kern \<Rightarrow> int \<Rightarrow> pstate \<Rightarrow> pstate option" where
  "proc_init K self s =
     (let s1 = tty_init K self (s\<lparr>curproc := proc0\<rparr>);
          s2 = linit AllProc (table_init s1);
          s3 = linit (PgMembers pgrp0) (set_pgrp pgrp0 (pg_pgid_update (\<lambda>_. 0)) s2)
      in do {
        s4 \<leftarrow> pgrp_add pgrp0 s3;
        let s5 = set_pgrp pgrp0 (pg_session_update (\<lambda>_. session0)) s4;
            s6 = s5\<lparr>sessions := (sessions s5)(session0 := \<lparr>s_refcnt = 1, s_leader = proc0, s_ttyhold = 0\<rparr>)\<rparr>;
            s7 = set_proc proc0 (\<lambda>p. p\<lparr>p_pgrp := pgrp0, p_parent := 0, p_stat := SRUN, p_exitcode := 0,
                   p_vforked := 0, p_pid := 0, p_task := self\<rparr>) s6;
            s8 = linit (PChildren proc0) s7
        in do {
          s9 \<leftarrow> proc_add proc0 s8;
          link_in (PgMembers pgrp0) (PPgrpLink proc0) s9 } })"

end
