(* ===== verification/Proc_Inv.thy ===== *)
theory Proc_Inv
  imports Proc
begin

text \<open>
  The tables of the process server. \<open>table s L G\<close> says that the processes in \<open>L\<close> and the groups in \<open>G\<close> are linked
  exactly where their members say: in the bucket of their identifier and of their task, on the list of
  children of their parent, among the members of their group. Every request of a well behaved client is
  answered and keeps this; \<open>polite\<close> names what a client must not do.
\<close>

section \<open>The invariant\<close>

definition heads :: "nat set \<Rightarrow> nat set \<Rightarrow> node set" where
  "heads L G = {AllProc} \<union> PidHash ` {..<32} \<union> TaskHash ` {..<32} \<union> PgidHash ` {..<32} \<union>
     PChildren ` L \<union> PgMembers ` G"

fun home :: "pstate \<Rightarrow> nat set \<Rightarrow> nat set \<Rightarrow> node \<Rightarrow> node option" where
  "home s L G (PLink p) = (if p \<in> L \<and> p \<noteq> proc0 then Some AllProc else None)"
| "home s L G (PSibling p) = (if p \<in> L \<and> p \<noteq> proc0 then Some (PChildren (p_parent (procs s p))) else None)"
| "home s L G (PPidLink p) = (if p \<in> L then Some (PidHash (IDHASH (p_pid (procs s p)))) else None)"
| "home s L G (PTaskLink p) = (if p \<in> L then Some (TaskHash (IDHASH (p_task (procs s p)))) else None)"
| "home s L G (PPgrpLink p) = (if p \<in> L then Some (PgMembers (p_pgrp (procs s p))) else None)"
| "home s L G (PgLink g) = (if g \<in> G then Some (PgidHash (IDHASH (pg_pgid (pgrps s g)))) else None)"
| "home s L G _ = None"

definition links :: "node qheap \<Rightarrow> node set \<Rightarrow> (node \<Rightarrow> node option) \<Rightarrow> bool" where
  "links h H m = (fam_ok h H m \<and> Null \<notin> H \<and> m Null = None)"

definition procs_ok :: "pstate \<Rightarrow> nat set \<Rightarrow> nat set \<Rightarrow> bool" where
  "procs_ok s L G =
     (proc0 \<in> L \<and> p_parent (procs s proc0) = 0 \<and> p_pid (procs s proc0) = 0 \<and>
      p_stat (procs s proc0) \<noteq> SZOMB \<and>
      (\<forall>p\<in>L. p_pgrp (procs s p) \<in> G) \<and>
      (\<forall>p\<in>L. p \<noteq> proc0 \<longrightarrow> p_parent (procs s p) \<in> L \<and> p_parent (procs s p) \<noteq> p) \<and>
      inj_on (\<lambda>p. p_pid (procs s p)) L \<and>
      (\<forall>p\<in>L. 0 \<le> p_pid (procs s p) \<and> p_pid (procs s p) < PID_MAX) \<and>
      (\<forall>p\<in>L. p_stat (procs s p) \<in> {SRUN, SZOMB, SSTOP}) \<and>
      (\<forall>p\<in>L. \<forall>q\<in>L. q \<noteq> proc0 \<longrightarrow> p_stat (procs s p) = SZOMB \<longrightarrow> p_parent (procs s q) = p \<longrightarrow> p = initproc) \<and>
      (if initproc \<in> L then p_parent (procs s initproc) = proc0 else p_stat (procs s initproc) = 0))"

definition groups_ok :: "pstate \<Rightarrow> nat set \<Rightarrow> bool" where
  "groups_ok s G =
     (pgrp0 \<in> G \<and> (\<forall>g\<in>G. pg_session (pgrps s g) \<noteq> 0 \<and> pg_session (pgrps s g) \<notin> set (pool s) \<and>
        s_leader (sessions s (pg_session (pgrps s g))) \<noteq> 0))"

definition pool_ok :: "pstate \<Rightarrow> nat set \<Rightarrow> nat set \<Rightarrow> bool" where
  "pool_ok s L G =
     (distinct (pool s) \<and> set (pool s) \<inter> L = {} \<and> set (pool s) \<inter> G = {} \<and> 0 \<notin> L \<union> G \<union> set (pool s) \<and>
      initproc \<notin> set (pool s) \<and> insert initproc L \<inter> (G \<union> (\<lambda>g. pg_session (pgrps s g)) ` G) = {} \<and>
      1 \<le> last_pid s \<and> last_pid s < PID_MAX)"

definition table :: "pstate \<Rightarrow> nat set \<Rightarrow> nat set \<Rightarrow> bool" where
  "table s L G =
     (links (lists s) (heads L G) (home s L G) \<and> procs_ok s L G \<and> groups_ok s G \<and> pool_ok s L G)"

lemma tableD:
  assumes "table s L G"
  shows "links (lists s) (heads L G) (home s L G)" "procs_ok s L G" "groups_ok s G" "pool_ok s L G"
  using assms by (auto simp: table_def)

lemma IDHASH_less [simp]: "IDHASH x < 32"
  by (simp add: IDHASH_def)

lemma heads_mem [simp]:
  "AllProc \<in> heads L G" "PidHash (IDHASH x) \<in> heads L G" "TaskHash (IDHASH x) \<in> heads L G"
  "PgidHash (IDHASH x) \<in> heads L G"
  "(PChildren p \<in> heads L G) = (p \<in> L)" "(PgMembers g \<in> heads L G) = (g \<in> G)"
  "PLink p \<notin> heads L G" "PSibling p \<notin> heads L G" "PPidLink p \<notin> heads L G" "PTaskLink p \<notin> heads L G"
  "PPgrpLink p \<notin> heads L G" "PgLink g \<notin> heads L G" "Null \<notin> heads L G"
  by (auto simp: heads_def)

lemma heads_insert:
  "heads (insert p L) G = insert (PChildren p) (heads L G)"
  "heads L (insert g G) = insert (PgMembers g) (heads L G)"
  by (auto simp: heads_def)

lemma heads_remove: "heads (L - {p}) G = heads L G - {PChildren p}"
  by (auto simp: heads_def)

lemma static_distinct [simp]:
  "proc0 \<noteq> 0" "initproc \<noteq> 0" "pgrp0 \<noteq> 0" "session0 \<noteq> 0" "initproc \<noteq> proc0" "proc0 \<noteq> initproc"
  by (simp_all add: proc0_def initproc_def pgrp0_def session0_def)

lemma list_entry_simps [simp]:
  "list_entry (PSibling p) P_SIBLING = p" "list_entry (PPidLink p) P_PID_LINK = p"
  "list_entry (PTaskLink p) P_TASK_LINK = p" "list_entry (PgLink p) PG_LINK = p"
  "list_entry (PLink p) P_LINK = p"
  by (simp_all add: list_entry_def offset_defs)

lemma stat_distinct [simp]:
  "SRUN \<noteq> 0" "SZOMB \<noteq> 0" "SSTOP \<noteq> 0" "SRUN \<noteq> SZOMB" "SZOMB \<noteq> SRUN" "SSTOP \<noteq> SZOMB" "SZOMB \<noteq> SSTOP"
  by (simp_all add: SRUN_def SZOMB_def SSTOP_def)

section \<open>Linking\<close>

lemma links_nonnull:
  assumes "links h H m"
  shows "a \<in> H \<Longrightarrow> nxt h a \<noteq> Null" and "m n = Some a \<Longrightarrow> nxt h n \<noteq> Null \<and> prv h n \<noteq> Null"
proof -
  have fam: "fam_ok h H m" and null: "Null \<notin> H \<union> dom m" using assms by (auto simp: links_def)
  show "nxt h a \<noteq> Null" if "a \<in> H" using fam_nodes(1) [OF fam that] null by metis
  show "nxt h n \<noteq> Null \<and> prv h n \<noteq> Null" if "m n = Some a" using fam_nodes(2) [OF fam that] null by metis
qed

lemma link_in_links:
  assumes "links (lists s) H m" "a \<in> H" "n \<notin> H" "m n = None" "n \<noteq> Null"
  obtains h where "link_in a n s = Some (s\<lparr>lists := h\<rparr>)" "links h H (m(n \<mapsto> a))"
proof -
  have "link_in a n s = Some (s\<lparr>lists := list_insert a n (lists s)\<rparr>)"
    using links_nonnull(1) [OF assms(1,2)] by (simp add: link_in_def)
  moreover have "links (list_insert a n (lists s)) H (m(n \<mapsto> a))"
    using fam_insert [of "lists s" H m a n] assms by (simp add: links_def)
  ultimately show ?thesis by (rule that)
qed

lemma unlink_links:
  assumes "links (lists s) H m" "m n = Some a"
  obtains h where "unlink n s = Some (s\<lparr>lists := h\<rparr>)" "links h H (m(n := None))"
proof -
  have "unlink n s = Some (s\<lparr>lists := list_remove n (lists s)\<rparr>)"
    using links_nonnull(2) [OF assms] by (simp add: unlink_def)
  moreover have "links (list_remove n (lists s)) H (m(n := None))"
    using fam_remove [of "lists s" H m n a] assms by (simp add: links_def)
  ultimately show ?thesis by (rule that)
qed

lemma linit_links:
  assumes "links (lists s) H m" "a \<notin> H" "m a = None" "a \<noteq> Null"
  obtains h where "linit a s = s\<lparr>lists := h\<rparr>" "links h (insert a H) m"
  using that [of "queue_init a (lists s)"] fam_init [of "lists s" H m a] assms by (auto simp: linit_def links_def)

lemma proc_add_links:
  assumes l: "links (lists s) H m" and H: "PidHash (IDHASH (p_pid (procs s p))) \<in> H"
      "TaskHash (IDHASH (p_task (procs s p))) \<in> H" "PPidLink p \<notin> H" "PTaskLink p \<notin> H"
    and m: "m (PPidLink p) = None" "m (PTaskLink p) = None"
  obtains h where "proc_add p s = Some (s\<lparr>lists := h\<rparr>)"
    "links h H (m(PPidLink p \<mapsto> PidHash (IDHASH (p_pid (procs s p))),
                  PTaskLink p \<mapsto> TaskHash (IDHASH (p_task (procs s p)))))"
proof -
  obtain h where h: "link_in (PidHash (IDHASH (p_pid (procs s p)))) (PPidLink p) s = Some (s\<lparr>lists := h\<rparr>)"
      "links h H (m(PPidLink p \<mapsto> PidHash (IDHASH (p_pid (procs s p)))))"
    by (rule link_in_links [OF l H(1,3) m(1)]) auto
  have "links (lists (s\<lparr>lists := h\<rparr>)) H (m(PPidLink p \<mapsto> PidHash (IDHASH (p_pid (procs s p)))))"
    using h(2) by simp
  then obtain h' where "link_in (TaskHash (IDHASH (p_task (procs s p)))) (PTaskLink p) (s\<lparr>lists := h\<rparr>) =
        Some (s\<lparr>lists := h\<rparr>\<lparr>lists := h'\<rparr>)"
      "links h' H (m(PPidLink p \<mapsto> PidHash (IDHASH (p_pid (procs s p))),
                    PTaskLink p \<mapsto> TaskHash (IDHASH (p_task (procs s p)))))"
    by (rule link_in_links [OF _ H(2,4)]) (auto simp: m)
  with h(1) show ?thesis by (intro that [of h']) (simp_all add: proc_add_def)
qed

lemma proc_remove_links:
  assumes l: "links (lists s) H m" and m: "m (PPidLink p) = Some a" "m (PTaskLink p) = Some b"
  obtains h where "proc_remove p s = Some (s\<lparr>lists := h\<rparr>)"
    "links h H (m(PPidLink p := None, PTaskLink p := None))"
proof -
  obtain h where h: "unlink (PPidLink p) s = Some (s\<lparr>lists := h\<rparr>)" "links h H (m(PPidLink p := None))"
    by (rule unlink_links [OF l m(1)])
  have "links (lists (s\<lparr>lists := h\<rparr>)) H (m(PPidLink p := None))" using h(2) by simp
  then obtain h' where "unlink (PTaskLink p) (s\<lparr>lists := h\<rparr>) = Some (s\<lparr>lists := h\<rparr>\<lparr>lists := h'\<rparr>)"
      "links h' H (m(PPidLink p := None, PTaskLink p := None))"
    by (rule unlink_links [where n = "PTaskLink p" and a = b]) (auto simp: m)
  with h(1) show ?thesis by (intro that [of h']) (simp_all add: proc_remove_def)
qed

section \<open>Looking up\<close>

lemma home_heads:
  "home s L G n = Some (PidHash i) \<Longrightarrow> \<exists>p\<in>L. n = PPidLink p"
  "home s L G n = Some (TaskHash i) \<Longrightarrow> \<exists>p\<in>L. n = PTaskLink p"
  "home s L G n = Some (PgidHash i) \<Longrightarrow> \<exists>g\<in>G. n = PgLink g"
  "home s L G n = Some (PChildren p) \<Longrightarrow> \<exists>q\<in>L. n = PSibling q \<and> q \<noteq> proc0 \<and> p_parent (procs s q) = p"
  "home s L G n = Some (PgMembers g) \<Longrightarrow> \<exists>p\<in>L. n = PPgrpLink p"
  "home s L G n = Some AllProc \<Longrightarrow> \<exists>p\<in>L. n = PLink p \<and> p \<noteq> proc0"
  by (cases n; auto split: if_splits)+

lemma lookup_links:
  assumes "links (lists s) H m" "head \<in> H"
  obtains "lookup head member P s = Some 0" "\<forall>x. m x = Some head \<longrightarrow> \<not> P (list_entry x member)"
  | n where "lookup head member P s = Some (list_entry n member)" "m n = Some head" "P (list_entry n member)"
proof -
  have "fam_ok (lists s) H m" using assms(1) by (simp add: links_def)
  then obtain n where "scan (nxt (lists s)) (\<lambda>n. P (list_entry n member)) head (nxt (lists s) head) = Some n"
    "n = head \<and> (\<forall>x. m x = Some head \<longrightarrow> \<not> P (list_entry x member)) \<or>
     n \<noteq> head \<and> m n = Some head \<and> P (list_entry n member)"
    by (rule fam_scan [OF _ assms(2)])
  then show ?thesis by (auto simp: lookup_def intro: that)
qed

lemma lookup_kind:
  assumes l: "links (lists s) H m" "head \<in> H"
    and on: "\<And>x. m x = Some head \<Longrightarrow> \<exists>q\<in>S. x = C q"
    and off: "\<And>q. q \<in> S \<Longrightarrow> P q \<Longrightarrow> m (C q) = Some head"
    and entry: "\<And>q. list_entry (C q) member = q"
  obtains q where "q \<in> S" "P q" "lookup head member P s = Some q"
  | "\<forall>q\<in>S. \<not> P q" "lookup head member P s = Some 0"
proof (rule lookup_links [OF l, of member P])
  assume "lookup head member P s = Some 0" and none: "\<forall>x. m x = Some head \<longrightarrow> \<not> P (list_entry x member)"
  moreover have "\<not> P q" if "q \<in> S" for q using none off that entry by metis
  ultimately show thesis using that(2) by blast
next
  fix n assume n: "lookup head member P s = Some (list_entry n member)" "m n = Some head" "P (list_entry n member)"
  obtain q where "q \<in> S" "n = C q" using on [OF n(2)] by blast
  with n show thesis by (intro that(1) [of q]) (simp_all add: entry)
qed

lemma proc_find_table:
  assumes t: "table s L G"
  obtains p where "p \<in> L" "p_pid (procs s p) = pid" "proc_find pid s = Some p"
  | "\<forall>p\<in>L. p_pid (procs s p) \<noteq> pid" "proc_find pid s = Some 0"
  unfolding proc_find_def
  by (rule lookup_kind [OF tableD(1) [OF t], where S = L and C = PPidLink
        and P = "\<lambda>p. p_pid (procs s p) = pid" and member = P_PID_LINK])
    (auto dest: home_heads intro: that)

lemma task_to_proc_table:
  assumes t: "table s L G"
  obtains p where "p \<in> L" "p_task (procs s p) = task" "task_to_proc task s = Some p"
  | "\<forall>p\<in>L. p_task (procs s p) \<noteq> task" "task_to_proc task s = Some 0"
  unfolding task_to_proc_def
  by (rule lookup_kind [OF tableD(1) [OF t], where S = L and C = PTaskLink
        and P = "\<lambda>p. p_task (procs s p) = task" and member = P_TASK_LINK])
    (auto dest: home_heads intro: that)

lemma pgrp_find_table:
  assumes t: "table s L G"
  obtains g where "g \<in> G" "pg_pgid (pgrps s g) = pgid" "pgrp_find pgid s = Some g"
  | "\<forall>g\<in>G. pg_pgid (pgrps s g) \<noteq> pgid" "pgrp_find pgid s = Some 0"
  unfolding pgrp_find_def
  by (rule lookup_kind [OF tableD(1) [OF t], where S = G and C = PgLink
        and P = "\<lambda>g. pg_pgid (pgrps s g) = pgid" and member = PG_LINK])
    (auto dest: home_heads intro: that)

lemma table_nonzero: "table s L G \<Longrightarrow> 0 \<notin> L" "table s L G \<Longrightarrow> 0 \<notin> G"
  by (auto simp: table_def pool_ok_def)

section \<open>Assigning identifiers\<close>

lemma mod_pid_max: "0 \<le> x \<Longrightarrow> x < 2 * (PID_MAX - 1) \<Longrightarrow>
    x mod (PID_MAX - 1) = (if x < PID_MAX - 1 then x else x - (PID_MAX - 1))"
  using minus_mod_self2 [of x "PID_MAX - 1"] mod_pos_pos_trivial [of "x - (PID_MAX - 1)" "PID_MAX - 1"]
    mod_pos_pos_trivial [of x "PID_MAX - 1"]
  by (auto simp del: minus_mod_self2)

lemma next_pid_iter:
  assumes "1 \<le> pid" "pid < PID_MAX"
  shows "(next_pid ^^ j) pid = (pid - 1 + int j) mod (PID_MAX - 1) + 1"
proof (induction j)
  case 0
  then show ?case using assms by (simp add: mod_pos_pos_trivial)
next
  case (Suc j)
  let ?x = "(pid - 1 + int j) mod (PID_MAX - 1)"
  have "(pid - 1 + int (Suc j)) mod (PID_MAX - 1) = (?x + 1) mod (PID_MAX - 1)"
    by (simp add: mod_simps ac_simps)
  moreover have "0 \<le> ?x" "?x < PID_MAX - 1" by (simp_all add: PID_MAX_def)
  moreover have "next_pid (?x + 1) = (?x + 1) mod (PID_MAX - 1) + 1"
    using calculation(2,3) mod_pid_max [of "?x + 1"] by (simp add: next_pid_def)
  ultimately show ?case using Suc by simp
qed

lemma pid_loop_result:
  assumes t: "table s L G"
  shows "(next_pid ^^ k) pid = prev \<Longrightarrow>
    \<exists>j\<le>k. pid_loop prev pid s = Some ((next_pid ^^ j) pid) \<and>
      (\<forall>i<j. \<exists>p\<in>L. p_pid (procs s p) = (next_pid ^^ i) pid) \<and>
      ((next_pid ^^ j) pid = prev \<or> (\<forall>p\<in>L. p_pid (procs s p) \<noteq> (next_pid ^^ j) pid))"
proof (induction k arbitrary: pid)
  case 0
  then show ?case by (simp add: pid_loop.simps)
next
  case (Suc k)
  show ?case
  proof (cases "pid = prev")
    case True
    then show ?thesis by (intro exI [of _ 0]) (simp add: pid_loop.simps)
  next
    case False
    from t show ?thesis
    proof (rule proc_find_table [where pid = pid])
      assume "\<forall>p\<in>L. p_pid (procs s p) \<noteq> pid" "proc_find pid s = Some 0"
      with False show ?thesis by (intro exI [of _ 0]) (simp add: pid_loop.simps)
    next
      fix p assume p: "p \<in> L" "p_pid (procs s p) = pid" "proc_find pid s = Some p"
      have "(next_pid ^^ k) (next_pid pid) = prev"
        using Suc.prems by (simp only: funpow_Suc_right comp_apply)
      from Suc.IH [OF this] obtain j where j: "j \<le> k"
        "pid_loop prev (next_pid pid) s = Some ((next_pid ^^ j) (next_pid pid))"
        "\<forall>i<j. \<exists>p\<in>L. p_pid (procs s p) = (next_pid ^^ i) (next_pid pid)"
        "(next_pid ^^ j) (next_pid pid) = prev \<or> (\<forall>p\<in>L. p_pid (procs s p) \<noteq> (next_pid ^^ j) (next_pid pid))"
        by blast
      have sh: "(next_pid ^^ i) (next_pid pid) = (next_pid ^^ Suc i) pid" for i
        by (simp only: funpow_Suc_right comp_apply)
      have "p \<noteq> 0" using p(1) table_nonzero(1) [OF t] by metis
      with False p(3) j(2) have "pid_loop prev pid s = Some ((next_pid ^^ Suc j) pid)"
        by (simp add: pid_loop.simps [of prev pid] sh del: funpow.simps)
      moreover have "\<exists>p\<in>L. p_pid (procs s p) = (next_pid ^^ i) pid" if "i < Suc j" for i
        using that p(1,2) j(3) sh by (cases i) (auto simp del: funpow.simps simp: funpow_0)
      ultimately show ?thesis using j(1,4) sh by (intro exI [of _ "Suc j"]) auto
    qed
  qed
qed

lemma pid_assign_result:
  assumes t: "table s L G"
  obtains pid where "pid_assign s = Some (pid, s\<lparr>last_pid := pid\<rparr>)" "1 \<le> pid" "pid < PID_MAX"
      "\<forall>p\<in>L. p_pid (procs s p) \<noteq> pid"
  | "pid_assign s = Some (0, s)"
      "\<forall>pid. 1 \<le> pid \<and> pid < PID_MAX \<and> pid \<noteq> last_pid s \<longrightarrow> (\<exists>p\<in>L. p_pid (procs s p) = pid)"
proof -
  let ?l = "last_pid s" and ?n = "next_pid (last_pid s)"
  have l: "1 \<le> ?l" "?l < PID_MAX" using tableD(4) [OF t] by (auto simp: pool_ok_def)
  then have n: "1 \<le> ?n" "?n < PID_MAX" by (auto simp: next_pid_def PID_MAX_def)
  have iter: "(next_pid ^^ j) ?n = (?l + int j) mod (PID_MAX - 1) + 1" for j
    using next_pid_iter [OF l, of "Suc j"] by (simp add: funpow_swap1 del: funpow.simps) (simp add: funpow_swap1)
  have "(next_pid ^^ nat (PID_MAX - 2)) ?n = ?l"
    using l iter [of "nat (PID_MAX - 2)"] mod_pid_max [of "?l + (PID_MAX - 2)"] by (simp add: PID_MAX_def)
  from pid_loop_result [OF t this] obtain j where j: "j \<le> nat (PID_MAX - 2)"
      "pid_loop ?l ?n s = Some ((next_pid ^^ j) ?n)"
      "\<forall>i<j. \<exists>p\<in>L. p_pid (procs s p) = (next_pid ^^ i) ?n"
      "(next_pid ^^ j) ?n = ?l \<or> (\<forall>p\<in>L. p_pid (procs s p) \<noteq> (next_pid ^^ j) ?n)"
    by blast
  show thesis
  proof (cases "(next_pid ^^ j) ?n = ?l")
    case False
    have "1 \<le> (next_pid ^^ j) ?n" "(next_pid ^^ j) ?n < PID_MAX" by (simp_all add: iter PID_MAX_def)
    then show thesis using that(1) [of "(next_pid ^^ j) ?n"] j(2,4) False by (simp add: pid_assign_def)
  next
    case True
    have "\<exists>p\<in>L. p_pid (procs s p) = pid" if pid: "1 \<le> pid" "pid < PID_MAX" "pid \<noteq> ?l" for pid
    proof -
      let ?i = "nat (if ?l < pid then pid - 1 - ?l else pid - 1 - ?l + (PID_MAX - 1))"
      have "(next_pid ^^ ?i) ?n = pid"
        using pid l mod_pid_max [of "?l + int ?i"] by (auto simp: iter)
      moreover have "int j = PID_MAX - 2"
        using True l j(1) mod_pid_max [of "?l + int j"] by (auto simp: iter PID_MAX_def split: if_splits)
      then have "?i < j" using pid l by auto
      ultimately show ?thesis using j(3) by metis
    qed
    then show thesis using that(2) j(2) True by (simp add: pid_assign_def)
  qed
qed

section \<open>What the tables do not depend on\<close>

definition same_tables :: "pstate \<Rightarrow> pstate \<Rightarrow> bool" where
  "same_tables s s' =
     (lists s' = lists s \<and> pgrps s' = pgrps s \<and> sessions s' = sessions s \<and> last_pid s' = last_pid s \<and>
      pool s' = pool s \<and> curproc s' = curproc s \<and>
      (\<forall>p. p_parent (procs s' p) = p_parent (procs s p) \<and> p_pgrp (procs s' p) = p_pgrp (procs s p) \<and>
         p_stat (procs s' p) = p_stat (procs s p) \<and> p_pid (procs s' p) = p_pid (procs s p) \<and>
         p_task (procs s' p) = p_task (procs s p)))"

lemma home_cong:
  assumes "pgrps s' = pgrps s"
    and "\<forall>p\<in>L. p_parent (procs s' p) = p_parent (procs s p) \<and> p_pgrp (procs s' p) = p_pgrp (procs s p) \<and>
         p_pid (procs s' p) = p_pid (procs s p) \<and> p_task (procs s' p) = p_task (procs s p)"
  shows "home s' L G = home s L G"
proof
  fix n
  show "home s' L G n = home s L G n" using assms by (cases n) auto
qed

lemma table_same: "same_tables s s' \<Longrightarrow> table s L G \<Longrightarrow> table s' L G"
  using home_cong [of s' s L G]
  by (simp add: same_tables_def table_def procs_ok_def groups_ok_def pool_ok_def)

lemma same_refl [simp]: "same_tables s s"
  by (simp add: same_tables_def)

lemma same_trans [trans]: "same_tables s s' \<Longrightarrow> same_tables s' s'' \<Longrightarrow> same_tables s s''"
  by (simp add: same_tables_def)

lemma same_call [simp]: "same_tables s (s\<lparr>calls := c\<rparr>)"
  by (simp add: same_tables_def)

lemma same_set_proc:
  "(\<And>q. p_parent (u q) = p_parent q \<and> p_pgrp (u q) = p_pgrp q \<and> p_stat (u q) = p_stat q \<and>
     p_pid (u q) = p_pid q \<and> p_task (u q) = p_task q) \<Longrightarrow> same_tables s (set_proc p u s)"
  by (simp add: same_tables_def set_proc_def)

lemma same_syscall: "same_tables s (snd (syscall K c s))" "same_tables s (kcall_do K c s)"
  by (simp_all add: syscall_def kcall_do_def)

lemma same_vfork_start: "same_tables s (snd (vfork_start K p s))"
  by (simp add: vfork_start_def syscall_def kcall_do_def Let_def split_def set_proc_def same_tables_def)

lemma same_vfork_end: "same_tables s (vfork_end K p s)"
  by (simp add: vfork_end_def syscall_def kcall_do_def Let_def split_def set_proc_def same_tables_def)

lemma same_send_sig: "same_tables s (snd (send_sig K p sig s))"
  by (simp add: send_sig_def syscall_def split_def)

section \<open>New processes\<close>

lemma table_last_pid: "table s L G \<Longrightarrow> 1 \<le> pid \<Longrightarrow> pid < PID_MAX \<Longrightarrow> table (s\<lparr>last_pid := pid\<rparr>) L G"
  using home_cong [of "s\<lparr>last_pid := pid\<rparr>" s L G]
  by (simp add: table_def procs_ok_def groups_ok_def pool_ok_def)

lemma table_curproc: "table s L G \<Longrightarrow> table (s\<lparr>curproc := c\<rparr>) L G"
  using home_cong [of "s\<lparr>curproc := c\<rparr>" s L G]
  by (simp add: table_def procs_ok_def groups_ok_def pool_ok_def)

definition fresh :: "nat \<Rightarrow> pstate \<Rightarrow> nat set \<Rightarrow> nat set \<Rightarrow> bool" where
  "fresh p s L G = (p \<notin> L \<and> p \<notin> G \<and> p \<noteq> 0 \<and> p \<notin> set (pool s) \<and> (\<forall>g\<in>G. pg_session (pgrps s g) \<noteq> p))"

lemma malloc_table:
  assumes t: "table s L G"
  obtains "malloc s = (0, s)" "pool s = []"
  | p rest where "pool s = p # rest" "malloc s = (p, s\<lparr>pool := rest\<rparr>)" "table (s\<lparr>pool := rest\<rparr>) L G"
      "fresh p (s\<lparr>pool := rest\<rparr>) L G" "p \<noteq> initproc"
proof (cases "pool s")
  case Nil
  then show ?thesis using that(1) by (simp add: malloc_def)
next
  case (Cons p rest)
  have "home (s\<lparr>pool := rest\<rparr>) L G = home s L G" by (rule home_cong) auto
  then have "table (s\<lparr>pool := rest\<rparr>) L G"
    using t Cons by (auto simp: table_def procs_ok_def groups_ok_def pool_ok_def)
  moreover have "fresh p (s\<lparr>pool := rest\<rparr>) L G" "p \<noteq> initproc"
    using t Cons by (auto simp: table_def groups_ok_def pool_ok_def fresh_def)
  ultimately show ?thesis using that(2) Cons by (simp add: malloc_def)
qed

lemma mfree_table:
  assumes t: "table s L G" and p: "fresh p s L G" "p \<noteq> initproc"
  shows "table (mfree p s) L G"
  using t p home_cong [of "mfree p s" s L G]
  by (auto simp: table_def procs_ok_def groups_ok_def pool_ok_def mfree_def fresh_def)

lemma home_add:
  assumes "p \<notin> L" "p \<noteq> proc0" "procs s' = (procs s)(p := q)" "pgrps s' = pgrps s"
  shows "home s' (insert p L) G = (home s L G)
    (PLink p \<mapsto> AllProc, PPidLink p \<mapsto> PidHash (IDHASH (p_pid q)), PTaskLink p \<mapsto> TaskHash (IDHASH (p_task q)),
     PSibling p \<mapsto> PChildren (p_parent q), PPgrpLink p \<mapsto> PgMembers (p_pgrp q))"
proof
  fix n
  show "home s' (insert p L) G n = ((home s L G)
    (PLink p \<mapsto> AllProc, PPidLink p \<mapsto> PidHash (IDHASH (p_pid q)), PTaskLink p \<mapsto> TaskHash (IDHASH (p_task q)),
     PSibling p \<mapsto> PChildren (p_parent q), PPgrpLink p \<mapsto> PgMembers (p_pgrp q))) n"
    using assms by (cases n) auto
qed

lemma procs_ok_add:
  assumes ok: "procs_ok s L G" and p: "p \<notin> L"
    and q: "p_parent q \<in> L" "p_pgrp q \<in> G" "p_stat q = SRUN" "0 \<le> p_pid q" "p_pid q < PID_MAX"
      "\<forall>r\<in>L. p_pid (procs s r) \<noteq> p_pid q"
    and par: "p_stat (procs s (p_parent q)) \<noteq> SZOMB" and init: "p = initproc \<Longrightarrow> p_parent q = proc0"
    and s': "procs s' = (procs s)(p := q)"
  shows "procs_ok s' (insert p L) G"
proof -
  have same: "procs s' r = procs s r" if "r \<in> L" for r using s' p that by auto
  have new: "procs s' p = q" using s' by simp
  have "inj_on (\<lambda>r. p_pid (procs s' r)) (insert p L)"
  proof -
    have "inj_on (\<lambda>r. p_pid (procs s' r)) L"
      using ok same by (auto simp: procs_ok_def inj_on_def)
    then show ?thesis using q(6) same new by (auto simp: inj_on_insert)
  qed
  moreover have "proc0 \<in> L" "initproc \<noteq> p \<Longrightarrow> procs s' initproc = procs s initproc"
    using ok s' by (auto simp: procs_ok_def)
  ultimately show ?thesis
    using ok q(1-5) par init p same new unfolding procs_ok_def by auto
qed

lemma table_add:
  assumes t: "table s L G" and p: "fresh p s L G"
    and q: "p_parent q \<in> L" "p_pgrp q \<in> G" "p_stat q = SRUN" "0 \<le> p_pid q" "p_pid q < PID_MAX"
      "\<forall>r\<in>L. p_pid (procs s r) \<noteq> p_pid q"
    and par: "p_stat (procs s (p_parent q)) \<noteq> SZOMB" and init: "p = initproc \<Longrightarrow> p_parent q = proc0"
    and s': "procs s' = (procs s)(p := q)" "pgrps s' = pgrps s" "sessions s' = sessions s"
      "last_pid s' = last_pid s" "pool s' = pool s"
    and l: "links (lists s') (insert (PChildren p) (heads L G)) (home s' (insert p L) G)"
  shows "table s' (insert p L) G"
proof -
  have "procs_ok s' (insert p L) G"
    by (rule procs_ok_add [OF tableD(2) [OF t] _ q par init s'(1)]) (use p in \<open>simp_all add: fresh_def\<close>)
  moreover have "groups_ok s' G" "pool_ok s' (insert p L) G"
    using tableD(3,4) [OF t] p s' by (auto simp: groups_ok_def pool_ok_def fresh_def)
  ultimately show ?thesis using l by (simp add: table_def heads_insert)
qed

lemma home_absent:
  "p \<notin> L \<Longrightarrow> home s L G (PLink p) = None" "p \<notin> L \<Longrightarrow> home s L G (PSibling p) = None"
  "p \<notin> L \<Longrightarrow> home s L G (PPidLink p) = None" "p \<notin> L \<Longrightarrow> home s L G (PTaskLink p) = None"
  "p \<notin> L \<Longrightarrow> home s L G (PPgrpLink p) = None"
  by simp_all

lemma newproc_table:
  assumes t: "table s L G" and fr: "fresh p s L G"
    and pid: "0 \<le> pid" "pid < PID_MAX" "\<forall>r\<in>L. p_pid (procs s r) \<noteq> pid"
  obtains s' where "newproc p pid task s = Some s'" "table s' (insert p L) G"
proof -
  define q where "q = procs s p\<lparr>p_parent := proc0, p_pgrp := pgrp0, p_stat := SRUN,
                 p_exitcode := 0, p_vforked := 0, p_pid := pid, p_task := task\<rparr>"
  let ?s0 = "s\<lparr>procs := (procs s)(p := q)\<rparr>"
  have p: "p \<notin> L" using fr by (simp add: fresh_def)
  have p0: "proc0 \<in> L" "p_stat (procs s proc0) \<noteq> SZOMB" and g0: "pgrp0 \<in> G"
    using t by (auto simp: table_def procs_ok_def groups_ok_def)
  note l0 = tableD(1) [OF t]
  let ?H = "insert (PChildren p) (heads L G)" and ?m = "home s L G"
  have "links (lists ?s0) (heads L G) ?m" using l0 by simp
  then obtain h1 where h1: "linit (PChildren p) ?s0 = ?s0\<lparr>lists := h1\<rparr>" "links h1 ?H ?m"
    by (rule linit_links [where a = "PChildren p"]) (use p in auto)
  have "links (lists (?s0\<lparr>lists := h1\<rparr>)) ?H ?m" using h1(2) by simp
  then obtain h2 where h2: "link_in AllProc (PLink p) (?s0\<lparr>lists := h1\<rparr>) = Some (?s0\<lparr>lists := h1\<rparr>\<lparr>lists := h2\<rparr>)"
      "links h2 ?H (?m(PLink p \<mapsto> AllProc))"
    by (rule link_in_links [where a = AllProc and n = "PLink p"]) (use p in auto)
  have "links (lists (?s0\<lparr>lists := h2\<rparr>)) ?H (?m(PLink p \<mapsto> AllProc))" using h2(2) by simp
  then obtain h3 where h3: "proc_add p (?s0\<lparr>lists := h2\<rparr>) = Some (?s0\<lparr>lists := h2\<rparr>\<lparr>lists := h3\<rparr>)"
      "links h3 ?H (?m(PLink p \<mapsto> AllProc, PPidLink p \<mapsto> PidHash (IDHASH pid), PTaskLink p \<mapsto> TaskHash (IDHASH task)))"
    by (rule proc_add_links [where p = p]) (use p in \<open>auto simp: q_def\<close>)
  let ?m3 = "?m(PLink p \<mapsto> AllProc, PPidLink p \<mapsto> PidHash (IDHASH pid), PTaskLink p \<mapsto> TaskHash (IDHASH task))"
  have "links (lists (?s0\<lparr>lists := h3\<rparr>)) ?H ?m3" using h3(2) by simp
  then obtain h4 where h4: "link_in (PChildren proc0) (PSibling p) (?s0\<lparr>lists := h3\<rparr>) = Some (?s0\<lparr>lists := h3\<rparr>\<lparr>lists := h4\<rparr>)"
      "links h4 ?H (?m3(PSibling p \<mapsto> PChildren proc0))"
    by (rule link_in_links [where a = "PChildren proc0" and n = "PSibling p"]) (use p p0 in auto)
  have "links (lists (?s0\<lparr>lists := h4\<rparr>)) ?H (?m3(PSibling p \<mapsto> PChildren proc0))" using h4(2) by simp
  then obtain h5 where h5: "link_in (PgMembers pgrp0) (PPgrpLink p) (?s0\<lparr>lists := h4\<rparr>) = Some (?s0\<lparr>lists := h4\<rparr>\<lparr>lists := h5\<rparr>)"
      "links h5 ?H (?m3(PSibling p \<mapsto> PChildren proc0, PPgrpLink p \<mapsto> PgMembers pgrp0))"
    by (rule link_in_links [where a = "PgMembers pgrp0" and n = "PPgrpLink p"]) (use p g0 in auto)
  have res: "newproc p pid task s = Some (?s0\<lparr>lists := h5\<rparr>)"
    using h1(1) h2(1) h3(1) h4(1) h5(1) by (simp add: newproc_def set_proc_def q_def)
  have "home (?s0\<lparr>lists := h5\<rparr>) (insert p L) G = ?m3(PSibling p \<mapsto> PChildren proc0, PPgrpLink p \<mapsto> PgMembers pgrp0)"
    using home_add [of p L "?s0\<lparr>lists := h5\<rparr>" s q G] p p0 by (auto simp: q_def)
  with h5(2) have "table (?s0\<lparr>lists := h5\<rparr>) (insert p L) G"
    by (intro table_add [OF t fr, where q = q]) (use p0 g0 pid in \<open>auto simp: q_def\<close>)
  with res show thesis by (rule that)
qed

text \<open>The links made by \<open>proc_fork\<close>: \<open>q\<close> is the new structure at \<open>p\<close>.\<close>

lemma fork_links:
  assumes t: "table s L G" and fr: "fresh p s L G"
    and q: "p_parent q \<in> L" "p_pgrp q \<in> G" "p_stat q = SRUN" "0 \<le> p_pid q" "p_pid q < PID_MAX"
      "\<forall>r\<in>L. p_pid (procs s r) \<noteq> p_pid q"
    and par: "p_stat (procs s (p_parent q)) \<noteq> SZOMB" and init: "p \<noteq> initproc"
  defines "s0 \<equiv> s\<lparr>procs := (procs s)(p := q)\<rparr>"
  obtains h3 h4 h5 h6 where "proc_add p (linit (PChildren p) s0) = Some (s0\<lparr>lists := h3\<rparr>)"
    "link_in (PChildren (p_parent q)) (PSibling p) (s0\<lparr>lists := h3\<rparr>) = Some (s0\<lparr>lists := h4\<rparr>)"
    "link_in (PgMembers (p_pgrp q)) (PPgrpLink p) (s0\<lparr>lists := h4\<rparr>) = Some (s0\<lparr>lists := h5\<rparr>)"
    "link_in AllProc (PLink p) (s0\<lparr>lists := h5\<rparr>) = Some (s0\<lparr>lists := h6\<rparr>)"
    "table (s0\<lparr>lists := h6\<rparr>) (insert p L) G"
proof -
  note l0 = tableD(1) [OF t]
  have p: "p \<notin> L" using fr by (simp add: fresh_def)
  have p0: "p \<noteq> proc0" using t p by (auto simp: table_def procs_ok_def)
  let ?H = "insert (PChildren p) (heads L G)" and ?m = "home s L G"
  have "links (lists s0) (heads L G) ?m" using l0 by (simp add: s0_def)
  then obtain h1 where h1: "linit (PChildren p) s0 = s0\<lparr>lists := h1\<rparr>" "links h1 ?H ?m"
    by (rule linit_links [where a = "PChildren p"]) (use p in auto)
  have "links (lists (s0\<lparr>lists := h1\<rparr>)) ?H ?m" using h1(2) by simp
  then obtain h3 where h3: "proc_add p (s0\<lparr>lists := h1\<rparr>) = Some (s0\<lparr>lists := h1\<rparr>\<lparr>lists := h3\<rparr>)"
      "links h3 ?H (?m(PPidLink p \<mapsto> PidHash (IDHASH (p_pid q)), PTaskLink p \<mapsto> TaskHash (IDHASH (p_task q))))"
    by (rule proc_add_links [where p = p]) (use p in \<open>auto simp: s0_def\<close>)
  let ?m3 = "?m(PPidLink p \<mapsto> PidHash (IDHASH (p_pid q)), PTaskLink p \<mapsto> TaskHash (IDHASH (p_task q)))"
  have "links (lists (s0\<lparr>lists := h3\<rparr>)) ?H ?m3" using h3(2) by simp
  then obtain h4 where h4: "link_in (PChildren (p_parent q)) (PSibling p) (s0\<lparr>lists := h3\<rparr>) = Some (s0\<lparr>lists := h3\<rparr>\<lparr>lists := h4\<rparr>)"
      "links h4 ?H (?m3(PSibling p \<mapsto> PChildren (p_parent q)))"
    by (rule link_in_links [where a = "PChildren (p_parent q)" and n = "PSibling p"]) (use p q in auto)
  have "links (lists (s0\<lparr>lists := h4\<rparr>)) ?H (?m3(PSibling p \<mapsto> PChildren (p_parent q)))" using h4(2) by simp
  then obtain h5 where h5: "link_in (PgMembers (p_pgrp q)) (PPgrpLink p) (s0\<lparr>lists := h4\<rparr>) = Some (s0\<lparr>lists := h4\<rparr>\<lparr>lists := h5\<rparr>)"
      "links h5 ?H (?m3(PSibling p \<mapsto> PChildren (p_parent q), PPgrpLink p \<mapsto> PgMembers (p_pgrp q)))"
    by (rule link_in_links [where a = "PgMembers (p_pgrp q)" and n = "PPgrpLink p"]) (use p q in auto)
  let ?m5 = "?m3(PSibling p \<mapsto> PChildren (p_parent q), PPgrpLink p \<mapsto> PgMembers (p_pgrp q))"
  have "links (lists (s0\<lparr>lists := h5\<rparr>)) ?H ?m5" using h5(2) by simp
  then obtain h6 where h6: "link_in AllProc (PLink p) (s0\<lparr>lists := h5\<rparr>) = Some (s0\<lparr>lists := h5\<rparr>\<lparr>lists := h6\<rparr>)"
      "links h6 ?H (?m5(PLink p \<mapsto> AllProc))"
    by (rule link_in_links [where a = AllProc and n = "PLink p"]) (use p in auto)
  have "home (s0\<lparr>lists := h6\<rparr>) (insert p L) G = ?m5(PLink p \<mapsto> AllProc)"
    using home_add [of p L "s0\<lparr>lists := h6\<rparr>" s q G] p p0 by (auto simp: s0_def)
  with h6(2) have "table (s0\<lparr>lists := h6\<rparr>) (insert p L) G"
    by (intro table_add [OF t fr q par]) (use init in \<open>auto simp: s0_def\<close>)
  with h1(1) h3(1) h4(1) h5(1) h6(1) show thesis by (intro that [of h3 h4 h5 h6]) simp_all
qed

definition answered :: "reply option \<Rightarrow> bool" where
  "answered r = (\<exists>e m s L G. r = Some (e, m, s) \<and> table s L G)"

lemma answeredI: "table s L G \<Longrightarrow> answered (Some (e, m, s))"
  by (auto simp: answered_def)

lemma table_cur: "table s L G \<Longrightarrow> c \<in> L \<Longrightarrow> c \<noteq> 0 \<and> p_pgrp (procs s c) \<in> G"
  by (auto simp: table_def procs_ok_def pool_ok_def)

text \<open>The answer of \<open>proc_fork\<close>: an error with the tables unchanged, or a new process at \<open>p\<close>.\<close>

lemma proc_fork_cases:
  assumes t: "table s L G" and c: "curproc s \<in> L" "p_stat (cur s) \<noteq> SZOMB"
  obtains e s' where "proc_fork K m s = Some (e, m, s')" "e \<noteq> 0" "table s' L G"
  | p pid s' where "proc_fork K m s = Some (0, m\<lparr>d0 := pid\<rparr>, s')" "table s' (insert p L) G" "p \<notin> L"
      "1 \<le> pid" "p_pid (procs s' p) = pid" "p_task (procs s' p) = d0 m" "p_parent (procs s' p) = curproc s"
      "p_pgrp (procs s' p) = p_pgrp (cur s)" "p_stat (procs s' p) = SRUN"
      "\<forall>q\<in>L. p_task (procs s' q) = p_task (procs s q) \<and> p_task (procs s q) \<noteq> d0 m"
proof -
  have c0: "curproc s \<noteq> 0" and g: "p_pgrp (procs s (curproc s)) \<in> G" using table_cur [OF t c(1)] by auto
  have E: "EINVAL \<noteq> 0" "EAGAIN \<noteq> 0" "ENOMEM \<noteq> 0" by (simp_all add: errno_defs)
  from t show thesis
  proof (rule task_to_proc_table [where task = "d0 m"])
    fix old assume "old \<in> L" "task_to_proc (d0 m) s = Some old"
    moreover from this have "old \<noteq> 0" using table_nonzero(1) [OF t] by metis
    ultimately show thesis using that(1) [of EINVAL s] c0 t E by (simp add: proc_fork_def)
  next
    assume nt: "\<forall>p\<in>L. p_task (procs s p) \<noteq> d0 m" and old: "task_to_proc (d0 m) s = Some 0"
    from t show thesis
    proof (rule pid_assign_result)
      assume "pid_assign s = Some (0, s)"
      with old c0 t E show thesis using that(1) [of EAGAIN s] by (simp add: proc_fork_def)
    next
      fix pid assume pid: "pid_assign s = Some (pid, s\<lparr>last_pid := pid\<rparr>)" "1 \<le> pid" "pid < PID_MAX"
        "\<forall>p\<in>L. p_pid (procs s p) \<noteq> pid"
      have t1: "table (s\<lparr>last_pid := pid\<rparr>) L G" by (rule table_last_pid [OF t pid(2,3)])
      from t1 show thesis
      proof (rule malloc_table)
        assume "malloc (s\<lparr>last_pid := pid\<rparr>) = (0, s\<lparr>last_pid := pid\<rparr>)"
        with old c0 t1 pid(1,2) E show thesis
          using that(1) [of ENOMEM "s\<lparr>last_pid := pid\<rparr>"] by (simp add: proc_fork_def)
      next
        fix p rest
        let ?s2 = "s\<lparr>last_pid := pid\<rparr>\<lparr>pool := rest\<rparr>"
        assume m: "malloc (s\<lparr>last_pid := pid\<rparr>) = (p, ?s2)" "table ?s2 L G" "fresh p ?s2 L G" "p \<noteq> initproc"
        define q where "q = fork_fields (curproc s) (p_pgrp (procs s (curproc s))) pid (d0 m) (procs s p)"
        have q: "p_parent q = curproc s" "p_pgrp q = p_pgrp (procs s (curproc s))" "p_stat q = SRUN" "p_pid q = pid"
            "p_task q = d0 m"
          by (simp_all add: q_def fork_fields_def)
        let ?s0 = "?s2\<lparr>procs := (procs ?s2)(p := q)\<rparr>"
        have p: "p \<noteq> 0" "p \<notin> L" using m(3) by (simp_all add: fresh_def)
        obtain h3 h4 h5 h6 where h: "proc_add p (linit (PChildren p) ?s0) = Some (?s0\<lparr>lists := h3\<rparr>)"
          "link_in (PChildren (p_parent q)) (PSibling p) (?s0\<lparr>lists := h3\<rparr>) = Some (?s0\<lparr>lists := h4\<rparr>)"
          "link_in (PgMembers (p_pgrp q)) (PPgrpLink p) (?s0\<lparr>lists := h4\<rparr>) = Some (?s0\<lparr>lists := h5\<rparr>)"
          "link_in AllProc (PLink p) (?s0\<lparr>lists := h5\<rparr>) = Some (?s0\<lparr>lists := h6\<rparr>)"
          "table (?s0\<lparr>lists := h6\<rparr>) (insert p L) G"
          by (rule fork_links [OF m(2,3), of q]) (use q c g pid m(4) in \<open>auto simp: cur_def\<close>)
        define s8 where "s8 = (if d1 m \<noteq> 0 then snd (vfork_start K (curproc s) (?s0\<lparr>lists := h6\<rparr>)) else ?s0\<lparr>lists := h6\<rparr>)"
        have same: "same_tables (?s0\<lparr>lists := h6\<rparr>) s8" by (simp add: s8_def same_vfork_start)
        have f: "p_parent (procs s8 r) = p_parent (procs ?s0 r)" "p_pgrp (procs s8 r) = p_pgrp (procs ?s0 r)"
          "p_stat (procs s8 r) = p_stat (procs ?s0 r)" "p_pid (procs s8 r) = p_pid (procs ?s0 r)"
          "p_task (procs s8 r) = p_task (procs ?s0 r)" for r
          using same by (simp_all add: same_tables_def)
        have "proc_fork K m s = Some (0, m\<lparr>d0 := p_pid (procs s8 p)\<rparr>, s8)"
          using old c0 pid(1,2) m(1) p h(1-4) q(1,2)
          by (simp add: proc_fork_def set_proc_def q_def [symmetric] s8_def Let_def)
        then show thesis
          using that(2) [of pid s8 p] table_same [OF same h(5)] p pid nt q by (auto simp: f cur_def)
      qed
    qed
  qed
qed

lemma proc_fork_answered:
  assumes t: "table s L G" and c: "curproc s \<in> L" "p_stat (cur s) \<noteq> SZOMB"
  shows "answered (proc_fork K m s)"
  by (rule proc_fork_cases [OF t c, of K m]) (auto intro: answeredI)

section \<open>Reaping\<close>

lemma links_drop: "links h H m \<Longrightarrow> \<forall>n. m n \<noteq> Some a \<Longrightarrow> links h (H - {a}) m"
  by (simp add: links_def fam_drop)

lemma home_remove:
  assumes "p \<noteq> proc0"
  shows "home s (L - {p}) G = (home s L G)
    (PSibling p := None, PPgrpLink p := None, PPidLink p := None, PTaskLink p := None, PLink p := None)"
proof
  fix n
  show "home s (L - {p}) G n = ((home s L G)
    (PSibling p := None, PPgrpLink p := None, PPidLink p := None, PTaskLink p := None, PLink p := None)) n"
    using assms by (cases n) auto
qed

lemma proc_cleanup_links:
  assumes l: "links (lists s) (heads L G) (home s L G)" and p: "p \<in> L" "p \<noteq> proc0"
    and alone: "\<forall>q\<in>L. q \<noteq> proc0 \<longrightarrow> p_parent (procs s q) \<noteq> p"
  obtains h where "proc_cleanup p s = Some (mfree p (s\<lparr>lists := h\<rparr>))" "links h (heads (L - {p}) G) (home s (L - {p}) G)"
proof -
  let ?H = "heads L G" and ?m = "home s L G"
  obtain h1 where h1: "unlink (PSibling p) s = Some (s\<lparr>lists := h1\<rparr>)" "links h1 ?H (?m(PSibling p := None))"
    by (rule unlink_links [OF l, where n = "PSibling p"]) (use p in auto)
  have "links (lists (s\<lparr>lists := h1\<rparr>)) ?H (?m(PSibling p := None))" using h1(2) by simp
  then obtain h2 where h2: "unlink (PPgrpLink p) (s\<lparr>lists := h1\<rparr>) = Some (s\<lparr>lists := h1\<rparr>\<lparr>lists := h2\<rparr>)"
      "links h2 ?H (?m(PSibling p := None, PPgrpLink p := None))"
    by (rule unlink_links [where n = "PPgrpLink p"]) (use p in auto)
  have "links (lists (s\<lparr>lists := h2\<rparr>)) ?H (?m(PSibling p := None, PPgrpLink p := None))" using h2(2) by simp
  then obtain h3 where h3: "proc_remove p (s\<lparr>lists := h2\<rparr>) = Some (s\<lparr>lists := h2\<rparr>\<lparr>lists := h3\<rparr>)"
      "links h3 ?H (?m(PSibling p := None, PPgrpLink p := None, PPidLink p := None, PTaskLink p := None))"
    by (rule proc_remove_links [where p = p]) (use p in auto)
  let ?m3 = "?m(PSibling p := None, PPgrpLink p := None, PPidLink p := None, PTaskLink p := None)"
  have "links (lists (s\<lparr>lists := h3\<rparr>)) ?H ?m3" using h3(2) by simp
  then obtain h4 where h4: "unlink (PLink p) (s\<lparr>lists := h3\<rparr>) = Some (s\<lparr>lists := h3\<rparr>\<lparr>lists := h4\<rparr>)"
      "links h4 ?H (?m3(PLink p := None))"
    by (rule unlink_links [where n = "PLink p"]) (use p in auto)
  have "home s (L - {p}) G n \<noteq> Some (PChildren p)" for n
    using alone home_heads(4) [of s "L - {p}" G n p] by auto
  then have "links h4 (heads (L - {p}) G) (home s (L - {p}) G)"
    using links_drop [OF h4(2), of "PChildren p"] home_remove [OF p(2), of s L G] by (simp add: heads_remove)
  moreover have "proc_cleanup p s = Some (mfree p (s\<lparr>lists := h4\<rparr>))"
    using h1(1) h2(1) h3(1) h4(1) by (simp add: proc_cleanup_def)
  ultimately show thesis by (intro that)
qed

lemma procs_ok_remove:
  "procs_ok s L G \<Longrightarrow> p \<noteq> proc0 \<Longrightarrow> p \<noteq> initproc \<Longrightarrow> \<forall>q\<in>L. q \<noteq> proc0 \<longrightarrow> p_parent (procs s q) \<noteq> p \<Longrightarrow>
    procs_ok s (L - {p}) G"
  unfolding procs_ok_def by (auto intro: inj_on_subset)

lemma proc_cleanup_table:
  assumes t: "table s L G" and p: "p \<in> L" "p \<noteq> proc0" "p \<noteq> initproc"
    and alone: "\<forall>q\<in>L. q \<noteq> proc0 \<longrightarrow> p_parent (procs s q) \<noteq> p"
  obtains s' where "proc_cleanup p s = Some s'" "table s' (L - {p}) G" "procs s' = procs s"
proof -
  obtain h where h: "proc_cleanup p s = Some (mfree p (s\<lparr>lists := h\<rparr>))" "links h (heads (L - {p}) G) (home s (L - {p}) G)"
    by (rule proc_cleanup_links [OF tableD(1) [OF t] p(1,2) alone])
  let ?s = "mfree p (s\<lparr>lists := h\<rparr>)"
  have "home ?s (L - {p}) G = home s (L - {p}) G" by (rule home_cong) (auto simp: mfree_def)
  moreover have "procs_ok ?s (L - {p}) G"
    using procs_ok_remove [OF tableD(2) [OF t] p(2,3) alone] by (simp add: procs_ok_def mfree_def)
  moreover have "groups_ok ?s G" "pool_ok ?s (L - {p}) G"
    using tableD(3,4) [OF t] p by (auto simp: groups_ok_def pool_ok_def mfree_def)
  ultimately have "table ?s (L - {p}) G" using h(2) by (simp add: table_def mfree_def)
  with h(1) show thesis by (rule that) (simp add: mfree_def)
qed

lemma children_lookup:
  assumes t: "table s L G" and c: "c \<in> L"
  obtains q where "q \<in> L" "q \<noteq> proc0" "p_parent (procs s q) = c" "P q" "lookup (PChildren c) P_SIBLING P s = Some q"
  | "\<forall>q\<in>L. q \<noteq> proc0 \<and> p_parent (procs s q) = c \<longrightarrow> \<not> P q" "lookup (PChildren c) P_SIBLING P s = Some 0"
  by (rule lookup_kind [OF tableD(1) [OF t], where head = "PChildren c" and P = P and member = P_SIBLING
        and S = "{q \<in> L. q \<noteq> proc0 \<and> p_parent (procs s q) = c}" and C = PSibling])
    (use c in \<open>auto dest: home_heads(4) intro: that\<close>)

lemma children_empty:
  assumes t: "table s L G" and c: "c \<in> L"
  shows "(nxt (lists s) (PChildren c) = PChildren c) = (\<forall>q\<in>L. q \<noteq> proc0 \<longrightarrow> p_parent (procs s q) \<noteq> c)"
proof -
  have "fam_ok (lists s) (heads L G) (home s L G)" using tableD(1) [OF t] by (simp add: links_def)
  then have "(nxt (lists s) (PChildren c) = PChildren c) = (\<forall>n. home s L G n \<noteq> Some (PChildren c))"
    by (rule fam_empty) (simp add: c)
  moreover have "home s L G (PSibling q) = Some (PChildren c)" if "q \<in> L" "q \<noteq> proc0" "p_parent (procs s q) = c" for q
    using that by simp
  ultimately show ?thesis by (metis home_heads(4))
qed

text \<open>The answer of \<open>proc_waitpid\<close> to a process \<open>c\<close>.\<close>

lemma proc_waitpid_cases:
  assumes t: "table s L G" and c: "curproc s = c" "c \<in> L" "c \<noteq> proc0"
  obtains "\<forall>q\<in>L. q \<noteq> proc0 \<longrightarrow> p_parent (procs s q) \<noteq> c" "proc_waitpid m s = Some (ECHILD, m, s)"
  | "\<forall>q\<in>L. q \<noteq> proc0 \<and> p_parent (procs s q) = c \<longrightarrow> \<not> waited (d0 m) s q"
    "proc_waitpid m s = Some (0, m\<lparr>d0 := 0, d1 := 0\<rparr>, s)"
  | q s' where "q \<in> L" "q \<noteq> proc0" "p_parent (procs s q) = c" "waited (d0 m) s q"
    "proc_waitpid m s = Some (0, m\<lparr>d0 := p_pid (procs s q), d1 := p_exitcode (procs s q)\<rparr>, s')"
    "if p_stat (procs s q) = SSTOP then s' = s else table s' (L - {q}) G \<and> procs s' = procs s"
proof -
  have c0: "c \<noteq> 0" using table_nonzero(1) [OF t] c(2) by metis
  show thesis
  proof (cases "nxt (lists s) (PChildren c) = PChildren c")
    case True
    then show thesis using that(1) children_empty [OF t c(2)] c0 c(1) by (simp add: proc_waitpid_def)
  next
    case False
    from t c(2) show thesis
    proof (rule children_lookup [where P = "waited (d0 m) s"])
      assume "\<forall>q\<in>L. q \<noteq> proc0 \<and> p_parent (procs s q) = c \<longrightarrow> \<not> waited (d0 m) s q"
        "lookup (PChildren c) P_SIBLING (waited (d0 m) s) s = Some 0"
      then show thesis using that(2) False c0 c(1) by (simp add: proc_waitpid_def)
    next
      fix q assume q: "q \<in> L" "q \<noteq> proc0" "p_parent (procs s q) = c" "waited (d0 m) s q"
        and r: "lookup (PChildren c) P_SIBLING (waited (d0 m) s) s = Some q"
      have q0: "q \<noteq> 0" using table_nonzero(1) [OF t] q(1) by metis
      show thesis
      proof (cases "p_stat (procs s q) = SSTOP")
        case True
        then show thesis using that(3) [OF q, of s] False c0 c(1) q0 r by (simp add: proc_waitpid_def)
      next
        case z: False
        then have zomb: "p_stat (procs s q) = SZOMB" using q(4) by (simp add: waited_def)
        have "q \<noteq> initproc" using tableD(2) [OF t] q c by (auto simp: procs_ok_def)
        moreover have "\<forall>r\<in>L. r \<noteq> proc0 \<longrightarrow> p_parent (procs s r) \<noteq> q"
          using tableD(2) [OF t] q zomb calculation unfolding procs_ok_def by metis
        ultimately obtain s' where s': "proc_cleanup q s = Some s'" "table s' (L - {q}) G" "procs s' = procs s"
          using proc_cleanup_table [OF t q(1,2)] by metis
        then show thesis using that(3) [OF q, of s'] z False c0 c(1) q0 r by (simp add: proc_waitpid_def)
      qed
    qed
  qed
qed

section \<open>Groups and sessions\<close>

lemma procs_ok_groups:
  "procs_ok s L G \<Longrightarrow> \<forall>p. p_parent (procs s' p) = p_parent (procs s p) \<and> p_stat (procs s' p) = p_stat (procs s p) \<and>
     p_pid (procs s' p) = p_pid (procs s p) \<Longrightarrow> \<forall>p\<in>L. p_pgrp (procs s' p) \<in> G' \<Longrightarrow> procs_ok s' L G'"
  by (simp add: procs_ok_def)

lemma table_join:
  assumes t: "table s L G" and p: "p \<in> L" and g: "g \<in> G"
  obtains h1 h2 where "unlink (PPgrpLink p) s = Some (s\<lparr>lists := h1\<rparr>)"
    "link_in (PgMembers g) (PPgrpLink p) (s\<lparr>lists := h1\<rparr>) = Some (s\<lparr>lists := h2\<rparr>)"
    "table (set_proc p (p_pgrp_update (\<lambda>_. g)) (s\<lparr>lists := h2\<rparr>)) L G"
proof -
  let ?m = "home s L G"
  obtain h1 where h1: "unlink (PPgrpLink p) s = Some (s\<lparr>lists := h1\<rparr>)" "links h1 (heads L G) (?m(PPgrpLink p := None))"
    by (rule unlink_links [OF tableD(1) [OF t], where n = "PPgrpLink p"]) (use p in auto)
  have "links (lists (s\<lparr>lists := h1\<rparr>)) (heads L G) (?m(PPgrpLink p := None))" using h1(2) by simp
  then obtain h2 where h2: "link_in (PgMembers g) (PPgrpLink p) (s\<lparr>lists := h1\<rparr>) = Some (s\<lparr>lists := h1\<rparr>\<lparr>lists := h2\<rparr>)"
      "links h2 (heads L G) (?m(PPgrpLink p := None, PPgrpLink p \<mapsto> PgMembers g))"
    by (rule link_in_links [where a = "PgMembers g" and n = "PPgrpLink p"]) (use g in auto)
  let ?s = "set_proc p (p_pgrp_update (\<lambda>_. g)) (s\<lparr>lists := h2\<rparr>)"
  have "home ?s L G n = (?m(PPgrpLink p \<mapsto> PgMembers g)) n" for n
    using p by (cases n) (auto simp: set_proc_def)
  then have "home ?s L G = ?m(PPgrpLink p \<mapsto> PgMembers g)" by (rule ext)
  moreover have "procs_ok ?s L G"
    by (rule procs_ok_groups [OF tableD(2) [OF t]]) (use g table_cur [OF t] in \<open>auto simp: set_proc_def\<close>)
  moreover have "groups_ok ?s G" "pool_ok ?s L G"
    using tableD(3,4) [OF t] by (simp_all add: groups_ok_def pool_ok_def set_proc_def)
  ultimately have "table ?s L G" using h2(2) by (simp add: table_def set_proc_def)
  with h1(1) h2(1) show thesis by (intro that [of h1 h2]) simp_all
qed

lemma proc_or_self_table:
  assumes t: "table s L G" and c: "curproc s \<in> L"
  obtains p where "proc_or_self pid s = Some p" "p = 0 \<or> p \<in> L"
proof (cases "pid = 0")
  case True
  then show thesis using that c by (simp add: proc_or_self_def)
next
  case False
  from t show thesis by (rule proc_find_table [where pid = pid]) (use False that in \<open>auto simp: proc_or_self_def\<close>)
qed

text \<open>\<open>new_group m s\<close>: the request would make \<open>proc_setpgid\<close> create a group.\<close>

definition new_group :: "pmsg \<Rightarrow> pstate \<Rightarrow> bool" where
  "new_group m s =
     (case proc_or_self (d0 m) s of
        None \<Rightarrow> False
      | Some p \<Rightarrow> p \<noteq> 0 \<and> 0 \<le> d1 m \<and>
          (let pgid = (if d1 m = 0 then p_pid (procs s p) else d1 m)
           in pgid_of p s \<noteq> pgid \<and> pgrp_find pgid s = Some 0))"

lemma proc_setpgid_answered:
  assumes t: "table s L G" and c: "curproc s \<in> L" and n: "\<not> new_group m s"
  shows "answered (proc_setpgid m s)"
proof -
  have c0: "curproc s \<noteq> 0" using table_cur [OF t c] by blast
  obtain p where p: "proc_or_self (d0 m) s = Some p" "p = 0 \<or> p \<in> L" by (rule proc_or_self_table [OF t c])
  define pgid where "pgid = (if d1 m = 0 then p_pid (procs s p) else d1 m)"
  show ?thesis
  proof (cases "p = 0 \<or> d1 m < 0 \<or> pgid_of p s = pgid")
    case True
    with c0 p(1) have "\<exists>e. proc_setpgid m s = Some (e, m, s)"
      by (auto simp: proc_setpgid_def pgid_def Let_def)
    then show ?thesis using answeredI [OF t] by metis
  next
    case False
    obtain g where g: "pgrp_find pgid s = Some g" "g = 0 \<or> g \<in> G"
      using t by (rule pgrp_find_table [where pgid = pgid]) blast+
    with n p False have gG: "g \<in> G" by (auto simp: new_group_def pgid_def)
    with table_nonzero(2) [OF t] have g0: "g \<noteq> 0" by metis
    from p(2) False have "p \<in> L" by blast
    then obtain h1 h2 where h: "unlink (PPgrpLink p) s = Some (s\<lparr>lists := h1\<rparr>)"
      "link_in (PgMembers g) (PPgrpLink p) (s\<lparr>lists := h1\<rparr>) = Some (s\<lparr>lists := h2\<rparr>)"
      "table (set_proc p (p_pgrp_update (\<lambda>_. g)) (s\<lparr>lists := h2\<rparr>)) L G"
      by (rule table_join [OF t _ gG])
    have "proc_setpgid m s = Some (0, m, set_proc p (p_pgrp_update (\<lambda>_. g)) (s\<lparr>lists := h2\<rparr>))"
      using c0 p(1) False g(1) g0 h(1,2) by (simp add: proc_setpgid_def pgid_def [symmetric])
    then show ?thesis using answeredI [OF h(3)] by metis
  qed
qed

text \<open>A new group for \<open>p\<close>, linked and with its session.\<close>

lemma table_new_session:
  fixes pid :: int
  assumes t: "table s L G" and p: "p \<in> L" and g: "fresh g s L G" "g \<noteq> initproc"
    and ss: "fresh ss s L G" "ss \<noteq> initproc" "ss \<noteq> g"
  defines "s0 \<equiv> s\<lparr>pgrps := (pgrps s)(g := (pgrps s g)\<lparr>pg_pgid := pid\<rparr>)\<rparr>"
  obtains h1 h2 h3 h4 where "linit (PgMembers g) s = s\<lparr>lists := h1\<rparr>"
    "pgrp_add g (s0\<lparr>lists := h1\<rparr>) = Some (s0\<lparr>lists := h2\<rparr>)"
    "unlink (PPgrpLink p) (s0\<lparr>lists := h2\<rparr>) = Some (s0\<lparr>lists := h3\<rparr>)"
    "link_in (PgMembers g) (PPgrpLink p) (s0\<lparr>lists := h3\<rparr>) = Some (s0\<lparr>lists := h4\<rparr>)"
    "table (s\<lparr>lists := h4, procs := (procs s)(p := (procs s p)\<lparr>p_pgrp := g\<rparr>),
        sessions := (sessions s)(ss := \<lparr>s_refcnt = 1, s_leader = p, s_ttyhold = 0\<rparr>),
        pgrps := (pgrps s)(g := \<lparr>pg_session = ss, pg_pgid = pid\<rparr>)\<rparr>) L (insert g G)"
proof -
  let ?m = "home s L G" and ?H = "insert (PgMembers g) (heads L G)"
  have gG: "g \<notin> G" "g \<noteq> 0" using g by (auto simp: fresh_def)
  obtain h1 where h1: "linit (PgMembers g) s = s\<lparr>lists := h1\<rparr>" "links h1 ?H ?m"
    by (rule linit_links [OF tableD(1) [OF t], where a = "PgMembers g"]) (use gG in auto)
  have "links (lists (s0\<lparr>lists := h1\<rparr>)) ?H ?m" using h1(2) by simp
  then obtain h2 where h2: "link_in (PgidHash (IDHASH pid)) (PgLink g) (s0\<lparr>lists := h1\<rparr>) = Some (s0\<lparr>lists := h1\<rparr>\<lparr>lists := h2\<rparr>)"
      "links h2 ?H (?m(PgLink g \<mapsto> PgidHash (IDHASH pid)))"
    by (rule link_in_links [where a = "PgidHash (IDHASH pid)" and n = "PgLink g"]) (use gG in auto)
  have "links (lists (s0\<lparr>lists := h2\<rparr>)) ?H (?m(PgLink g \<mapsto> PgidHash (IDHASH pid)))" using h2(2) by simp
  then obtain h3 where h3: "unlink (PPgrpLink p) (s0\<lparr>lists := h2\<rparr>) = Some (s0\<lparr>lists := h2\<rparr>\<lparr>lists := h3\<rparr>)"
      "links h3 ?H (?m(PgLink g \<mapsto> PgidHash (IDHASH pid), PPgrpLink p := None))"
    by (rule unlink_links [where n = "PPgrpLink p"]) (use p in auto)
  let ?m3 = "?m(PgLink g \<mapsto> PgidHash (IDHASH pid), PPgrpLink p := None)"
  have "links (lists (s0\<lparr>lists := h3\<rparr>)) ?H ?m3" using h3(2) by simp
  then obtain h4 where h4: "link_in (PgMembers g) (PPgrpLink p) (s0\<lparr>lists := h3\<rparr>) = Some (s0\<lparr>lists := h3\<rparr>\<lparr>lists := h4\<rparr>)"
      "links h4 ?H (?m3(PPgrpLink p \<mapsto> PgMembers g))"
    by (rule link_in_links [where a = "PgMembers g" and n = "PPgrpLink p"]) auto
  let ?s = "s\<lparr>lists := h4, procs := (procs s)(p := (procs s p)\<lparr>p_pgrp := g\<rparr>),
        sessions := (sessions s)(ss := \<lparr>s_refcnt = 1, s_leader = p, s_ttyhold = 0\<rparr>),
        pgrps := (pgrps s)(g := \<lparr>pg_session = ss, pg_pgid = pid\<rparr>)\<rparr>"
  have "home ?s L (insert g G) n = (?m3(PPgrpLink p \<mapsto> PgMembers g)) n" for n
    using p gG by (cases n) auto
  then have hm: "home ?s L (insert g G) = ?m3(PPgrpLink p \<mapsto> PgMembers g)" by (rule ext)
  have "procs_ok ?s L (insert g G)"
    by (rule procs_ok_groups [OF tableD(2) [OF t]]) (use table_cur [OF t] in auto)
  moreover have "groups_ok ?s (insert g G)"
    using tableD(3) [OF t] g ss table_cur [OF t p] by (auto simp: groups_ok_def fresh_def)
  moreover have "pool_ok ?s L (insert g G)"
    using tableD(4) [OF t] g ss by (auto simp: pool_ok_def fresh_def split: if_splits)
  ultimately have "table ?s L (insert g G)" using h4(2) hm by (simp add: table_def heads_insert)
  with h1(1) h2(1) h3(1) h4(1) show thesis
    by (intro that [of h1 h2 h3 h4]) (simp_all add: pgrp_add_def s0_def)
qed

lemma pgrps_lists_swap: "s\<lparr>lists := h, pgrps := a\<rparr> = s\<lparr>pgrps := a, lists := h\<rparr>"
  by simp

lemma pgrp_full: "(x :: pgrp)\<lparr>pg_pgid := a, pg_session := b\<rparr> = \<lparr>pg_session = b, pg_pgid = a\<rparr>"
  by (cases x) simp

lemma proc_setsid_answered:
  assumes t: "table s L G" and c: "curproc s \<in> L"
  shows "answered (proc_setsid m s)"
proof -
  let ?p = "curproc s"
  have c0: "?p \<noteq> 0" using table_cur [OF t c] by blast
  show ?thesis
  proof (cases "p_pid (procs s ?p) = pgid_of ?p s")
    case True
    with c0 t show ?thesis by (simp add: proc_setsid_def Let_def answeredI)
  next
    case leader: False
    from t show ?thesis
    proof (rule malloc_table)
      assume "malloc s = (0, s)"
      with c0 leader t show ?thesis by (simp add: proc_setsid_def answeredI)
    next
      fix ss rest
      let ?s1 = "s\<lparr>pool := rest\<rparr>"
      assume m1: "malloc s = (ss, ?s1)" "table ?s1 L G" "fresh ss ?s1 L G" "ss \<noteq> initproc"
      have ss0: "ss \<noteq> 0" using m1(3) by (simp add: fresh_def)
      from m1(2) show ?thesis
      proof (rule malloc_table)
        assume "malloc ?s1 = (0, ?s1)"
        with c0 leader m1(1) ss0 mfree_table [OF m1(2-4)] show ?thesis
          by (simp add: proc_setsid_def answeredI)
      next
        fix g rest'
        let ?s2 = "?s1\<lparr>pool := rest'\<rparr>"
        assume m2: "pool ?s1 = g # rest'" "malloc ?s1 = (g, ?s2)" "table ?s2 L G" "fresh g ?s2 L G" "g \<noteq> initproc"
        have g0: "g \<noteq> 0" using m2(4) by (simp add: fresh_def)
        have ss: "fresh ss ?s2 L G" "ss \<noteq> g" using m1(3) m2(1) by (auto simp: fresh_def)
        let ?pid = "p_pid (procs s ?p)"
        let ?s0 = "?s2\<lparr>pgrps := (pgrps ?s2)(g := (pgrps ?s2 g)\<lparr>pg_pgid := ?pid\<rparr>)\<rparr>"
        obtain h1 h2 h3 h4 where h: "linit (PgMembers g) ?s2 = ?s2\<lparr>lists := h1\<rparr>"
          "pgrp_add g (?s0\<lparr>lists := h1\<rparr>) = Some (?s0\<lparr>lists := h2\<rparr>)"
          "unlink (PPgrpLink ?p) (?s0\<lparr>lists := h2\<rparr>) = Some (?s0\<lparr>lists := h3\<rparr>)"
          "link_in (PgMembers g) (PPgrpLink ?p) (?s0\<lparr>lists := h3\<rparr>) = Some (?s0\<lparr>lists := h4\<rparr>)"
          "table (?s2\<lparr>lists := h4, procs := (procs ?s2)(?p := (procs ?s2 ?p)\<lparr>p_pgrp := g\<rparr>),
            sessions := (sessions ?s2)(ss := \<lparr>s_refcnt = 1, s_leader = ?p, s_ttyhold = 0\<rparr>),
            pgrps := (pgrps ?s2)(g := \<lparr>pg_session = ss, pg_pgid = ?pid\<rparr>)\<rparr>) L (insert g G)"
          by (rule table_new_session [OF m2(3) c m2(4,5) ss(1) m1(4) ss(2), of ?pid])
        have "proc_setsid m s = Some (0, m\<lparr>d0 := ?pid\<rparr>, ?s2\<lparr>lists := h4, procs := (procs ?s2)(?p := (procs ?s2 ?p)\<lparr>p_pgrp := g\<rparr>),
            sessions := (sessions ?s2)(ss := \<lparr>s_refcnt = 1, s_leader = ?p, s_ttyhold = 0\<rparr>),
            pgrps := (pgrps ?s2)(g := \<lparr>pg_session = ss, pg_pgid = ?pid\<rparr>)\<rparr>)"
          using c0 leader m1(1) m2(2) ss0 g0 h(1-4)
          by (simp add: proc_setsid_def set_pgrp_def set_proc_def Let_def pgrps_lists_swap pgrp_full)
        then show ?thesis using answeredI [OF h(5)] by simp
      qed
    qed
  qed
qed

end
