(* ===== verification/Proc_Serve.thy ===== *)
theory Proc_Serve
  imports Proc_Inv
begin

text \<open>
  The message loop of the process server: exit, exec, signals and the other requests keep the tables, so
  that every request of a well behaved client is answered.
\<close>

section \<open>Exec and stop\<close>

lemma parent_nonzero:
  assumes "table s L G" "p \<in> L" "p \<noteq> proc0"
  shows "p_parent (procs s p) \<noteq> 0"
proof -
  have "p_parent (procs s p) \<in> L" using tableD(2) [OF assms(1)] assms(2,3) by (simp add: procs_ok_def)
  then show ?thesis using table_nonzero(1) [OF assms(1)] by metis
qed

lemma table_retask:
  assumes t: "table s L G" and p: "p \<in> L"
  obtains s1 s2 where "proc_remove p s = Some s1" "proc_add p (set_proc p (p_task_update (\<lambda>_. task)) s1) = Some s2"
    "table s2 L G"
proof -
  let ?m = "home s L G" and ?H = "heads L G"
  obtain h1 where h1: "proc_remove p s = Some (s\<lparr>lists := h1\<rparr>)" "links h1 ?H (?m(PPidLink p := None, PTaskLink p := None))"
    by (rule proc_remove_links [OF tableD(1) [OF t], where p = p]) (use p in auto)
  let ?s1 = "set_proc p (p_task_update (\<lambda>_. task)) (s\<lparr>lists := h1\<rparr>)"
  have "links (lists ?s1) ?H (?m(PPidLink p := None, PTaskLink p := None))" using h1(2) by (simp add: set_proc_def)
  then obtain h2 where h2: "proc_add p ?s1 = Some (?s1\<lparr>lists := h2\<rparr>)"
      "links h2 ?H (?m(PPidLink p := None, PTaskLink p := None,
         PPidLink p \<mapsto> PidHash (IDHASH (p_pid (procs ?s1 p))), PTaskLink p \<mapsto> TaskHash (IDHASH (p_task (procs ?s1 p)))))"
    by (rule proc_add_links [where p = p]) auto
  let ?s2 = "?s1\<lparr>lists := h2\<rparr>"
  have "home ?s2 L G n = (?m(PPidLink p := None, PTaskLink p := None,
         PPidLink p \<mapsto> PidHash (IDHASH (p_pid (procs ?s1 p))), PTaskLink p \<mapsto> TaskHash (IDHASH (p_task (procs ?s1 p))))) n" for n
    using p by (cases n) (auto simp: set_proc_def)
  then have hm: "home ?s2 L G = ?m(PPidLink p := None, PTaskLink p := None,
         PPidLink p \<mapsto> PidHash (IDHASH (p_pid (procs ?s1 p))), PTaskLink p \<mapsto> TaskHash (IDHASH (p_task (procs ?s1 p))))"
    by (rule ext)
  have "procs_ok ?s2 L G"
    by (rule procs_ok_groups [OF tableD(2) [OF t]]) (use table_cur [OF t] in \<open>auto simp: set_proc_def\<close>)
  moreover have "groups_ok ?s2 G" "pool_ok ?s2 L G"
    using tableD(3,4) [OF t] by (simp_all add: groups_ok_def pool_ok_def set_proc_def)
  ultimately have "table ?s2 L G" using h2(2) hm by (simp add: table_def)
  with h1(1) h2(1) show thesis by (rule that)
qed

lemma proc_exec_answered:
  assumes t: "table s L G"
  shows "answered (proc_exec K m s)"
  using t
proof (rule task_to_proc_table [where task = "d0 m"])
  assume "task_to_proc (d0 m) s = Some 0"
  with t show ?thesis by (simp add: proc_exec_def answeredI)
next
  fix p assume p: "p \<in> L" "task_to_proc (d0 m) s = Some p"
  have p0: "p \<noteq> 0" using table_cur [OF t p(1)] by blast
  obtain s1 s2 where s2: "proc_remove p s = Some s1" "proc_add p (set_proc p (p_task_update (\<lambda>_. d1 m)) s1) = Some s2"
    "table s2 L G"
    by (rule table_retask [OF t p(1)])
  define s3 where "s3 = set_proc p (p_stackbase_update (\<lambda>_. d2 m)) s2"
  define s4 where "s4 = (if p_parent (procs s3 p) \<noteq> 0 \<and> p_vforked (procs s3 (p_parent (procs s3 p))) \<noteq> 0
    then vfork_end K (p_parent (procs s3 p)) s3 else s3)"
  have "same_tables s2 s3" unfolding s3_def by (rule same_set_proc) simp
  also have "same_tables s3 s4" by (simp add: s4_def same_vfork_end)
  finally have "table s4 L G" using s2(3) by (rule table_same)
  moreover have "proc_exec K m s = Some (0, m, s4)"
    using p(2) p0 s2(1,2) by (simp add: proc_exec_def s3_def s4_def Let_def)
  ultimately show ?thesis by (simp add: answeredI)
qed

lemma table_stat:
  assumes t: "table s L G" and c: "c \<in> L" "c \<noteq> proc0" and st: "st = SSTOP \<or> st = SRUN"
  shows "table (set_proc c (\<lambda>p. p\<lparr>p_stat := st, p_exitcode := code\<rparr>) s) L G"
proof -
  let ?s = "set_proc c (\<lambda>p. p\<lparr>p_stat := st, p_exitcode := code\<rparr>) s"
  have f: "p_parent (procs ?s p) = p_parent (procs s p)" "p_pgrp (procs ?s p) = p_pgrp (procs s p)"
      "p_pid (procs ?s p) = p_pid (procs s p)" "p_task (procs ?s p) = p_task (procs s p)"
      "p_stat (procs ?s p) = (if p = c then st else p_stat (procs s p))" for p
    by (simp_all add: set_proc_def)
  have "home ?s L G = home s L G" by (rule home_cong) (auto simp: set_proc_def)
  moreover have "procs_ok ?s L G"
    using tableD(2) [OF t] c st by (auto simp: procs_ok_def f)
  ultimately show ?thesis
    using t by (simp add: table_def groups_ok_def pool_ok_def set_proc_def)
qed

lemma proc_stop_answered:
  assumes t: "table s L G" and c: "curproc s \<in> L" "curproc s \<noteq> proc0"
  shows "answered (proc_stop K m s)"
proof (cases "p_stat (cur s) = SZOMB")
  case True
  with t show ?thesis by (simp add: proc_stop_def answeredI)
next
  case False
  let ?s1 = "set_proc (curproc s) (\<lambda>p. p\<lparr>p_stat := SSTOP, p_exitcode := d0 m\<rparr>) s"
  have t1: "table ?s1 L G" by (rule table_stat [OF t c]) simp
  have pr: "p_parent (cur ?s1) = p_parent (cur s)" by (simp add: cur_def set_proc_def)
  have "p_parent (cur ?s1) \<noteq> 0" using parent_nonzero [OF t c] pr by (simp add: cur_def)
  moreover have "curproc s \<noteq> 0" using table_cur [OF t c(1)] by blast
  moreover have "table (kcall_do K k ?s1) L G" for k by (rule table_same [OF same_syscall(2) t1])
  ultimately show ?thesis using False by (auto simp: proc_stop_def deref_def Let_def intro: answeredI)
qed

section \<open>Exit\<close>

definition orphan :: "nat set \<Rightarrow> (nat \<Rightarrow> proc) \<Rightarrow> nat \<Rightarrow> proc" where
  "orphan C ps q = (if q \<in> C then (ps q)\<lparr>p_parent := initproc\<rparr> else ps q)"

lemma reparent_links:
  assumes L: "initproc \<in> L" "c \<in> L"
  shows "fam_list (lists s) (heads L G) (home s L G) f \<Longrightarrow> f (PChildren c) = pre @ map PSibling cs \<Longrightarrow>
    (c \<noteq> initproc \<longrightarrow> pre = []) \<Longrightarrow>
    \<exists>h. reparent c (hd (map PSibling cs @ [PChildren c])) s = Some (s\<lparr>lists := h, procs := orphan (set cs) (procs s)\<rparr>) \<and>
      fam_ok h (heads L G) (home (s\<lparr>procs := orphan (set cs) (procs s)\<rparr>) L G)"
proof (induction cs arbitrary: s f pre)
  case Nil
  have o: "orphan {} (procs s) = procs s" by (rule ext) (simp add: orphan_def)
  show ?case
    using Nil(1) by (intro exI [of _ "lists s"]) (auto simp: reparent.simps fam_ok_def o)
next
  case (Cons x cs)
  let ?m = "home s L G" and ?H = "heads L G" and ?n = "PSibling x"
  let ?s0 = "set_proc x (p_parent_update (\<lambda>_. initproc)) s"
  have links: "links (lists s) ?H ?m" using Cons.prems(1) by (auto simp: links_def fam_ok_def)
  have fl: "lists_ok (lists s) ?H f" "\<forall>a\<in>?H. set (f a) = {n. ?m n = Some a}"
    using Cons.prems(1) by (auto simp: fam_list_def)
  have "?n \<in> set (f (PChildren c))" using Cons.prems(2) by simp
  moreover have "set (f (PChildren c)) = {n. ?m n = Some (PChildren c)}" using fl(2) L by simp
  ultimately have x: "?m ?n = Some (PChildren c)" by blast
  then have xL: "x \<in> L" "x \<noteq> proc0" "p_parent (procs s x) = c" by (auto split: if_splits)
  have nx: "nxt (lists s) ?n = hd (map PSibling cs @ [PChildren c])"
    using lists_ok_next [OF fl(1), of "PChildren c" pre ?n "map PSibling cs"] Cons.prems(2) L by simp
  have u: "unlink ?n ?s0 = Some (?s0\<lparr>lists := list_remove ?n (lists s)\<rparr>)"
    using links_nonnull(2) [OF links x] by (simp add: unlink_def set_proc_def)
  let ?f1 = "f(PChildren c := remove1 ?n (f (PChildren c)))"
  have f1: "fam_list (list_remove ?n (lists s)) ?H (?m(?n := None)) ?f1"
    by (rule fam_list_remove [OF Cons.prems(1) x])
  let ?s1 = "?s0\<lparr>lists := list_remove ?n (lists s)\<rparr>"
  let ?h2 = "list_insert (PChildren initproc) ?n (list_remove ?n (lists s))"
  have "links (list_remove ?n (lists s)) ?H (?m(?n := None))" using f1 by (auto simp: links_def fam_ok_def)
  from links_nonnull(1) [OF this, of "PChildren initproc"] L
  have i: "link_in (PChildren initproc) ?n ?s1 = Some (?s0\<lparr>lists := ?h2\<rparr>)"
    by (simp add: link_in_def)
  let ?f2 = "?f1(PChildren initproc := ?n # ?f1 (PChildren initproc))"
  have f2: "fam_list ?h2 ?H (?m(?n := None, ?n \<mapsto> PChildren initproc)) ?f2"
    by (rule fam_list_insert [OF f1]) (use L in auto)
  let ?s2 = "?s0\<lparr>lists := ?h2\<rparr>"
  have "home ?s2 L G n = (?m(?n := None, ?n \<mapsto> PChildren initproc)) n" for n
    using xL by (cases n) (auto simp: set_proc_def)
  then have hm: "home ?s2 L G = ?m(?n := None, ?n \<mapsto> PChildren initproc)" by (rule ext)
  have F: "fam_list (lists ?s2) ?H (home ?s2 L G) ?f2" using f2 hm by simp
  have "distinct (f (PChildren c))" using lists_ok_distinct [OF fl(1), of "PChildren c"] L by simp
  then have notpre: "?n \<notin> set pre" using Cons.prems(2) by auto
  have P: "?f2 (PChildren c) = (if c = initproc then ?n # pre else []) @ map PSibling cs"
    using Cons.prems(2,3) notpre by auto
  from Cons.IH [OF F P] obtain h where
    h: "reparent c (hd (map PSibling cs @ [PChildren c])) ?s2 = Some (?s2\<lparr>lists := h, procs := orphan (set cs) (procs ?s2)\<rparr>)"
      "fam_ok h ?H (home (?s2\<lparr>procs := orphan (set cs) (procs ?s2)\<rparr>) L G)"
    by auto
  have o: "orphan (set cs) (procs ?s2) = orphan (set (x # cs)) (procs s)"
    by (rule ext) (auto simp: orphan_def set_proc_def)
  have "home (?s2\<lparr>procs := orphan (set cs) (procs ?s2)\<rparr>) L G = home (s\<lparr>procs := orphan (set (x # cs)) (procs s)\<rparr>) L G"
    unfolding o by (rule home_cong) (auto simp: set_proc_def)
  moreover have "reparent c ?n s = reparent c (hd (map PSibling cs @ [PChildren c])) ?s2"
    using u i nx by (simp add: reparent.simps [of c ?n])
  ultimately show ?case using h o by (intro exI [of _ h]) (simp add: set_proc_def)
qed

lemma children_list:
  assumes "fam_list h (heads L G) (home s L G) f" and "c \<in> L"
  obtains cs where "f (PChildren c) = map PSibling cs" "set cs = {q \<in> L. q \<noteq> proc0 \<and> p_parent (procs s q) = c}"
proof -
  have set: "set (f (PChildren c)) = {n. home s L G n = Some (PChildren c)}"
    using assms by (auto simp: fam_list_def)
  then have "\<forall>n\<in>set (f (PChildren c)). \<exists>q. n = PSibling q" by (auto dest: home_heads(4))
  then obtain cs where cs: "f (PChildren c) = map PSibling cs" by (metis ex_map_conv)
  have mem: "q \<in> set cs \<longleftrightarrow> home s L G (PSibling q) = Some (PChildren c)" for q
  proof -
    have "q \<in> set cs \<longleftrightarrow> PSibling q \<in> set (f (PChildren c))" unfolding cs by auto
    then show ?thesis using set by simp
  qed
  have "set cs = {q \<in> L. q \<noteq> proc0 \<and> p_parent (procs s q) = c}" by (rule set_eqI) (simp add: mem)
  with cs show thesis by (rule that)
qed

definition bury :: "nat \<Rightarrow> int \<Rightarrow> pstate \<Rightarrow> pstate" where
  "bury c code s = set_proc c (\<lambda>p. p\<lparr>p_stat := SZOMB, p_exitcode := code\<rparr>) s"

text \<open>The table after a process has become a zombie and its children those of init.\<close>

lemma procs_ok_exit:
  assumes ok: "procs_ok s L G" and c: "c \<in> L" "c \<noteq> proc0" and i: "initproc \<in> L"
    and C: "C = {q \<in> L. q \<noteq> proc0 \<and> p_parent (procs s q) = c}"
    and s': "procs s' = orphan C (procs (bury c code s))"
  shows "procs_ok s' L G"
proof -
  have f: "p_pgrp (procs s' p) = p_pgrp (procs s p)" "p_pid (procs s' p) = p_pid (procs s p)"
      "p_stat (procs s' p) = (if p = c then SZOMB else p_stat (procs s p))"
      "p_parent (procs s' p) = (if p \<in> C then initproc else p_parent (procs s p))" for p
    by (auto simp: s' orphan_def bury_def set_proc_def)
  have "initproc \<notin> C" "proc0 \<notin> C" using ok c i by (auto simp: procs_ok_def C)
  moreover have "p = initproc" if "p \<in> L" "q \<in> L" "q \<noteq> proc0" "p_stat (procs s' p) = SZOMB" "p_parent (procs s' q) = p" for p q
    using that ok unfolding f procs_ok_def C by (auto split: if_splits)
  ultimately show ?thesis using ok c i unfolding procs_ok_def f by auto
qed

lemma table_exit:
  assumes t: "table s L G" and c: "c \<in> L" "c \<noteq> proc0" and i: "initproc \<in> L"
  obtains s' where "reparent c (nxt (lists (bury c code s)) (PChildren c)) (bury c code s) = Some s'"
    "table s' L G" "p_parent (procs s' c) = p_parent (procs s c)" "p_stat (procs s' c) = SZOMB" "p_exitcode (procs s' c) = code"
    "\<forall>q\<in>L. q \<noteq> proc0 \<and> p_parent (procs s q) = c \<longrightarrow> p_parent (procs s' q) = initproc" "\<forall>q. p_pid (procs s' q) = p_pid (procs s q)"
proof -
  let ?s = "bury c code s"
  have hm: "home ?s L G = home s L G" by (rule home_cong) (auto simp: bury_def set_proc_def)
  have ls: "lists ?s = lists s" by (simp add: bury_def set_proc_def)
  obtain f where f: "fam_list (lists ?s) (heads L G) (home ?s L G) f"
    using tableD(1) [OF t] unfolding hm ls by (auto simp: links_def fam_ok_def)
  obtain cs where cs: "f (PChildren c) = map PSibling cs" "set cs = {q \<in> L. q \<noteq> proc0 \<and> p_parent (procs ?s q) = c}"
    by (rule children_list [OF f c(1)])
  have first: "nxt (lists ?s) (PChildren c) = hd (map PSibling cs @ [PChildren c])"
    using lists_ok_first [of "lists ?s" "heads L G" f "PChildren c"] f c cs(1) by (simp add: fam_list_def)
  from reparent_links [OF i c(1) f, of "[]" cs] cs(1) obtain h where
    h: "reparent c (hd (map PSibling cs @ [PChildren c])) ?s = Some (?s\<lparr>lists := h, procs := orphan (set cs) (procs ?s)\<rparr>)"
      "fam_ok h (heads L G) (home (?s\<lparr>procs := orphan (set cs) (procs ?s)\<rparr>) L G)"
    by auto
  let ?s' = "?s\<lparr>lists := h, procs := orphan (set cs) (procs ?s)\<rparr>"
  have pr: "p_parent (procs ?s q) = p_parent (procs s q)" for q by (simp add: bury_def set_proc_def)
  have "procs_ok ?s' L G"
    by (rule procs_ok_exit [OF tableD(2) [OF t] c i cs(2) [unfolded pr]]) simp
  moreover have "groups_ok ?s' G" "pool_ok ?s' L G"
    using tableD(3,4) [OF t] by (simp_all add: groups_ok_def pool_ok_def bury_def set_proc_def)
  moreover have "home ?s' L G = home (?s\<lparr>procs := orphan (set cs) (procs ?s)\<rparr>) L G" by (rule home_cong) auto
  ultimately have "table ?s' L G" using h(2) by (simp add: table_def links_def)
  moreover have "c \<notin> set cs" using cs(2) pr tableD(2) [OF t] by (auto simp: procs_ok_def)
  ultimately show thesis using h(1) first cs(2) pr
    by (intro that [of ?s']) (auto simp: orphan_def bury_def set_proc_def)
qed

lemma proc_exit_result:
  assumes t: "table s L G" and c: "curproc s = c" "c \<in> L" "c \<noteq> proc0" and i: "initproc \<in> L"
    and alive: "p_stat (procs s c) \<noteq> SZOMB"
  obtains s' where "proc_exit K m s = Some (0, m, s')" "table s' L G"
    "p_stat (procs s' c) = SZOMB" "p_exitcode (procs s' c) = d0 m" "p_parent (procs s' c) = p_parent (procs s c)"
    "\<forall>q\<in>L. q \<noteq> proc0 \<and> p_parent (procs s q) = c \<longrightarrow> p_parent (procs s' q) = initproc" "\<forall>q. p_pid (procs s' q) = p_pid (procs s q)"
    "hd (calls s') = K_raise (p_task (procs s' (p_parent (procs s c)))) SIGCHLD"
proof -
  obtain s2 where s2: "reparent c (nxt (lists (bury c (d0 m) s)) (PChildren c)) (bury c (d0 m) s) = Some s2"
    "table s2 L G" "p_parent (procs s2 c) = p_parent (procs s c)" "p_stat (procs s2 c) = SZOMB" "p_exitcode (procs s2 c) = d0 m"
    "\<forall>q\<in>L. q \<noteq> proc0 \<and> p_parent (procs s q) = c \<longrightarrow> p_parent (procs s2 q) = initproc" "\<forall>q. p_pid (procs s2 q) = p_pid (procs s q)"
    by (rule table_exit [OF t c(2,3) i])
  let ?pr = "p_parent (procs s c)"
  define s3 where "s3 = (if ?pr \<noteq> 0 \<and> p_vforked (procs s2 ?pr) \<noteq> 0
    then kcall_do K (K_terminate (p_task (procs (vfork_end K ?pr s2) c))) (vfork_end K ?pr s2) else s2)"
  have "same_tables s2 (vfork_end K ?pr s2)" by (rule same_vfork_end)
  also have "same_tables (vfork_end K ?pr s2) (kcall_do K k (vfork_end K ?pr s2))" for k by (rule same_syscall)
  finally have same: "same_tables s2 s3" by (simp add: s3_def)
  define s4 where "s4 = kcall_do K (K_raise (p_task (procs s3 ?pr)) SIGCHLD) s3"
  have same4: "same_tables s2 s4" using same_trans [OF same same_syscall(2)] by (simp add: s4_def)
  have code: "p_exitcode (procs s4 c) = p_exitcode (procs s2 c)"
    by (simp add: s4_def s3_def kcall_do_def syscall_def vfork_end_def set_proc_def Let_def split_def)
  have pr0: "?pr \<noteq> 0" by (rule parent_nonzero [OF t c(2,3)])
  have par: "p_parent (procs s3 c) = ?pr" using same s2(3) by (simp add: same_tables_def)
  have "c \<noteq> 0" using table_cur [OF t c(2)] by blast
  then have "proc_exit K m s = Some (0, m, s4)"
    using alive c(1) s2(1,3) pr0 par
    by (cases "p_vforked (procs s2 ?pr) = 0")
      (simp_all add: proc_exit_def cur_def bury_def [symmetric] s3_def s4_def deref_def Let_def)
  moreover have "p_task (procs s4 ?pr) = p_task (procs s3 ?pr)" "hd (calls s4) = K_raise (p_task (procs s3 ?pr)) SIGCHLD"
    by (simp_all add: s4_def kcall_do_def syscall_def)
  ultimately show thesis
    using same4 s2 code table_same [OF same4 s2(2)] by (intro that [of s4]) (auto simp: same_tables_def)
qed

lemma proc_exit_answered:
  assumes t: "table s L G" and c: "curproc s \<in> L" "curproc s \<noteq> proc0" and i: "initproc \<in> L"
  shows "answered (proc_exit K m s)"
proof (cases "p_stat (cur s) = SZOMB")
  case True
  with t show ?thesis by (simp add: proc_exit_def answeredI)
next
  case False
  then obtain s' where "proc_exit K m s = Some (0, m, s')" "table s' L G"
    using proc_exit_result [OF t refl c i] by (metis cur_def)
  then show ?thesis by (simp add: answeredI)
qed

section \<open>Signals\<close>

lemma same_tables_lists: "same_tables s s' \<Longrightarrow> lists s' = lists s"
  by (simp add: same_tables_def)

lemma kill_members_result:
  assumes "lists_ok (lists s) H f" "a \<in> H"
  shows "f a = xs @ ys \<Longrightarrow> lists s1 = lists s \<Longrightarrow>
    \<exists>e s2. kill_members K sig a (hd (ys @ [a])) err s1 = Some (e, s2) \<and> same_tables s1 s2"
proof (induction ys arbitrary: xs s1 err)
  case Nil
  then show ?case by (auto simp: kill_members.simps)
next
  case (Cons y ys)
  have "y \<noteq> a" using lists_ok_distinct [OF assms] Cons.prems(1) by auto
  obtain e s2 where s2: "send_sig K (list_entry y P_LINK) sig s1 = (e, s2)" by fastforce
  have same: "same_tables s1 s2" using same_send_sig [of s1 K "list_entry y P_LINK" sig] s2 by simp
  have "nxt (lists s2) y = hd (ys @ [a])"
    using lists_ok_next [OF assms Cons.prems(1)] same_tables_lists [OF same] Cons.prems(2) by simp
  moreover obtain e' s3 where "kill_members K sig a (hd (ys @ [a])) e s2 = Some (e', s3)" "same_tables s2 s3"
    using Cons.IH [of "xs @ [y]" s2 e] Cons.prems same_tables_lists [OF same] by auto
  ultimately show ?case
    using s2 \<open>y \<noteq> a\<close> same same_trans [OF same, of s3] by (auto simp: kill_members.simps [of _ _ _ y])
qed

lemma kill_pg_result:
  assumes t: "table s L G"
  obtains e s' where "kill_pg K pgid sig s = Some (e, s')" "same_tables s s'"
  using t
proof (rule pgrp_find_table [where pgid = pgid])
  assume "pgrp_find pgid s = Some 0"
  then show thesis using that by (simp add: kill_pg_def)
next
  fix g assume g: "g \<in> G" "pgrp_find pgid s = Some g"
  obtain f where f: "lists_ok (lists s) (heads L G) f"
    using tableD(1) [OF t] by (auto simp: links_def elim: fam_okE)
  have gH: "PgMembers g \<in> heads L G" using g by simp
  obtain e s' where "kill_members K sig (PgMembers g) (hd (f (PgMembers g) @ [PgMembers g])) 0 s = Some (e, s')"
    "same_tables s s'"
    using kill_members_result [OF f gH, of "[]" "f (PgMembers g)" s K sig 0] by auto
  moreover have "g \<noteq> 0" using table_nonzero(2) [OF t] g(1) by metis
  ultimately show thesis
    using that g(2) lists_ok_first [OF f gH] by (simp add: kill_pg_def)
qed

lemma kill_one_result:
  assumes t: "table s L G"
  obtains e s' where "kill_one K pid sig s = Some (e, s')" "same_tables s s'"
  using t
proof (rule proc_find_table [where pid = pid])
  assume "proc_find pid s = Some 0"
  then show thesis using that by (simp add: kill_one_def)
next
  fix p assume "p \<in> L" "proc_find pid s = Some p"
  moreover from this have "p \<noteq> 0" using table_nonzero(1) [OF t] by metis
  ultimately show thesis
    using that [of "fst (send_sig K p sig s)" "snd (send_sig K p sig s)"] same_send_sig by (simp add: kill_one_def)
qed

lemma kill_all_result:
  assumes "lists_ok (lists s) (heads L G) f"
  shows "f AllProc = xs @ ys \<Longrightarrow> lists s1 = lists s \<Longrightarrow> table s1 L G \<Longrightarrow>
    \<exists>e s2. kill_all K sig (hd (ys @ [AllProc])) err s1 = Some (e, s2) \<and> same_tables s1 s2"
proof (induction ys arbitrary: xs s1 err)
  case Nil
  then show ?case by (auto simp: kill_all.simps)
next
  case (Cons y ys)
  let ?p = "procs s1 (list_entry y P_LINK)"
  have y: "y \<noteq> AllProc" using lists_ok_distinct [OF assms, of AllProc] Cons.prems(1) by auto
  have nx: "nxt (lists s) y = hd (ys @ [AllProc])"
    using lists_ok_next [OF assms _ Cons.prems(1)] by simp
  obtain e s2 where s2: "kill_one K (p_pid ?p) sig s1 = Some (e, s2)" "same_tables s1 s2"
    by (rule kill_one_result [OF Cons.prems(3)])
  have ls: "lists s2 = lists s" using same_tables_lists [OF s2(2)] Cons.prems(2) by simp
  obtain e' s3 where s3: "kill_all K sig (hd (ys @ [AllProc])) e s2 = Some (e', s3)" "same_tables s2 s3"
    using Cons.IH [of "xs @ [y]" s2 e] Cons.prems ls table_same [OF s2(2)] by auto
  obtain e'' s4 where s4: "kill_all K sig (hd (ys @ [AllProc])) err s1 = Some (e'', s4)" "same_tables s1 s4"
    using Cons.IH [of "xs @ [y]" s1 err] Cons.prems by auto
  show ?case
    using y s2 s3 s4 nx ls Cons.prems(2) same_trans [OF s2(2) s3(2)] by (auto simp: kill_all.simps [of _ _ y] Let_def)
qed

lemma proc_kill_answered:
  assumes t: "table s L G" and c: "curproc s \<in> L"
  shows "answered (proc_kill K m s)"
proof -
  have c0: "curproc s \<noteq> 0" using table_cur [OF t c] by blast
  have keep: "answered (do { (e, s1) \<leftarrow> r; Some (e, m, s1) })" if "r = Some (e, s1)" "same_tables s s1" for r e s1
    using that table_same [OF that(2) t] by (simp add: answeredI)
  have err: "answered (Some (e, m, s))" for e using t by (rule answeredI)
  have one: "answered (do { (e, s1) \<leftarrow> kill_one K pid sig s; Some (e, m, s1) })" for pid sig
    by (rule kill_one_result [OF t, of K pid sig]) (rule keep)
  have pg: "answered (do { (e, s1) \<leftarrow> kill_pg K pid sig s; Some (e, m, s1) })" for pid sig
    by (rule kill_pg_result [OF t, of K pid sig]) (rule keep)
  obtain f where f: "lists_ok (lists s) (heads L G) f"
    using tableD(1) [OF t] by (auto simp: links_def elim: fam_okE)
  obtain e s1 where "kill_all K (d1 m) (nxt (lists s) AllProc) 0 s = Some (e, s1)" "same_tables s s1"
    using kill_all_result [OF f, of "[]" "f AllProc" s K "d1 m" 0] t lists_ok_first [OF f, of AllProc] by auto
  then have all: "answered (do { (e, s1) \<leftarrow> kill_all K (d1 m) (nxt (lists s) AllProc) 0 s; Some (e, m, s1) })"
    by (rule keep)
  obtain p where p: "proc_find 0 s = Some p"
    using t by (rule proc_find_table [where pid = 0]) blast+
  show ?thesis
    using c0 err one pg all p by (simp add: proc_kill_def deref_def Let_def)
qed

section \<open>The other requests\<close>

definition caller :: "pstate \<Rightarrow> nat set \<Rightarrow> bool" where
  "caller s L = (curproc s = 0 \<or> curproc s \<in> L \<and> curproc s \<noteq> proc0)"

lemma getters_answered:
  assumes t: "table s L G" and c: "caller s L"
  shows "answered (proc_getpid m s)" "answered (proc_getppid m s)" "answered (proc_getpgid m s)"
    "answered (proc_getsid m s)" "answered (proc_gettask m s)" "answered (proc_pstat m s)"
proof -
  have err: "answered (Some (e, m', s))" for e m' using t by (rule answeredI)
  show "answered (proc_getpid m s)" by (simp add: proc_getpid_def err)
  have "p_parent (cur s) \<noteq> 0" if "curproc s \<in> L" "curproc s \<noteq> proc0"
    using parent_nonzero [OF t that] by (simp add: cur_def)
  then show "answered (proc_getppid m s)" using c by (auto simp: proc_getppid_def err deref_def caller_def)
  obtain q where q: "proc_find (d0 m) s = Some q" using t by (rule proc_find_table [where pid = "d0 m"]) blast+
  show "answered (proc_gettask m s)" by (simp add: proc_gettask_def q err)
  obtain q where q: "task_to_proc (d0 m) s = Some q" using t by (rule task_to_proc_table [where task = "d0 m"]) blast+
  show "answered (proc_pstat m s)" by (simp add: proc_pstat_def q err)
  have self: "\<exists>p. proc_or_self (d0 m) s = Some p \<and> (p = 0 \<or> p \<in> L)" if "curproc s \<in> L"
    using proc_or_self_table [OF t that] by metis
  then show "answered (proc_getpgid m s)"
    using c err by (auto simp: proc_getpgid_def caller_def)
  show "answered (proc_getsid m s)"
  proof (cases "curproc s = 0")
    case True
    then show ?thesis by (simp add: proc_getsid_def err)
  next
    case False
    then obtain p where p: "proc_or_self (d0 m) s = Some p" "p = 0 \<or> p \<in> L"
      using self c by (auto simp: caller_def)
    have "pg_session (pgrps s (p_pgrp (procs s p))) \<noteq> 0 \<and>
        s_leader (sessions s (pg_session (pgrps s (p_pgrp (procs s p))))) \<noteq> 0" if "p \<in> L"
      using tableD(3) [OF t] table_cur [OF t that] by (simp add: groups_ok_def)
    with p False show ?thesis by (cases "p = 0") (simp_all add: proc_getsid_def err deref_def)
  qed
qed

lemma table_outside:
  assumes t: "table s L G" and p: "p \<notin> L" "p \<noteq> initproc"
  shows "table (set_proc p u s) L G"
proof -
  have same: "procs (set_proc p u s) q = procs s q" if "q \<in> insert initproc L" for q
    using p that by (auto simp: set_proc_def)
  have "home (set_proc p u s) L G = home s L G" by (rule home_cong) (use same in \<open>auto simp: set_proc_def\<close>)
  moreover have "proc0 \<in> L" using t by (simp add: table_def procs_ok_def)
  then have "procs_ok (set_proc p u s) L G"
    using tableD(2) [OF t] same unfolding procs_ok_def by (auto simp: inj_on_def)
  ultimately show ?thesis using t by (simp add: table_def groups_ok_def pool_ok_def set_proc_def)
qed

lemma proc_register_answered:
  assumes t: "table s L G"
  shows "answered (proc_register m s)"
  using t
proof (rule malloc_table)
  assume "malloc s = (0, s)"
  with t show ?thesis by (simp add: proc_register_def answeredI)
next
  fix p rest
  let ?s1 = "s\<lparr>pool := rest\<rparr>"
  let ?s2 = "set_proc p (\<lambda>_. zero_proc) ?s1"
  assume m: "malloc s = (p, ?s1)" "table ?s1 L G" "fresh p ?s1 L G" "p \<noteq> initproc"
  have p: "p \<notin> L" "p \<noteq> 0" using m(3) by (auto simp: fresh_def)
  have t2: "table ?s2 L G" by (rule table_outside [OF m(2) p(1) m(4)])
  have fr: "fresh p ?s2 L G" using m(3) by (simp add: fresh_def set_proc_def)
  from t2 show ?thesis
  proof (rule pid_assign_result)
    assume "pid_assign ?s2 = Some (0, ?s2)"
    then show ?thesis using m(1) p mfree_table [OF t2 fr m(4)] by (simp add: proc_register_def answeredI)
  next
    fix pid assume pid: "pid_assign ?s2 = Some (pid, ?s2\<lparr>last_pid := pid\<rparr>)" "1 \<le> pid" "pid < PID_MAX"
      "\<forall>p\<in>L. p_pid (procs ?s2 p) \<noteq> pid"
    let ?s3 = "?s2\<lparr>last_pid := pid\<rparr>"
    have "fresh p ?s3 L G" using fr by (simp add: fresh_def)
    then obtain s' where "newproc p pid (m_task m) ?s3 = Some s'" "table s' (insert p L) G"
      by (rule newproc_table [OF table_last_pid [OF t2 pid(2,3)], where pid = pid]) (use pid in auto)
    then show ?thesis using m(1) p pid(1,2) by (simp add: proc_register_def answeredI)
  qed
qed

lemma initproc_live: "table s L G \<Longrightarrow> initproc \<in> L \<longleftrightarrow> p_stat (procs s initproc) \<noteq> 0"
  by (auto simp: table_def procs_ok_def split: if_splits)

lemma proc_setinit_answered:
  assumes t: "table s L G" and i: "p_stat (procs s initproc) = SRUN \<or> p_stat (procs s initproc) = 0 \<and> proc_find 1 s = Some 0"
  shows "answered (proc_setinit m s)"
proof (cases "p_stat (procs s initproc) = SRUN")
  case True
  with t show ?thesis by (simp add: proc_setinit_def answeredI)
next
  case False
  with i have z: "p_stat (procs s initproc) = 0" "proc_find 1 s = Some 0" by auto
  have "initproc \<notin> L" using initproc_live [OF t] z(1) by blast
  then have fr: "fresh initproc s L G" using tableD(4) [OF t] by (auto simp: fresh_def pool_ok_def image_iff)
  have "\<forall>p\<in>L. p_pid (procs s p) \<noteq> 1"
    using t by (rule proc_find_table [where pid = 1]) (use z(2) table_nonzero(1) [OF t] in auto)
  then obtain s' where "newproc initproc 1 (m_task m) s = Some s'" "table s' (insert initproc L) G"
    using newproc_table [OF t fr, of 1 "m_task m"] by (auto simp: PID_MAX_def)
  with False show ?thesis by (simp add: proc_setinit_def answeredI)
qed

section \<open>The message loop\<close>

text \<open>
  What a client must not do: speak for the server itself, ask for a new group, fork as a zombie, exit
  before there is an init process, send a signal without being a process, or register init again.
\<close>

definition polite :: "pmsg \<Rightarrow> pstate \<Rightarrow> bool" where
  "polite m s =
     (case task_to_proc (m_task m) s of
        None \<Rightarrow> False
      | Some c \<Rightarrow>
          c \<noteq> proc0 \<and>
          (m_code m = PS_SETPGID \<longrightarrow> \<not> new_group m (s\<lparr>curproc := c\<rparr>)) \<and>
          (m_code m = PS_FORK \<longrightarrow> c = 0 \<or> p_stat (procs s c) \<noteq> SZOMB) \<and>
          (m_code m = PS_EXIT \<longrightarrow> p_stat (procs s initproc) \<noteq> 0) \<and>
          (m_code m = PS_KILL \<longrightarrow> c \<noteq> 0) \<and>
          (m_code m = PS_SETINIT \<longrightarrow> p_stat (procs s initproc) = SRUN \<or>
             p_stat (procs s initproc) = 0 \<and> proc_find 1 s = Some 0))"

lemma same_find:
  assumes "same_tables s s'"
  shows "proc_find pid s' = proc_find pid s" "pgrp_find pid s' = pgrp_find pid s"
    "task_to_proc task s' = task_to_proc task s"
  using assms by (simp_all add: same_tables_def proc_find_def pgrp_find_def task_to_proc_def lookup_def)

lemma same_new_group: "same_tables s s' \<Longrightarrow> new_group m s' = new_group m s"
  using same_find [of s s']
  by (simp add: new_group_def proc_or_self_def same_tables_def pgid_of_def split: option.splits)

text \<open>What the handlers assume of the state they run in.\<close>

definition ready :: "pmsg \<Rightarrow> pstate \<Rightarrow> nat set \<Rightarrow> bool" where
  "ready m s L =
     (caller s L \<and>
      (m_code m = PS_SETPGID \<longrightarrow> \<not> new_group m s) \<and>
      (m_code m = PS_FORK \<longrightarrow> curproc s = 0 \<or> p_stat (cur s) \<noteq> SZOMB) \<and>
      (m_code m = PS_EXIT \<longrightarrow> p_stat (procs s initproc) \<noteq> 0) \<and>
      (m_code m = PS_KILL \<longrightarrow> curproc s \<noteq> 0) \<and>
      (m_code m = PS_SETINIT \<longrightarrow> p_stat (procs s initproc) = SRUN \<or>
         p_stat (procs s initproc) = 0 \<and> proc_find 1 s = Some 0))"

lemma no_caller:
  assumes "table s L G" "curproc s = 0"
  shows "answered (proc_setpgid m s)" "answered (proc_setsid m s)" "answered (proc_fork K m s)" "answered (proc_exit K m s)"
    "answered (proc_stop K m s)" "answered (proc_waitpid m s)"
  using assms by (simp_all add: proc_setpgid_def proc_setsid_def proc_fork_def proc_exit_def proc_stop_def
      proc_waitpid_def answeredI)

lemma proc_waitpid_answered:
  assumes t: "table s L G" and c: "curproc s \<in> L" "curproc s \<noteq> proc0"
  shows "answered (proc_waitpid m s)"
  by (rule proc_waitpid_cases [OF t refl c, of m]) (auto intro: answeredI [OF t] answeredI split: if_splits)

lemma handlers_answered:
  assumes t: "table s L G" and r: "ready m s L" and f: "map_of (procmsg_map K) (m_code m) = Some func"
  shows "answered (func m s)"
proof -
  have c: "curproc s = 0 \<or> curproc s \<in> L \<and> curproc s \<noteq> proc0" using r by (simp add: ready_def caller_def)
  have "caller s L" using r by (simp add: ready_def)
  note get = getters_answered [OF t this]
  have "answered (proc_debug m s)" "answered (proc_shutdown m s)"
    using t by (simp_all add: proc_debug_def proc_shutdown_def answeredI)
  moreover have "m_code m = PS_SETPGID \<Longrightarrow> answered (proc_setpgid m s)"
    using c no_caller(1) [OF t] proc_setpgid_answered [OF t, of m] r by (auto simp: ready_def)
  moreover have "answered (proc_setsid m s)"
    using c no_caller(2) [OF t] proc_setsid_answered [OF t] by metis
  moreover have "m_code m = PS_FORK \<Longrightarrow> answered (proc_fork K m s)"
    using c no_caller(3) [OF t] proc_fork_answered [OF t] r by (auto simp: ready_def)
  moreover have "m_code m = PS_EXIT \<Longrightarrow> answered (proc_exit K m s)"
    using c no_caller(4) [OF t] proc_exit_answered [OF t] initproc_live [OF t] r by (auto simp: ready_def)
  moreover have "answered (proc_stop K m s)"
    using c no_caller(5) [OF t] proc_stop_answered [OF t] by metis
  moreover have "answered (proc_waitpid m s)"
    using c no_caller(6) [OF t] proc_waitpid_answered [OF t] by metis
  moreover have "m_code m = PS_KILL \<Longrightarrow> answered (proc_kill K m s)"
    using c proc_kill_answered [OF t] r by (auto simp: ready_def)
  moreover have "m_code m = PS_SETINIT \<Longrightarrow> answered (proc_setinit m s)"
    using proc_setinit_answered [OF t] r by (simp add: ready_def)
  ultimately show ?thesis
    using f get proc_exec_answered [OF t] proc_register_answered [OF t]
    by (auto simp: procmsg_map_def split: if_splits)
qed

lemma serve_answered:
  assumes t: "table s L G" and p: "polite m s"
  shows "answered (serve K m s)"
proof (cases "map_of (procmsg_map K) (m_code m)")
  case None
  with t show ?thesis by (simp add: serve_def answeredI)
next
  case (Some func)
  obtain c where c: "task_to_proc (m_task m) s = Some c" "c = 0 \<or> c \<in> L"
    using t by (rule task_to_proc_table [where task = "m_task m"]) blast+
  let ?s1 = "s\<lparr>curproc := c\<rparr>"
  have t1: "table ?s1 L G" by (rule table_curproc [OF t])
  have find: "proc_find 1 ?s1 = proc_find 1 s" by (simp add: proc_find_def lookup_def)
  have r1: "ready m ?s1 L" using p c find by (auto simp: polite_def ready_def caller_def cur_def)
  obtain e cap s2 where s2: "syscall K (K_getcap (m_task m)) ?s1 = ((e, cap), s2)" by (metis surj_pair)
  have same2: "same_tables ?s1 s2" using same_syscall(1) [of ?s1 K "K_getcap (m_task m)"] s2 by simp
  let ?s3 = "set_proc c (p_cap_update (\<lambda>_. word_of_int cap)) s2"
  have "same_tables s2 ?s3" by (rule same_set_proc) simp
  with same2 have same3: "same_tables ?s1 ?s3" by (rule same_trans)
  then have r3: "ready m ?s3 L"
    using r1 same_new_group [OF same3] same_find(1) [OF same3]
    by (simp add: ready_def caller_def cur_def same_tables_def)
  show ?thesis
  proof (cases "c = 0")
    case True
    then show ?thesis using handlers_answered [OF t1 r1 Some] Some c(1) by (simp add: serve_def)
  next
    case False
    then show ?thesis
      using handlers_answered [OF table_same [OF same3 t1] r3 Some] Some c(1) s2
        answeredI [OF table_same [OF same2 t1]] by (simp add: serve_def)
  qed
qed

lemma exception_handler_same:
  assumes t: "table s L G"
  obtains s' where "exception_handler K sig s = Some s'" "same_tables s s'"
proof -
  obtain e pid s1 where s1: "syscall K (K_getpgrp (ttydev s)) s = ((e, pid), s1)" by (metis surj_pair)
  have same1: "same_tables s s1" using same_syscall(1) [of s K "K_getpgrp (ttydev s)"] s1 by simp
  obtain e' s2 where s2: "kill_pg K pid sig s1 = Some (e', s2)" "same_tables s1 s2"
    by (rule kill_pg_result [OF table_same [OF same1 t]])
  have "\<exists>s3. tty_signal K sig s = Some s3 \<and> same_tables s s3"
    using s1 s2 same1 same_trans [OF same1 s2(2)] by (simp add: tty_signal_def)
  then obtain s3 where s3: "tty_signal K sig s = Some s3" "same_tables s s3" by blast
  let ?b = "sig \<in> {2, 3, 18, 21, 22, 29, 28, 23} \<and> ttydev s \<noteq> DEVICE_NULL"
  have "exception_handler K sig s = Some (kcall_do K K_return (if ?b then s3 else s))"
    using s3 by (simp add: exception_handler_def)
  moreover have "same_tables s (kcall_do K K_return (if ?b then s3 else s))"
    using same_trans [OF s3(2) same_syscall(2)] same_syscall(2) by simp
  ultimately show thesis by (rule that)
qed

end
