(* ===== verification/Proc_Props.thy ===== *)
theory Proc_Props
  imports Proc_Serve
begin

text \<open>
  What the process server promises to its clients: from its start on every polite request is answered with
  the tables in order, an exit status reaches the parent exactly once, and identifiers are unique. The last
  section shows what goes wrong outside these limits.
\<close>

section \<open>Start\<close>

text \<open>The storage before \<^verbatim>\<open>init\<close>: static data zero, the heap anything.\<close>

definition cold :: "pstate \<Rightarrow> bool" where
  "cold s =
     (last_pid s = 1 \<and> p_stat (procs s initproc) = 0 \<and> distinct (pool s) \<and>
      set (pool s) \<inter> {0, proc0, initproc, pgrp0, session0} = {})"

lemma table_init_frame:
  "procs (table_init s) = procs s" "pgrps (table_init s) = pgrps s" "sessions (table_init s) = sessions s"
  "last_pid (table_init s) = last_pid s" "pool (table_init s) = pool s"
proof -
  have "procs (fold (\<lambda>i s. linit (PgidHash i) (linit (TaskHash i) (linit (PidHash i) s))) xs s) = procs s \<and>
    pgrps (fold (\<lambda>i s. linit (PgidHash i) (linit (TaskHash i) (linit (PidHash i) s))) xs s) = pgrps s \<and>
    sessions (fold (\<lambda>i s. linit (PgidHash i) (linit (TaskHash i) (linit (PidHash i) s))) xs s) = sessions s \<and>
    last_pid (fold (\<lambda>i s. linit (PgidHash i) (linit (TaskHash i) (linit (PidHash i) s))) xs s) = last_pid s \<and>
    pool (fold (\<lambda>i s. linit (PgidHash i) (linit (TaskHash i) (linit (PidHash i) s))) xs s) = pool s" for xs
    by (induction xs arbitrary: s) (simp_all add: linit_def)
  then show "procs (table_init s) = procs s" "pgrps (table_init s) = pgrps s" "sessions (table_init s) = sessions s"
    "last_pid (table_init s) = last_pid s" "pool (table_init s) = pool s"
    by (simp_all add: table_init_def)
qed

lemma links_linit: "links (lists s) H Map.empty \<Longrightarrow> a \<noteq> Null \<Longrightarrow> a \<notin> H \<Longrightarrow> links (lists (linit a s)) (insert a H) Map.empty"
  using fam_init [of "lists s" H Map.empty a] by (auto simp: links_def linit_def)

lemma table_init_links:
  "links (lists (table_init s)) (PidHash ` {..<32} \<union> TaskHash ` {..<32} \<union> PgidHash ` {..<32}) Map.empty"
proof -
  have "links (lists (fold (\<lambda>i s. linit (PgidHash i) (linit (TaskHash i) (linit (PidHash i) s))) [0..<n] s))
      (PidHash ` {..<n} \<union> TaskHash ` {..<n} \<union> PgidHash ` {..<n}) Map.empty" for n
  proof (induction n)
    case 0
    have "fam_ok (lists s) {} Map.empty" by (auto simp: fam_ok_def fam_list_def lists_ok_def)
    then show ?case by (simp add: links_def)
  next
    case (Suc n)
    let ?s = "fold (\<lambda>i s. linit (PgidHash i) (linit (TaskHash i) (linit (PidHash i) s))) [0..<n] s"
    let ?H = "PidHash ` {..<n} \<union> TaskHash ` {..<n} \<union> PgidHash ` {..<n}"
    have "links (lists (linit (PgidHash n) (linit (TaskHash n) (linit (PidHash n) ?s))))
        (insert (PgidHash n) (insert (TaskHash n) (insert (PidHash n) ?H))) Map.empty"
      using Suc by (intro links_linit) auto
    moreover have "insert (PgidHash n) (insert (TaskHash n) (insert (PidHash n) ?H)) =
        PidHash ` {..<Suc n} \<union> TaskHash ` {..<Suc n} \<union> PgidHash ` {..<Suc n}"
      by (auto simp: lessThan_Suc)
    ultimately show ?case by simp
  qed
  from this [of 32] show ?thesis by (simp add: table_init_def)
qed

lemma tty_init_same: "same_tables s (tty_init K self s)" "lists (tty_init K self s) = lists s"
  by (auto simp: tty_init_def syscall_def kcall_do_def Let_def split_def same_tables_def)

lemma proc_init_table:
  assumes cold: "cold s0"
  obtains s where "proc_init K self s0 = Some s" "table s {proc0} {pgrp0}" "pool s = pool s0"
    "p_task (procs s proc0) = self"
proof -
  define s1 where "s1 = tty_init K self (s0\<lparr>curproc := proc0\<rparr>)"
  define s2 where "s2 = linit AllProc (table_init s1)"
  define s3 where "s3 = linit (PgMembers pgrp0) (set_pgrp pgrp0 (pg_pgid_update (\<lambda>_. 0)) s2)"
  let ?H0 = "PidHash ` {..<32} \<union> TaskHash ` {..<32} \<union> PgidHash ` {..<32}"
  have l2: "links (lists s2) (insert AllProc ?H0) Map.empty"
    unfolding s2_def by (rule links_linit [OF table_init_links]) auto
  have l3: "links (lists s3) (insert (PgMembers pgrp0) (insert AllProc ?H0)) Map.empty"
    unfolding s3_def by (rule links_linit) (use l2 in \<open>auto simp: set_pgrp_def\<close>)
  have s3f: "pg_pgid (pgrps s3 pgrp0) = 0" by (simp add: s3_def linit_def set_pgrp_def)
  let ?H3 = "insert (PgMembers pgrp0) (insert AllProc ?H0)"
  obtain h4 where h4: "link_in (PgidHash (IDHASH 0)) (PgLink pgrp0) s3 = Some (s3\<lparr>lists := h4\<rparr>)"
      "links h4 ?H3 [PgLink pgrp0 \<mapsto> PgidHash (IDHASH 0)]"
    by (rule link_in_links [OF l3, where a = "PgidHash (IDHASH 0)" and n = "PgLink pgrp0"]) auto
  let ?p0 = "procs s3 proc0\<lparr>p_pgrp := pgrp0, p_parent := 0, p_stat := SRUN, p_exitcode := 0,
                   p_vforked := 0, p_pid := 0, p_task := self\<rparr>"
  define s7 where "s7 = s3\<lparr>lists := h4, pgrps := (pgrps s3)(pgrp0 := pgrps s3 pgrp0\<lparr>pg_session := session0\<rparr>),
    sessions := (sessions s3)(session0 := \<lparr>s_refcnt = 1, s_leader = proc0, s_ttyhold = 0\<rparr>),
    procs := (procs s3)(proc0 := ?p0)\<rparr>"
  define s8 where "s8 = linit (PChildren proc0) s7"
  let ?m4 = "[PgLink pgrp0 \<mapsto> PgidHash (IDHASH 0)]" and ?H = "insert (PChildren proc0) ?H3"
  have "links (lists s7) ?H3 ?m4" using h4(2) by (simp add: s7_def)
  then obtain h8 where h8: "s8 = s7\<lparr>lists := h8\<rparr>" "links h8 ?H ?m4"
    unfolding s8_def by (rule linit_links [where a = "PChildren proc0"]) auto
  have "links (lists s8) ?H ?m4" using h8 by simp
  then obtain h9 where h9: "proc_add proc0 s8 = Some (s8\<lparr>lists := h9\<rparr>)"
      "links h9 ?H (?m4(PPidLink proc0 \<mapsto> PidHash (IDHASH 0), PTaskLink proc0 \<mapsto> TaskHash (IDHASH self)))"
    by (rule proc_add_links [where p = proc0]) (auto simp: h8 s7_def)
  let ?m9 = "?m4(PPidLink proc0 \<mapsto> PidHash (IDHASH 0), PTaskLink proc0 \<mapsto> TaskHash (IDHASH self))"
  have "links (lists (s8\<lparr>lists := h9\<rparr>)) ?H ?m9" using h9(2) by simp
  then obtain h10 where h10: "link_in (PgMembers pgrp0) (PPgrpLink proc0) (s8\<lparr>lists := h9\<rparr>) = Some (s8\<lparr>lists := h9\<rparr>\<lparr>lists := h10\<rparr>)"
      "links h10 ?H (?m9(PPgrpLink proc0 \<mapsto> PgMembers pgrp0))"
    by (rule link_in_links [where a = "PgMembers pgrp0" and n = "PPgrpLink proc0"]) auto
  let ?s = "s7\<lparr>lists := h10\<rparr>"
  have "proc_init K self s0 = Some ?s"
    unfolding proc_init_def s1_def [symmetric] Let_def s2_def [symmetric] s3_def [symmetric]
    using h4(1) h9(1) h10(1) s3f
    by (simp add: pgrp_add_def set_pgrp_def set_proc_def s7_def [symmetric] s8_def [symmetric] h8(1))
  moreover have same: "same_tables (s0\<lparr>curproc := proc0\<rparr>) s1" unfolding s1_def by (rule tty_init_same)
  have f: "p_stat (procs s3 initproc) = 0" "pool s3 = pool s0" "last_pid s3 = 1"
    using same cold by (auto simp: s3_def s2_def linit_def set_pgrp_def table_init_frame same_tables_def cold_def)
  have "table ?s {proc0} {pgrp0}"
  proof -
    have "home ?s {proc0} {pgrp0} n = (?m9(PPgrpLink proc0 \<mapsto> PgMembers pgrp0)) n" for n
      by (cases n) (auto simp: s7_def s3f)
    then have hm: "home ?s {proc0} {pgrp0} = ?m9(PPgrpLink proc0 \<mapsto> PgMembers pgrp0)" by (rule ext)
    have hd: "heads {proc0} {pgrp0} = ?H" by (auto simp: heads_def)
    have "procs_ok ?s {proc0} {pgrp0}" using f(1) by (simp add: procs_ok_def s7_def PID_MAX_def)
    moreover have "groups_ok ?s {pgrp0}"
      using f(2) cold by (simp add: groups_ok_def s7_def cold_def)
    moreover have "pool_ok ?s {proc0} {pgrp0}"
      using f(2,3) cold by (auto simp: pool_ok_def s7_def cold_def PID_MAX_def proc0_def pgrp0_def session0_def initproc_def)
    ultimately show ?thesis using h10(2) hm hd by (simp add: table_def)
  qed
  moreover have "pool ?s = pool s0" "p_task (procs ?s proc0) = self" using f(2) by (simp_all add: s7_def)
  ultimately show thesis by (rule that)
qed

section \<open>Lookup by identifier and by task\<close>

lemma pid_inj: "table s L G \<Longrightarrow> p \<in> L \<Longrightarrow> q \<in> L \<Longrightarrow> p_pid (procs s p) = p_pid (procs s q) \<Longrightarrow> p = q"
  by (rule inj_onD [of "\<lambda>p. p_pid (procs s p)" L]) (simp_all add: table_def procs_ok_def)

lemma proc_find_live:
  assumes t: "table s L G" and p: "p \<in> L"
  shows "proc_find (p_pid (procs s p)) s = Some p"
  using t
proof (rule proc_find_table [where pid = "p_pid (procs s p)"])
  fix q assume q: "q \<in> L" "p_pid (procs s q) = p_pid (procs s p)" "proc_find (p_pid (procs s p)) s = Some q"
  have "q = p" by (rule pid_inj [OF t q(1) p q(2)])
  with q(3) show ?thesis by simp
next
  assume "\<forall>q\<in>L. p_pid (procs s q) \<noteq> p_pid (procs s p)"
  with p show ?thesis by blast
qed

lemma pid_positive:
  assumes t: "table s L G" and p: "p \<in> L" "p \<noteq> proc0"
  shows "0 < p_pid (procs s p)"
proof -
  have ok: "procs_ok s L G" by (rule tableD(2) [OF t])
  have "p_pid (procs s p) \<noteq> p_pid (procs s proc0)"
    using ok p inj_onD [of "\<lambda>p. p_pid (procs s p)" L p proc0] by (auto simp: procs_ok_def)
  then show ?thesis using ok p by (auto simp: procs_ok_def order_less_le)
qed

section \<open>States the theorems apply to\<close>

definition quiet_kern :: kern where
  "quiet_kern cs c = (0, 0)"

definition demo_boot :: pstate where
  "demo_boot = \<lparr>lists = \<lparr>nxt = (\<lambda>_. Null), prv = (\<lambda>_. Null)\<rparr>, procs = (\<lambda>_. zero_proc),
     pgrps = (\<lambda>_. \<lparr>pg_session = 0, pg_pgid = 0\<rparr>), sessions = (\<lambda>_. \<lparr>s_refcnt = 0, s_leader = 0, s_ttyhold = 0\<rparr>),
     last_pid = 1, curproc = 0, pool = [0x3000, 0x3100, 0x3200, 0x3300], ttydev = 0, calls = []\<rparr>"

lemma demo_boot_cold: "cold demo_boot"
  by (simp add: cold_def demo_boot_def zero_proc_def proc0_def initproc_def pgrp0_def session0_def)

lemma newproc_fields:
  assumes "newproc p pid task s = Some s'"
  shows "procs s' = (procs s)(p := (procs s p)\<lparr>p_parent := proc0, p_pgrp := pgrp0, p_stat := SRUN,
                 p_exitcode := 0, p_vforked := 0, p_pid := pid, p_task := task\<rparr>)"
    and "pool s' = pool s" "last_pid s' = last_pid s" "pgrps s' = pgrps s"
  using assms
  by (auto simp: newproc_def proc_add_def link_in_def linit_def set_proc_def Let_def split: if_splits bind_splits)

text \<open>A table with init, a process and a child of that process, the child being the caller.\<close>

definition demo_child :: proc where
  "demo_child = \<lparr>p_parent = initproc, p_pgrp = pgrp0, p_stat = SRUN, p_exitcode = 0, p_vforked = 0, p_pid = 2,
     p_task = 30, p_cap = 0, p_stackbase = 0, p_stacksaved = 0\<rparr>"

lemma demo_init:
  obtains s where "table s {initproc, proc0} {pgrp0}" "pool s = pool demo_boot" "p_pid (procs s initproc) = 1"
    "p_stat (procs s initproc) = SRUN" "p_pid (procs s proc0) = 0"
proof -
  obtain s where s: "table s {proc0} {pgrp0}" "pool s = pool demo_boot"
    by (rule proc_init_table [OF demo_boot_cold, of quiet_kern 7])
  have fr: "fresh initproc s {proc0} {pgrp0}"
    using tableD(4) [OF s(1)] by (auto simp: fresh_def pool_ok_def)
  have pid0: "p_pid (procs s proc0) = 0" using s(1) by (simp add: table_def procs_ok_def)
  obtain s1 where s1: "newproc initproc 1 20 s = Some s1" "table s1 {initproc, proc0} {pgrp0}"
    by (rule newproc_table [OF s(1) fr, of 1 20]) (auto simp: pid0 PID_MAX_def)
  show thesis
    using that [of s1] s1(2) s(2) pid0 newproc_fields [OF s1(1)] by simp
qed

lemma demo_family:
  obtains s where "table s {0x3000, initproc, proc0} {pgrp0}" "curproc s = 0x3000" "p_stat (procs s 0x3000) = SRUN"
    "p_parent (procs s 0x3000) = initproc" "p_pid (procs s 0x3000) = 2"
proof -
  obtain s where s: "table s {initproc, proc0} {pgrp0}" "pool s = pool demo_boot" "p_pid (procs s initproc) = 1"
    "p_stat (procs s initproc) = SRUN" "p_pid (procs s proc0) = 0"
    by (rule demo_init)
  let ?s1 = "s\<lparr>pool := [0x3100, 0x3200, 0x3300]\<rparr>"
  have p: "table ?s1 {initproc, proc0} {pgrp0}" "fresh 0x3000 ?s1 {initproc, proc0} {pgrp0}" "0x3000 \<noteq> initproc"
    by (rule malloc_table [OF s(1)]; use s(2) in \<open>auto simp: demo_boot_def\<close>)+
  let ?s2 = "?s1\<lparr>procs := (procs ?s1)(0x3000 := demo_child)\<rparr>"
  obtain h3 h4 h5 h6 where "table (?s2\<lparr>lists := h6\<rparr>) {0x3000, initproc, proc0} {pgrp0}"
    by (rule fork_links [OF p(1,2), of demo_child])
      (use p(3) s in \<open>auto simp: demo_child_def PID_MAX_def\<close>)
  from table_curproc [OF this, of "0x3000"] show thesis
    by (intro that [of "?s2\<lparr>lists := h6, curproc := 0x3000\<rparr>"]) (simp_all add: demo_child_def)
qed

section \<open>The server answers\<close>

text \<open>The states of the server from its start on: it serves polite requests and takes signals of the terminal.\<close>

inductive serving :: "kern \<Rightarrow> int \<Rightarrow> pstate \<Rightarrow> pstate \<Rightarrow> bool" for K self s0 where
  start: "proc_init K self s0 = Some s \<Longrightarrow> serving K self s0 s"
| request: "serving K self s0 s \<Longrightarrow> polite m s \<Longrightarrow> serve K m s = Some (e, m', s') \<Longrightarrow> serving K self s0 s'"
| signal: "serving K self s0 s \<Longrightarrow> exception_handler K sig s = Some s' \<Longrightarrow> serving K self s0 s'"

lemma serving_table: "serving K self s0 s \<Longrightarrow> cold s0 \<Longrightarrow> \<exists>L G. table s L G"
proof (induction rule: serving.induct)
  case (start s)
  then show ?case using proc_init_table [of s0 K self] by (metis option.inject)
next
  case (request s m e m' s')
  then show ?case using serve_answered [of s _ _ m K] by (auto simp: answered_def)
next
  case (signal s sig s')
  then show ?case using exception_handler_same [of s _ _ K sig] table_same by (metis option.inject)
qed

text \<open>
  C3: The process server never hangs or faults on polite clients. In every state it can reach from its start
  by serving polite requests and taking terminal signals, whatever the kernel answers to its system calls, the tables
  of processes and groups are in order, every further polite request gets a reply and leaves them in
  order, and so does every signal.
\<close>

theorem proc_server_answers:
  assumes "cold s0" and "serving K self s0 s"
  shows "(\<exists>L G. table s L G) \<and>
    (\<forall>m. polite m s \<longrightarrow> (\<exists>e m' s'. serve K m s = Some (e, m', s') \<and> (\<exists>L G. table s' L G))) \<and>
    (\<forall>sig. \<exists>s' L G. exception_handler K sig s = Some s' \<and> table s' L G)"
proof -
  obtain L G where t: "table s L G" using serving_table [OF assms(2,1)] by blast
  have "\<exists>e m' s'. serve K m s = Some (e, m', s') \<and> (\<exists>L G. table s' L G)" if "polite m s" for m
    using serve_answered [OF t that, of K] unfolding answered_def by blast
  moreover have "\<exists>s' L G. exception_handler K sig s = Some s' \<and> table s' L G" for sig
    by (rule exception_handler_same [OF t, of K sig]) (use table_same [OF _ t] in blast)
  ultimately show ?thesis using t by blast
qed

theorem proc_server_answers_witness:
  "\<exists>s. serving quiet_kern 7 demo_boot s \<and> (\<exists>L G. table s L G) \<and>
     (\<exists>e m' s'. serve quiet_kern \<lparr>m_task = 9, m_code = PS_REGISTER, d0 = 0, d1 = 0, d2 = 0\<rparr> s = Some (e, m', s'))"
proof -
  obtain s where s: "proc_init quiet_kern 7 demo_boot = Some s" "table s {proc0} {pgrp0}" "p_task (procs s proc0) = 7"
    by (rule proc_init_table [OF demo_boot_cold])
  have v: "serving quiet_kern 7 demo_boot s" by (rule serving.start [OF s(1)])
  obtain c where c: "task_to_proc 9 s = Some c" "c = 0 \<or> c = proc0 \<and> p_task (procs s proc0) = 9"
    by (rule task_to_proc_table [OF s(2), of 9]) auto
  then have "polite \<lparr>m_task = 9, m_code = PS_REGISTER, d0 = 0, d1 = 0, d2 = 0\<rparr> s"
    using c s(3) by (simp add: polite_def)
  then show ?thesis using proc_server_answers [OF demo_boot_cold v] v by blast
qed

section \<open>Identifiers\<close>

text \<open>
  C21: \<open>pid_assign\<close> ends and returns an identifier between 1 and \<^verbatim>\<open>PID_MAX\<close> that no process has; it gives up only
  when every identifier but the last one assigned is in use.
\<close>

theorem pid_assign_spec:
  assumes "table s L G"
  shows "(\<exists>pid. pid_assign s = Some (pid, s\<lparr>last_pid := pid\<rparr>) \<and> 1 \<le> pid \<and> pid < PID_MAX \<and>
      (\<forall>p\<in>L. p_pid (procs s p) \<noteq> pid)) \<or>
    (pid_assign s = Some (0, s) \<and>
      (\<forall>pid. 1 \<le> pid \<and> pid < PID_MAX \<and> pid \<noteq> last_pid s \<longrightarrow> (\<exists>p\<in>L. p_pid (procs s p) = pid)))"
  by (rule pid_assign_result [OF assms]) blast+

theorem pid_assign_spec_witness:
  "\<exists>s. table s {proc0} {pgrp0} \<and> (\<exists>pid. pid_assign s = Some (pid, s\<lparr>last_pid := pid\<rparr>) \<and> 1 \<le> pid \<and> pid \<noteq> p_pid (procs s proc0))"
proof -
  obtain s where s: "table s {proc0} {pgrp0}" by (rule proc_init_table [OF demo_boot_cold])
  have "p_pid (procs s proc0) = 0" using s by (simp add: table_def procs_ok_def)
  then have "\<not> (\<forall>pid. 1 \<le> pid \<and> pid < PID_MAX \<and> pid \<noteq> last_pid s \<longrightarrow> (\<exists>p\<in>{proc0}. p_pid (procs s p) = pid))"
    by (auto simp: PID_MAX_def intro!: exI [of _ "if last_pid s = 1 then 2 else 1"] split: if_splits)
  then show ?thesis using pid_assign_spec [OF s] s by blast
qed

section \<open>Fork\<close>



section \<open>Exit and wait\<close>

text \<open>
  C10: The exit status reaches the parent, once. When a process exits and its parent then waits for it, the wait
  returns the identifier of the process and the code it exited with; after that no process has the
  identifier any more.
\<close>

theorem exit_wait_roundtrip:
  assumes t: "table s L G" and c: "curproc s = c" "c \<in> L" "c \<noteq> proc0" and i: "initproc \<in> L"
    and alive: "p_stat (procs s c) \<noteq> SZOMB" and pr: "p_parent (procs s c) \<noteq> proc0"
    and w: "d0 w = p_pid (procs s c)"
  shows "\<exists>s1 s2 w'. proc_exit K m s = Some (0, m, s1) \<and>
    proc_waitpid w (s1\<lparr>curproc := p_parent (procs s c)\<rparr>) = Some (0, w', s2) \<and>
    d0 w' = p_pid (procs s c) \<and> d1 w' = d0 m \<and> table s2 (L - {c}) G \<and> proc_find (p_pid (procs s c)) s2 = Some 0"
proof -
  obtain s1 where s1: "proc_exit K m s = Some (0, m, s1)" "table s1 L G"
    "p_stat (procs s1 c) = SZOMB" "p_exitcode (procs s1 c) = d0 m" "p_parent (procs s1 c) = p_parent (procs s c)"
    "\<forall>q. p_pid (procs s1 q) = p_pid (procs s q)"
    by (rule proc_exit_result [OF t c i alive])
  let ?pr = "p_parent (procs s c)" and ?pid = "p_pid (procs s c)"
  let ?s = "s1\<lparr>curproc := ?pr\<rparr>"
  have ts: "table ?s L G" by (rule table_curproc [OF s1(2)])
  have prL: "?pr \<in> L" using tableD(2) [OF t] c by (simp add: procs_ok_def)
  have pid: "0 < ?pid" by (rule pid_positive [OF t c(2,3)])
  have waits: "waited (d0 w) ?s c" using s1(3,6) w pid by (simp add: waited_def wait_match_def)
  have "?pr = curproc ?s" by simp
  from ts this [symmetric] prL pr show ?thesis
  proof (rule proc_waitpid_cases [where m = w])
    assume "\<forall>q\<in>L. q \<noteq> proc0 \<longrightarrow> p_parent (procs ?s q) \<noteq> ?pr"
    then show ?thesis using c s1(5) by simp
  next
    assume "\<forall>q\<in>L. q \<noteq> proc0 \<and> p_parent (procs ?s q) = ?pr \<longrightarrow> \<not> waited (d0 w) ?s q"
    then show ?thesis using c s1(5) waits by simp
  next
    fix q s2 assume q: "q \<in> L" "waited (d0 w) ?s q"
      "proc_waitpid w ?s = Some (0, w\<lparr>d0 := p_pid (procs ?s q), d1 := p_exitcode (procs ?s q)\<rparr>, s2)"
      "if p_stat (procs ?s q) = SSTOP then s2 = ?s else table s2 (L - {q}) G \<and> procs s2 = procs ?s"
    have "p_pid (procs s1 q) = p_pid (procs s1 c)" using q(2) w pid s1(6) by (simp add: waited_def wait_match_def)
    then have qc: "q = c" by (rule pid_inj [OF s1(2) q(1) c(2)])
    then have t2: "table s2 (L - {c}) G" "procs s2 = procs s1" using q(4) s1(3) by auto
    have nf: "\<forall>p\<in>L - {c}. p_pid (procs s2 p) \<noteq> ?pid"
      using pid_inj [OF t _ c(2)] s1(6) t2(2) by auto
    from t2(1) have "proc_find ?pid s2 = Some 0"
      by (rule proc_find_table [where pid = ?pid]) (use nf in auto)
    then show ?thesis using s1(1,4,6) q(3) qc t2(1) by auto
  qed
qed

theorem exit_wait_roundtrip_witness:
  "\<exists>s s1 s2 w'. curproc s = 0x3000 \<and> p_pid (procs s 0x3000) = 2 \<and>
     proc_exit quiet_kern \<lparr>m_task = 30, m_code = PS_EXIT, d0 = 5, d1 = 0, d2 = 0\<rparr> s =
       Some (0, \<lparr>m_task = 30, m_code = PS_EXIT, d0 = 5, d1 = 0, d2 = 0\<rparr>, s1) \<and>
     proc_waitpid \<lparr>m_task = 20, m_code = PS_WAITPID, d0 = 2, d1 = 0, d2 = 0\<rparr> (s1\<lparr>curproc := initproc\<rparr>) = Some (0, w', s2) \<and>
     d0 w' = 2 \<and> d1 w' = 5 \<and> proc_find 2 s2 = Some 0"
proof -
  obtain s where s: "table s {0x3000, initproc, proc0} {pgrp0}" "curproc s = 0x3000" "p_stat (procs s 0x3000) = SRUN"
    "p_parent (procs s 0x3000) = initproc" "p_pid (procs s 0x3000) = 2"
    by (rule demo_family)
  have "0x3000 \<noteq> proc0" by (simp add: proc0_def)
  with exit_wait_roundtrip [OF s(1,2), of "\<lparr>m_task = 20, m_code = PS_WAITPID, d0 = 2, d1 = 0, d2 = 0\<rparr>" quiet_kern
      "\<lparr>m_task = 30, m_code = PS_EXIT, d0 = 5, d1 = 0, d2 = 0\<rparr>"] s
  show ?thesis by simp blast
qed

section \<open>Outside the limits\<close>

text \<open>
  A process that creates a group is linked into it without being unlinked from its old group: the links of
  the old group no longer form a list. The case shown is that of the newest member, the first on the list.
\<close>

lemma setpgid_breaks_group:
  assumes t: "table s L G" and p: "curproc s = p" "p \<in> L" and m: "d0 m = 0" "new_group m s"
    and pool: "pool s = g # rest" and first: "nxt (lists s) (PgMembers (p_pgrp (procs s p))) = PPgrpLink p"
  shows "\<exists>s'. proc_setpgid m s = Some (0, m, s') \<and> (\<forall>xs. \<not> is_queue (lists s') (PgMembers (p_pgrp (procs s p))) xs)"
proof -
  define pgid where "pgid = (if d1 m = 0 then p_pid (procs s p) else d1 m)"
  let ?old = "p_pgrp (procs s p)"
  have p0: "p \<noteq> 0" "?old \<in> G" using table_cur [OF t p(2)] by auto
  have g: "g \<noteq> 0" "?old \<noteq> g" using tableD(4) [OF t] pool p0(2) by (auto simp: pool_ok_def)
  have ng: "0 \<le> d1 m" "pgid_of p s \<noteq> pgid" "pgrp_find pgid s = Some 0"
    using m p p0 by (auto simp: new_group_def proc_or_self_def pgid_def Let_def)
  have nn: "nxt (lists s) (PgidHash (IDHASH pgid)) \<noteq> Null"
    using links_nonnull(1) [OF tableD(1) [OF t]] by simp
  let ?h1 = "list_insert (PgidHash (IDHASH pgid)) (PgLink g) (queue_init (PgMembers g) (lists s))"
  let ?h = "list_insert (PgMembers g) (PPgrpLink p) ?h1"
  have nx: "nxt ?h1 (PgMembers g) = PgMembers g"
    by (simp add: queue_op_defs queue_init_def)
  have "\<exists>s'. proc_setpgid m s = Some (0, m, s') \<and> lists s' = ?h"
    using p p0 g ng nn nx pool m
    by (simp add: proc_setpgid_def proc_or_self_def pgid_def [symmetric] malloc_def pgrp_add_def link_in_def linit_def
        set_pgrp_def set_proc_def queue_init_def set_nxt_def set_prv_def)
  moreover have "nxt ?h (PgMembers ?old) = PPgrpLink p" "prv ?h (PPgrpLink p) = PgMembers g"
    using first g nx by (simp_all add: list_insert_def [of "PgMembers g"] set_nxt_def set_prv_def Let_def)
      (simp add: queue_op_defs queue_init_def)
  then have "\<not> is_queue ?h (PgMembers ?old) xs" for xs
    using g by (cases xs) (auto simp: is_queue_def)
  ultimately show ?thesis by metis
qed

text \<open>
  A group is signalled through the wrong link: what is taken for the structure of a member begins 44 bytes
  into it, so that its identifier and its task are read from beyond its end (the structure has 88 bytes,
  \<^verbatim>\<open>p_pid\<close> the offset 68).
\<close>

lemma kill_pg_wrong_entry: "list_entry (PPgrpLink p) P_LINK = p + 44"
  by (simp add: list_entry_def offset_defs)

text \<open>The identifier 0 stands for the group of the server in \<open>proc_kill\<close>, not for that of the caller.\<close>

lemma kill_zero_server_group:
  assumes t: "table s L G" and c: "curproc s \<in> L" and m: "d0 m = 0" "d1 m \<notin> {8, 4, 11}"
  shows "proc_kill K m s = do { (e, s1) \<leftarrow> kill_pg K (pgid_of proc0 s) (d1 m) s; Some (e, m, s1) }"
proof -
  have "proc0 \<in> L" "p_pid (procs s proc0) = 0" using t by (simp_all add: table_def procs_ok_def)
  with proc_find_live [OF t, of proc0] have "proc_find 0 s = Some proc0" by simp
  moreover have "curproc s \<noteq> 0" using table_cur [OF t c] by blast
  ultimately show ?thesis using m by (simp add: proc_kill_def deref_def Let_def)
qed

end
