(* ===== verification/Spec2Isabelle.thy ===== *)
theory Spec2Isabelle
  imports Kmem Semaphore Cond Rights Device_Refs Boot Suspend Proc_Props
begin

text \<open>
  A verification development for Prex, a microkernel operating system: the kernel core in the configuration
  \<^verbatim>\<open>conf/i386/config.pc\<close> (one processor, an MMU, no \<^verbatim>\<open>DEBUG\<close>) and the process server that runs on it.

  \<^bold>\<open>Parts and how they interact.\<close> The kernel manages memory (pages, page tables, address spaces, small
  blocks), runs threads (scheduler, timers, interrupts), and offers tasks, messages between
  objects, semaphores, mutexes, condition variables, devices and exceptions as system calls. The scheduler is called by
  every part that blocks or wakes; every system call brackets its work with the scheduler lock, and dropping the last lock is where
  threads are switched. The process server is a user program: it turns tasks into processes with identifiers, groups and exit
  codes, by messages from clients and system calls to the kernel.

  \<^bold>\<open>Shared foundations.\<close>
  \<^item> \<open>Prelude\<close>: scalar types, error numbers, collections of rewrite rules, lemmas on lists.
  \<^item> \<open>Queue\<close> (\<^verbatim>\<open>sys/lib/queue.c\<close>, \<^verbatim>\<open>include/sys/list.h\<close>): circular linked queues on a pointer heap, refined to lists; the
    interface is the locale \<open>queue_iface\<close>, interpreted as \<open>lq\<close>. The kernel theories use lists in place of queues on the strength of it.
  \<^item> \<open>Linked_Lists\<close>: families of such lists, with the walks over them (locale \<open>list_family\<close>, interpreted as \<open>fam\<close>).

  \<^bold>\<open>Memory.\<close>
  \<^item> \<open>Pages\<close> (\<^verbatim>\<open>sys/mem/page.c\<close>, \<^verbatim>\<open>kpage.c\<close>): the free lists of pages. An allocation takes a free aligned block and nothing else, freeing
    undoes it, and live allocations never overlap.
  \<^item> \<open>Mmu\<close> (\<^verbatim>\<open>sys/arch/i386/i386/mmu.c\<close>): two-level page tables; mapping translates exactly the pages asked for.
  \<^item> \<open>Vm\<close>, \<open>Vm_Inv\<close> (\<^verbatim>\<open>sys/mem/vm.c\<close>): regions and address spaces; the regions tile the user addresses, and allocation, freeing, attributes
    and mapping keep this.
  \<^item> \<open>Kmem\<close> (\<^verbatim>\<open>sys/mem/kmem.c\<close>): the kernel allocator; its contract is the locale \<open>allocator\<close>, interpreted as \<open>km\<close>.
  \<^item> \<open>Umem\<close> (\<^verbatim>\<open>umem_copyin\<close> and others of \<^verbatim>\<open>locore.S\<close>): user memory through the page tables of the running task.

  \<^bold>\<open>Scheduling and time.\<close>
  \<^item> \<open>Kernel_State\<close>: a record for each C structure and \<open>kstate\<close> for the variables of the kernel; objects live in stores indexed by address.
  \<^item> \<open>Sched\<close> (\<^verbatim>\<open>sys/kern/sched.c\<close>), \<open>Sched_Inv\<close>, \<open>Sched_Frame\<close>, \<open>Sched_Props\<close>: the scheduler, its invariant, what it leaves alone, and what it
    promises: the best ready thread runs, sleeping and waking do what their callers rely on.
  \<^item> \<open>Timer\<close> (\<^verbatim>\<open>sys/kern/timer.c\<close>): timers fire at their tick, across the wrap of the tick counter.
  \<^item> \<open>Irq\<close> (\<^verbatim>\<open>sys/kern/irq.c\<close>, \<^verbatim>\<open>sys/arch/i386/pc/interrupt.c\<close>, \<^verbatim>\<open>clock.c\<close>): nesting of interrupts is bounded and no request to a service
    thread is lost.

  \<^bold>\<open>Tasks and system calls.\<close>
  \<^item> \<open>Access\<close>: tests of rights, and frame lemmas for critical sections (\<open>quiet\<close>).
  \<^item> \<open>Semaphore\<close>, \<open>Mutex\<close>, \<open>Cond\<close> (\<^verbatim>\<open>sys/sync\<close>): conservation of units, priority inheritance, no lost wake-up.
  \<^item> \<open>Message\<close>, \<open>Object\<close>, \<open>Clib\<close> (\<^verbatim>\<open>sys/ipc\<close>, \<^verbatim>\<open>sys/lib\<close>): messages are delivered byte for byte to the best receiver under the name of their sender.
  \<^item> \<open>Context\<close>, \<open>Exception\<close>, \<open>Deliver\<close> (\<^verbatim>\<open>context.c\<close>, \<^verbatim>\<open>sys/kern/exception.c\<close>, \<^verbatim>\<open>trap.c\<close>): exceptions are delivered and return to the interrupted
    registers.
  \<^item> \<open>Thread\<close>, \<open>Thread_Links\<close>, \<open>Suspend\<close>, \<open>Task\<close>, \<open>Device\<close>, \<open>Device_Refs\<close>, \<open>System\<close> (\<^verbatim>\<open>sys/kern\<close>): threads, tasks, devices and information calls; the
    links between tasks, threads and their memory, suspension counts, and reference counts of devices.
  \<^item> \<open>Rights\<close>: every call on another task without the right is refused without effect.
  \<^item> \<open>Boot\<close>: the start of the kernel establishes the invariants. \<open>Example_State\<close> is a state in which hypotheses are seen to hold.

  \<^bold>\<open>Process server\<close> (\<^verbatim>\<open>usr/server/proc\<close>): \<open>Proc\<close> has the structures, every request handler and the message loop on the links in memory;
  \<open>Proc_Inv\<close> and \<open>Proc_Serve\<close> say when the tables are in order (\<open>table\<close>) and that every request of a client within limits (\<open>polite\<close>) is answered and
  keeps them so; \<open>Proc_Props\<close> has the promises to clients and, in its last section, what fails outside the limits.

  \<^bold>\<open>How state and effects correspond.\<close> A C structure is a record, a pointer an address into a store (\<open>None\<close> or 0 is \<^verbatim>\<open>NULL\<close>), a machine
  word a \<^verbatim>\<open>32 word\<close> where it can wrap. A system call that may block is cut at the switch: one definition runs up to the sleep, another from
  the wake-up on, and theorems about interleavings are over sequences of such steps. Error returns are numbers, panics and endless loops are
  results of their own. Drivers, interrupt handlers, hooks and, for the process server, the answers of the kernel are arguments of the definitions.

  \<^bold>\<open>Bounds and fuel.\<close> The loops of the kernel with fuel have a lemma that the fuel given suffices: the rescheduling loop, given two
  rounds, needs one, and the timer loop ends after as many rounds as timers have expired; the chain of mutex owners is cut at \<^verbatim>\<open>MAXINHERIT\<close> by the code itself. Walks over the links of the process
  server use \<^verbatim>\<open>partial_function\<close>; that they return is part of what is proved.

  \<^bold>\<open>Not modelled.\<close> Printing and debugging code, which has no state; \<^verbatim>\<open>sys/mem/vm_nommu.c\<close> and the ARM port, which belong to other configurations; the set-up of
  descriptor tables and the console, and flushes of the translation buffer, which have no state beyond the hardware; the boot loader; the drivers under \<^verbatim>\<open>dev\<close>, which
  are arguments; the other servers, libraries, commands and tests under \<^verbatim>\<open>usr\<close>, which are programs over the system calls. A terminal signal is taken by the
  process server between two requests; one that arrives inside a handler is not modelled.
\<close>

end
